(* ===== verification/Prelude.thy ===== *)
theory Prelude
  imports Main "HOL-Library.Sublist" "HOL-Library.Word" "HOL-Library.Multiset" "HOL-Library.AList"
    "HOL-Library.Monad_Syntax"
begin

text \<open>
  What every component shares: Go's scalar types as they are used here, the functions of
  Go's \<open>strings\<close>, \<open>strconv\<close> and \<open>sort\<close> packages the program calls, and the lemma
  collections of the development.

  A Go string is a sequence of bytes, and so is a HOL \<open>string\<close> (a list of 8-bit
  characters). The functions that Go defines on Unicode text (\<open>strings.ToLower\<close>,
  \<open>strings.TrimSpace\<close>, \<open>strings.EqualFold\<close>, \<open>unicode.IsSpace\<close>) are modelled on the
  ASCII range; a byte from 128 on is kept as it is.

  A \<open>time.Time\<close> is the number of nanoseconds since Go's zero time, so \<open>IsZero\<close> is
  equality with 0 and \<open>Before\<close> is \<open><\<close>; \<open>Time.Sub\<close> saturates at the bounds of a
  64-bit \<open>time.Duration\<close>.
\<close>

named_theorems go_defs \<open>unfolding rules of the Go library functions\<close>
named_theorems step_defs \<open>unfolding rules of the operations of the components\<close>

type_synonym gotime = int
type_synonym duration = int

definition time_is_zero :: "gotime \<Rightarrow> bool" where
  "time_is_zero t \<longleftrightarrow> t = 0"

definition time_sub :: "gotime \<Rightarrow> gotime \<Rightarrow> duration" where
  "time_sub a b = max (- (2 ^ 63)) (min (2 ^ 63 - 1) (a - b))"

definition second :: duration where "second = 1000000000"
definition minute :: duration where "minute = 60 * second"
definition hour :: duration where "hour = 60 * minute"

lemmas duration_defs = second_def minute_def hour_def

section \<open>Errors\<close>

text \<open>
  A Go function that returns \<open>(T, error)\<close> returns \<open>error + 'a\<close>: \<open>Inl\<close> the error text,
  \<open>Inr\<close> the value.
\<close>

type_synonym goerror = string
type_synonym 'a result = "goerror + 'a"

fun is_ok :: "'a result \<Rightarrow> bool" where
  "is_ok (Inl _) = False"
| "is_ok (Inr _) = True"

section \<open>Bytes and strings\<close>

definition byte :: "char \<Rightarrow> nat" where
  "byte c = of_char c"

definition is_upper :: "char \<Rightarrow> bool" where
  "is_upper c \<longleftrightarrow> 65 \<le> byte c \<and> byte c \<le> 90"

definition is_lower :: "char \<Rightarrow> bool" where
  "is_lower c \<longleftrightarrow> 97 \<le> byte c \<and> byte c \<le> 122"

definition is_digit :: "char \<Rightarrow> bool" where
  "is_digit c \<longleftrightarrow> 48 \<le> byte c \<and> byte c \<le> 57"

definition lower_char :: "char \<Rightarrow> char" where
  "lower_char c = (if is_upper c then char_of (byte c + 32) else c)"

definition upper_char :: "char \<Rightarrow> char" where
  "upper_char c = (if is_lower c then char_of (byte c - 32) else c)"

definition is_space :: "char \<Rightarrow> bool" where
  "is_space c \<longleftrightarrow> byte c \<in> {9, 10, 11, 12, 13, 32}"

definition to_lower :: "string \<Rightarrow> string" where
  "to_lower s = map lower_char s"

definition to_upper :: "string \<Rightarrow> string" where
  "to_upper s = map upper_char s"

definition equal_fold :: "string \<Rightarrow> string \<Rightarrow> bool" where
  "equal_fold s t \<longleftrightarrow> to_lower s = to_lower t"

definition trim_left :: "(char \<Rightarrow> bool) \<Rightarrow> string \<Rightarrow> string" where
  "trim_left p s = dropWhile p s"

definition trim_right :: "(char \<Rightarrow> bool) \<Rightarrow> string \<Rightarrow> string" where
  "trim_right p s = rev (dropWhile p (rev s))"

definition trim_by :: "(char \<Rightarrow> bool) \<Rightarrow> string \<Rightarrow> string" where
  "trim_by p s = trim_right p (trim_left p s)"

definition trim_space :: "string \<Rightarrow> string" where
  "trim_space s = trim_by is_space s"

definition has_prefix :: "string \<Rightarrow> string \<Rightarrow> bool" where
  "has_prefix s p \<longleftrightarrow> take (length p) s = p"

definition has_suffix :: "string \<Rightarrow> string \<Rightarrow> bool" where
  "has_suffix s p \<longleftrightarrow> has_prefix (rev s) (rev p)"

fun contains_str :: "string \<Rightarrow> string \<Rightarrow> bool" where
  "contains_str [] p = (p = [])"
| "contains_str (c # s) p = (has_prefix (c # s) p \<or> contains_str s p)"

text \<open>\<open>strings.Index\<close>: the first position where the pattern starts, if any.\<close>

fun index_str :: "string \<Rightarrow> string \<Rightarrow> nat option" where
  "index_str [] p = (if p = [] then Some 0 else None)"
| "index_str (c # s) p =
     (if has_prefix (c # s) p then Some 0 else map_option Suc (index_str s p))"

fun index_byte :: "(char \<Rightarrow> bool) \<Rightarrow> string \<Rightarrow> nat option" where
  "index_byte q [] = None"
| "index_byte q (c # s) = (if q c then Some 0 else map_option Suc (index_byte q s))"

definition last_index_byte :: "(char \<Rightarrow> bool) \<Rightarrow> string \<Rightarrow> nat option" where
  "last_index_byte q s = map_option (\<lambda>i. length s - 1 - i) (index_byte q (rev s))"

lemma index_str_bound: "index_str s p = Some i \<Longrightarrow> i + length p \<le> length s"
  by (induction s arbitrary: i)
     (auto simp: has_prefix_def split: if_splits dest!: arg_cong [of "take _ _" _ length])

text \<open>\<open>strings.Count\<close> for a non-empty pattern: non-overlapping occurrences.\<close>

function count_str :: "string \<Rightarrow> string \<Rightarrow> nat" where
  "count_str s p =
     (if p = [] then Suc (length s)
      else case index_str s p of None \<Rightarrow> 0
           | Some i \<Rightarrow> Suc (count_str (drop (i + length p) s) p))"
  by pat_completeness auto

termination
  by (relation "measure (\<lambda>(s, p). length s)")
     (auto dest!: index_str_bound intro: diff_less simp: length_greater_0_conv [symmetric] simp del: length_greater_0_conv)

declare count_str.simps [simp del]

text \<open>\<open>strings.Split\<close> with a one-byte separator, and \<open>strings.Join\<close>.\<close>

fun split_on :: "char \<Rightarrow> string \<Rightarrow> string list" where
  "split_on c [] = [[]]"
| "split_on c (x # xs) =
     (if x = c then [] # split_on c xs
      else case split_on c xs of [] \<Rightarrow> [[x]] | w # ws \<Rightarrow> (x # w) # ws)"

fun join :: "string \<Rightarrow> string list \<Rightarrow> string" where
  "join sep [] = []"
| "join sep [w] = w"
| "join sep (w # v # ws) = w @ sep @ join sep (v # ws)"

text \<open>\<open>strings.FieldsFunc\<close> with the predicate \<open>p\<close>: the maximal non-empty runs outside it.\<close>

definition fields_func :: "char \<Rightarrow> string \<Rightarrow> string list" where
  "fields_func c s = filter (\<lambda>w. w \<noteq> []) (split_on c s)"

text \<open>\<open>strings.ReplaceAll\<close> for a one-byte pattern.\<close>

definition replace_byte :: "char \<Rightarrow> string \<Rightarrow> string \<Rightarrow> string" where
  "replace_byte c r s = concat (map (\<lambda>x. if x = c then r else [x]) s)"

text \<open>Decimal printing, \<open>%d\<close> and \<open>strconv.Itoa\<close>.\<close>

fun nat_dec :: "nat \<Rightarrow> string" where
  "nat_dec n = (if n < 10 then [char_of (48 + n)] else nat_dec (n div 10) @ [char_of (48 + n mod 10)])"

declare nat_dec.simps [simp del]

definition itoa :: "int \<Rightarrow> string" where
  "itoa i = (if i < 0 then ''-'' @ nat_dec (nat (- i)) else nat_dec (nat i))"

text \<open>The verb \<open>%q\<close>, for text without control characters.\<close>

definition go_quote :: "string \<Rightarrow> string" where
  "go_quote s = [CHR 0x22] @ concat (map (\<lambda>c. if c = CHR 0x22 \<or> c = CHR 0x5C then [CHR 0x5C, c] else [c]) s) @ [CHR 0x22]"

text \<open>Go's \<open>/\<close> on integers truncates towards zero.\<close>

definition go_div :: "int \<Rightarrow> int \<Rightarrow> int" where
  "go_div a b = sgn a * sgn b * (\<bar>a\<bar> div \<bar>b\<bar>)"

lemmas [go_defs] =
  byte_def is_upper_def is_lower_def is_digit_def lower_char_def upper_char_def is_space_def
  to_lower_def to_upper_def equal_fold_def trim_left_def trim_right_def trim_by_def trim_space_def
  has_prefix_def has_suffix_def last_index_byte_def fields_func_def replace_byte_def itoa_def
  go_div_def time_is_zero_def time_sub_def

section \<open>Lemmas on strings\<close>

lemma has_prefix_append [simp]: "has_prefix (p @ s) p"
  by (simp add: has_prefix_def)

lemma has_prefix_iff: "has_prefix s p \<longleftrightarrow> (\<exists>r. s = p @ r)"
  by (auto simp: has_prefix_def) (metis append_take_drop_id)

lemma has_prefix_prefix: "has_prefix s p \<longleftrightarrow> prefix p s"
  by (simp add: has_prefix_iff prefix_def)

lemma has_suffix_suffix: "has_suffix s p \<longleftrightarrow> suffix p s"
  by (simp add: has_suffix_def has_prefix_prefix suffix_to_prefix)

lemma has_suffix_iff: "has_suffix s p \<longleftrightarrow> (\<exists>r. s = r @ p)"
  by (simp add: has_suffix_suffix suffix_def)

lemma contains_str_sublist: "contains_str s p \<longleftrightarrow> sublist p s"
  by (induction s) (auto simp: has_prefix_prefix sublist_Cons_right)

lemma length_to_lower [simp]: "length (to_lower s) = length s"
  by (simp add: to_lower_def)

lemma to_lower_append [simp]: "to_lower (s @ t) = to_lower s @ to_lower t"
  by (simp add: to_lower_def)

lemma byte_lt: "byte c < 256"
  by (cases c) (simp add: byte_def split: bool.splits)

lemma lower_char_idem [simp]: "lower_char (lower_char c) = lower_char c"
  using byte_lt [of c] by (auto simp: lower_char_def is_upper_def byte_def)

lemma to_lower_idem [simp]: "to_lower (to_lower s) = to_lower s"
  by (simp add: to_lower_def)

lemma trim_left_shorter: "length (trim_left p s) \<le> length s"
  by (simp add: trim_left_def length_dropWhile_le)

lemma split_on_nonempty [simp]: "split_on c s \<noteq> []"
  by (induction s) (auto split: list.splits)

lemma index_byte_Some:
  "index_byte q s = Some i \<Longrightarrow> i < length s \<and> q (s ! i) \<and> (\<forall>j < i. \<not> q (s ! j))"
  by (induction s arbitrary: i) (auto split: if_splits simp: nth_Cons less_Suc_eq_0_disj split: nat.splits)

lemma index_byte_None: "index_byte q s = None \<longleftrightarrow> (\<forall>c \<in> set s. \<not> q c)"
  by (induction s) auto

lemma join_split_on: "join [c] (split_on c s) = s"
proof (induction s)
  case (Cons x xs)
  then show ?case
    by (cases "split_on c xs"; cases "tl (split_on c xs)") (auto split: list.splits)
qed simp

lemma split_on_no_sep: "w \<in> set (split_on c s) \<Longrightarrow> c \<notin> set w"
proof (induction s arbitrary: w)
  case (Cons x xs)
  then show ?case
    by (auto split: list.splits if_splits)
qed simp

section \<open>Lemmas on lists\<close>

lemma length_filter_count: "length (filter P xs) \<le> length xs"
  by simp

definition list_swap :: "'a list \<Rightarrow> nat \<Rightarrow> nat \<Rightarrow> 'a list" where
  "list_swap xs i j = xs[i := xs ! j, j := xs ! i]"

lemma length_list_swap [simp]: "length (list_swap xs i j) = length xs"
  by (simp add: list_swap_def)

lemma mset_list_swap [simp]:
  "i < length xs \<Longrightarrow> j < length xs \<Longrightarrow> mset (list_swap xs i j) = mset xs"
  by (simp add: list_swap_def mset_swap)

lemma nth_list_swap:
  "i < length xs \<Longrightarrow> j < length xs \<Longrightarrow> k < length xs \<Longrightarrow>
   list_swap xs i j ! k = (if k = j then xs ! i else if k = i then xs ! j else xs ! k)"
  by (simp add: list_swap_def nth_list_update)

section \<open>Go maps\<close>

text \<open>
  A Go map is \<open>nil\<close> (\<open>None\<close>) or a table of keys and values, here an association list with
  distinct keys whose order stands for the order in which \<open>range\<close> visits it; Go leaves that
  order open, and no theorem below depends on it. Reading a nil map finds nothing; writing to
  one panics, and a panic is the result \<open>None\<close> of the operation.
\<close>

type_synonym ('k, 'v) gomap = "('k \<times> 'v) list option"

definition gm_make :: "('k, 'v) gomap" where
  "gm_make = Some []"

definition gm_get :: "('k, 'v) gomap \<Rightarrow> 'k \<Rightarrow> 'v option" where
  "gm_get m k = (case m of None \<Rightarrow> None | Some al \<Rightarrow> map_of al k)"

definition gm_put :: "('k, 'v) gomap \<Rightarrow> 'k \<Rightarrow> 'v \<Rightarrow> ('k, 'v) gomap option" where
  "gm_put m k v = (case m of None \<Rightarrow> None | Some al \<Rightarrow> Some (Some (AList.update k v al)))"

definition gm_delete :: "('k, 'v) gomap \<Rightarrow> 'k \<Rightarrow> ('k, 'v) gomap" where
  "gm_delete m k = map_option (AList.delete k) m"

definition gm_items :: "('k, 'v) gomap \<Rightarrow> ('k \<times> 'v) list" where
  "gm_items m = (case m of None \<Rightarrow> [] | Some al \<Rightarrow> al)"

definition gm_keys :: "('k, 'v) gomap \<Rightarrow> 'k list" where
  "gm_keys m = map fst (gm_items m)"

definition gm_len :: "('k, 'v) gomap \<Rightarrow> int" where
  "gm_len m = int (length (gm_items m))"

definition gm_ok :: "('k, 'v) gomap \<Rightarrow> bool" where
  "gm_ok m \<longleftrightarrow> distinct (gm_keys m)"

lemma gm_get_make [simp]: "gm_get gm_make k = None"
  by (simp add: gm_get_def gm_make_def)

lemma gm_get_nil [simp]: "gm_get None k = None"
  by (simp add: gm_get_def)

lemma gm_put_make [simp]: "gm_put gm_make k v = Some (Some [(k, v)])"
  by (simp add: gm_put_def gm_make_def)

lemma gm_get_put:
  "gm_put m k v = Some m' \<Longrightarrow> gm_get m' k' = (if k' = k then Some v else gm_get m k')"
  by (auto simp: gm_put_def gm_get_def update_conv split: option.splits)

lemma gm_put_Some [simp]: "m \<noteq> None \<Longrightarrow> \<exists>m'. gm_put m k v = Some m' \<and> m' \<noteq> None"
  by (auto simp: gm_put_def)

lemma gm_putE:
  assumes "m \<noteq> None" obtains m' where "gm_put m k v = Some m'" "m' \<noteq> None"
  using gm_put_Some [OF assms] that by blast

lemma gm_put_None_iff: "gm_put m k v = None \<longleftrightarrow> m = None"
  by (auto simp: gm_put_def split: option.splits)

lemma gm_put_not_nil: "gm_put m k v = Some m' \<Longrightarrow> m' \<noteq> None"
  by (auto simp: gm_put_def split: option.splits)

lemma gm_ok_make [simp]: "gm_ok gm_make" "gm_ok None"
  by (simp_all add: gm_ok_def gm_make_def gm_keys_def gm_items_def)

lemma gm_ok_put: "gm_put m k v = Some m' \<Longrightarrow> gm_ok m \<Longrightarrow> gm_ok m'"
  by (auto simp: gm_put_def gm_ok_def gm_keys_def gm_items_def distinct_update split: option.splits)

lemma gm_get_keys: "gm_get m k \<noteq> None \<longleftrightarrow> k \<in> set (gm_keys m)"
  by (cases m) (simp_all only: gm_get_def gm_keys_def gm_items_def option.case domIff [symmetric]
      dom_map_of_conv_image_fst list.set list.map set_map, simp_all)

lemma gm_items_get: "gm_ok m \<Longrightarrow> (k, v) \<in> set (gm_items m) \<longleftrightarrow> gm_get m k = Some v"
  by (auto simp: gm_ok_def gm_keys_def gm_items_def gm_get_def map_of_eq_Some_iff split: option.splits)

lemma gm_get_delete: "gm_get (gm_delete m k) k' = (if k' = k then None else gm_get m k')"
  by (auto simp: gm_delete_def gm_get_def delete_conv split: option.splits)

end
