(* ===== verification/QueueSteps.thy ===== *)
theory QueueSteps
  imports JobQueue
begin

text \<open>
  The blocking loops of \<open>PriorityJobQueue.Push\<close> and \<open>Pop\<close> (\<open>pkg/engine/queue.go\<close>) as a
  step relation: any number of producers and consumers, each in its critical section, parked
  in the \<open>select\<close>, woken by a token, or done. A pass under the mutex is one step, because
  the mutex makes it atomic; taking a token from a signal channel and being cancelled by the
  context are steps of their own. The invariant is that no wake-up is lost.
\<close>

section \<open>Threads and steps\<close>

datatype push_result = PushOk | ErrQueueClosed | PushCancelled
datatype pop_result = PopOk job | PopEnd | PopCancelled

text \<open>\<open>Lock\<close>: about to lock; \<open>Wait\<close>: parked in the \<open>select\<close>; \<open>Woken\<close>: took a token and is about to lock.\<close>

datatype prod_pc = ProdIdle | ProdLock job | ProdWait job | ProdWoken job | ProdDone push_result
datatype cons_pc = ConsIdle | ConsLock | ConsWait | ConsWoken | ConsDone pop_result

record qsys =
  sy_q :: pjq
  sy_prod :: "nat \<Rightarrow> prod_pc"
  sy_cons :: "nat \<Rightarrow> cons_pc"

definition init_qsys :: "int \<Rightarrow> qsys" where
  "init_qsys n = \<lparr>sy_q = newPriorityQueue n, sy_prod = (\<lambda>_. ProdIdle), sy_cons = (\<lambda>_. ConsIdle)\<rparr>"

inductive qstep :: "qsys \<Rightarrow> qsys \<Rightarrow> bool" where
  call_push: "sy_prod s i \<in> insert ProdIdle (range ProdDone) \<Longrightarrow>
     qstep s (s\<lparr>sy_prod := (sy_prod s)(i := ProdLock j)\<rparr>)"
| push_done: "sy_prod s i \<in> {ProdLock j, ProdWoken j} \<Longrightarrow> pq_push (sy_q s) j = (Pushed, q) \<Longrightarrow>
     qstep s (s\<lparr>sy_q := q, sy_prod := (sy_prod s)(i := ProdDone PushOk)\<rparr>)"
| push_closed: "sy_prod s i \<in> {ProdLock j, ProdWoken j} \<Longrightarrow> pq_push (sy_q s) j = (PushClosed, q) \<Longrightarrow>
     qstep s (s\<lparr>sy_q := q, sy_prod := (sy_prod s)(i := ProdDone ErrQueueClosed)\<rparr>)"
| push_wait: "sy_prod s i \<in> {ProdLock j, ProdWoken j} \<Longrightarrow> pq_push (sy_q s) j = (PushBlocked, q) \<Longrightarrow>
     qstep s (s\<lparr>sy_q := q, sy_prod := (sy_prod s)(i := ProdWait j)\<rparr>)"
| push_wake: "sy_prod s i = ProdWait j \<Longrightarrow> pq_not_full (sy_q s) \<or> pq_closed (sy_q s) \<Longrightarrow>
     qstep s (s\<lparr>sy_q := (sy_q s)\<lparr>pq_not_full := False\<rparr>, sy_prod := (sy_prod s)(i := ProdWoken j)\<rparr>)"
| push_cancel: "sy_prod s i = ProdWait j \<Longrightarrow>
     qstep s (s\<lparr>sy_prod := (sy_prod s)(i := ProdDone PushCancelled)\<rparr>)"
| call_pop: "sy_cons s i \<in> insert ConsIdle (range ConsDone) \<Longrightarrow>
     qstep s (s\<lparr>sy_cons := (sy_cons s)(i := ConsLock)\<rparr>)"
| pop_done: "sy_cons s i \<in> {ConsLock, ConsWoken} \<Longrightarrow> pq_pop (sy_q s) = (Popped j, q) \<Longrightarrow>
     qstep s (s\<lparr>sy_q := q, sy_cons := (sy_cons s)(i := ConsDone (PopOk j))\<rparr>)"
| pop_closed: "sy_cons s i \<in> {ConsLock, ConsWoken} \<Longrightarrow> pq_pop (sy_q s) = (PopClosed, q) \<Longrightarrow>
     qstep s (s\<lparr>sy_q := q, sy_cons := (sy_cons s)(i := ConsDone PopEnd)\<rparr>)"
| pop_wait: "sy_cons s i \<in> {ConsLock, ConsWoken} \<Longrightarrow> pq_pop (sy_q s) = (PopBlocked, q) \<Longrightarrow>
     qstep s (s\<lparr>sy_q := q, sy_cons := (sy_cons s)(i := ConsWait)\<rparr>)"
| pop_wake: "sy_cons s i = ConsWait \<Longrightarrow> pq_not_empty (sy_q s) \<or> pq_closed (sy_q s) \<Longrightarrow>
     qstep s (s\<lparr>sy_q := (sy_q s)\<lparr>pq_not_empty := False\<rparr>, sy_cons := (sy_cons s)(i := ConsWoken)\<rparr>)"
| pop_cancel: "sy_cons s i = ConsWait \<Longrightarrow>
     qstep s (s\<lparr>sy_cons := (sy_cons s)(i := ConsDone PopCancelled)\<rparr>)"
| close_queue: "qstep s (s\<lparr>sy_q := pq_close (sy_q s)\<rparr>)"
| drain_queue: "qstep s (s\<lparr>sy_q := snd (pq_drain (sy_q s))\<rparr>)"

inductive qreach :: "int \<Rightarrow> qsys \<Rightarrow> bool" for n where
  init: "qreach n (init_qsys n)"
| step: "qreach n s \<Longrightarrow> qstep s t \<Longrightarrow> qreach n t"

section \<open>The wake-up invariant\<close>

definition pq_room :: "pjq \<Rightarrow> bool" where
  "pq_room q \<longleftrightarrow> pq_max q \<noteq> 0 \<and> pq_len q < pq_max q"

text \<open>
  Work with no token pending has a woken consumer on its way to it; room that a parked
  producer could use, with no token pending, has a woken producer on its way to it.
\<close>

definition wake_cons :: "pjq \<Rightarrow> (nat \<Rightarrow> cons_pc) \<Rightarrow> bool" where
  "wake_cons q c \<longleftrightarrow> (\<not> pq_closed q \<longrightarrow> pq_heap q \<noteq> [] \<longrightarrow> pq_not_empty q \<or> (\<exists>i. c i = ConsWoken))"

definition wake_prod :: "pjq \<Rightarrow> (nat \<Rightarrow> prod_pc) \<Rightarrow> bool" where
  "wake_prod q p \<longleftrightarrow>
     (\<forall>i j. p i = ProdWait j \<longrightarrow>
        pq_max q \<noteq> 0 \<and>
        (\<not> pq_closed q \<longrightarrow> pq_room q \<longrightarrow> pq_not_full q \<or> (\<exists>k j. p k = ProdWoken j)))"

definition wake_inv :: "qsys \<Rightarrow> bool" where
  "wake_inv s \<longleftrightarrow> wake_cons (sy_q s) (sy_cons s) \<and> wake_prod (sy_q s) (sy_prod s)"

lemma wake_inv_init: "wake_inv (init_qsys n)"
  by (simp add: wake_inv_def wake_cons_def wake_prod_def init_qsys_def newPriorityQueue_def)

text \<open>How the two halves of the invariant follow a change of the queue and of one thread.\<close>

lemma wake_cons_signal: "pq_heap q \<noteq> [] \<longrightarrow> pq_not_empty q \<Longrightarrow> wake_cons q c"
  by (simp add: wake_cons_def)

lemma wake_cons_keep:
  "wake_cons q c \<Longrightarrow> c i \<noteq> ConsWoken \<Longrightarrow> wake_cons q (c(i := x))"
  by (auto simp: wake_cons_def)

lemma wake_cons_woken: "wake_cons q (c(i := ConsWoken))"
  by (auto simp: wake_cons_def)

lemma wake_cons_empty: "pq_heap q = [] \<or> pq_closed q \<Longrightarrow> wake_cons q c"
  by (auto simp: wake_cons_def)

lemma wake_prod_signal:
  "pq_room q \<longrightarrow> pq_not_full q \<Longrightarrow> wake_prod r p \<Longrightarrow> pq_max q = pq_max r \<Longrightarrow> x \<notin> range ProdWait \<Longrightarrow>
   wake_prod q (p(i := x))"
  by (auto simp: wake_prod_def image_iff)

lemma wake_prod_keep:
  "wake_prod q p \<Longrightarrow> p i \<notin> range ProdWoken \<Longrightarrow> x \<notin> range ProdWait \<Longrightarrow> wake_prod q (p(i := x))"
  by (auto simp: wake_prod_def image_iff split: if_splits)

lemma wake_prod_woken: "wake_prod r p \<Longrightarrow> pq_max q = pq_max r \<Longrightarrow> wake_prod q (p(i := ProdWoken j))"
  by (auto simp: wake_prod_def)

lemma wake_prod_no_room:
  "\<not> pq_room q \<or> pq_closed q \<Longrightarrow> pq_max q \<noteq> 0 \<or> (x \<notin> range ProdWait \<and> wake_prod q p) \<Longrightarrow> wake_prod q (p(i := x))"
  by (auto simp: wake_prod_def image_iff)

lemma wake_prod_queue:
  "wake_prod q p \<Longrightarrow> pq_max r = pq_max q \<Longrightarrow>
   pq_closed r \<or> \<not> pq_room r \<or> pq_not_full r \<or> (\<not> pq_closed q \<and> pq_room q \<and> \<not> pq_not_full q) \<Longrightarrow>
   wake_prod r p"
  by (auto simp: wake_prod_def)

text \<open>What a pass under the mutex leaves behind.\<close>

lemma push_signals:
  "pq_push q j = (Pushed, q') \<Longrightarrow>
   pq_not_empty q' \<and> (pq_room q' \<longrightarrow> pq_not_full q') \<and> \<not> pq_closed q' \<and> pq_max q' = pq_max q"
  by (auto simp: pq_push_def signalNotEmpty_def signalNotFull_def pq_len_def pq_room_def split: if_splits)

lemma push_blocked: "pq_push q j = (PushBlocked, q') \<Longrightarrow> q' = q \<and> \<not> pq_room q \<and> pq_max q \<noteq> 0"
  by (auto simp: pq_push_def pq_room_def split: if_splits)

lemma push_refused: "pq_push q j = (PushClosed, q') \<Longrightarrow> q' = q \<and> pq_closed q"
  by (auto simp: pq_push_def split: if_splits)

lemma pop_signals:
  "pq_pop q = (Popped j, q') \<Longrightarrow> \<not> pq_closed q \<Longrightarrow>
   (pq_heap q' \<noteq> [] \<longrightarrow> pq_not_empty q') \<and> (pq_room q' \<longrightarrow> pq_not_full q') \<and> pq_max q' = pq_max q"
  by (auto simp: pq_pop_def signalNotEmpty_def signalNotFull_def pq_len_def pq_room_def
      split: option.splits if_splits)

lemma pop_closed_flag: "pq_pop q = (r, q') \<Longrightarrow> pq_closed q' = pq_closed q \<and> pq_max q' = pq_max q"
  by (auto simp: pq_pop_def split: option.splits if_splits)

lemma drain_signals:
  "pq_heap (snd (pq_drain q)) = []" "pq_closed (snd (pq_drain q)) = pq_closed q"
  "pq_max (snd (pq_drain q)) = pq_max q"
  "\<not> pq_closed q \<Longrightarrow> pq_room (snd (pq_drain q)) \<Longrightarrow> \<not> pq_not_full (snd (pq_drain q)) \<Longrightarrow>
     snd (pq_drain q) = q"
  by (auto simp: pq_drain_def Let_def signalNotFull_def pq_len_def pq_room_def split: if_splits)

lemma wake_inv_step:
  assumes "qstep s t" and inv: "wake_inv s"
  shows "wake_inv t"
proof -
  from inv have c: "wake_cons (sy_q s) (sy_cons s)" and p: "wake_prod (sy_q s) (sy_prod s)"
    by (auto simp: wake_inv_def)
  from assms(1) show ?thesis
  proof cases
    case (push_done i j q)
    note sig = push_signals [OF push_done(3)]
    have "wake_prod q ((sy_prod s)(i := ProdDone PushOk))"
      using sig p by (intro wake_prod_signal) auto
    then show ?thesis
      using sig by (simp add: wake_inv_def push_done(1) wake_cons_signal)
  next
    case (push_closed i j q)
    note ref = push_refused [OF push_closed(3)]
    have "wake_prod q ((sy_prod s)(i := ProdDone ErrQueueClosed))"
      using ref p by (intro wake_prod_no_room) auto
    then show ?thesis
      using ref c by (simp add: wake_inv_def push_closed(1))
  next
    case (push_wait i j q)
    note blk = push_blocked [OF push_wait(3)]
    have "wake_prod q ((sy_prod s)(i := ProdWait j))"
      using blk by (intro wake_prod_no_room) auto
    then show ?thesis
      using blk c by (simp add: wake_inv_def push_wait(1))
  next
    case (push_wake i j)
    have "wake_prod ((sy_q s)\<lparr>pq_not_full := False\<rparr>) ((sy_prod s)(i := ProdWoken j))"
      using p by (rule wake_prod_woken) simp
    then show ?thesis
      using c by (simp add: wake_inv_def push_wake(1) wake_cons_def)
  next
    case (pop_done i j q)
    have cons: "wake_cons q ((sy_cons s)(i := ConsDone (PopOk j)))"
    proof (cases "pq_closed (sy_q s)")
      case True
      then show ?thesis
        using pop_closed_flag [OF pop_done(3)] by (intro wake_cons_empty) simp
    next
      case False
      then show ?thesis
        using pop_signals [OF pop_done(3)] by (intro wake_cons_signal) simp
    qed
    have prod: "wake_prod q (sy_prod s)"
      using p pop_signals [OF pop_done(3)] pop_closed_flag [OF pop_done(3)]
      by (intro wake_prod_queue [OF p]) auto
    show ?thesis
      using cons prod by (simp add: wake_inv_def pop_done(1))
  next
    case (pop_closed i q)
    then show ?thesis
      using pq.pop_waits [OF pop_closed(3)] p by (simp add: wake_inv_def wake_cons_empty)
  next
    case (pop_wait i q)
    then show ?thesis
      using pq.pop_waits [OF pop_wait(3)] p by (simp add: wake_inv_def wake_cons_empty)
  next
    case (pop_wake i)
    have "wake_prod ((sy_q s)\<lparr>pq_not_empty := False\<rparr>) (sy_prod s)"
      using p by (simp add: wake_prod_def pq_room_def pq_len_def)
    then show ?thesis
      by (simp add: wake_inv_def pop_wake(1) wake_cons_woken)
  next
    case close_queue
    have "wake_prod (pq_close (sy_q s)) (sy_prod s)"
      using p by (intro wake_prod_queue [OF p]) (auto simp: pq_close_def)
    then show ?thesis
      by (simp add: wake_inv_def close_queue wake_cons_empty pq_close_def)
  next
    case drain_queue
    have "wake_prod (snd (pq_drain (sy_q s))) (sy_prod s)"
      using p drain_signals [of "sy_q s"] by (intro wake_prod_queue [OF p]) auto
    then show ?thesis
      by (simp add: wake_inv_def drain_queue wake_cons_empty drain_signals(1))
  qed (use c p in \<open>auto simp: wake_inv_def intro!: wake_prod_keep wake_cons_keep\<close>)
qed

lemma qreach_wake_inv: "qreach n s \<Longrightarrow> wake_inv s"
  by (induction rule: qreach.induct) (auto intro: wake_inv_init wake_inv_step)

section \<open>Properties\<close>

text \<open>C36: no wake-up is lost. In every reachable state of the open priority queue, with any number
of producers and consumers, queued work means that a token waits in \<open>notEmpty\<close> or a consumer that
took one is about to lock, and free capacity with a parked producer means the same of \<open>notFull\<close>;
so no thread stays parked while it could go on.\<close>

theorem no_lost_wakeup:
  assumes "qreach n s" and "\<not> pq_closed (sy_q s)"
  shows "(pq_heap (sy_q s) \<noteq> [] \<longrightarrow> pq_not_empty (sy_q s) \<or> (\<exists>k. sy_cons s k = ConsWoken)) \<and>
    (\<forall>i j. sy_prod s i = ProdWait j \<longrightarrow> pq_room (sy_q s) \<longrightarrow>
       pq_not_full (sy_q s) \<or> (\<exists>k j'. sy_prod s k = ProdWoken j'))"
  using qreach_wake_inv [OF assms(1)] assms(2) by (auto simp: wake_inv_def wake_cons_def wake_prod_def)

text \<open>A run in which a consumer parks and a producer then delivers a job.\<close>

lemma parked_consumer_run:
  "qreach 1 \<lparr>sy_q = \<lparr>pq_heap = [sample_job ''fuzz'' 1 0 1], pq_closed = False, pq_max = 1,
                    pq_not_empty = True, pq_not_full = False\<rparr>,
             sy_prod = (\<lambda>_. ProdIdle)(0 := ProdDone PushOk), sy_cons = (\<lambda>_. ConsIdle)(0 := ConsWait)\<rparr>"
proof -
  let ?j = "sample_job ''fuzz'' 1 0 1"
  let ?s1 = "init_qsys 1\<lparr>sy_cons := (\<lambda>_. ConsIdle)(0 := ConsLock)\<rparr>"
  let ?s2 = "init_qsys 1\<lparr>sy_cons := (\<lambda>_. ConsIdle)(0 := ConsWait)\<rparr>"
  let ?s3 = "?s2\<lparr>sy_prod := (\<lambda>_. ProdIdle)(0 := ProdLock ?j)\<rparr>"
  let ?q = "\<lparr>pq_heap = [?j], pq_closed = False, pq_max = 1, pq_not_empty = True, pq_not_full = False\<rparr>"
  have 1: "qreach 1 ?s1"
    using qreach.step [OF qreach.init, of 1] call_pop [of "init_qsys 1" 0] by (simp add: init_qsys_def)
  have "pq_pop (newPriorityQueue 1) = (PopBlocked, newPriorityQueue 1)"
    by (simp add: pq_pop_def heap_pop_def newPriorityQueue_def)
  then have 2: "qreach 1 ?s2"
    using qreach.step [OF 1] pop_wait [of ?s1 0 "newPriorityQueue 1"] by (simp add: init_qsys_def)
  have 3: "qreach 1 ?s3"
    using qreach.step [OF 2] call_push [of ?s2 0 ?j] by (simp add: init_qsys_def)
  have "pq_push (newPriorityQueue 1) ?j = (Pushed, ?q)"
    by (simp add: step_defs heap_push_def heap_up.simps)
  then have "qstep ?s3 (?s3\<lparr>sy_q := ?q, sy_prod := (sy_prod ?s3)(0 := ProdDone PushOk)\<rparr>)"
    by (intro push_done) (auto simp: init_qsys_def)
  from qreach.step [OF 3 this] show ?thesis by (simp add: init_qsys_def)
qed

theorem no_lost_wakeup_witness:
  "\<exists>s. qreach 1 s \<and> sy_cons s 0 = ConsWait \<and> pq_heap (sy_q s) \<noteq> [] \<and>
       (pq_not_empty (sy_q s) \<or> (\<exists>k. sy_cons s k = ConsWoken))"
  using no_lost_wakeup [OF parked_consumer_run] parked_consumer_run by fastforce

end
