(* ===== verification/Simhash.thy ===== *)
theory Simhash
  imports Prelude
begin

text \<open>
  Soft-404 detection, \<open>pkg/engine/simhash.go\<close>: the 64-bit SimHash of a response body (over
  the FNV-1a hash of its tokens), the Hamming distance, and the \<open>SimhashTracker\<close> that
  clusters fingerprints and reports a body once its cluster is large enough. A body is a list
  of bytes; the token boundaries are the ASCII spaces and the ASCII characters of Unicode's
  punctuation categories.
\<close>

unbundle bit_operations_syntax

section \<open>Fingerprints\<close>

definition is_punct :: "char \<Rightarrow> bool" where
  "is_punct c \<longleftrightarrow> byte c \<in> {33, 34, 35, 37, 38, 39, 40, 41, 42, 44, 45, 46, 47, 58, 59, 63, 64, 91, 92, 93, 95, 123, 125}"

definition is_boundary :: "char \<Rightarrow> bool" where
  "is_boundary c \<longleftrightarrow> is_space c \<or> is_punct c"

text \<open>\<open>fnv.New64a\<close>: exclusive or with the byte, then multiplication by the prime.\<close>

definition fnv1a :: "string \<Rightarrow> 64 word" where
  "fnv1a s = fold (\<lambda>c h. (h XOR of_nat (byte c)) * 1099511628211) s 14695981039346656037"

definition hashToken :: "string \<Rightarrow> int list \<Rightarrow> int list" where
  "hashToken token vector =
     (let h = fnv1a token in map2 (\<lambda>b w. if bit h b then w + 1 else w - 1) [0..<64] vector)"

text \<open>
  The scan: \<open>tok\<close> holds the bytes of the current token in reverse (the slice from
  \<open>tokenStart\<close> to \<open>i\<close>), so that \<open>tok = []\<close> is \<open>\<not>inToken\<close>.
\<close>

fun simhash_scan :: "string \<Rightarrow> string \<Rightarrow> int list \<Rightarrow> bool \<Rightarrow> int list \<times> bool" where
  "simhash_scan [] tok vector has =
     (if tok \<noteq> [] then (hashToken (rev tok) vector, True) else (vector, has))"
| "simhash_scan (c # body) tok vector has =
     (if is_boundary c then
        (if tok \<noteq> [] then simhash_scan body [] (hashToken (rev tok) vector) True
         else simhash_scan body [] vector has)
      else simhash_scan body (c # tok) vector has)"

definition fingerprint_of :: "int list \<Rightarrow> 64 word" where
  "fingerprint_of vector =
     fold (\<lambda>(b, w) f. if w > 0 then f OR push_bit b 1 else f) (zip [0..<64] vector) 0"

definition simhashBody :: "string \<Rightarrow> 64 word" where
  "simhashBody body =
     (if body = [] then 0
      else let (vector, hasTokens) = simhash_scan body [] (replicate 64 0) False
           in if \<not> hasTokens then 0 else fingerprint_of vector)"

definition hammingDistance :: "64 word \<Rightarrow> 64 word \<Rightarrow> nat" where
  "hammingDistance a b = length (filter (bit (a XOR b)) [0..<64])"

section \<open>The tracker\<close>

record cluster =
  centroid :: "64 word"
  hits :: int

record simhash_tracker =
  st_clusters :: "cluster list"
  st_threshold :: int
  st_limit :: int

definition maxSimhashCentroids :: nat where "maxSimhashCentroids = 5000"

definition newSimhashTracker :: "int \<Rightarrow> int \<Rightarrow> simhash_tracker" where
  "newSimhashTracker threshold limit =
     \<lparr>st_clusters = [], st_threshold = threshold, st_limit = limit\<rparr>"

definition configure :: "simhash_tracker \<Rightarrow> int \<Rightarrow> int \<Rightarrow> simhash_tracker" where
  "configure s threshold limit = s\<lparr>st_threshold := threshold, st_limit := limit\<rparr>"

definition clear_clusters :: "simhash_tracker \<Rightarrow> simhash_tracker" where
  "clear_clusters s = s\<lparr>st_clusters := []\<rparr>"

text \<open>The first cluster within the threshold, as the loop over the indices finds it.\<close>

fun find_cluster :: "int \<Rightarrow> 64 word \<Rightarrow> cluster list \<Rightarrow> nat option" where
  "find_cluster threshold h [] = None"
| "find_cluster threshold h (c # cs) =
     (if int (hammingDistance (centroid c) h) \<le> threshold then Some 0
      else map_option Suc (find_cluster threshold h cs))"

fun bubble_up :: "cluster list \<Rightarrow> nat \<Rightarrow> cluster list \<times> nat" where
  "bubble_up cs 0 = (cs, 0)"
| "bubble_up cs (Suc k) =
     (if hits (cs ! Suc k) > hits (cs ! k) then bubble_up (list_swap cs (Suc k) k) k else (cs, Suc k))"

definition isSoftFour :: "simhash_tracker \<Rightarrow> 64 word \<Rightarrow> bool \<times> simhash_tracker" where
  "isSoftFour s bodyHash =
     (let threshold = (if st_threshold s < 0 then 0 else st_threshold s);
          limit = st_limit s; cs = st_clusters s in
      if limit \<le> 0 then (False, s)
      else case find_cluster threshold bodyHash cs of
        Some i \<Rightarrow>
          (let (cs', cur) = bubble_up (cs[i := (cs ! i)\<lparr>hits := hits (cs ! i) + 1\<rparr>]) i
           in (hits (cs' ! cur) \<ge> limit, s\<lparr>st_clusters := cs'\<rparr>))
      | None \<Rightarrow>
          (let c = \<lparr>centroid = bodyHash, hits = 1\<rparr> in
           if maxSimhashCentroids \<le> length cs
           then (False, s\<lparr>st_clusters := cs[length cs - 1 := c]\<rparr>)
           else (False, s\<lparr>st_clusters := cs @ [c]\<rparr>)))"

definition seedBaseline :: "simhash_tracker \<Rightarrow> 64 word \<Rightarrow> simhash_tracker" where
  "seedBaseline s bodyHash =
     s\<lparr>st_clusters := \<lparr>centroid = bodyHash, hits = st_limit s\<rparr> # st_clusters s\<rparr>"

lemmas [step_defs] =
  newSimhashTracker_def configure_def clear_clusters_def isSoftFour_def seedBaseline_def

section \<open>Fingerprints depend on the tokens only\<close>

text \<open>The reference: the maximal runs of non-boundary bytes.\<close>

fun tokens_from :: "string \<Rightarrow> string \<Rightarrow> string list" where
  "tokens_from tok [] = (if tok \<noteq> [] then [rev tok] else [])"
| "tokens_from tok (c # body) =
     (if is_boundary c then (if tok \<noteq> [] then [rev tok] else []) @ tokens_from [] body
      else tokens_from (c # tok) body)"

definition body_tokens :: "string \<Rightarrow> string list" where
  "body_tokens body = tokens_from [] body"

lemma simhash_scan_tokens:
  "simhash_scan body tok vector has =
     (fold hashToken (tokens_from tok body) vector, has \<or> tokens_from tok body \<noteq> [])"
  by (induction body tok vector has rule: simhash_scan.induct) auto

lemma length_hashToken [simp]: "length (hashToken t v) = min 64 (length v)"
  by (simp add: hashToken_def Let_def)

lemma nth_hashToken:
  "length v = 64 \<Longrightarrow> i < 64 \<Longrightarrow> hashToken t v ! i = v ! i + (if bit (fnv1a t) i then 1 else - 1)"
  by (simp add: hashToken_def Let_def)

text \<open>The weight of a bit is a sum over the tokens, so their order does not matter.\<close>

definition vote :: "nat \<Rightarrow> string \<Rightarrow> int" where
  "vote i t = (if bit (fnv1a t) i then 1 else - 1)"

lemma fold_hashToken:
  "length v = 64 \<Longrightarrow> length (fold hashToken ts v) = 64 \<and>
     (\<forall>i < 64. fold hashToken ts v ! i = v ! i + sum_list (map (vote i) ts))"
  by (induction ts arbitrary: v) (auto simp: nth_hashToken vote_def)

lemma simhashBody_tokens:
  "simhashBody body =
     (if body_tokens body = [] then 0
      else fingerprint_of (map (\<lambda>i. sum_list (map (vote i) (body_tokens body))) [0..<64]))"
proof -
  have "fold hashToken (body_tokens body) (replicate 64 0) =
      map (\<lambda>i. sum_list (map (vote i) (body_tokens body))) [0..<64]"
    using fold_hashToken [of "replicate 64 0" "body_tokens body"] by (intro nth_equalityI) auto
  then show ?thesis
    by (cases body) (simp_all add: simhashBody_def simhash_scan_tokens Let_def body_tokens_def)
qed

lemma bit_set_one: "bit (f OR push_bit b 1) n \<longleftrightarrow> bit f n \<or> (n = b \<and> n < 64)" for f :: "64 word"
  by (simp only: bit_or_iff bit_push_bit_iff bit_1_iff) auto

lemma fold_or_bit:
  "bit (fold (\<lambda>(b, w) f. if w > 0 then f OR push_bit b 1 else f) ps f) n \<longleftrightarrow>
     bit f n \<or> (n < 64 \<and> (\<exists>w. (n, w) \<in> set ps \<and> w > (0::int)))" for f :: "64 word"
proof (induction ps arbitrary: f)
  case (Cons p ps)
  obtain b w where "p = (b, w)" by (cases p)
  then show ?case
    by (simp only: fold_simps comp_def split_conv Cons.IH) (auto simp: bit_set_one simp del: push_bit_of_1)
qed simp

lemma bit_fingerprint_of:
  assumes "length v = 64"
  shows "bit (fingerprint_of v) i \<longleftrightarrow> i < 64 \<and> v ! i > 0"
proof -
  have "(i, w) \<in> set (zip [0..<64] v) \<longleftrightarrow> i < 64 \<and> w = v ! i" for w
    using assms by (auto simp: in_set_zip intro!: exI [of _ i])
  then show ?thesis by (auto simp: fingerprint_of_def fold_or_bit)
qed

lemma bit_simhashBody:
  "bit (simhashBody body) i \<longleftrightarrow> i < 64 \<and> sum_list (map (vote i) (body_tokens body)) > 0"
  by (auto simp: simhashBody_tokens bit_fingerprint_of)

section \<open>Hamming distance\<close>

lemma hammingDistance_refl [simp]: "hammingDistance a a = 0"
  by (simp add: hammingDistance_def)

lemma hammingDistance_card: "hammingDistance a b = card {i. i < 64 \<and> bit a i \<noteq> bit b i}"
proof -
  have "hammingDistance a b = card (set (filter (bit (a XOR b)) [0..<64]))"
    unfolding hammingDistance_def by (rule distinct_card [symmetric]) simp
  also have "set (filter (bit (a XOR b)) [0..<64]) = {i. i < 64 \<and> bit a i \<noteq> bit b i}"
    by (auto simp: bit_xor_iff)
  finally show ?thesis .
qed

lemma hammingDistance_sym: "hammingDistance a b = hammingDistance b a"
  by (simp add: hammingDistance_card eq_commute)

lemma hammingDistance_triangle:
  "hammingDistance a c \<le> hammingDistance a b + hammingDistance b c"
proof -
  let ?d = "\<lambda>x y. {i. i < 64 \<and> bit x i \<noteq> bit y i}"
  have "card (?d a c) \<le> card (?d a b \<union> ?d b c)"
    by (rule card_mono) auto
  also have "\<dots> \<le> card (?d a b) + card (?d b c)"
    by (rule card_Un_le)
  finally show ?thesis by (simp only: hammingDistance_card)
qed

section \<open>The clusters stay sorted\<close>

definition hits_desc :: "cluster list \<Rightarrow> bool" where
  "hits_desc cs \<longleftrightarrow> (\<forall>b < length cs. \<forall>a < b. hits (cs ! b) \<le> hits (cs ! a))"

text \<open>Sorted but for the element at \<open>k\<close>, which may be larger than those before it.\<close>

definition desc_but :: "cluster list \<Rightarrow> nat \<Rightarrow> bool" where
  "desc_but cs k \<longleftrightarrow> (\<forall>b < length cs. b \<noteq> k \<longrightarrow> (\<forall>a < b. hits (cs ! b) \<le> hits (cs ! a)))"

definition tracker_ok :: "simhash_tracker \<Rightarrow> bool" where
  "tracker_ok s \<longleftrightarrow>
     hits_desc (st_clusters s) \<and> (\<forall>c \<in> set (st_clusters s). 1 \<le> hits c) \<and>
     length (st_clusters s) \<le> maxSimhashCentroids"

lemma find_cluster_Some:
  "find_cluster t h cs = Some i \<Longrightarrow>
   i < length cs \<and> int (hammingDistance (centroid (cs ! i)) h) \<le> t \<and>
   (\<forall>j < i. \<not> int (hammingDistance (centroid (cs ! j)) h) \<le> t)"
  by (induction cs arbitrary: i) (auto split: if_splits simp: nth_Cons less_Suc_eq_0_disj split: nat.splits)

lemma find_cluster_None:
  "find_cluster t h cs = None \<longleftrightarrow> (\<forall>c \<in> set cs. \<not> int (hammingDistance (centroid c) h) \<le> t)"
  by (induction cs) auto

lemma bubble_up_desc:
  "desc_but cs k \<Longrightarrow> k < length cs \<Longrightarrow> bubble_up cs k = (cs', cur) \<Longrightarrow>
   hits_desc cs' \<and> mset cs' = mset cs \<and> cur < length cs' \<and> hits (cs' ! cur) = hits (cs ! k)"
proof (induction cs k rule: bubble_up.induct)
  case (1 cs)
  then show ?case by (auto simp: hits_desc_def desc_but_def)
next
  case (2 cs k)
  show ?case
  proof (cases "hits (cs ! Suc k) > hits (cs ! k)")
    case True
    have "desc_but (list_swap cs (Suc k) k) k"
      unfolding desc_but_def
    proof (intro allI impI)
      fix b a
      assume "b < length (list_swap cs (Suc k) k)" "b \<noteq> k" "a < b"
      then show "hits (list_swap cs (Suc k) k ! b) \<le> hits (list_swap cs (Suc k) k ! a)"
        using 2(2,3) True by (cases "b = Suc k") (auto simp: nth_list_swap desc_but_def)
    qed
    moreover have "bubble_up (list_swap cs (Suc k) k) k = (cs', cur)"
      using 2(4) True by simp
    ultimately show ?thesis
      using 2(1) [OF True] 2(3) by (auto simp: nth_list_swap)
  next
    case False
    have pairs: "\<And>a b. b < length cs \<Longrightarrow> b \<noteq> Suc k \<Longrightarrow> a < b \<Longrightarrow> hits (cs ! b) \<le> hits (cs ! a)"
      using 2(2) by (simp add: desc_but_def)
    have "hits (cs ! b) \<le> hits (cs ! a)" if "b < length cs" "a < b" for a b
    proof (cases "b = Suc k")
      case True
      have "hits (cs ! k) \<le> hits (cs ! a)" if "a \<noteq> k"
        using pairs [of k a] that True \<open>b < length cs\<close> \<open>a < b\<close> by simp
      then show ?thesis
        using False True by (cases "a = k") auto
    qed (use pairs that in blast)
    then show ?thesis
      using 2(3,4) False by (auto simp: hits_desc_def)
  qed
qed

lemma hits_desc_bump:
  "hits_desc cs \<Longrightarrow> i < length cs \<Longrightarrow> desc_but (cs[i := (cs ! i)\<lparr>hits := hits (cs ! i) + 1\<rparr>]) i"
  unfolding hits_desc_def desc_but_def by (auto simp: nth_list_update) (smt (verit) le_add_same_cancel1)

lemma hits_desc_last:
  "hits_desc cs \<Longrightarrow> \<forall>c \<in> set cs. x \<le> hits c \<Longrightarrow> hits_desc (cs @ [\<lparr>centroid = h, hits = x\<rparr>])"
  by (auto simp: hits_desc_def nth_append less_Suc_eq)

lemma hits_desc_replace:
  "hits_desc cs \<Longrightarrow> \<forall>c \<in> set cs. x \<le> hits c \<Longrightarrow>
   hits_desc (cs[length cs - 1 := \<lparr>centroid = h, hits = x\<rparr>])"
  by (auto simp: hits_desc_def nth_list_update)

section \<open>Properties\<close>

text \<open>The SimHash of a body depends only on its tokens and how often each occurs: neither the
order of the tokens nor the white space and punctuation between them changes the fingerprint.\<close>

theorem simhash_token_order:
  assumes "mset (body_tokens a) = mset (body_tokens b)"
  shows "simhashBody a = simhashBody b"
proof (rule bit_eqI)
  fix i
  have "sum_list (map (vote i) (body_tokens a)) = sum_list (map (vote i) (body_tokens b))"
    using assms by (metis mset_map sum_mset_sum_list)
  then show "bit (simhashBody a) i = bit (simhashBody b) i"
    by (simp add: bit_simhashBody)
qed

theorem simhash_token_order_witness:
  "simhashBody ''not found'' = simhashBody ''(found)  not!''"
  by (rule simhash_token_order)
     (simp add: body_tokens_def is_boundary_def is_punct_def go_defs)

text \<open>One observation of a body by the soft-404 tracker keeps the clusters sorted by their
counts, positive and at most 5000, and reports the body exactly when the first cluster within
the Hamming threshold reaches the configured limit with this observation.\<close>

theorem isSoftFour_spec:
  assumes ok: "tracker_ok s" and res: "isSoftFour s h = (r, s')"
  shows "tracker_ok s' \<and>
    (r \<longleftrightarrow> 0 < st_limit s \<and>
       (\<exists>i. find_cluster (max 0 (st_threshold s)) h (st_clusters s) = Some i \<and>
            st_limit s \<le> hits (st_clusters s ! i) + 1))"
proof -
  let ?cs = "st_clusters s"
  have t: "(if st_threshold s < 0 then 0 else st_threshold s) = max 0 (st_threshold s)" by auto
  consider (off) "st_limit s \<le> 0"
    | (hit) i where "0 < st_limit s" "find_cluster (max 0 (st_threshold s)) h ?cs = Some i"
    | (new) "0 < st_limit s" "find_cluster (max 0 (st_threshold s)) h ?cs = None"
    by (cases "find_cluster (max 0 (st_threshold s)) h ?cs") fastforce+
  then show ?thesis
  proof cases
    case off
    then show ?thesis using ok res by (auto simp: isSoftFour_def)
  next
    case hit
    let ?bs = "?cs[i := (?cs ! i)\<lparr>hits := hits (?cs ! i) + 1\<rparr>]"
    obtain cs' cur where b: "bubble_up ?bs i = (cs', cur)" by (cases "bubble_up ?bs i")
    have i: "i < length ?cs" using find_cluster_Some [OF hit(2)] by simp
    have "1 \<le> hits (?cs ! i)" using ok i by (simp add: tracker_ok_def)
    then have pos: "0 \<le> hits (?cs ! i)" by simp
    have des: "hits_desc cs' \<and> mset cs' = mset ?bs \<and> hits (cs' ! cur) = hits (?cs ! i) + 1"
      using bubble_up_desc [OF hits_desc_bump _ b] ok i by (auto simp: tracker_ok_def)
    then have "set cs' = set ?bs" "length cs' = length ?cs"
      by (metis set_mset_mset) (metis des length_list_update size_mset)
    then show ?thesis
      using des ok res hit i b t pos
      by (auto simp: isSoftFour_def tracker_ok_def Let_def dest!: subsetD [OF set_update_subset_insert])
  next
    case new
    then show ?thesis
      using ok res t hits_desc_replace [of ?cs 1 h]
      by (auto simp: isSoftFour_def tracker_ok_def Let_def hits_desc_last
          split: if_splits dest!: subsetD [OF set_update_subset_insert])
  qed
qed

theorem isSoftFour_spec_witness:
  "fst (isSoftFour \<lparr>st_clusters = [\<lparr>centroid = 8, hits = 4\<rparr>], st_threshold = 3, st_limit = 5\<rparr> 9)"
proof -
  let ?s = "\<lparr>st_clusters = [\<lparr>centroid = 8, hits = 4\<rparr>], st_threshold = 3, st_limit = 5\<rparr> :: simhash_tracker"
  have ok: "tracker_ok ?s" by (simp add: tracker_ok_def hits_desc_def maxSimhashCentroids_def)
  have near: "hammingDistance 8 9 \<le> 3" by code_simp
  obtain r s' where "isSoftFour ?s 9 = (r, s')" by (cases "isSoftFour ?s 9")
  with isSoftFour_spec [OF ok this] near show ?thesis by simp
qed

end
