(* ===== verification/DiscoveryGraph.thy ===== *)
theory DiscoveryGraph
  imports Prelude
begin

text \<open>
  The discovery graph, \<open>pkg/engine/discovery_graph.go\<close>: its nodes with their scores, circuit
  breakers and budgets, the deduplicated follow-up actions, the bounded event history and the
  negative cache. Every operation is a state transformer on a \<open>world\<close>: the graph together
  with the suppliers of fresh UUIDs, of the current time and of SHA-256, which are not code of
  the repository. \<open>None\<close> is a run-time panic (a write to a nil map, a nil node pointer).
\<close>

section \<open>Data\<close>

type_synonym node_kind = string

definition NodeSource :: node_kind where "NodeSource = ''source''"
definition NodePath :: node_kind where "NodePath = ''path''"

record evidence =
  ev_type :: string
  ev_source :: string
  ev_line :: int
  ev_method :: string
  ev_confidence :: int
  ev_quality :: int

definition no_evidence :: evidence where
  "no_evidence = \<lparr>ev_type = '''', ev_source = '''', ev_line = 0, ev_method = '''', ev_confidence = 0, ev_quality = 0\<rparr>"

datatype node_state =
  StateDiscovered | StateQueued | StateTested | StateConfirmed | StateRejected | StateStale
| StateBlocked | StateRetesting

record lifecycle =
  lc_state :: node_state
  lc_last_seen :: gotime
  lc_last_tested :: gotime
  lc_hits :: int
  lc_archive_after :: duration
  lc_archived :: bool

datatype circuit_state = CircuitClosed | CircuitHalfOpen | CircuitOpen

record breaker =
  cb_state :: circuit_state
  cb_5xx :: int
  cb_to :: int
  cb_conn :: int
  cb_opened_at :: gotime
  cb_cooldown :: duration

record budget =
  bu_requests :: int
  bu_bytes :: int
  bu_time :: duration
  bu_max_requests :: int
  bu_max_bytes :: int
  bu_max_time :: duration

record negative =
  ne_method :: string
  ne_status :: int
  ne_created :: gotime
  ne_ttl :: duration

type_synonym action_status = string

definition ActionPending :: action_status where "ActionPending = ''pending''"
definition ActionQueued :: action_status where "ActionQueued = ''queued''"
definition ActionCompleted :: action_status where "ActionCompleted = ''completed''"
definition ActionFailed :: action_status where "ActionFailed = ''failed''"

type_synonym graph_event_type = string

definition GraphEventNodeAdded :: graph_event_type where "GraphEventNodeAdded = ''node_added''"
definition GraphEventEvidenceUpdated :: graph_event_type where "GraphEventEvidenceUpdated = ''evidence_updated''"
definition GraphEventResponseObserved :: graph_event_type where "GraphEventResponseObserved = ''response_observed''"
definition GraphEventActionCreated :: graph_event_type where "GraphEventActionCreated = ''action_created''"

record action =
  ac_id :: string
  ac_type :: string
  ac_node :: string
  ac_reason :: string
  ac_priority :: int
  ac_status :: action_status
  ac_created :: gotime
  ac_origin :: graph_event_type

definition makeActionKey :: "string \<Rightarrow> string \<Rightarrow> string" where
  "makeActionKey nodeID actionType = nodeID @ ''|'' @ actionType"

record execution =
  ex_status :: action_status
  ex_job :: string
  ex_started :: gotime
  ex_completed :: gotime
  ex_error :: string

record graph_event =
  ge_id :: string
  ge_type :: graph_event_type
  ge_node :: string
  ge_evidence :: evidence
  ge_time :: gotime

record response =
  re_status :: int
  re_content_type :: string
  re_length :: int
  re_headers :: "(string, string) gomap"
  re_interesting :: bool
  re_reason :: string

record node =
  nd_id :: string
  nd_target :: string
  nd_kind :: node_kind
  nd_path :: string
  nd_label :: string
  nd_parent :: string
  nd_source_type :: string
  nd_evidence :: evidence
  nd_lifecycle :: lifecycle
  nd_breaker :: breaker
  nd_budget :: budget
  nd_first_seen :: gotime
  nd_first_by :: string
  nd_confidence :: int
  nd_priority :: int
  nd_risk :: int
  nd_tags :: "string list"
  nd_derived :: int
  nd_feedback :: int
  nd_last_hash :: string
  nd_children :: "(string, unit) gomap"

record graph =
  dg_version :: int
  dg_max_events :: int
  dg_max_nodes :: int
  dg_nodes :: "(string, node) gomap"
  dg_by_sig :: "(string, string) gomap"
  dg_by_path :: "(string, string list) gomap"
  dg_history :: "(string, unit) gomap"
  dg_execs :: "(string, execution) gomap"
  dg_events :: "graph_event list"
  dg_negative :: "(string, negative list) gomap"

definition MaxDerivedJobsPerNode :: int where "MaxDerivedJobsPerNode = 5"
definition DefaultMaxEventHistory :: int where "DefaultMaxEventHistory = 100000"
definition MaxFeedbackActionsPerNode :: int where "MaxFeedbackActionsPerNode = 3"

definition newDiscoveryGraph :: graph where
  "newDiscoveryGraph =
     \<lparr>dg_version = 1, dg_max_events = DefaultMaxEventHistory, dg_max_nodes = 100000,
      dg_nodes = gm_make, dg_by_sig = gm_make, dg_by_path = gm_make, dg_history = gm_make,
      dg_execs = gm_make, dg_events = [], dg_negative = gm_make\<rparr>"

text \<open>The graph and what it takes from its environment.\<close>

record world =
  w_graph :: graph
  w_uuid :: "nat \<Rightarrow> string"
  w_next :: nat
  w_clock :: "nat \<Rightarrow> gotime"
  w_tick :: nat
  w_sha :: "string \<Rightarrow> string"

definition fresh_id :: "world \<Rightarrow> string \<times> world" where
  "fresh_id w = (w_uuid w (w_next w), w\<lparr>w_next := Suc (w_next w)\<rparr>)"

definition time_now :: "world \<Rightarrow> gotime \<times> world" where
  "time_now w = (w_clock w (w_tick w), w\<lparr>w_tick := Suc (w_tick w)\<rparr>)"

definition set_graph :: "world \<Rightarrow> graph \<Rightarrow> world" where
  "set_graph w g = w\<lparr>w_graph := g\<rparr>"

definition put_node :: "world \<Rightarrow> string \<Rightarrow> node \<Rightarrow> world option" where
  "put_node w i n = do {
     m \<leftarrow> gm_put (dg_nodes (w_graph w)) i n;
     Some (set_graph w ((w_graph w)\<lparr>dg_nodes := m\<rparr>))
   }"

section \<open>Events and scores\<close>

definition AddEvent :: "world \<Rightarrow> graph_event \<Rightarrow> world" where
  "AddEvent w event =
     (let g = w_graph w in
      if ge_id event \<noteq> '''' \<and> (\<exists>e \<in> set (dg_events g). ge_id e = ge_id event) then w
      else
        let (event', w') =
              (if ge_id event \<noteq> '''' then (event, w)
               else let (i, w1) = fresh_id w in (event\<lparr>ge_id := i\<rparr>, w1));
            evs = dg_events g @ [event'];
            evs' = (if dg_max_events g > 0 \<and> int (length evs) > dg_max_events g
                    then drop (nat (int (length evs) - dg_max_events g)) evs else evs)
        in set_graph w' (g\<lparr>dg_events := evs'\<rparr>))"

definition event_now :: "world \<Rightarrow> graph_event_type \<Rightarrow> string \<Rightarrow> world" where
  "event_now w typ nodeID =
     (let (t, w1) = time_now w
      in AddEvent w1 \<lparr>ge_id = '''', ge_type = typ, ge_node = nodeID, ge_evidence = no_evidence, ge_time = t\<rparr>)"

definition GetEvidenceQuality :: "string \<Rightarrow> int" where
  "GetEvidenceQuality sourceType =
     (if sourceType = ''openapi'' then 95
      else if sourceType = ''javascript'' then 70
      else if sourceType = ''wordlist'' then 20
      else 10)"

definition sensitiveKeywords :: "string list" where
  "sensitiveKeywords = [''admin'', ''internal'', ''debug'', ''config'', ''secret'', ''.env'', ''.git'', ''api'']"

definition staticExts :: "string list" where
  "staticExts = [''.png'', ''.jpg'', ''.jpeg'', ''.gif'', ''.css'', ''.svg'', ''.woff'', ''.woff2'', ''.ttf'', ''.eot'']"

definition CalculatePriority :: "node \<Rightarrow> int" where
  "CalculatePriority n =
     (let s0 = (if nd_source_type n \<in> {''javascript'', ''openapi'', ''graphql'', ''sourcemap''} then 30 else 0);
          s1 = (if ev_quality (nd_evidence n) > 0 then s0 + go_div (ev_quality (nd_evidence n)) 2 else s0);
          s2 = (if ev_confidence (nd_evidence n) > 0 then s1 + go_div (ev_confidence (nd_evidence n)) 5 else s1);
          pathLower = to_lower (nd_path n);
          s3 = (if \<exists>kw \<in> set sensitiveKeywords. contains_str pathLower kw then s2 + 50 else s2);
          s4 = (if \<exists>ext \<in> set staticExts. has_suffix pathLower ext then s3 - 50 else s3)
      in if s4 < 0 then 0 else if s4 > 100 then 100 else s4)"

definition generateSignature :: "world \<Rightarrow> string \<Rightarrow> string \<Rightarrow> string \<Rightarrow> string" where
  "generateSignature w parentID path sourceType =
     w_sha w (parentID @ ''|'' @ path @ ''|'' @ sourceType)"

section \<open>Follow-up actions\<close>

definition new_action ::
  "world \<Rightarrow> string \<Rightarrow> string \<Rightarrow> string \<Rightarrow> int \<Rightarrow> graph_event_type \<Rightarrow> action \<times> world" where
  "new_action w typ nodeID reason prio origin =
     (let (i, w1) = fresh_id w; (t, w2) = time_now w1
      in (\<lparr>ac_id = i, ac_type = typ, ac_node = nodeID, ac_reason = reason, ac_priority = prio,
           ac_status = ActionPending, ac_created = t, ac_origin = origin\<rparr>, w2))"

text \<open>The three rules of \<open>EvaluateNode\<close>, in their order.\<close>

definition rule_openapi :: "node \<Rightarrow> bool" where
  "rule_openapi n \<longleftrightarrow> nd_source_type n = ''openapi'' \<and>
     (contains_str (to_lower (nd_path n)) ''{id}'' \<or> contains_str (to_lower (nd_path n)) ''{uuid}'')"

definition rule_javascript :: "node \<Rightarrow> bool" where
  "rule_javascript n \<longleftrightarrow> nd_source_type n = ''javascript'' \<and>
     (contains_str (to_lower (nd_path n)) ''/admin'' \<or> contains_str (to_lower (nd_path n)) ''/debug'' \<or>
      contains_str (to_lower (nd_path n)) ''/internal'')"

definition rule_graphql :: "node \<Rightarrow> bool" where
  "rule_graphql n \<longleftrightarrow> nd_source_type n = ''graphql'' \<and> contains_str (to_lower (nd_path n)) ''mutation''"

definition candidate_if ::
  "bool \<Rightarrow> string \<Rightarrow> node \<Rightarrow> string \<Rightarrow> int \<Rightarrow> action list \<times> world \<Rightarrow> action list \<times> world" where
  "candidate_if c typ n reason prio = (\<lambda>(as, w).
     if c then (let (a, w1) = new_action w typ (nd_id n) reason prio GraphEventNodeAdded in (as @ [a], w1))
     else (as, w))"

definition candidate_actions :: "world \<Rightarrow> node \<Rightarrow> action list \<times> world" where
  "candidate_actions w n =
     candidate_if (rule_graphql n) ''validation'' n ''GraphQL mutation endpoint detected'' 70
      (candidate_if (rule_javascript n) ''validation'' n ''Sensitive path extracted from JS'' 80
        (candidate_if (rule_openapi n) ''paramfuzz'' n ''OpenAPI path parameter detected'' 50 ([], w)))"

text \<open>
  The loop that both \<open>EvaluateNode\<close> and \<open>UpdateEvidence\<close> end with: an action whose key is new
  is recorded, counted against the cap of the node, given a pending execution and logged; the
  loop stops at the cap. \<open>suf\<close>, \<open>cnt\<close>, \<open>inc\<close> and \<open>cap\<close> are what the two differ in.
\<close>

definition record_action :: "string \<Rightarrow> (node \<Rightarrow> node) \<Rightarrow> string \<Rightarrow> node \<Rightarrow> action \<Rightarrow> world \<Rightarrow> world option" where
  "record_action key inc nodeID node a w = do {
     hist \<leftarrow> gm_put (dg_history (w_graph w)) key ();
     w1 \<leftarrow> put_node (set_graph w ((w_graph w)\<lparr>dg_history := hist\<rparr>)) nodeID (inc node);
     let (t, w2) = time_now w1;
     execs \<leftarrow> gm_put (dg_execs (w_graph w2)) (ac_id a)
       \<lparr>ex_status = ActionPending, ex_job = '''', ex_started = t, ex_completed = 0, ex_error = ''''\<rparr>;
     Some (event_now (set_graph w2 ((w_graph w2)\<lparr>dg_execs := execs\<rparr>)) GraphEventActionCreated (nd_id node))
   }"

fun commit_actions ::
  "string \<Rightarrow> (node \<Rightarrow> int) \<Rightarrow> (node \<Rightarrow> node) \<Rightarrow> int \<Rightarrow> string \<Rightarrow> action list \<Rightarrow> world
   \<Rightarrow> (action list \<times> world) option" where
  "commit_actions suf cnt inc cap nodeID [] w = Some ([], w)"
| "commit_actions suf cnt inc cap nodeID (a # as) w = do {
     node \<leftarrow> gm_get (dg_nodes (w_graph w)) nodeID;
     let key = makeActionKey (nd_id node) (ac_type a @ suf);
     if gm_get (dg_history (w_graph w)) key \<noteq> None
     then commit_actions suf cnt inc cap nodeID as w
     else do {
       w1 \<leftarrow> record_action key inc nodeID node a w;
       if cnt (inc node) \<ge> cap then Some ([a], w1)
       else do {
         (rest, w2) \<leftarrow> commit_actions suf cnt inc cap nodeID as w1;
         Some (a # rest, w2)
       }
     }
   }"

definition inc_derived :: "node \<Rightarrow> node" where
  "inc_derived n = n\<lparr>nd_derived := nd_derived n + 1\<rparr>"

definition inc_feedback :: "node \<Rightarrow> node" where
  "inc_feedback n = n\<lparr>nd_feedback := nd_feedback n + 1\<rparr>"

definition EvaluateNode :: "world \<Rightarrow> string \<Rightarrow> (action list \<times> world) option" where
  "EvaluateNode w nodeID = do {
     node \<leftarrow> gm_get (dg_nodes (w_graph w)) nodeID;
     if nd_derived node \<ge> MaxDerivedJobsPerNode then Some ([], w)
     else (let (actions, w1) = candidate_actions w node
           in commit_actions '''' nd_derived inc_derived MaxDerivedJobsPerNode nodeID actions w1)
   }"

section \<open>Negative cache, budgets and circuit breakers\<close>

definition RecordNegativeEvidence :: "world \<Rightarrow> string \<Rightarrow> string \<Rightarrow> int \<Rightarrow> duration \<Rightarrow> world option" where
  "RecordNegativeEvidence w path method status ttl =
     (let g = w_graph w; (t, w1) = time_now w;
          old = (case gm_get (dg_negative g) path of None \<Rightarrow> [] | Some evs \<Rightarrow> evs)
      in do {
        m \<leftarrow> gm_put (dg_negative g) path
               (old @ [\<lparr>ne_method = method, ne_status = status, ne_created = t, ne_ttl = ttl\<rparr>]);
        Some (set_graph w1 (g\<lparr>dg_negative := m\<rparr>))
      })"

definition IsNegativeCached :: "graph \<Rightarrow> gotime \<Rightarrow> string \<Rightarrow> string \<Rightarrow> bool" where
  "IsNegativeCached g now path method =
     (case gm_get (dg_negative g) path of
        None \<Rightarrow> False
      | Some evs \<Rightarrow> \<exists>e \<in> set evs. ne_method e = method \<and> time_sub now (ne_created e) < ne_ttl e)"

definition IsNodeBlocked :: "graph \<Rightarrow> gotime \<Rightarrow> string \<Rightarrow> bool" where
  "IsNodeBlocked g now nodeID =
     (case gm_get (dg_nodes g) nodeID of
        None \<Rightarrow> False
      | Some n \<Rightarrow>
          if bu_max_requests (nd_budget n) > 0 \<and> bu_requests (nd_budget n) \<ge> bu_max_requests (nd_budget n) then True
          else if cb_state (nd_breaker n) = CircuitOpen then
            time_sub now (cb_opened_at (nd_breaker n)) < cb_cooldown (nd_breaker n)
          else False)"

definition breaker_success :: "breaker \<Rightarrow> breaker" where
  "breaker_success b =
     (let b1 = b\<lparr>cb_5xx := 0, cb_to := 0, cb_conn := 0\<rparr>
      in if cb_state b1 = CircuitHalfOpen then b1\<lparr>cb_state := CircuitClosed\<rparr> else b1)"

definition breaker_count :: "breaker \<Rightarrow> string \<Rightarrow> breaker" where
  "breaker_count b errClass =
     (if errClass = ''5xx'' then b\<lparr>cb_5xx := cb_5xx b + 1\<rparr>
      else if errClass = ''timeout'' then b\<lparr>cb_to := cb_to b + 1\<rparr>
      else if errClass = ''connection'' then b\<lparr>cb_conn := cb_conn b + 1\<rparr>
      else b)"

definition UpdateCircuitBreaker :: "world \<Rightarrow> string \<Rightarrow> string \<Rightarrow> world option" where
  "UpdateCircuitBreaker w nodeID errClass =
     (case gm_get (dg_nodes (w_graph w)) nodeID of
        None \<Rightarrow> Some w
      | Some n \<Rightarrow>
          if errClass = ''success'' then put_node w nodeID (n\<lparr>nd_breaker := breaker_success (nd_breaker n)\<rparr>)
          else
            let b = breaker_count (nd_breaker n) errClass in
            if cb_5xx b \<ge> 3 \<or> cb_to b \<ge> 3 \<or> cb_conn b \<ge> 3 then
              (let (t, w1) = time_now w
               in put_node w1 nodeID
                    (n\<lparr>nd_breaker := b\<lparr>cb_state := CircuitOpen, cb_opened_at := t\<rparr>,
                       nd_lifecycle := (nd_lifecycle n)\<lparr>lc_state := StateBlocked\<rparr>\<rparr>))
            else put_node w nodeID (n\<lparr>nd_breaker := b\<rparr>))"

section \<open>The feedback loop\<close>

definition bool_str :: "bool \<Rightarrow> string" where
  "bool_str b = (if b then ''true'' else ''false'')"

definition evidence_hash :: "response \<Rightarrow> string" where
  "evidence_hash r = itoa (re_status r) @ ''|'' @ re_content_type r @ ''|'' @ itoa (re_length r) @ ''|'' @
     bool_str (re_interesting r) @ ''|'' @ re_reason r"

definition score_response :: "response \<Rightarrow> node \<Rightarrow> node" where
  "score_response r n =
     (if re_status r = 404 \<or> re_status r = 410 then n\<lparr>nd_confidence := nd_confidence n - 20\<rparr>
      else if re_status r = 403 \<or> re_status r = 401 then
        n\<lparr>nd_confidence := nd_confidence n + 20, nd_risk := nd_risk n + 40, nd_priority := nd_priority n + 40\<rparr>
      else if re_status r = 500 then n\<lparr>nd_risk := nd_risk n + 10\<rparr>
      else if re_status r = 200 then
        (let n1 = n\<lparr>nd_confidence := nd_confidence n + 10, nd_priority := nd_priority n + 20\<rparr>
         in if re_interesting r then n1\<lparr>nd_risk := nd_risk n1 + 30\<rparr> else n1)
      else if re_status r = 0 then n\<lparr>nd_confidence := nd_confidence n - 5\<rparr>
      else n)"

definition enforce_bounds :: "node \<Rightarrow> node" where
  "enforce_bounds n =
     n\<lparr>nd_confidence := (let c = nd_confidence n in let c1 = (if c < 0 then 0 else c) in if c1 > 100 then 100 else c1),
       nd_priority := (if nd_priority n < 0 then 0 else nd_priority n),
       nd_risk := (let r = nd_risk n in let r1 = (if r < 0 then 0 else r) in if r1 > 100 then 100 else r1)\<rparr>"

definition UpdateEvidence :: "world \<Rightarrow> string \<Rightarrow> response \<Rightarrow> (action list \<times> world) option" where
  "UpdateEvidence w nodeID resp =
     (case gm_get (dg_nodes (w_graph w)) nodeID of
        None \<Rightarrow> Some ([], w)
      | Some n \<Rightarrow>
          if nd_last_hash n = evidence_hash resp then Some ([], w)
          else
            let w1 = event_now w GraphEventResponseObserved (nd_id n);
                n2 = enforce_bounds (score_response resp (n\<lparr>nd_last_hash := evidence_hash resp\<rparr>))
            in do {
              w2 \<leftarrow> put_node w1 nodeID n2;
              if nd_feedback n2 \<ge> MaxFeedbackActionsPerNode then Some ([], w2)
              else
                let (actions, w3) =
                  (if re_status resp = 403 \<or> re_status resp = 401
                   then let (a, w3) = new_action w2 ''validation'' (nd_id n2)
                              ''403 Forbidden response during feedback'' 85 GraphEventResponseObserved
                        in ([a], w3)
                   else ([], w2))
                in commit_actions ''_feedback'' nd_feedback inc_feedback MaxFeedbackActionsPerNode nodeID actions w3
            })"

section \<open>Adding nodes\<close>

definition init_maps :: "graph \<Rightarrow> graph" where
  "init_maps g =
     (if dg_nodes g = None then
        g\<lparr>dg_nodes := gm_make, dg_by_sig := gm_make, dg_by_path := gm_make, dg_history := gm_make,
          dg_execs := gm_make, dg_events := []\<rparr>
      else g)"

definition fresh_lifecycle :: "gotime \<Rightarrow> lifecycle" where
  "fresh_lifecycle t =
     \<lparr>lc_state = StateDiscovered, lc_last_seen = t, lc_last_tested = 0, lc_hits = 0,
      lc_archive_after = 30 * 24 * hour, lc_archived = False\<rparr>"

definition fresh_breaker :: breaker where
  "fresh_breaker =
     \<lparr>cb_state = CircuitClosed, cb_5xx = 0, cb_to = 0, cb_conn = 0, cb_opened_at = 0, cb_cooldown = 10 * minute\<rparr>"

definition fresh_budget :: budget where
  "fresh_budget =
     \<lparr>bu_requests = 0, bu_bytes = 0, bu_time = 0, bu_max_requests = 50000,
      bu_max_bytes = 500 * 1024 * 1024, bu_max_time = 24 * hour\<rparr>"

definition fresh_node :: "string \<Rightarrow> node_kind \<Rightarrow> string \<Rightarrow> string \<Rightarrow> string \<Rightarrow> string \<Rightarrow> evidence \<Rightarrow> gotime \<Rightarrow> gotime \<Rightarrow> node" where
  "fresh_node i kind path label parentID sourceType e seen seen2 =
     \<lparr>nd_id = i, nd_target = '''', nd_kind = kind, nd_path = path, nd_label = label, nd_parent = parentID,
      nd_source_type = sourceType, nd_evidence = e, nd_lifecycle = fresh_lifecycle seen2,
      nd_breaker = fresh_breaker, nd_budget = fresh_budget, nd_first_seen = seen, nd_first_by = parentID,
      nd_confidence = 0, nd_priority = 0, nd_risk = 0, nd_tags = [], nd_derived = 0, nd_feedback = 0,
      nd_last_hash = '''', nd_children = gm_make\<rparr>"

definition AddSourceNode :: "world \<Rightarrow> string \<Rightarrow> string \<Rightarrow> (string \<times> action list \<times> world) option" where
  "AddSourceNode w label sourceType =
     (let w0 = set_graph w (init_maps (w_graph w)); sig = generateSignature w0 '''' '''' sourceType in
      case gm_get (dg_by_sig (w_graph w0)) sig of
        Some existingID \<Rightarrow> Some (existingID, [], w0)
      | None \<Rightarrow>
          let (i, w1) = fresh_id w0; (seen, w2) = time_now w1; (seen2, w3) = time_now w2;
              n0 = fresh_node i NodeSource '''' label '''' sourceType no_evidence seen seen2;
              n1 = n0\<lparr>nd_evidence := (nd_evidence n0)\<lparr>ev_quality := GetEvidenceQuality sourceType\<rparr>\<rparr>;
              n2 = n1\<lparr>nd_priority := CalculatePriority n1\<rparr>
          in do {
            w4 \<leftarrow> put_node w3 i n2;
            sigs \<leftarrow> gm_put (dg_by_sig (w_graph w4)) sig i;
            let w5 = event_now (set_graph w4 ((w_graph w4)\<lparr>dg_by_sig := sigs\<rparr>)) GraphEventNodeAdded i;
            (actions, w6) \<leftarrow> EvaluateNode w5 i;
            Some (i, actions, w6)
          })"

definition link_child :: "world \<Rightarrow> string \<Rightarrow> string \<Rightarrow> world option" where
  "link_child w parentID i =
     (if parentID \<noteq> '''' then
        (case gm_get (dg_nodes (w_graph w)) parentID of
           None \<Rightarrow> Some w
         | Some p \<Rightarrow> do {
             cs \<leftarrow> gm_put (if nd_children p = None then gm_make else nd_children p) i ();
             put_node w parentID (p\<lparr>nd_children := cs\<rparr>)
           })
      else Some w)"

definition AddPathNode ::
  "world \<Rightarrow> string \<Rightarrow> string \<Rightarrow> string \<Rightarrow> string \<Rightarrow> evidence \<Rightarrow> (string \<times> action list \<times> world) option" where
  "AddPathNode w parentID path label sourceType e =
     (let w0 = set_graph w (init_maps (w_graph w)); sig = generateSignature w0 parentID path sourceType in
      case gm_get (dg_by_sig (w_graph w0)) sig of
        Some existingID \<Rightarrow> do {
          (actions, w1) \<leftarrow> EvaluateNode w0 existingID;
          Some (existingID, actions, w1)
        }
      | None \<Rightarrow>
          let (i, w1) = fresh_id w0; (seen, w2) = time_now w1; (seen2, w3) = time_now w2;
              n0 = fresh_node i NodePath path label parentID sourceType e seen seen2;
              n1 = (if ev_quality (nd_evidence n0) = 0
                    then n0\<lparr>nd_evidence := (nd_evidence n0)\<lparr>ev_quality := GetEvidenceQuality sourceType\<rparr>\<rparr> else n0);
              n2 = n1\<lparr>nd_priority := CalculatePriority n1\<rparr>
          in do {
            w4 \<leftarrow> put_node w3 i n2;
            sigs \<leftarrow> gm_put (dg_by_sig (w_graph w4)) sig i;
            paths \<leftarrow> gm_put (dg_by_path (w_graph w4)) path
                       ((case gm_get (dg_by_path (w_graph w4)) path of None \<Rightarrow> [] | Some l \<Rightarrow> l) @ [i]);
            w5 \<leftarrow> link_child (set_graph w4 ((w_graph w4)\<lparr>dg_by_sig := sigs, dg_by_path := paths\<rparr>)) parentID i;
            (actions, w7) \<leftarrow> EvaluateNode (event_now w5 GraphEventNodeAdded i) i;
            Some (i, actions, w7)
          })"

section \<open>Queries\<close>

definition copy_children :: "(string, unit) gomap \<Rightarrow> (string, unit) gomap" where
  "copy_children m = map_option (map (\<lambda>(c, _). (c, ()))) m"

definition GetSnapshot :: "graph \<Rightarrow> graph" where
  "GetSnapshot g =
     \<lparr>dg_version = dg_version g, dg_max_events = 0, dg_max_nodes = 0,
      dg_nodes = Some (map (\<lambda>(k, n). (k, n\<lparr>nd_children := copy_children (nd_children n)\<rparr>)) (gm_items (dg_nodes g))),
      dg_by_sig = Some (gm_items (dg_by_sig g)), dg_by_path = Some (gm_items (dg_by_path g)),
      dg_history = None, dg_execs = None, dg_events = [], dg_negative = None\<rparr>"

definition all_nodes :: "graph \<Rightarrow> node list" where
  "all_nodes g = map snd (gm_items (dg_nodes g))"

definition FindPathsBySource :: "graph \<Rightarrow> string \<Rightarrow> node list" where
  "FindPathsBySource g sourceType = filter (\<lambda>n. nd_source_type n = sourceType) (all_nodes g)"

definition FindOrphanNodes :: "graph \<Rightarrow> node list" where
  "FindOrphanNodes g = filter (\<lambda>n. gm_len (nd_children n) = 0) (all_nodes g)"

definition GetHighPriorityNodes :: "graph \<Rightarrow> int \<Rightarrow> node list" where
  "GetHighPriorityNodes g minScore = filter (\<lambda>n. nd_priority n \<ge> minScore) (all_nodes g)"

record graph_summary =
  gs_total :: int
  gs_by_kind :: "(string \<times> int) list"
  gs_by_source :: "(string \<times> int) list"
  gs_orphans :: int
  gs_high :: int

definition tally :: "string \<Rightarrow> (string \<times> int) list \<Rightarrow> (string \<times> int) list" where
  "tally k m = AList.update k ((case map_of m k of None \<Rightarrow> 0 | Some c \<Rightarrow> c) + 1) m"

definition summary_step :: "graph_summary \<Rightarrow> node \<Rightarrow> graph_summary" where
  "summary_step s n =
     s\<lparr>gs_by_kind := tally (nd_kind n) (gs_by_kind s),
       gs_by_source := tally (if nd_source_type n \<noteq> '''' then nd_source_type n else ''unknown'') (gs_by_source s),
       gs_orphans := (if gm_len (nd_children n) = 0 then gs_orphans s + 1 else gs_orphans s),
       gs_high := (if nd_priority n \<ge> 50 then gs_high s + 1 else gs_high s)\<rparr>"

definition ExportSummary :: "graph \<Rightarrow> graph_summary" where
  "ExportSummary g =
     foldl summary_step
       \<lparr>gs_total = gm_len (dg_nodes g), gs_by_kind = [], gs_by_source = [], gs_orphans = 0, gs_high = 0\<rparr>
       (all_nodes g)"

lemmas [step_defs] =
  fresh_id_def time_now_def set_graph_def put_node_def

end
