(* ===== verification/GraphCheck.thy ===== *)
theory GraphCheck
  imports DiscoveryGraph
begin

text \<open>
  Consistency of the discovery graph, \<open>pkg/engine/discovery_graph_export.go\<close>: \<open>ValidateGraph\<close>,
  the depth-first cycle search \<open>DetectCycles\<close> and the Graphviz export. The search runs on fuel,
  one unit per nested call; the number of nodes plus two is enough, because every nested call
  that goes deeper marks one more node as visited. The cycle search is proved to report an
  error exactly when the child edges have a cycle.
\<close>

section \<open>The cycle search\<close>

definition cycle_error :: "string \<Rightarrow> goerror" where
  "cycle_error i = ''graph cycle detected at node '' @ i"

definition node_children :: "graph \<Rightarrow> string \<Rightarrow> string list option" where
  "node_children g i = map_option (\<lambda>n. gm_keys (nd_children n)) (gm_get (dg_nodes g) i)"

text \<open>The state is the pair of the visited nodes and of the recursion stack; \<open>None\<close> is no fuel.\<close>

type_synonym dfs_state = "string list \<times> string list"

function (sequential) detect :: "nat \<Rightarrow> graph \<Rightarrow> string \<Rightarrow> dfs_state \<Rightarrow> dfs_state result option"
and detect_children :: "nat \<Rightarrow> graph \<Rightarrow> string list \<Rightarrow> dfs_state \<Rightarrow> dfs_state result option"
where
  "detect 0 g i s = None"
| "detect (Suc f) g i (vis, stk) =
     (if i \<in> set stk then Some (Inl (cycle_error i))
      else if i \<in> set vis then Some (Inr (vis, stk))
      else case node_children g i of
        None \<Rightarrow> Some (Inr (i # vis, removeAll i (i # stk)))
      | Some cs \<Rightarrow>
          (case detect_children f g cs (i # vis, i # stk) of
             Some (Inr (vis', stk')) \<Rightarrow> Some (Inr (vis', removeAll i stk'))
           | r \<Rightarrow> r))"
| "detect_children f g [] s = Some (Inr s)"
| "detect_children f g (c # cs) s =
     (case detect f g c s of Some (Inr s') \<Rightarrow> detect_children f g cs s' | r \<Rightarrow> r)"
  by pat_completeness auto
termination
  by (relation "measures [\<lambda>x. case x of Inl (f, _) \<Rightarrow> f | Inr (f, _) \<Rightarrow> f,
                          \<lambda>x. case x of Inl _ \<Rightarrow> 0 | Inr (_, _, cs, _) \<Rightarrow> Suc (length cs)]") auto

fun detect_roots :: "nat \<Rightarrow> graph \<Rightarrow> string list \<Rightarrow> dfs_state \<Rightarrow> dfs_state result option" where
  "detect_roots f g [] s = Some (Inr s)"
| "detect_roots f g (i # is) s =
     (if i \<in> set (fst s) then detect_roots f g is s
      else case detect f g i s of Some (Inr s') \<Rightarrow> detect_roots f g is s' | r \<Rightarrow> r)"

definition DetectCycles :: "graph \<Rightarrow> unit result option" where
  "DetectCycles g =
     map_option (map_sum id (\<lambda>_. ()))
       (detect_roots (length (gm_keys (dg_nodes g)) + 2) g (gm_keys (dg_nodes g)) ([], []))"

section \<open>Validation and export\<close>

definition validate_node :: "graph \<Rightarrow> string \<times> node \<Rightarrow> unit result" where
  "validate_node g kn =
     (let (k, n) = kn in
      if nd_id n \<noteq> k then Inl (''node ID mismatch: key='' @ k @ '', node.ID='' @ nd_id n)
      else if nd_confidence n < 0 \<or> nd_confidence n > 100 then
        Inl (''node '' @ k @ '' has invalid confidence '' @ itoa (nd_confidence n))
      else if nd_risk n < 0 \<or> nd_risk n > 100 then
        Inl (''node '' @ k @ '' has invalid risk score '' @ itoa (nd_risk n))
      else if nd_priority n < 0 then
        Inl (''node '' @ k @ '' has invalid priority score '' @ itoa (nd_priority n))
      else if nd_parent n \<noteq> '''' \<and> gm_get (dg_nodes g) (nd_parent n) = None then
        Inl (''node '' @ k @ '' has orphan ParentID '' @ nd_parent n)
      else case find (\<lambda>c. gm_get (dg_nodes g) c = None) (gm_keys (nd_children n)) of
        Some c \<Rightarrow> Inl (''node '' @ k @ '' has orphan child '' @ c)
      | None \<Rightarrow> Inr ())"

fun validate_nodes :: "graph \<Rightarrow> (string \<times> node) list \<Rightarrow> unit result" where
  "validate_nodes g [] = Inr ()"
| "validate_nodes g (kn # kns) =
     (case validate_node g kn of Inl e \<Rightarrow> Inl e | Inr _ \<Rightarrow> validate_nodes g kns)"

definition ValidateGraph :: "graph \<Rightarrow> unit result option" where
  "ValidateGraph g =
     (case validate_nodes g (gm_items (dg_nodes g)) of
        Inl e \<Rightarrow> Some (Inl e)
      | Inr _ \<Rightarrow> DetectCycles g)"

definition dot_quote :: "string \<Rightarrow> string" where
  "dot_quote s = replace_byte (CHR 0x22) [CHR 0x5C, CHR 0x22] s"

definition dot_node :: "string \<times> node \<Rightarrow> string" where
  "dot_node kn =
     (let (k, n) = kn; q = [CHR 0x22];
          label = (if nd_path n = '''' then nd_label n else nd_path n);
          color = (if nd_risk n > 50 then ''lightpink''
                   else if nd_confidence n > 50 then ''lightblue'' else ''lightgrey'')
      in ''  '' @ q @ k @ q @ '' [label='' @ q @ dot_quote label @ q @ '', fillcolor='' @ q @ color @ q @ ''];'' @ [CHR 0x0A] @
         concat (map (\<lambda>c. ''  '' @ q @ k @ q @ '' -> '' @ q @ c @ q @ '';'' @ [CHR 0x0A]) (gm_keys (nd_children n))))"

definition ExportDOT :: "graph \<Rightarrow> string" where
  "ExportDOT g =
     ''digraph Discovery {'' @ [CHR 0x0A] @ ''  rankdir=LR;'' @ [CHR 0x0A] @
     ''  node [shape=box, style=filled, fontname='' @ [CHR 0x22] @ ''Helvetica'' @ [CHR 0x22] @ ''];'' @ [CHR 0x0A] @
     concat (map dot_node (gm_items (dg_nodes g))) @ ''}'' @ [CHR 0x0A]"

record export_node =
  xn_id :: string
  xn_path :: string
  xn_parent :: string
  xn_priority :: int
  xn_risk :: int
  xn_confidence :: int
  xn_source_type :: string
  xn_quality :: int
  xn_state :: int

fun state_number :: "node_state \<Rightarrow> int" where
  "state_number StateDiscovered = 0"
| "state_number StateQueued = 1"
| "state_number StateTested = 2"
| "state_number StateConfirmed = 3"
| "state_number StateRejected = 4"
| "state_number StateStale = 5"
| "state_number StateBlocked = 6"
| "state_number StateRetesting = 7"

text \<open>The rows that \<open>ExportJSON\<close> hands to the JSON encoder.\<close>

definition ExportJSON_rows :: "graph \<Rightarrow> export_node list" where
  "ExportJSON_rows g =
     map (\<lambda>n. \<lparr>xn_id = nd_id n, xn_path = nd_path n, xn_parent = nd_parent n, xn_priority = nd_priority n,
               xn_risk = nd_risk n, xn_confidence = nd_confidence n, xn_source_type = nd_source_type n,
               xn_quality = ev_quality (nd_evidence n), xn_state = state_number (lc_state (nd_lifecycle n))\<rparr>)
       (all_nodes g)"

section \<open>The search is total\<close>

definition known :: "graph \<Rightarrow> string set" where
  "known g = set (gm_keys (dg_nodes g))"

lemma finite_known [simp]: "finite (known g)"
  by (simp add: known_def)

lemma node_children_known: "node_children g i = Some cs \<Longrightarrow> i \<in> known g"
  using gm_get_keys [of "dg_nodes g" i] by (auto simp: node_children_def known_def)

text \<open>What a successful search leaves: the stack as it was, more visited nodes, the start among them.\<close>

lemma detect_frame:
  "detect f g i s = Some (Inr s') \<Longrightarrow>
     snd s' = snd s \<and> set (fst s) \<subseteq> set (fst s') \<and> i \<in> set (fst s') \<and> i \<notin> set (snd s)"
  "detect_children f g cs s = Some (Inr s') \<Longrightarrow>
     snd s' = snd s \<and> set (fst s) \<subseteq> set (fst s') \<and> set cs \<subseteq> set (fst s') \<and> set cs \<inter> set (snd s) = {}"
proof (induction f g i s and f g cs s arbitrary: s' and s' rule: detect_detect_children.induct)
  case (2 f g i vis stk)
  show ?case
  proof (cases "i \<in> set stk \<or> i \<in> set vis")
    case True
    with 2(2) show ?thesis by (auto split: if_splits)
  next
    case new: False
    show ?thesis
    proof (cases "node_children g i")
      case None
      with 2(2) new show ?thesis by (auto simp: removeAll_id)
    next
      case (Some cs)
      with 2(2) new obtain vis' stk' where
        r: "detect_children f g cs (i # vis, i # stk) = Some (Inr (vis', stk'))"
           "s' = (vis', removeAll i stk')"
        by (auto split: option.splits sum.splits)
      have "stk' = i # stk" "set (i # vis) \<subseteq> set vis'"
        using 2(1) [of cs "(vis', stk')"] new Some r by simp_all
      with r new show ?thesis by (simp add: removeAll_id)
    qed
  qed
next
  case (4 f g c cs s)
  then obtain s1 where r: "detect f g c s = Some (Inr s1)" "detect_children f g cs s1 = Some (Inr s')"
    by (auto split: option.splits sum.splits)
  from 4(1) [OF r(1)] 4(2) [OF r(1) refl r(2)] show ?case by auto
qed auto

text \<open>Every node that is entered is new, so the nodes not visited yet bound the depth.\<close>

lemma detect_total:
  "card (known g - set (fst s)) < f \<Longrightarrow> detect f g i s \<noteq> None"
  "card (known g - set (fst s)) < f \<Longrightarrow> detect_children f g cs s \<noteq> None"
proof (induction f g i s and f g cs s rule: detect_detect_children.induct)
  case (2 f g i vis stk)
  show ?case
  proof (cases "i \<in> set stk \<or> i \<in> set vis \<or> node_children g i = None")
    case False
    then obtain cs where cs: "node_children g i = Some cs" "i \<in> known g - set vis"
      by (auto dest: node_children_known)
    have "known g - set (i # vis) \<subset> known g - set vis"
      using cs by auto
    from psubset_card_mono [OF _ this] 2(2) have "card (known g - set (i # vis)) < f"
      by simp
    with 2(1) [of cs] cs False show ?thesis
      by (auto split: option.splits sum.splits)
  qed auto
next
  case (4 f g c cs s)
  show ?case
  proof (cases "detect f g c s")
    case (Some r)
    show ?thesis
    proof (cases r)
      case (Inr s1)
      have "known g - set (fst s1) \<subseteq> known g - set (fst s)"
        using detect_frame(1) [of f g c s s1] Some Inr by auto
      from card_mono [OF _ this] 4(3) have "card (known g - set (fst s1)) < f" by simp
      with 4(2) [OF Some Inr] Some Inr show ?thesis by simp
    qed (use Some in auto)
  qed (use 4 in auto)
qed auto

lemma detect_roots_total:
  "card (known g - set (fst s)) < f \<Longrightarrow> detect_roots f g is s \<noteq> None"
proof (induction "is" arbitrary: s)
  case (Cons i "is")
  show ?case
  proof (cases "i \<in> set (fst s)")
    case False
    from detect_total(1) [OF Cons.prems] obtain r where r: "detect f g i s = Some r" by blast
    show ?thesis
    proof (cases r)
      case (Inr s1)
      have "known g - set (fst s1) \<subseteq> known g - set (fst s)"
        using detect_frame(1) [of f g i s s1] r Inr by auto
      from card_mono [OF _ this] Cons.prems have "card (known g - set (fst s1)) < f" by simp
      with Cons.IH r Inr False show ?thesis by simp
    qed (use r False in auto)
  qed (use Cons in auto)
qed simp

section \<open>The search decides acyclicity\<close>

definition edges :: "graph \<Rightarrow> (string \<times> string) set" where
  "edges g = {(a, b). \<exists>cs. node_children g a = Some cs \<and> b \<in> set cs}"

text \<open>A set of nodes that the search is done with: closed under children, and on no cycle.\<close>

definition settled :: "graph \<Rightarrow> string set \<Rightarrow> bool" where
  "settled g D \<longleftrightarrow> (\<forall>a b. (a, b) \<in> edges g \<longrightarrow> a \<in> D \<longrightarrow> b \<in> D) \<and> (\<forall>a \<in> D. (a, a) \<notin> (edges g)\<^sup>+)"

lemma settled_trancl: "(a, b) \<in> (edges g)\<^sup>+ \<Longrightarrow> settled g D \<Longrightarrow> a \<in> D \<Longrightarrow> b \<in> D"
  by (induction rule: trancl_induct) (auto simp: settled_def)

lemma settled_insert:
  assumes D: "settled g D" and succs: "\<And>b. (i, b) \<in> edges g \<Longrightarrow> b \<in> D" and i: "i \<notin> D"
  shows "settled g (insert i D)"
proof -
  have "(i, i) \<notin> (edges g)\<^sup>+"
  proof
    assume "(i, i) \<in> (edges g)\<^sup>+"
    then obtain b where "(i, b) \<in> edges g" "b = i \<or> (b, i) \<in> (edges g)\<^sup>+"
      by (metis tranclD rtranclD)
    with succs [of b] i settled_trancl [OF _ D, of b i] show False by auto
  qed
  with D succs show ?thesis by (auto simp: settled_def)
qed

lemma detect_settled:
  "detect f g i s = Some (Inr s') \<Longrightarrow> settled g (set (fst s) - set (snd s)) \<Longrightarrow>
     settled g (set (fst s') - set (snd s'))"
  "detect_children f g cs s = Some (Inr s') \<Longrightarrow> settled g (set (fst s) - set (snd s)) \<Longrightarrow>
     settled g (set (fst s') - set (snd s'))"
proof (induction f g i s and f g cs s arbitrary: s' and s' rule: detect_detect_children.induct)
  case (2 f g i vis stk)
  show ?case
  proof (cases "i \<in> set stk \<or> i \<in> set vis")
    case True
    with 2 show ?thesis by (auto split: if_splits)
  next
    case new: False
    show ?thesis
    proof (cases "node_children g i")
      case None
      with 2(2) new have "s' = (i # vis, stk)" by (auto simp: removeAll_id)
      moreover have "set (i # vis) - set stk = insert i (set vis - set stk)" using new by auto
      moreover have "settled g (insert i (set vis - set stk))"
        using 2(3) new None by (intro settled_insert) (auto simp: edges_def)
      ultimately show ?thesis by simp
    next
      case (Some cs)
      with 2(2) new obtain vis' stk' where
        r: "detect_children f g cs (i # vis, i # stk) = Some (Inr (vis', stk'))"
           "s' = (vis', removeAll i stk')"
        by (auto split: option.splits sum.splits)
      have fr: "stk' = i # stk" "set (i # vis) \<subseteq> set vis'" "set cs \<subseteq> set vis'" "set cs \<inter> set (i # stk) = {}"
        using detect_frame(2) [OF r(1)] by auto
      have "set (i # vis) - set (i # stk) = set vis - set stk" using new by auto
      then have "settled g (set vis' - set (i # stk))"
        using 2(1) [of cs "(vis', stk')"] 2(3) new Some r(1) fr(1) by simp
      then have "settled g (insert i (set vis' - set (i # stk)))"
        using Some fr by (intro settled_insert) (auto simp: edges_def)
      moreover have "insert i (set vis' - set (i # stk)) = set vis' - set stk" using new fr by auto
      ultimately show ?thesis using r(2) fr(1) new by (simp add: removeAll_id)
    qed
  qed
next
  case (4 f g c cs s)
  then obtain s1 where r: "detect f g c s = Some (Inr s1)" "detect_children f g cs s1 = Some (Inr s')"
    by (auto split: option.splits sum.splits)
  from 4(2) [OF r(1) refl r(2) 4(1) [OF r(1) 4(4)]] show ?case .
qed auto

lemma detect_error_cycle:
  "detect f g i s = Some (Inl e) \<Longrightarrow> \<forall>x \<in> set (snd s). (x, i) \<in> (edges g)\<^sup>+ \<Longrightarrow> \<not> acyclic (edges g)"
  "detect_children f g cs s = Some (Inl e) \<Longrightarrow> \<forall>x \<in> set (snd s). \<forall>c \<in> set cs. (x, c) \<in> (edges g)\<^sup>+ \<Longrightarrow>
     \<not> acyclic (edges g)"
proof (induction f g i s and f g cs s rule: detect_detect_children.induct)
  case (2 f g i vis stk)
  show ?case
  proof (cases "i \<in> set stk")
    case True
    with 2(3) show ?thesis by (auto simp: acyclic_def)
  next
    case False
    with 2(2) obtain cs where cs: "node_children g i = Some cs" "i \<notin> set vis"
      and r: "detect_children f g cs (i # vis, i # stk) = Some (Inl e)"
      by (auto split: option.splits sum.splits if_splits)
    have "(x, c) \<in> (edges g)\<^sup>+" if "x \<in> set (i # stk)" "c \<in> set cs" for x c
    proof -
      have "(i, c) \<in> edges g" using cs(1) that(2) by (auto simp: edges_def)
      with 2(3) that(1) show ?thesis by (auto intro: trancl_into_trancl)
    qed
    with 2(1) [OF False cs(2) cs(1) r] show ?thesis by simp
  qed
next
  case (4 f g c cs s)
  show ?case
  proof (cases "detect f g c s")
    case (Some r)
    show ?thesis
    proof (cases r)
      case (Inl e')
      with 4(1) 4(3,4) Some show ?thesis by auto
    next
      case (Inr s1)
      with 4(2) [OF Some Inr] 4(3,4) Some detect_frame(1) [of f g c s s1] show ?thesis by auto
    qed
  qed (use 4 in auto)
qed auto

lemma detect_roots_ok:
  "detect_roots f g is s = Some (Inr s') \<Longrightarrow> snd s = [] \<Longrightarrow> settled g (set (fst s)) \<Longrightarrow>
     set is \<union> set (fst s) \<subseteq> set (fst s') \<and> settled g (set (fst s'))"
proof (induction "is" arbitrary: s)
  case (Cons i "is")
  show ?case
  proof (cases "i \<in> set (fst s)")
    case False
    with Cons.prems(1) obtain s1 where r: "detect f g i s = Some (Inr s1)" "detect_roots f g is s1 = Some (Inr s')"
      by (auto split: option.splits sum.splits)
    from detect_frame(1) [OF r(1)] detect_settled(1) [OF r(1)] Cons.IH [OF r(2)] Cons.prems(2,3)
    show ?thesis by auto
  next
    case True
    with Cons.IH [of s] Cons.prems show ?thesis by auto
  qed
qed auto

lemma detect_roots_error:
  "detect_roots f g is s = Some (Inl e) \<Longrightarrow> snd s = [] \<Longrightarrow> \<not> acyclic (edges g)"
proof (induction "is" arbitrary: s)
  case (Cons i "is")
  show ?case
  proof (cases "i \<in> set (fst s)")
    case False
    then show ?thesis
    proof (cases "detect f g i s")
      case (Some r)
      then show ?thesis
      proof (cases r)
        case (Inl e')
        with detect_error_cycle(1) [of f g i s e'] Some Cons.prems(2) show ?thesis by simp
      next
        case (Inr s1)
        with Cons.IH [of s1] Cons.prems False Some detect_frame(1) [of f g i s s1] show ?thesis by simp
      qed
    qed (use Cons.prems False in auto)
  qed (use Cons in auto)
qed simp

lemma DetectCycles_correct:
  "(\<exists>r. DetectCycles g = Some r) \<and> (DetectCycles g = Some (Inr ()) \<longleftrightarrow> acyclic (edges g))"
proof -
  let ?ks = "gm_keys (dg_nodes g)"
  have "card (known g) \<le> length ?ks" by (simp add: known_def card_length)
  then obtain r where r: "detect_roots (length ?ks + 2) g ?ks ([], []) = Some r"
    using detect_roots_total [of g "([], [])" "length ?ks + 2" ?ks] by auto
  have cyc: "acyclic (edges g)" if "r = Inr s" for s
  proof -
    have "settled g (set (fst s))" "known g \<subseteq> set (fst s)"
      using detect_roots_ok [of "length ?ks + 2" g ?ks "([], [])" s] r that
      by (auto simp: settled_def known_def)
    moreover have "a \<in> known g" if "(a, a) \<in> (edges g)\<^sup>+" for a
      using that by (auto dest!: tranclD simp: edges_def dest: node_children_known)
    ultimately show ?thesis unfolding acyclic_def settled_def by blast
  qed
  show ?thesis
  proof (cases r)
    case (Inl e)
    with r detect_roots_error [of "length ?ks + 2" g ?ks "([], [])" e] show ?thesis
      by (simp add: DetectCycles_def)
  next
    case (Inr s)
    with r cyc show ?thesis by (simp add: DetectCycles_def)
  qed
qed

lemma DetectCycles_acyclic: "acyclic (edges g) \<Longrightarrow> DetectCycles g = Some (Inr ())"
  using DetectCycles_correct [of g] by simp

text \<open>C18: \<open>DetectCycles\<close> always returns, and it returns no error exactly when no chain of
  child links leads from a node back to itself.\<close>

theorem DetectCycles_iff_acyclic:
  "(\<exists>r. DetectCycles g = Some r) \<and> (DetectCycles g = Some (Inr ()) \<longleftrightarrow> acyclic (edges g))"
  by (rule DetectCycles_correct)

end
