(* ===== verification/GraphBuild.thy ===== *)
theory GraphBuild
  imports GraphCheck
begin

text \<open>
  Graphs that the operations of \<open>pkg/engine/discovery_graph.go\<close> build: a world invariant
  (\<open>world_wf\<close>) that every operation keeps, the induction over the operations (\<open>built\<close>),
  and its consequences: no operation panics, and \<open>ValidateGraph\<close> accepts the graph.
  The UUID supplier is assumed to give a new non-empty identifier every time.
\<close>

section \<open>The invariant\<close>

definition node_ok :: "string \<Rightarrow> node \<Rightarrow> bool" where
  "node_ok k n \<longleftrightarrow> nd_id n = k \<and> 0 \<le> nd_confidence n \<and> nd_confidence n \<le> 100 \<and>
     0 \<le> nd_risk n \<and> nd_risk n \<le> 100 \<and> 0 \<le> nd_priority n \<and>
     nd_derived n \<le> MaxDerivedJobsPerNode \<and> nd_feedback n \<le> MaxFeedbackActionsPerNode \<and>
     cb_state (nd_breaker n) \<noteq> CircuitHalfOpen"

definition same_links :: "node \<Rightarrow> node \<Rightarrow> bool" where
  "same_links n n' \<longleftrightarrow> nd_parent n' = nd_parent n \<and> nd_children n' = nd_children n"

definition maps_made :: "graph \<Rightarrow> bool" where
  "maps_made g \<longleftrightarrow> dg_nodes g \<noteq> None \<and> dg_by_sig g \<noteq> None \<and> dg_by_path g \<noteq> None \<and>
     dg_history g \<noteq> None \<and> dg_execs g \<noteq> None \<and> dg_negative g \<noteq> None"

definition uuids_fresh :: "world \<Rightarrow> bool" where
  "uuids_fresh w \<longleftrightarrow> inj (w_uuid w) \<and> (\<forall>n. w_uuid w n \<noteq> '''')"

definition later :: "world \<Rightarrow> string \<Rightarrow> string \<Rightarrow> bool" where
  "later w a b \<longleftrightarrow> (\<exists>i j. a = w_uuid w i \<and> b = w_uuid w j \<and> i < j)"

definition world_wf :: "world \<Rightarrow> bool" where
  "world_wf w \<longleftrightarrow> uuids_fresh w \<and> maps_made (w_graph w) \<and> gm_ok (dg_nodes (w_graph w)) \<and>
     known (w_graph w) \<subseteq> w_uuid w ` {..<w_next w} \<and>
     (\<forall>k n. gm_get (dg_nodes (w_graph w)) k = Some n \<longrightarrow>
        node_ok k n \<and> (nd_parent n = '''' \<or> nd_parent n \<in> known (w_graph w)) \<and>
        set (gm_keys (nd_children n)) \<subseteq> known (w_graph w) \<and>
        (\<forall>c \<in> set (gm_keys (nd_children n)). later w k c)) \<and>
     (\<forall>s i. gm_get (dg_by_sig (w_graph w)) s = Some i \<longrightarrow> i \<in> known (w_graph w))"

lemma known_get: "k \<in> known g \<longleftrightarrow> (\<exists>n. gm_get (dg_nodes g) k = Some n)"
  using gm_get_keys [of "dg_nodes g" k] by (auto simp: known_def)

text \<open>Steps that keep the links: the nodes keep identifiers, parents and children.\<close>

definition relinks :: "world \<Rightarrow> world \<Rightarrow> bool" where
  "relinks w w' \<longleftrightarrow> w_uuid w' = w_uuid w \<and> w_next w \<le> w_next w' \<and>
     (maps_made (w_graph w) \<longrightarrow> maps_made (w_graph w')) \<and>
     dg_by_sig (w_graph w') = dg_by_sig (w_graph w) \<and>
     (gm_ok (dg_nodes (w_graph w)) \<longrightarrow> gm_ok (dg_nodes (w_graph w'))) \<and>
     known (w_graph w') = known (w_graph w) \<and>
     (\<forall>k n. gm_get (dg_nodes (w_graph w)) k = Some n \<longrightarrow>
        (\<exists>n'. gm_get (dg_nodes (w_graph w')) k = Some n' \<and> same_links n n' \<and>
              (node_ok k n \<longrightarrow> node_ok k n')))"

lemma relinks_refl [simp]: "relinks w w"
  by (simp add: relinks_def same_links_def)

lemma relinks_trans [trans]:
  assumes "relinks a b" "relinks b c" shows "relinks a c"
proof -
  have "\<exists>n'. gm_get (dg_nodes (w_graph c)) k = Some n' \<and> same_links n n' \<and> (node_ok k n \<longrightarrow> node_ok k n')"
    if k: "gm_get (dg_nodes (w_graph a)) k = Some n" for k n
  proof -
    obtain n1 where n1: "gm_get (dg_nodes (w_graph b)) k = Some n1" "same_links n n1" "node_ok k n \<longrightarrow> node_ok k n1"
      using assms(1) k unfolding relinks_def by blast
    then obtain n2 where "gm_get (dg_nodes (w_graph c)) k = Some n2" "same_links n1 n2" "node_ok k n1 \<longrightarrow> node_ok k n2"
      using assms(2) unfolding relinks_def by blast
    with n1 show ?thesis by (auto simp: same_links_def)
  qed
  with assms show ?thesis by (simp add: relinks_def)
qed

lemma world_wf_relinks:
  assumes "world_wf w" "relinks w w'" shows "world_wf w'"
proof -
  have old: "\<exists>n. gm_get (dg_nodes (w_graph w)) k = Some n \<and> same_links n n' \<and> (node_ok k n \<longrightarrow> node_ok k n')"
    if k: "gm_get (dg_nodes (w_graph w')) k = Some n'" for k n'
  proof -
    have "k \<in> known (w_graph w)"
      using assms(2) k known_get [of k "w_graph w'"] by (auto simp: relinks_def)
    with assms(2) k show ?thesis by (fastforce simp: known_get relinks_def)
  qed
  have iss: "w_uuid w ` {..<w_next w} \<subseteq> w_uuid w' ` {..<w_next w'}"
    using assms(2) by (auto simp: relinks_def)
  have "node_ok k n' \<and> (nd_parent n' = '''' \<or> nd_parent n' \<in> known (w_graph w')) \<and>
        set (gm_keys (nd_children n')) \<subseteq> known (w_graph w') \<and>
        (\<forall>c \<in> set (gm_keys (nd_children n')). later w' k c)"
    if k: "gm_get (dg_nodes (w_graph w')) k = Some n'" for k n'
  proof -
    obtain n where n: "gm_get (dg_nodes (w_graph w)) k = Some n" "same_links n n'" "node_ok k n \<longrightarrow> node_ok k n'"
      using old [OF k] by blast
    have "node_ok k n \<and> (nd_parent n = '''' \<or> nd_parent n \<in> known (w_graph w)) \<and>
        set (gm_keys (nd_children n)) \<subseteq> known (w_graph w) \<and>
        (\<forall>c \<in> set (gm_keys (nd_children n)). later w k c)"
      using assms(1) n(1) unfolding world_wf_def by blast
    with n(2,3) assms(2) show ?thesis
      by (simp add: same_links_def relinks_def later_def)
  qed
  moreover have "uuids_fresh w'" "maps_made (w_graph w')" "gm_ok (dg_nodes (w_graph w'))"
      "known (w_graph w') \<subseteq> w_uuid w' ` {..<w_next w'}"
      "\<forall>s i. gm_get (dg_by_sig (w_graph w')) s = Some i \<longrightarrow> i \<in> known (w_graph w')"
    using assms iss by (auto simp: world_wf_def relinks_def uuids_fresh_def)
  ultimately show ?thesis unfolding world_wf_def by blast
qed

section \<open>Steps that keep the links\<close>

lemma relinks_graph_frame:
  assumes "w_uuid w' = w_uuid w" "w_next w \<le> w_next w'"
    "dg_nodes (w_graph w') = dg_nodes (w_graph w)" "dg_by_sig (w_graph w') = dg_by_sig (w_graph w)"
    "maps_made (w_graph w) \<Longrightarrow> maps_made (w_graph w')"
  shows "relinks w w'"
  using assms by (simp add: relinks_def known_def same_links_def)

lemma fresh_id_relinks: "fresh_id w = (i, w') \<Longrightarrow> relinks w w'"
  by (auto simp: fresh_id_def intro!: relinks_graph_frame)

lemma time_now_relinks: "time_now w = (t, w') \<Longrightarrow> relinks w w'"
  by (auto simp: time_now_def intro!: relinks_graph_frame)

lemma AddEvent_relinks: "relinks w (AddEvent w e)"
  by (auto simp: AddEvent_def Let_def fresh_id_def set_graph_def maps_made_def
      intro!: relinks_graph_frame split: prod.splits)

lemma event_now_relinks: "relinks w (event_now w typ i)"
  by (auto simp: event_now_def split: prod.splits
      intro: relinks_trans [OF time_now_relinks AddEvent_relinks])

lemma new_action_relinks: "new_action w typ i r p org = (a, w') \<Longrightarrow> relinks w w'"
  by (auto simp: new_action_def fresh_id_def time_now_def intro!: relinks_graph_frame)

lemma candidate_if_relinks:
  "candidate_if c typ n r p (as, w) = (as', w') \<Longrightarrow> relinks w w'"
  by (auto simp: candidate_if_def dest: new_action_relinks split: if_splits prod.splits)

lemma candidate_actions_relinks: "candidate_actions w n = (as, w') \<Longrightarrow> relinks w w'"
proof -
  assume a: "candidate_actions w n = (as, w')"
  obtain a1 w1 where s1: "candidate_if (rule_openapi n) ''paramfuzz'' n ''OpenAPI path parameter detected'' 50 ([], w) = (a1, w1)"
    by fastforce
  obtain a2 w2 where s2: "candidate_if (rule_javascript n) ''validation'' n ''Sensitive path extracted from JS'' 80 (a1, w1) = (a2, w2)"
    by fastforce
  have "candidate_if (rule_graphql n) ''validation'' n ''GraphQL mutation endpoint detected'' 70 (a2, w2) = (as, w')"
    using a s1 s2 by (simp add: candidate_actions_def)
  from relinks_trans [OF relinks_trans [OF candidate_if_relinks [OF s1] candidate_if_relinks [OF s2]] candidate_if_relinks [OF this]]
  show ?thesis .
qed

lemma put_node_relinks:
  assumes "gm_get (dg_nodes (w_graph w)) i = Some n" "put_node w i n' = Some w'"
    "same_links n n'" "node_ok i n \<Longrightarrow> node_ok i n'"
  shows "relinks w w'"
proof -
  obtain m where m: "gm_put (dg_nodes (w_graph w)) i n' = Some m"
      "w' = w\<lparr>w_graph := (w_graph w)\<lparr>dg_nodes := m\<rparr>\<rparr>"
    using assms(2) by (auto simp: put_node_def set_graph_def Option.bind_eq_Some_conv)
  have "known (w_graph w') = known (w_graph w)"
    using m assms(1) by (auto simp: known_get gm_get_put [OF m(1)] split: if_splits)
  moreover have "gm_ok (dg_nodes (w_graph w)) \<longrightarrow> gm_ok (dg_nodes (w_graph w'))"
    using m by (auto dest: gm_ok_put)
  moreover have "maps_made (w_graph w) \<longrightarrow> maps_made (w_graph w')"
    using m gm_put_not_nil [OF m(1)] by (auto simp: maps_made_def)
  ultimately show ?thesis
    using assms(1,3,4) m by (auto simp: relinks_def gm_get_put [OF m(1)] same_links_def)
qed

lemma put_node_total: "maps_made (w_graph w) \<Longrightarrow> \<exists>w'. put_node w i n = Some w'"
  by (cases "dg_nodes (w_graph w)") (simp_all add: put_node_def maps_made_def gm_put_def)

section \<open>Recording actions\<close>

lemma event_now_frame:
  "dg_nodes (w_graph (event_now w typ i)) = dg_nodes (w_graph w)"
  "dg_history (w_graph (event_now w typ i)) = dg_history (w_graph w)"
  "dg_by_sig (w_graph (event_now w typ i)) = dg_by_sig (w_graph w)"
  "dg_by_path (w_graph (event_now w typ i)) = dg_by_path (w_graph w)"
  "dg_execs (w_graph (event_now w typ i)) = dg_execs (w_graph w)"
  by (auto simp: event_now_def AddEvent_def Let_def fresh_id_def time_now_def set_graph_def split: prod.splits)

lemma record_action_ok:
  assumes wf: "maps_made (w_graph w)" and n: "gm_get (dg_nodes (w_graph w)) i = Some n"
    and inc: "same_links n (inc n)" "node_ok i n \<Longrightarrow> node_ok i (inc n)"
  shows "\<exists>w'. record_action key inc i n a w = Some w' \<and> relinks w w' \<and>
     gm_get (dg_nodes (w_graph w')) i = Some (inc n) \<and>
     (\<forall>k. gm_get (dg_history (w_graph w')) k = (if k = key then Some () else gm_get (dg_history (w_graph w)) k))"
proof -
  obtain hist where h: "gm_put (dg_history (w_graph w)) key () = Some hist" "hist \<noteq> None"
    by (rule gm_putE [of "dg_history (w_graph w)"]) (use wf in \<open>auto simp: maps_made_def\<close>)
  let ?w0 = "set_graph w ((w_graph w)\<lparr>dg_history := hist\<rparr>)"
  have r0: "relinks w ?w0" and m0: "maps_made (w_graph ?w0)"
    using wf h(2) by (auto simp: set_graph_def maps_made_def intro!: relinks_graph_frame)
  obtain w1 where w1: "put_node ?w0 i (inc n) = Some w1"
    using put_node_total [OF m0] by blast
  have r1: "relinks ?w0 w1"
    using put_node_relinks [OF _ w1, of n] n inc by (simp add: set_graph_def)
  have n1: "gm_get (dg_nodes (w_graph w1)) i = Some (inc n)" "dg_history (w_graph w1) = hist"
    using w1 by (auto simp: put_node_def set_graph_def Option.bind_eq_Some_conv gm_get_put)
  obtain t w2 where t: "time_now w1 = (t, w2)" by fastforce
  have g2: "w_graph w2 = w_graph w1" using t by (auto simp: time_now_def)
  have m2: "maps_made (w_graph w2)" using m0 r1 g2 by (simp add: relinks_def)
  define x where "x = \<lparr>ex_status = ActionPending, ex_job = '''', ex_started = t, ex_completed = 0, ex_error = ''''\<rparr>"
  obtain execs where e: "gm_put (dg_execs (w_graph w2)) (ac_id a) x = Some execs" "execs \<noteq> None"
    by (rule gm_putE [of "dg_execs (w_graph w2)"]) (use m2 in \<open>auto simp: maps_made_def\<close>)
  let ?w3 = "set_graph w2 ((w_graph w2)\<lparr>dg_execs := execs\<rparr>)"
  have r3: "relinks w2 ?w3"
    using m2 e(2) by (auto simp: set_graph_def maps_made_def intro!: relinks_graph_frame)
  have res: "record_action key inc i n a w = Some (event_now ?w3 GraphEventActionCreated (nd_id n))"
    using h(1) w1 t e(1) by (simp add: record_action_def x_def)
  have "relinks w (event_now ?w3 GraphEventActionCreated (nd_id n))"
    using r0 r1 time_now_relinks [OF t] r3 event_now_relinks relinks_trans by meson
  with res n1 g2 h(1) show ?thesis
    by (auto simp: event_now_frame set_graph_def gm_get_put)
qed

lemma commit_actions_ok:
  assumes inc: "\<And>n. same_links n (inc n)" "\<And>k n. node_ok k n \<Longrightarrow> cnt n < cap \<Longrightarrow> node_ok k (inc n)"
  shows "maps_made (w_graph w) \<Longrightarrow> gm_get (dg_nodes (w_graph w)) i = Some n \<Longrightarrow> cnt n < cap \<Longrightarrow>
    \<exists>as' w'. commit_actions suf cnt inc cap i as w = Some (as', w') \<and> relinks w w'"
proof (induction "as" arbitrary: w n)
  case (Cons a as')
  define key where "key = makeActionKey (nd_id n) (ac_type a @ suf)"
  show ?case
  proof (cases "gm_get (dg_history (w_graph w)) key")
    case (Some u)
    with Cons show ?thesis by (simp add: key_def)
  next
    case None
    obtain w1 where w1: "record_action key inc i n a w = Some w1" "relinks w w1"
        "gm_get (dg_nodes (w_graph w1)) i = Some (inc n)"
      using record_action_ok [of w i n inc key a] Cons.prems inc by blast
    show ?thesis
    proof (cases "cnt (inc n) \<ge> cap")
      case True
      with w1 None Cons.prems show ?thesis by (simp add: key_def)
    next
      case False
      have "maps_made (w_graph w1)" using Cons.prems(1) w1(2) by (simp add: relinks_def)
      from Cons.IH [OF this w1(3)] False obtain rest w2 where
        "commit_actions suf cnt inc cap i as' w1 = Some (rest, w2)" "relinks w1 w2" by auto
      with w1 None Cons.prems False relinks_trans [of w w1 w2] show ?thesis by (simp add: key_def)
    qed
  qed
qed simp

section \<open>Every operation keeps the invariant and returns\<close>

lemma EvaluateNode_relinks:
  assumes "maps_made (w_graph w)" "i \<in> known (w_graph w)"
  shows "\<exists>as w'. EvaluateNode w i = Some (as, w') \<and> relinks w w'"
proof -
  obtain n where n: "gm_get (dg_nodes (w_graph w)) i = Some n"
    using assms(2) by (auto simp: known_get)
  show ?thesis
  proof (cases "nd_derived n \<ge> MaxDerivedJobsPerNode")
    case True
    with n show ?thesis by (simp add: EvaluateNode_def)
  next
    case False
    obtain acts w1 where c: "candidate_actions w n = (acts, w1)" by fastforce
    have r: "relinks w w1" by (rule candidate_actions_relinks [OF c])
    have m1: "maps_made (w_graph w1)" using r assms(1) by (simp add: relinks_def)
    have g1: "w_graph w1 = w_graph w"
      using c by (auto simp: candidate_actions_def candidate_if_def new_action_def fresh_id_def time_now_def
          split: prod.splits if_splits)
    have "\<exists>as' w'. commit_actions '''' nd_derived inc_derived MaxDerivedJobsPerNode i acts w1 = Some (as', w') \<and> relinks w1 w'"
      using m1 g1 n False
      by (intro commit_actions_ok) (auto simp: inc_derived_def same_links_def node_ok_def MaxDerivedJobsPerNode_def)
    with n False c r show ?thesis by (auto simp: EvaluateNode_def intro: relinks_trans)
  qed
qed

lemma enforce_bounds_ok:
  "nd_id n = k \<Longrightarrow> nd_derived n \<le> MaxDerivedJobsPerNode \<Longrightarrow> nd_feedback n \<le> MaxFeedbackActionsPerNode \<Longrightarrow>
   cb_state (nd_breaker n) \<noteq> CircuitHalfOpen \<Longrightarrow> node_ok k (enforce_bounds n)"
  by (simp add: enforce_bounds_def node_ok_def Let_def)

lemma score_response_frame [simp]:
  "nd_id (score_response r n) = nd_id n" "nd_derived (score_response r n) = nd_derived n"
  "nd_feedback (score_response r n) = nd_feedback n" "nd_parent (score_response r n) = nd_parent n"
  "nd_children (score_response r n) = nd_children n" "nd_breaker (score_response r n) = nd_breaker n"
  "nd_last_hash (score_response r n) = nd_last_hash n"
  by (simp_all add: score_response_def Let_def)

lemma enforce_bounds_frame [simp]:
  "nd_id (enforce_bounds n) = nd_id n" "nd_derived (enforce_bounds n) = nd_derived n"
  "nd_feedback (enforce_bounds n) = nd_feedback n" "nd_parent (enforce_bounds n) = nd_parent n"
  "nd_children (enforce_bounds n) = nd_children n" "nd_breaker (enforce_bounds n) = nd_breaker n"
  "nd_last_hash (enforce_bounds n) = nd_last_hash n"
  by (simp_all add: enforce_bounds_def)

lemma UpdateEvidence_relinks:
  assumes "maps_made (w_graph w)"
  shows "\<exists>as w'. UpdateEvidence w i resp = Some (as, w') \<and> relinks w w'"
proof (cases "gm_get (dg_nodes (w_graph w)) i")
  case None
  then show ?thesis by (simp add: UpdateEvidence_def)
next
  case (Some n)
  show ?thesis
  proof (cases "nd_last_hash n = evidence_hash resp")
    case True
    with Some show ?thesis by (simp add: UpdateEvidence_def)
  next
    case False
    define w1 where "w1 = event_now w GraphEventResponseObserved (nd_id n)"
    define n2 where "n2 = enforce_bounds (score_response resp (n\<lparr>nd_last_hash := evidence_hash resp\<rparr>))"
    have r1: "relinks w w1" by (simp add: w1_def event_now_relinks)
    have m1: "maps_made (w_graph w1)" using r1 assms by (simp add: relinks_def)
    have i1: "gm_get (dg_nodes (w_graph w1)) i = Some n" using Some by (simp add: w1_def event_now_frame)
    obtain w2 where w2: "put_node w1 i n2 = Some w2" using put_node_total [OF m1] by blast
    have ok2: "node_ok i n2" if "node_ok i n"
      unfolding n2_def using that by (intro enforce_bounds_ok) (simp_all add: node_ok_def)
    have r2: "relinks w1 w2"
      using put_node_relinks [OF i1 w2] ok2 by (simp add: n2_def same_links_def)
    have i2: "gm_get (dg_nodes (w_graph w2)) i = Some n2"
      using w2 by (auto simp: put_node_def set_graph_def Option.bind_eq_Some_conv gm_get_put)
    have m2: "maps_made (w_graph w2)" using r2 m1 by (simp add: relinks_def)
    show ?thesis
    proof (cases "nd_feedback n2 \<ge> MaxFeedbackActionsPerNode")
      case True
      with Some False w2 r1 r2 relinks_trans show ?thesis
        by (auto simp: UpdateEvidence_def Let_def w1_def [symmetric] n2_def [symmetric] intro: relinks_trans)
    next
      case nf: False
      obtain acts w3 where c: "(if re_status resp = 403 \<or> re_status resp = 401
                   then let (a, w3) = new_action w2 ''validation'' (nd_id n2)
                              ''403 Forbidden response during feedback'' 85 GraphEventResponseObserved
                        in ([a], w3)
                   else ([], w2)) = (acts, w3)" by fastforce
      have r3: "relinks w2 w3" and g3: "w_graph w3 = w_graph w2"
        using c by (auto simp: new_action_def fresh_id_def time_now_def intro!: relinks_graph_frame split: if_splits)
      have "\<exists>as' w'. commit_actions ''_feedback'' nd_feedback inc_feedback MaxFeedbackActionsPerNode i acts w3 = Some (as', w') \<and> relinks w3 w'"
        using m2 g3 i2 nf
        by (intro commit_actions_ok) (auto simp: inc_feedback_def same_links_def node_ok_def MaxFeedbackActionsPerNode_def)
      then obtain as' w' where f: "commit_actions ''_feedback'' nd_feedback inc_feedback MaxFeedbackActionsPerNode i acts w3 = Some (as', w')" "relinks w3 w'"
        by blast
      have "relinks w w'" using r1 r2 r3 f(2) relinks_trans by meson
      moreover have "UpdateEvidence w i resp = Some (as', w')"
        unfolding UpdateEvidence_def Some option.case Let_def if_not_P [OF False]
          w1_def [symmetric] n2_def [symmetric] w2 bind.bind_lunit if_not_P [OF nf] c [unfolded Let_def]
        using f(1) by simp
      ultimately show ?thesis by blast
    qed
  qed
qed

lemma breaker_state_frame:
  "cb_state (breaker_count b c) = cb_state b"
  "cb_state (breaker_success b) = (if cb_state b = CircuitHalfOpen then CircuitClosed else cb_state b)"
  by (simp_all add: breaker_count_def breaker_success_def Let_def)

definition breaker_node :: "gotime \<Rightarrow> string \<Rightarrow> node \<Rightarrow> node" where
  "breaker_node t errClass n =
     (if errClass = ''success'' then n\<lparr>nd_breaker := breaker_success (nd_breaker n)\<rparr>
      else let b = breaker_count (nd_breaker n) errClass in
        if cb_5xx b \<ge> 3 \<or> cb_to b \<ge> 3 \<or> cb_conn b \<ge> 3
        then n\<lparr>nd_breaker := b\<lparr>cb_state := CircuitOpen, cb_opened_at := t\<rparr>,
               nd_lifecycle := (nd_lifecycle n)\<lparr>lc_state := StateBlocked\<rparr>\<rparr>
        else n\<lparr>nd_breaker := b\<rparr>)"

lemma breaker_node_frame:
  "same_links n (breaker_node t c n)" "node_ok k n \<Longrightarrow> node_ok k (breaker_node t c n)"
  by (simp_all add: same_links_def node_ok_def breaker_node_def Let_def breaker_state_frame)

lemma UpdateCircuitBreaker_put:
  assumes "gm_get (dg_nodes (w_graph w)) i = Some n"
  shows "\<exists>v. relinks w v \<and> w_graph v = w_graph w \<and>
    UpdateCircuitBreaker w i c = put_node v i (breaker_node (w_clock w (w_tick w)) c n)"
proof -
  obtain t w1 where t: "time_now w = (t, w1)" by fastforce
  then have w1: "relinks w w1" "w_graph w1 = w_graph w" "t = w_clock w (w_tick w)"
    using time_now_relinks by (auto simp: time_now_def)
  show ?thesis
  proof (cases "c = ''success''")
    case True
    with assms show ?thesis
      by (intro exI [of _ w]) (simp add: UpdateCircuitBreaker_def breaker_node_def)
  next
    case False
    let ?b = "breaker_count (nd_breaker n) c"
    show ?thesis
    proof (cases "cb_5xx ?b \<ge> 3 \<or> cb_to ?b \<ge> 3 \<or> cb_conn ?b \<ge> 3")
      case True
      with assms False t w1 show ?thesis
        by (intro exI [of _ w1]) (simp add: UpdateCircuitBreaker_def breaker_node_def Let_def)
    next
      case no: False
      with assms False show ?thesis
        by (intro exI [of _ w]) (simp add: UpdateCircuitBreaker_def breaker_node_def Let_def)
    qed
  qed
qed

lemma UpdateCircuitBreaker_relinks:
  assumes "maps_made (w_graph w)"
  shows "\<exists>w'. UpdateCircuitBreaker w i errClass = Some w' \<and> relinks w w'"
proof (cases "gm_get (dg_nodes (w_graph w)) i")
  case None
  then show ?thesis by (simp add: UpdateCircuitBreaker_def)
next
  case (Some n)
  let ?n' = "breaker_node (w_clock w (w_tick w)) errClass n"
  obtain v where v: "relinks w v" "w_graph v = w_graph w" "UpdateCircuitBreaker w i errClass = put_node v i ?n'"
    using UpdateCircuitBreaker_put [OF Some] by blast
  obtain w' where w': "put_node v i ?n' = Some w'"
    using put_node_total [of v] v(2) assms by auto
  have "relinks v w'"
    by (rule put_node_relinks [OF _ w', of n]) (use Some v(2) breaker_node_frame in simp_all)
  with v w' relinks_trans show ?thesis by metis
qed

lemma RecordNegativeEvidence_relinks:
  assumes "maps_made (w_graph w)"
  shows "\<exists>w'. RecordNegativeEvidence w path m st ttl = Some w' \<and> relinks w w'"
proof -
  obtain t w1 where t: "time_now w = (t, w1)" by fastforce
  obtain old where old: "old = (case gm_get (dg_negative (w_graph w)) path of None \<Rightarrow> [] | Some evs \<Rightarrow> evs)" by blast
  obtain mm where mm: "gm_put (dg_negative (w_graph w)) path
       (old @ [\<lparr>ne_method = m, ne_status = st, ne_created = t, ne_ttl = ttl\<rparr>]) = Some mm" "mm \<noteq> None"
    by (rule gm_putE [of "dg_negative (w_graph w)"]) (use assms in \<open>auto simp: maps_made_def\<close>)
  have "relinks w (set_graph w1 ((w_graph w)\<lparr>dg_negative := mm\<rparr>))"
    using t mm(2) assms by (auto simp: time_now_def set_graph_def maps_made_def intro!: relinks_graph_frame)
  with t mm old show ?thesis by (simp add: RecordNegativeEvidence_def Let_def)
qed

text \<open>A new node, not yet linked from its parent.\<close>

lemma world_wf_new_node:
  assumes wf: "world_wf w" and w3: "w_uuid w3 = w_uuid w" "w_next w3 = Suc (w_next w)" "w_graph w3 = w_graph w"
    and i: "i = w_uuid w (w_next w)"
    and put: "put_node w3 i n = Some w4" and n: "node_ok i n" "nd_children n = gm_make"
      "nd_parent n = '''' \<or> nd_parent n \<in> known (w_graph w)"
    and sig: "gm_put (dg_by_sig (w_graph w4)) sig i = Some sigs"
    and g5: "dg_nodes g5 = dg_nodes (w_graph w4)" "dg_by_sig g5 = sigs" "maps_made g5"
  shows "world_wf (set_graph w4 g5) \<and> known g5 = insert i (known (w_graph w))"
proof -
  obtain m where m: "gm_put (dg_nodes (w_graph w)) i n = Some m" "w4 = w3\<lparr>w_graph := (w_graph w)\<lparr>dg_nodes := m\<rparr>\<rparr>"
    using put w3 by (auto simp: put_node_def set_graph_def Option.bind_eq_Some_conv)
  have kn: "known g5 = insert i (known (w_graph w))"
    using m(2) g5(1) by (simp add: set_eq_iff known_get gm_get_put [OF m(1)])
  have sigok: "\<forall>s j. gm_get (dg_by_sig g5) s = Some j \<longrightarrow> j \<in> known g5"
    using wf kn sig g5(2) m(2) by (auto simp: world_wf_def gm_get_put split: if_splits)
  have nodes: "node_ok k n' \<and> (nd_parent n' = '''' \<or> nd_parent n' \<in> known g5) \<and>
        set (gm_keys (nd_children n')) \<subseteq> known g5 \<and> (\<forall>c \<in> set (gm_keys (nd_children n')). later w k c)"
    if k: "gm_get (dg_nodes g5) k = Some n'" for k n'
  proof (cases "k = i")
    case True
    with k m g5(1) n kn show ?thesis by (auto simp: gm_get_put [OF m(1)] gm_keys_def gm_items_def gm_make_def)
  next
    case False
    with k m g5(1) have "gm_get (dg_nodes (w_graph w)) k = Some n'" by (simp add: gm_get_put [OF m(1)])
    with wf kn show ?thesis unfolding world_wf_def by blast
  qed
  have "known g5 \<subseteq> w_uuid w ` {..<Suc (w_next w)}"
    using wf kn i by (auto simp: world_wf_def)
  moreover have "gm_ok (dg_nodes g5)" using wf m g5(1) by (auto simp: world_wf_def dest: gm_ok_put)
  moreover have "uuids_fresh w" using wf by (simp add: world_wf_def)
  ultimately show ?thesis
    using kn sigok nodes g5(3) m(2) w3 by (simp add: world_wf_def set_graph_def uuids_fresh_def later_def)
qed

lemma link_child_wf:
  assumes wf: "world_wf w" and i: "i \<in> known (w_graph w)" "p \<noteq> '''' \<Longrightarrow> later w p i"
  shows "\<exists>w'. link_child w p i = Some w' \<and> world_wf w' \<and> known (w_graph w') = known (w_graph w)"
proof (cases "p = '''' \<or> gm_get (dg_nodes (w_graph w)) p = None")
  case True
  with wf show ?thesis by (auto simp: link_child_def)
next
  case False
  then obtain pn where pn: "gm_get (dg_nodes (w_graph w)) p = Some pn" "p \<noteq> ''''" by auto
  define m0 where "m0 = (if nd_children pn = None then gm_make else nd_children pn)"
  obtain cs where cs: "gm_put m0 i () = Some cs"
    by (rule gm_putE [of m0]) (auto simp: m0_def gm_make_def)
  define n' where "n' = pn\<lparr>nd_children := cs\<rparr>"
  obtain m where m: "gm_put (dg_nodes (w_graph w)) p n' = Some m" "m \<noteq> None"
    by (rule gm_putE [of "dg_nodes (w_graph w)"]) (use wf in \<open>auto simp: world_wf_def maps_made_def\<close>)
  define w' where "w' = set_graph w ((w_graph w)\<lparr>dg_nodes := m\<rparr>)"
  have res: "link_child w p i = Some w'"
    using pn cs m by (simp add: link_child_def w'_def put_node_def n'_def m0_def)
  have kn: "known (w_graph w') = known (w_graph w)"
    using m(1) pn by (auto simp: w'_def set_graph_def known_get gm_get_put split: if_splits)
  have keys: "c \<in> set (gm_keys cs) \<longleftrightarrow> c = i \<or> c \<in> set (gm_keys (nd_children pn))" for c
    using gm_get_keys [of cs c] gm_get_keys [of "nd_children pn" c]
    by (auto simp: gm_get_put [OF cs] m0_def split: if_splits)
  have old: "node_ok k n \<and> (nd_parent n = '''' \<or> nd_parent n \<in> known (w_graph w)) \<and>
        set (gm_keys (nd_children n)) \<subseteq> known (w_graph w) \<and> (\<forall>c \<in> set (gm_keys (nd_children n)). later w k c)"
    if "gm_get (dg_nodes (w_graph w)) k = Some n" for k n
    using wf that unfolding world_wf_def by blast
  have "node_ok k n \<and> (nd_parent n = '''' \<or> nd_parent n \<in> known (w_graph w)) \<and>
        set (gm_keys (nd_children n)) \<subseteq> known (w_graph w) \<and> (\<forall>c \<in> set (gm_keys (nd_children n)). later w k c)"
    if k: "gm_get (dg_nodes (w_graph w')) k = Some n" for k n
  proof (cases "k = p")
    case True
    with k m have "n = n'" by (simp add: w'_def set_graph_def gm_get_put [OF m(1)])
    with old [OF pn(1)] True i pn(2) keys show ?thesis by (auto simp: n'_def node_ok_def)
  next
    case False
    with k m old show ?thesis by (simp add: w'_def set_graph_def gm_get_put [OF m(1)])
  qed
  moreover have "maps_made (w_graph w')" "gm_ok (dg_nodes (w_graph w'))" "uuids_fresh w'" "w_uuid w' = w_uuid w"
      "w_next w' = w_next w" "dg_by_sig (w_graph w') = dg_by_sig (w_graph w)"
    using wf m gm_ok_put [OF m(1)] by (auto simp: w'_def set_graph_def world_wf_def maps_made_def uuids_fresh_def)
  ultimately have "world_wf w'" using wf kn by (simp add: world_wf_def later_def)
  with res kn show ?thesis by blast
qed

lemma put_node_graph:
  assumes "put_node w i n = Some w'"
  shows "\<exists>m. m \<noteq> None \<and> w' = w\<lparr>w_graph := (w_graph w)\<lparr>dg_nodes := m\<rparr>\<rparr>"
proof -
  obtain m where m: "gm_put (dg_nodes (w_graph w)) i n = Some m" "w' = w\<lparr>w_graph := (w_graph w)\<lparr>dg_nodes := m\<rparr>\<rparr>"
    using assms by (auto simp: put_node_def set_graph_def Option.bind_eq_Some_conv)
  with gm_put_not_nil [OF m(1)] show ?thesis by blast
qed

lemma CalculatePriority_bounds: "0 \<le> CalculatePriority n \<and> CalculatePriority n \<le> 100"
  by (simp add: CalculatePriority_def Let_def)

lemma init_maps_id: "world_wf w \<Longrightarrow> set_graph w (init_maps (w_graph w)) = w"
  by (auto simp: init_maps_def set_graph_def world_wf_def maps_made_def)

lemma fresh_node_ok:
  "node_ok i ((fresh_node i kind path label p st e t t2)\<lparr>nd_evidence := e', nd_priority := CalculatePriority x\<rparr>)"
  using CalculatePriority_bounds [of x]
  by (simp add: node_ok_def fresh_node_def MaxDerivedJobsPerNode_def MaxFeedbackActionsPerNode_def
      fresh_breaker_def)

lemma finish_node:
  assumes "world_wf w" "i \<in> known (w_graph w)"
  shows "\<exists>as w'. EvaluateNode (event_now w typ i) i = Some (as, w') \<and> world_wf w' \<and>
     known (w_graph w') = known (w_graph w)"
proof -
  have r: "relinks w (event_now w typ i)" by (rule event_now_relinks)
  then have "maps_made (w_graph (event_now w typ i))" "i \<in> known (w_graph (event_now w typ i))"
    using assms by (auto simp: relinks_def world_wf_def)
  from EvaluateNode_relinks [OF this] obtain as w' where
    e: "EvaluateNode (event_now w typ i) i = Some (as, w')" "relinks (event_now w typ i) w'" by blast
  have "relinks w w'" by (rule relinks_trans [OF r e(2)])
  with e(1) world_wf_relinks [OF assms(1)] show ?thesis by (auto simp: relinks_def)
qed

lemma AddSourceNode_wf:
  assumes wf: "world_wf w"
  shows "\<exists>i as w'. AddSourceNode w label st = Some (i, as, w') \<and> world_wf w' \<and>
     i \<in> known (w_graph w') \<and> known (w_graph w) \<subseteq> known (w_graph w')"
proof -
  define sig where "sig = generateSignature w '''' '''' st"
  show ?thesis
  proof (cases "gm_get (dg_by_sig (w_graph w)) sig")
    case (Some j)
    with wf have "j \<in> known (w_graph w)" unfolding world_wf_def by blast
    with Some wf show ?thesis by (simp add: AddSourceNode_def init_maps_id [OF wf] sig_def Let_def)
  next
    case None
    define i where "i = w_uuid w (w_next w)"
    obtain seen w2 where t1: "time_now (w\<lparr>w_next := Suc (w_next w)\<rparr>) = (seen, w2)" by fastforce
    obtain seen2 w3 where t2: "time_now w2 = (seen2, w3)" by fastforce
    have w3: "w_uuid w3 = w_uuid w" "w_next w3 = Suc (w_next w)" "w_graph w3 = w_graph w"
      using t1 t2 by (auto simp: time_now_def)
    define n1 where "n1 = (fresh_node i NodeSource '''' label '''' st no_evidence seen seen2)
      \<lparr>nd_evidence := no_evidence\<lparr>ev_quality := GetEvidenceQuality st\<rparr>\<rparr>"
    define n2 where "n2 = n1\<lparr>nd_priority := CalculatePriority n1\<rparr>"
    obtain w4 where w4: "put_node w3 i n2 = Some w4"
      using put_node_total [of w3 i n2] wf w3 by (auto simp: world_wf_def)
    have g4: "\<exists>m. m \<noteq> None \<and> w_graph w4 = (w_graph w)\<lparr>dg_nodes := m\<rparr>"
      using put_node_graph [OF w4] w3 by auto
    obtain sigs where sg: "gm_put (dg_by_sig (w_graph w4)) sig i = Some sigs" "sigs \<noteq> None"
      by (rule gm_putE [of "dg_by_sig (w_graph w4)"]) (use g4 wf in \<open>auto simp: world_wf_def maps_made_def\<close>)
    let ?g5 = "(w_graph w4)\<lparr>dg_by_sig := sigs\<rparr>"
    have "world_wf (set_graph w4 ?g5) \<and> known ?g5 = insert i (known (w_graph w))"
      using wf w3 i_def w4 _ _ _ sg(1)
    proof (rule world_wf_new_node)
      show "node_ok i n2" unfolding n2_def n1_def using fresh_node_ok by simp
      show "nd_children n2 = gm_make" "nd_parent n2 = '''' \<or> nd_parent n2 \<in> known (w_graph w)"
        by (simp_all add: n2_def n1_def fresh_node_def)
      show "maps_made ?g5" using g4 wf sg(2) by (auto simp: world_wf_def maps_made_def)
    qed simp_all
    with finish_node [of "set_graph w4 ?g5" i GraphEventNodeAdded] obtain acts w6 where
      f: "EvaluateNode (event_now (set_graph w4 ?g5) GraphEventNodeAdded i) i = Some (acts, w6)"
         "world_wf w6" "known (w_graph w6) = insert i (known (w_graph w))"
      by (auto simp: set_graph_def)
    have "AddSourceNode w label st = Some (i, acts, w6)"
      using None t1 t2 w4 sg(1) f(1)
      by (simp add: AddSourceNode_def init_maps_id [OF wf] Let_def sig_def [symmetric] fresh_id_def i_def [symmetric]
          n2_def n1_def fresh_node_def)
    with f show ?thesis by auto
  qed
qed

lemma AddPathNode_wf:
  assumes wf: "world_wf w" and p: "p = '''' \<or> p \<in> known (w_graph w)"
  shows "\<exists>i as w'. AddPathNode w p path label st e = Some (i, as, w') \<and> world_wf w' \<and>
     i \<in> known (w_graph w') \<and> known (w_graph w) \<subseteq> known (w_graph w')"
proof -
  define sig where "sig = generateSignature w p path st"
  show ?thesis
  proof (cases "gm_get (dg_by_sig (w_graph w)) sig")
    case (Some j)
    with wf have j: "j \<in> known (w_graph w)" unfolding world_wf_def by blast
    have "maps_made (w_graph w)" using wf by (simp add: world_wf_def)
    from EvaluateNode_relinks [OF this j] obtain acts w' where
      a: "EvaluateNode w j = Some (acts, w')" "relinks w w'" by blast
    have "world_wf w'" "known (w_graph w') = known (w_graph w)"
      using world_wf_relinks [OF wf a(2)] a(2) by (auto simp: relinks_def)
    with Some a(1) j show ?thesis by (simp add: AddPathNode_def init_maps_id [OF wf] sig_def Let_def)
  next
    case None
    define i where "i = w_uuid w (w_next w)"
    obtain seen w2 where t1: "time_now (w\<lparr>w_next := Suc (w_next w)\<rparr>) = (seen, w2)" by fastforce
    obtain seen2 w3 where t2: "time_now w2 = (seen2, w3)" by fastforce
    have w3: "w_uuid w3 = w_uuid w" "w_next w3 = Suc (w_next w)" "w_graph w3 = w_graph w"
      using t1 t2 by (auto simp: time_now_def)
    define n0 where "n0 = fresh_node i NodePath path label p st e seen seen2"
    define n1 where "n1 = (if ev_quality (nd_evidence n0) = 0
       then n0\<lparr>nd_evidence := (nd_evidence n0)\<lparr>ev_quality := GetEvidenceQuality st\<rparr>\<rparr> else n0)"
    define n2 where "n2 = n1\<lparr>nd_priority := CalculatePriority n1\<rparr>"
    have n2ok: "node_ok i n2" "nd_children n2 = gm_make" "nd_parent n2 = p"
      using CalculatePriority_bounds [of n1]
      by (simp_all add: n2_def n1_def n0_def node_ok_def fresh_node_def fresh_breaker_def MaxDerivedJobsPerNode_def MaxFeedbackActionsPerNode_def)
    obtain w4 where w4: "put_node w3 i n2 = Some w4"
      using put_node_total [of w3 i n2] wf w3 by (auto simp: world_wf_def)
    have g4: "\<exists>m. m \<noteq> None \<and> w_graph w4 = (w_graph w)\<lparr>dg_nodes := m\<rparr>"
      using put_node_graph [OF w4] w3 by auto
    obtain sigs where sg: "gm_put (dg_by_sig (w_graph w4)) sig i = Some sigs" "sigs \<noteq> None"
      by (rule gm_putE [of "dg_by_sig (w_graph w4)"]) (use g4 wf in \<open>auto simp: world_wf_def maps_made_def\<close>)
    define ids where "ids = (case gm_get (dg_by_path (w_graph w4)) path of None \<Rightarrow> [] | Some l \<Rightarrow> l) @ [i]"
    obtain paths where ps: "gm_put (dg_by_path (w_graph w4)) path ids = Some paths" "paths \<noteq> None"
      by (rule gm_putE [of "dg_by_path (w_graph w4)"]) (use g4 wf in \<open>auto simp: world_wf_def maps_made_def\<close>)
    let ?g5 = "(w_graph w4)\<lparr>dg_by_sig := sigs, dg_by_path := paths\<rparr>"
    have wf5: "world_wf (set_graph w4 ?g5) \<and> known ?g5 = insert i (known (w_graph w))"
      using wf w3 i_def w4 n2ok(1,2) _ sg(1)
    proof (rule world_wf_new_node)
      show "nd_parent n2 = '''' \<or> nd_parent n2 \<in> known (w_graph w)" using n2ok(3) p by simp
      show "maps_made ?g5" using g4 wf sg(2) ps(2) by (auto simp: world_wf_def maps_made_def)
    qed simp_all
    have uu: "w_uuid (set_graph w4 ?g5) = w_uuid w"
      using w4 w3 by (auto simp: put_node_def set_graph_def Option.bind_eq_Some_conv)
    have "later (set_graph w4 ?g5) p i" if "p \<noteq> ''''"
    proof -
      have "p \<in> w_uuid w ` {..<w_next w}" using that p wf by (auto simp: world_wf_def)
      with uu show ?thesis by (auto simp: later_def i_def)
    qed
    with link_child_wf [of "set_graph w4 ?g5" i p] wf5 obtain w5 where
      l: "link_child (set_graph w4 ?g5) p i = Some w5" "world_wf w5" "known (w_graph w5) = insert i (known (w_graph w))"
      by (auto simp: set_graph_def)
    with finish_node [of w5 i GraphEventNodeAdded] obtain acts w7 where
      f: "EvaluateNode (event_now w5 GraphEventNodeAdded i) i = Some (acts, w7)"
         "world_wf w7" "known (w_graph w7) = insert i (known (w_graph w))"
      by auto
    have "AddPathNode w p path label st e = Some (i, acts, w7)"
      using None t1 t2 w4 [unfolded n2_def n1_def n0_def] sg(1) ps(1) l(1) f(1)
      by (simp add: AddPathNode_def init_maps_id [OF wf] Let_def sig_def [symmetric] fresh_id_def i_def [symmetric]
          ids_def [symmetric] split del: if_split)
    with f show ?thesis by auto
  qed
qed

section \<open>Graphs built by the operations\<close>

lemma world_wf_acyclic:
  assumes wf: "world_wf w" shows "acyclic (edges (w_graph w))"
proof -
  have inj: "inj (w_uuid w)" using wf by (simp add: world_wf_def uuids_fresh_def)
  have step: "later w a b" if "(a, b) \<in> edges (w_graph w)" for a b
  proof -
    from that obtain n where "gm_get (dg_nodes (w_graph w)) a = Some n" "b \<in> set (gm_keys (nd_children n))"
      by (auto simp: edges_def node_children_def)
    with wf show ?thesis unfolding world_wf_def by blast
  qed
  have trans: "later w a c" if "later w a b" "later w b c" for a b c
    using that inj by (auto simp: later_def inj_eq)
  have "later w a b" if "(a, b) \<in> (edges (w_graph w))\<^sup>+" for a b
    using that by (induction rule: trancl_induct) (blast intro: step trans)+
  moreover have "\<not> later w a a" for a using inj by (auto simp: later_def inj_eq)
  ultimately show ?thesis by (auto simp: acyclic_def)
qed

lemma validate_nodes_iff: "validate_nodes g kns = Inr () \<longleftrightarrow> (\<forall>kn \<in> set kns. validate_node g kn = Inr ())"
  by (induction kns) (auto split: sum.splits)

lemma ValidateGraph_wf:
  assumes wf: "world_wf w" shows "ValidateGraph (w_graph w) = Some (Inr ())"
proof -
  let ?g = "w_graph w"
  have "validate_node ?g (k, n) = Inr ()" if "(k, n) \<in> set (gm_items (dg_nodes ?g))" for k n
  proof -
    have "gm_get (dg_nodes ?g) k = Some n"
      using that wf by (simp add: gm_items_get world_wf_def)
    then have n: "node_ok k n" "nd_parent n = '''' \<or> nd_parent n \<in> known ?g" "set (gm_keys (nd_children n)) \<subseteq> known ?g"
      using wf unfolding world_wf_def by blast+
    have "find (\<lambda>c. gm_get (dg_nodes ?g) c = None) (gm_keys (nd_children n)) = None"
      using n(3) by (auto simp: find_None_iff known_get)
    with n(1,2) show ?thesis by (auto simp: validate_node_def node_ok_def known_get)
  qed
  then have "validate_nodes ?g (gm_items (dg_nodes ?g)) = Inr ()"
    by (auto simp: validate_nodes_iff)
  with DetectCycles_acyclic [OF world_wf_acyclic [OF wf]] show ?thesis by (simp add: ValidateGraph_def)
qed

inductive built :: "world \<Rightarrow> bool" where
  built_new: "uuids_fresh w \<Longrightarrow> w_graph w = newDiscoveryGraph \<Longrightarrow> built w"
| built_source: "built w \<Longrightarrow> AddSourceNode w label st = Some (i, as, w') \<Longrightarrow> built w'"
| built_path: "built w \<Longrightarrow> p = '''' \<or> p \<in> known (w_graph w) \<Longrightarrow>
    AddPathNode w p path label st e = Some (i, as, w') \<Longrightarrow> built w'"
| built_evaluate: "built w \<Longrightarrow> i \<in> known (w_graph w) \<Longrightarrow> EvaluateNode w i = Some (as, w') \<Longrightarrow> built w'"
| built_evidence: "built w \<Longrightarrow> UpdateEvidence w i r = Some (as, w') \<Longrightarrow> built w'"
| built_breaker: "built w \<Longrightarrow> UpdateCircuitBreaker w i c = Some w' \<Longrightarrow> built w'"
| built_negative: "built w \<Longrightarrow> RecordNegativeEvidence w path m s ttl = Some w' \<Longrightarrow> built w'"
| built_event: "built w \<Longrightarrow> built (AddEvent w ev)"

lemma world_wf_new: "uuids_fresh w \<Longrightarrow> w_graph w = newDiscoveryGraph \<Longrightarrow> world_wf w"
  by (simp add: world_wf_def newDiscoveryGraph_def maps_made_def gm_make_def known_def gm_keys_def gm_items_def
      gm_get_def gm_ok_def)

lemma built_wf: "built w \<Longrightarrow> world_wf w"
proof (induction rule: built.induct)
  case (built_source w label st i as w')
  with AddSourceNode_wf [of w label st] show ?case by auto
next
  case (built_path w p path label st e i as w')
  with AddPathNode_wf [of w p path label st e] show ?case by auto
next
  case (built_evaluate w i as w')
  then have "relinks w w'" using EvaluateNode_relinks [of w i] by (auto simp: world_wf_def)
  with built_evaluate world_wf_relinks show ?case by blast
next
  case (built_evidence w i r as w')
  then have "relinks w w'" using UpdateEvidence_relinks [of w i r] by (auto simp: world_wf_def)
  with built_evidence world_wf_relinks show ?case by blast
next
  case (built_breaker w i c w')
  then have "relinks w w'" using UpdateCircuitBreaker_relinks [of w i c] by (auto simp: world_wf_def)
  with built_breaker world_wf_relinks show ?case by blast
next
  case (built_negative w path m s ttl w')
  then have "relinks w w'" using RecordNegativeEvidence_relinks [of w path m s ttl] by (auto simp: world_wf_def)
  with built_negative world_wf_relinks show ?case by blast
next
  case (built_event w ev)
  with world_wf_relinks [OF _ AddEvent_relinks] show ?case by blast
qed (rule world_wf_new)

definition demo_world :: world where
  "demo_world = \<lparr>w_graph = newDiscoveryGraph, w_uuid = (\<lambda>n. replicate (Suc n) CHR ''u''), w_next = 0,
     w_clock = (\<lambda>n. int n + 1), w_tick = 0, w_sha = (\<lambda>s. s)\<rparr>"

definition demo_built :: "world option" where
  "demo_built = do {
     (i, as, w) \<leftarrow> AddSourceNode demo_world ''seed'' ''openapi'';
     (j, bs, w') \<leftarrow> AddPathNode w i ''/users/{id}'' '''' ''openapi'' no_evidence;
     Some w' }"

lemma built_demo_world: "built demo_world"
proof (rule built_new)
  have "m = n" if "(\<lambda>n. replicate (Suc n) CHR ''u'') m = (\<lambda>n. replicate (Suc n) CHR ''u'') n" for m n
    using arg_cong [OF that, of length] by simp
  then show "uuids_fresh demo_world" by (auto simp: uuids_fresh_def demo_world_def inj_def)
qed (simp add: demo_world_def)

lemma demo_built_built: "\<exists>w i. demo_built = Some w \<and> built w \<and> i \<in> known (w_graph w)"
proof -
  obtain i as w where s: "AddSourceNode demo_world ''seed'' ''openapi'' = Some (i, as, w)" "i \<in> known (w_graph w)" "world_wf w"
    using AddSourceNode_wf [OF built_wf [OF built_demo_world]] by blast
  obtain j bs w' where p: "AddPathNode w i ''/users/{id}'' '''' ''openapi'' no_evidence = Some (j, bs, w')"
      "j \<in> known (w_graph w')"
    using AddPathNode_wf [OF s(3)] s(2) by blast
  have "built w'"
    using built_path [OF built_source [OF built_demo_world s(1)] _ p(1)] s(2) by blast
  with s p show ?thesis by (auto simp: demo_built_def)
qed

text \<open>C14: \<open>ValidateGraph\<close> accepts every graph that starts empty and is changed by the
  operations only: no identifier mismatch, no score out of range, no missing parent or child, no cycle.\<close>

theorem built_graph_validates: "built w \<Longrightarrow> ValidateGraph (w_graph w) = Some (Inr ())"
  by (rule ValidateGraph_wf [OF built_wf])

lemma built_graph_validates_witness:
  "\<exists>w. demo_built = Some w \<and> ValidateGraph (w_graph w) = Some (Inr ())"
  using demo_built_built built_graph_validates by blast

text \<open>On such a graph no operation panics on a nil map or a nil node, whatever its arguments,
  as long as a named parent or a node to evaluate is in the graph.\<close>

theorem built_no_panic:
  assumes "built w" "p = '''' \<or> p \<in> known (w_graph w)" "j \<in> known (w_graph w)"
  shows "AddSourceNode w label st \<noteq> None \<and> AddPathNode w p path label st e \<noteq> None \<and>
    EvaluateNode w j \<noteq> None \<and> UpdateEvidence w i r \<noteq> None \<and>
    UpdateCircuitBreaker w i c \<noteq> None \<and> RecordNegativeEvidence w path m s ttl \<noteq> None"
proof -
  have wf: "world_wf w" by (rule built_wf [OF assms(1)])
  then have m: "maps_made (w_graph w)" by (simp add: world_wf_def)
  show ?thesis
    using AddSourceNode_wf [OF wf, of label st] AddPathNode_wf [OF wf assms(2), of path label st e]
      EvaluateNode_relinks [OF m assms(3)] UpdateEvidence_relinks [OF m, of i r]
      UpdateCircuitBreaker_relinks [OF m, of i c] RecordNegativeEvidence_relinks [OF m, of path _ s ttl]
    by fastforce
qed

lemma built_no_panic_witness:
  "\<exists>w j. demo_built = Some w \<and> j \<in> known (w_graph w) \<and> AddPathNode w '''' ''/x'' '''' ''js'' no_evidence \<noteq> None"
proof -
  obtain w j where w: "demo_built = Some w" "built w" "j \<in> known (w_graph w)" using demo_built_built by blast
  have "AddPathNode w '''' ''/x'' '''' ''js'' no_evidence \<noteq> None"
    using built_no_panic [OF w(2) _ w(3), of "''''"] by blast
  with w show ?thesis by blast
qed

end
