(* ===== verification/GraphProps.thy ===== *)
theory GraphProps
  imports GraphBuild
begin

text \<open>
  What single operations of the discovery graph promise: follow-up actions are created once per
  key, the same response is counted once, and the circuit breaker of a node trips at the third
  failure of a class and blocks the node for its cooldown.
\<close>

section \<open>One action per key\<close>

definition action_key :: "string \<Rightarrow> string \<Rightarrow> action \<Rightarrow> string" where
  "action_key nodeID suf a = makeActionKey nodeID (ac_type a @ suf)"

definition recorded :: "world \<Rightarrow> string set" where
  "recorded w = {k. gm_get (dg_history (w_graph w)) k \<noteq> None}"

lemma commit_actions_new_keys:
  assumes inc: "\<And>n. nd_id (inc n) = nd_id n" "\<And>n. same_links n (inc n)"
    and ok: "\<And>k n. node_ok k n \<Longrightarrow> cnt n < cap \<Longrightarrow> node_ok k (inc n)"
  shows "maps_made (w_graph w) \<Longrightarrow> gm_get (dg_nodes (w_graph w)) i = Some n \<Longrightarrow> cnt n < cap \<Longrightarrow>
    commit_actions suf cnt inc cap i as w = Some (as', w') \<Longrightarrow>
    distinct (map (action_key (nd_id n) suf) as') \<and>
    action_key (nd_id n) suf ` set as' \<inter> recorded w = {} \<and>
    recorded w' = recorded w \<union> action_key (nd_id n) suf ` set as' \<and> set as' \<subseteq> set as"
proof (induction "as" arbitrary: w n as')
  case (Cons a more)
  define key where "key = action_key (nd_id n) suf a"
  show ?case
  proof (cases "key \<in> recorded w")
    case True
    with Cons.prems(2,4) have "commit_actions suf cnt inc cap i more w = Some (as', w')"
      by (auto simp: key_def recorded_def action_key_def)
    with Cons.IH [OF Cons.prems(1-3)] show ?thesis by auto
  next
    case False
    obtain w1 where w1: "record_action key inc i n a w = Some w1" "relinks w w1"
        "gm_get (dg_nodes (w_graph w1)) i = Some (inc n)" "recorded w1 = insert key (recorded w)"
      using record_action_ok [of w i n inc key a] Cons.prems inc ok by (fastforce simp: recorded_def)
    show ?thesis
    proof (cases "cnt (inc n) \<ge> cap")
      case True
      with w1 False Cons.prems have "as' = [a]" "w' = w1"
        by (auto simp: key_def [symmetric] action_key_def [symmetric] recorded_def)
      with w1(4) False show ?thesis by (simp add: key_def)
    next
      case nc: False
      with w1 False Cons.prems obtain rest where
        r: "commit_actions suf cnt inc cap i more w1 = Some (rest, w')" "as' = a # rest"
        by (auto simp: key_def [symmetric] action_key_def [symmetric] recorded_def Option.bind_eq_Some_conv)
      have "maps_made (w_graph w1)" using Cons.prems(1) w1(2) by (simp add: relinks_def)
      from Cons.IH [OF this w1(3) _ r(1)] nc inc(1) r(2) w1(4) False show ?thesis
        by (auto simp: key_def [symmetric])
    qed
  qed
qed auto

lemma new_action_graph: "new_action w t i r p org = (a, w') \<Longrightarrow> w_graph w' = w_graph w \<and> ac_type a = t"
  by (auto simp: new_action_def fresh_id_def time_now_def)

lemma candidate_if_graph:
  "candidate_if c t n r p (as, w) = (as', w') \<Longrightarrow>
     w_graph w' = w_graph w \<and> map ac_type as' = map ac_type as @ (if c then [t] else [])"
  by (auto simp: candidate_if_def split: if_splits prod.splits dest: new_action_graph)

definition node_types :: "node \<Rightarrow> string list" where
  "node_types n = (if rule_openapi n then [''paramfuzz''] else if rule_javascript n \<or> rule_graphql n then [''validation''] else [])"

lemma candidate_actions_graph:
  assumes "candidate_actions w n = (as, w')"
  shows "w_graph w' = w_graph w \<and> map ac_type as = node_types n"
proof -
  obtain a1 w1 where s1: "candidate_if (rule_openapi n) ''paramfuzz'' n ''OpenAPI path parameter detected'' 50 ([], w) = (a1, w1)"
    by fastforce
  obtain a2 w2 where s2: "candidate_if (rule_javascript n) ''validation'' n ''Sensitive path extracted from JS'' 80 (a1, w1) = (a2, w2)"
    by fastforce
  have "candidate_if (rule_graphql n) ''validation'' n ''GraphQL mutation endpoint detected'' 70 (a2, w2) = (as, w')"
    using assms s1 s2 by (simp add: candidate_actions_def)
  from candidate_if_graph [OF s1] candidate_if_graph [OF s2] candidate_if_graph [OF this] show ?thesis
    by (auto simp: node_types_def rule_openapi_def rule_javascript_def rule_graphql_def)
qed

lemma commit_actions_skip:
  assumes n: "gm_get (dg_nodes (w_graph w)) i = Some n"
  shows "\<forall>a \<in> set as. makeActionKey (nd_id n) (ac_type a @ suf) \<in> recorded w \<Longrightarrow>
    commit_actions suf cnt inc cap i as w = Some ([], w)"
  by (induction "as") (auto simp: n recorded_def)

lemma EvaluateNode_skip:
  assumes n: "gm_get (dg_nodes (w_graph w)) i = Some n"
    and k: "nd_derived n \<ge> MaxDerivedJobsPerNode \<or> (\<forall>t \<in> set (node_types n). makeActionKey (nd_id n) t \<in> recorded w)"
  shows "\<exists>w''. EvaluateNode w i = Some ([], w'') \<and> recorded w'' = recorded w"
proof (cases "nd_derived n \<ge> MaxDerivedJobsPerNode")
  case True
  with n show ?thesis by (simp add: EvaluateNode_def)
next
  case False
  obtain acts w1 where c: "candidate_actions w n = (acts, w1)" by fastforce
  have g: "w_graph w1 = w_graph w" and t: "node_types n = map ac_type acts"
    using candidate_actions_graph [OF c] by simp_all
  have "\<forall>a \<in> set acts. makeActionKey (nd_id n) (ac_type a @ '''') \<in> recorded w1"
    using k False g by (auto simp: recorded_def t)
  with commit_actions_skip [of w1 i n acts "''''"] g n c False show ?thesis
    by (simp add: EvaluateNode_def recorded_def)
qed

lemma inc_derived_frame:
  "nd_id (inc_derived x) = nd_id x" "same_links x (inc_derived x)"
  "node_ok k x \<Longrightarrow> nd_derived x < MaxDerivedJobsPerNode \<Longrightarrow> node_ok k (inc_derived x)"
  "node_types (inc_derived x) = node_types x"
  by (auto simp: inc_derived_def same_links_def node_ok_def
      node_types_def rule_openapi_def rule_javascript_def rule_graphql_def)

lemma commit_one_recorded:
  assumes "maps_made (w_graph w)" "gm_get (dg_nodes (w_graph w)) i = Some n" "nd_id n = i"
    "nd_derived n < MaxDerivedJobsPerNode"
    "commit_actions '''' nd_derived inc_derived MaxDerivedJobsPerNode i [a] w = Some (as, w')"
  shows "\<exists>n'. gm_get (dg_nodes (w_graph w')) i = Some n' \<and> nd_id n' = i \<and> node_types n' = node_types n \<and>
    makeActionKey i (ac_type a) \<in> recorded w'"
proof (cases "makeActionKey i (ac_type a) \<in> recorded w")
  case True
  with assms show ?thesis by (auto simp: recorded_def)
next
  case False
  obtain w2 where w2: "record_action (makeActionKey i (ac_type a)) inc_derived i n a w = Some w2"
      "gm_get (dg_nodes (w_graph w2)) i = Some (inc_derived n)" "makeActionKey i (ac_type a) \<in> recorded w2"
    using record_action_ok [of w i n inc_derived "makeActionKey i (ac_type a)" a] assms(1,2,4) inc_derived_frame
    by (auto simp: recorded_def)
  have "w' = w2"
    using assms(2,3,5) w2(1) False by (auto simp: recorded_def split: if_splits)
  with w2 assms(3) inc_derived_frame show ?thesis by auto
qed

lemma EvaluateNode_keys:
  assumes wf: "world_wf w" and n: "gm_get (dg_nodes (w_graph w)) i = Some n" and e: "EvaluateNode w i = Some (as, w')"
  shows "distinct (map (action_key i '''') as) \<and> action_key i '''' ` set as \<inter> recorded w = {} \<and>
    recorded w' = recorded w \<union> action_key i '''' ` set as \<and>
    (\<exists>w''. EvaluateNode w' i = Some ([], w'') \<and> recorded w'' = recorded w')"
proof (cases "nd_derived n \<ge> MaxDerivedJobsPerNode")
  case True
  with e n EvaluateNode_skip [OF n] show ?thesis by (simp add: EvaluateNode_def)
next
  case False
  obtain acts w1 where c: "candidate_actions w n = (acts, w1)" by fastforce
  note g = candidate_actions_graph [OF c]
  have f: "commit_actions '''' nd_derived inc_derived MaxDerivedJobsPerNode i acts w1 = Some (as, w')"
    using e n False c by (simp add: EvaluateNode_def)
  have m: "maps_made (w_graph w)" using wf by (simp add: world_wf_def)
  have "node_ok i n" using wf n unfolding world_wf_def by blast
  then have nid: "nd_id n = i" by (simp add: node_ok_def)
  have "\<exists>n'. gm_get (dg_nodes (w_graph w')) i = Some n' \<and> nd_id n' = i \<and> node_types n' = node_types n \<and>
       (\<forall>t \<in> set (node_types n). makeActionKey i t \<in> recorded w')"
  proof (cases acts)
    case Nil
    with f g n nid show ?thesis by auto
  next
    case (Cons a rest)
    with g have "acts = [a]" "node_types n = [ac_type a]" by (auto simp: node_types_def split: if_splits)
    with commit_one_recorded [of w1 i n a as w'] f g n nid m False show ?thesis by auto
  qed
  moreover have "distinct (map (action_key i '''') as) \<and> action_key i '''' ` set as \<inter> recorded w = {} \<and>
      recorded w' = recorded w \<union> action_key i '''' ` set as"
    using commit_actions_new_keys [of inc_derived nd_derived MaxDerivedJobsPerNode, OF inc_derived_frame(1-3) _ _ _ f, of n]
      g n m nid False by (simp add: recorded_def)
  ultimately show ?thesis using EvaluateNode_skip [of w' i] by auto
qed

text \<open>\<open>EvaluateNode\<close> never repeats an action: the keys of the actions it returns are distinct,
  were not in the history, are all in it afterwards, and a second evaluation of the node right
  after creates nothing.\<close>

theorem EvaluateNode_once:
  assumes "built w" "i \<in> known (w_graph w)"
  shows "\<exists>as w' w''. EvaluateNode w i = Some (as, w') \<and>
    distinct (map (action_key i '''') as) \<and> action_key i '''' ` set as \<inter> recorded w = {} \<and>
    recorded w' = recorded w \<union> action_key i '''' ` set as \<and>
    EvaluateNode w' i = Some ([], w'') \<and> recorded w'' = recorded w'"
proof -
  have wf: "world_wf w" by (rule built_wf [OF assms(1)])
  obtain as w' where e: "EvaluateNode w i = Some (as, w')"
    using EvaluateNode_relinks [of w i] wf assms(2) by (auto simp: world_wf_def)
  obtain n where "gm_get (dg_nodes (w_graph w)) i = Some n" using assms(2) by (auto simp: known_get)
  from EvaluateNode_keys [OF wf this e] e show ?thesis by blast
qed

lemma EvaluateNode_once_witness:
  "\<exists>w i as w'. demo_built = Some w \<and> i \<in> known (w_graph w) \<and> EvaluateNode w i = Some (as, w') \<and>
     recorded w' = recorded w \<union> action_key i '''' ` set as"
proof -
  obtain w i where w: "demo_built = Some w" "built w" "i \<in> known (w_graph w)" using demo_built_built by blast
  obtain as w' where "EvaluateNode w i = Some (as, w')" "recorded w' = recorded w \<union> action_key i '''' ` set as"
    using EvaluateNode_once [OF w(2,3)] by blast
  with w show ?thesis by (intro exI conjI)
qed

section \<open>The feedback loop\<close>

lemma record_action_node:
  assumes "record_action key inc i n a w = Some w'"
  shows "gm_get (dg_nodes (w_graph w')) i = Some (inc n)"
  using assms
  by (auto simp: record_action_def Option.bind_eq_Some_conv event_now_frame put_node_def set_graph_def
      time_now_def gm_get_put)

lemma commit_actions_node:
  assumes "\<And>n. P n \<Longrightarrow> P (inc n)"
  shows "gm_get (dg_nodes (w_graph w)) i = Some n \<Longrightarrow> P n \<Longrightarrow>
    commit_actions suf cnt inc cap i as w = Some (as', w') \<Longrightarrow>
    \<exists>n'. gm_get (dg_nodes (w_graph w')) i = Some n' \<and> P n'"
proof (induction "as" arbitrary: w n as')
  case (Cons a more)
  show ?case
  proof (cases "gm_get (dg_history (w_graph w)) (makeActionKey (nd_id n) (ac_type a @ suf)) = None")
    case False
    with Cons show ?thesis by auto
  next
    case True
    with Cons.prems obtain w1 where w1: "record_action (makeActionKey (nd_id n) (ac_type a @ suf)) inc i n a w = Some w1"
      by (auto simp: Option.bind_eq_Some_conv)
    note n1 = record_action_node [OF w1] assms [OF Cons.prems(2)]
    show ?thesis
    proof (cases "cnt (inc n) \<ge> cap")
      case True
      with n1 w1 Cons.prems \<open>gm_get (dg_history (w_graph w)) _ = None\<close> show ?thesis by auto
    next
      case False
      with w1 Cons.prems True obtain rest where "commit_actions suf cnt inc cap i more w1 = Some (rest, w')"
        by (auto simp: Option.bind_eq_Some_conv)
      with Cons.IH [OF n1] show ?thesis by blast
    qed
  qed
qed auto

text \<open>A response that the node has already seen last is counted once: applying the same response
  again changes nothing at all, neither scores nor events nor actions.\<close>

theorem UpdateEvidence_idempotent:
  assumes "UpdateEvidence w i r = Some (as, w')"
  shows "UpdateEvidence w' i r = Some ([], w')"
proof (cases "gm_get (dg_nodes (w_graph w)) i")
  case None
  with assms show ?thesis by (auto simp: UpdateEvidence_def)
next
  case (Some n)
  let ?P = "\<lambda>n. nd_last_hash n = evidence_hash r"
  have "\<exists>n'. gm_get (dg_nodes (w_graph w')) i = Some n' \<and> ?P n'"
  proof (cases "?P n")
    case True
    with assms Some show ?thesis by (auto simp: UpdateEvidence_def)
  next
    case False
    define w1 where "w1 = event_now w GraphEventResponseObserved (nd_id n)"
    define n2 where "n2 = enforce_bounds (score_response r (n\<lparr>nd_last_hash := evidence_hash r\<rparr>))"
    have P2: "?P n2" by (simp add: n2_def)
    obtain w2 where w2: "put_node w1 i n2 = Some w2"
      using assms Some False by (auto simp: UpdateEvidence_def Let_def w1_def n2_def Option.bind_eq_Some_conv)
    have i2: "gm_get (dg_nodes (w_graph w2)) i = Some n2"
      using w2 by (auto simp: put_node_def set_graph_def Option.bind_eq_Some_conv gm_get_put)
    obtain acts w3 where c: "(if re_status r = 403 \<or> re_status r = 401
                   then let (a, w3) = new_action w2 ''validation'' (nd_id n2)
                              ''403 Forbidden response during feedback'' 85 GraphEventResponseObserved
                        in ([a], w3)
                   else ([], w2)) = (acts, w3)" by fastforce
    have i3: "gm_get (dg_nodes (w_graph w3)) i = Some n2"
      using c i2 by (auto simp: new_action_graph split: if_splits prod.splits)
    have "(if nd_feedback n2 \<ge> MaxFeedbackActionsPerNode then Some ([], w2)
          else commit_actions ''_feedback'' nd_feedback inc_feedback MaxFeedbackActionsPerNode i acts w3) = Some (as, w')"
      using assms unfolding UpdateEvidence_def Some option.case Let_def if_not_P [OF False]
        w1_def [symmetric] n2_def [symmetric] w2 bind.bind_lunit c [unfolded Let_def] by (auto split: if_splits)
    then show ?thesis
      using i2 P2 commit_actions_node [of ?P inc_feedback w3 i n2 "''_feedback''" nd_feedback MaxFeedbackActionsPerNode acts as w', OF _ i3 P2]
      by (auto simp: inc_feedback_def split: if_splits)
  qed
  then show ?thesis by (auto simp: UpdateEvidence_def)
qed

definition demo_response :: response where
  "demo_response = \<lparr>re_status = 403, re_content_type = ''text/html'', re_length = 12, re_headers = None,
     re_interesting = False, re_reason = ''''\<rparr>"

lemma UpdateEvidence_idempotent_witness:
  "\<exists>w i as w'. demo_built = Some w \<and> i \<in> known (w_graph w) \<and> UpdateEvidence w i demo_response = Some (as, w') \<and>
     UpdateEvidence w' i demo_response = Some ([], w')"
proof -
  obtain w i where w: "demo_built = Some w" "built w" "i \<in> known (w_graph w)" using demo_built_built by blast
  obtain as w' where u: "UpdateEvidence w i demo_response = Some (as, w')"
    using UpdateEvidence_relinks [of w i demo_response] built_wf [OF w(2)] by (auto simp: world_wf_def)
  from w u UpdateEvidence_idempotent [OF u] show ?thesis by (intro exI conjI)
qed

section \<open>The circuit breaker\<close>

fun class_count :: "string \<Rightarrow> breaker \<Rightarrow> int" where
  "class_count c b = (if c = ''5xx'' then cb_5xx b else if c = ''timeout'' then cb_to b
     else if c = ''connection'' then cb_conn b else 0)"

lemma UpdateCircuitBreaker_result:
  assumes wf: "world_wf w" and n: "gm_get (dg_nodes (w_graph w)) i = Some n"
  shows "\<exists>w'. UpdateCircuitBreaker w i c = Some w' \<and>
    (\<forall>k. gm_get (dg_nodes (w_graph w')) k =
       (if k = i then Some (breaker_node (w_clock w (w_tick w)) c n) else gm_get (dg_nodes (w_graph w)) k))"
proof -
  let ?n' = "breaker_node (w_clock w (w_tick w)) c n"
  obtain v where v: "w_graph v = w_graph w" "UpdateCircuitBreaker w i c = put_node v i ?n'"
    using UpdateCircuitBreaker_put [OF n] by blast
  obtain w' where w': "put_node v i ?n' = Some w'"
    using put_node_total [of v i ?n'] v(1) wf by (auto simp: world_wf_def)
  then have "\<forall>k. gm_get (dg_nodes (w_graph w')) k = (if k = i then Some ?n' else gm_get (dg_nodes (w_graph w)) k)"
    using v(1) by (auto simp: put_node_def set_graph_def Option.bind_eq_Some_conv gm_get_put)
  with v(2) w' show ?thesis by auto
qed

text \<open>The third failure of a class without a success in between opens the breaker at the time
  it is reported: the node is blocked from then until its cooldown has passed, and is let through
  again afterwards as long as its request budget is not spent.\<close>

theorem breaker_trips:
  assumes "built w" "gm_get (dg_nodes (w_graph w)) i = Some n"
    "c \<in> {''5xx'', ''timeout'', ''connection''}" "class_count c (nd_breaker n) \<ge> 2"
    "0 \<le> cb_cooldown (nd_breaker n)" "cb_cooldown (nd_breaker n) < 2 ^ 63"
  shows "\<exists>w'. UpdateCircuitBreaker w i c = Some w' \<and>
    (\<forall>now. now - w_clock w (w_tick w) < cb_cooldown (nd_breaker n) \<longrightarrow> IsNodeBlocked (w_graph w') now i) \<and>
    (\<forall>now. now - w_clock w (w_tick w) \<ge> cb_cooldown (nd_breaker n) \<longrightarrow>
       bu_requests (nd_budget n) < bu_max_requests (nd_budget n) \<longrightarrow> \<not> IsNodeBlocked (w_graph w') now i)"
proof -
  let ?t = "w_clock w (w_tick w)"
  let ?n' = "breaker_node ?t c n"
  obtain w' where w': "UpdateCircuitBreaker w i c = Some w'" "gm_get (dg_nodes (w_graph w')) i = Some ?n'"
    using UpdateCircuitBreaker_result [OF built_wf [OF assms(1)] assms(2), of c] by auto
  have "cb_state (nd_breaker ?n') = CircuitOpen \<and> cb_opened_at (nd_breaker ?n') = ?t \<and>
      cb_cooldown (nd_breaker ?n') = cb_cooldown (nd_breaker n) \<and> nd_budget ?n' = nd_budget n"
    using assms(3,4) by (auto simp: breaker_node_def breaker_count_def Let_def)
  moreover have "time_sub now ?t < cb_cooldown (nd_breaker n) \<longleftrightarrow> now - ?t < cb_cooldown (nd_breaker n)" for now
    using assms(5,6) by (auto simp: time_sub_def)
  ultimately have "now - ?t < cb_cooldown (nd_breaker n) \<Longrightarrow> IsNodeBlocked (w_graph w') now i"
    "now - ?t \<ge> cb_cooldown (nd_breaker n) \<Longrightarrow> bu_requests (nd_budget n) < bu_max_requests (nd_budget n) \<Longrightarrow>
       \<not> IsNodeBlocked (w_graph w') now i" for now
    using w'(2) by (simp_all add: IsNodeBlocked_def)
  with w'(1) show ?thesis by blast
qed

definition demo_failed :: "world option" where
  "demo_failed = do {
     w \<leftarrow> demo_built;
     w1 \<leftarrow> UpdateCircuitBreaker w ''u'' ''5xx'';
     UpdateCircuitBreaker w1 ''u'' ''5xx'' }"

lemma demo_failed_facts:
  "\<exists>w n. demo_failed = Some w \<and> built w \<and> gm_get (dg_nodes (w_graph w)) ''u'' = Some n \<and>
     cb_5xx (nd_breaker n) = 2 \<and> cb_cooldown (nd_breaker n) = 600000000000"
proof -
  have ok: "(case demo_failed of None \<Rightarrow> False | Some w \<Rightarrow>
     (case gm_get (dg_nodes (w_graph w)) ''u'' of None \<Rightarrow> False | Some n \<Rightarrow>
       cb_5xx (nd_breaker n) = 2 \<and> cb_cooldown (nd_breaker n) = 600000000000))"
    by code_simp
  obtain w where w: "demo_built = Some w" "built w" using demo_built_built by blast
  obtain w1 where w1: "UpdateCircuitBreaker w ''u'' ''5xx'' = Some w1" "built w1"
    using UpdateCircuitBreaker_relinks [of w "''u''" "''5xx''"] built_wf [OF w(2)] built_breaker [OF w(2)]
    by (auto simp: world_wf_def)
  obtain w2 where w2: "UpdateCircuitBreaker w1 ''u'' ''5xx'' = Some w2" "built w2"
    using UpdateCircuitBreaker_relinks [of w1 "''u''" "''5xx''"] built_wf [OF w1(2)] built_breaker [OF w1(2)]
    by (auto simp: world_wf_def)
  have "demo_failed = Some w2"
    unfolding demo_failed_def w(1) bind.bind_lunit w1(1) w2(1) by (rule refl)
  with ok have "\<exists>n. gm_get (dg_nodes (w_graph w2)) ''u'' = Some n \<and> cb_5xx (nd_breaker n) = 2 \<and>
      cb_cooldown (nd_breaker n) = 600000000000"
    unfolding \<open>demo_failed = Some w2\<close> option.case by (auto split: option.splits)
  with \<open>demo_failed = Some w2\<close> w2(2) show ?thesis by blast
qed

lemma breaker_trips_witness:
  "\<exists>w w'. demo_failed = Some w \<and> UpdateCircuitBreaker w ''u'' ''5xx'' = Some w' \<and>
     IsNodeBlocked (w_graph w') (w_clock w (w_tick w) + minute) ''u''"
proof -
  obtain w n where w: "demo_failed = Some w" "built w" "gm_get (dg_nodes (w_graph w)) ''u'' = Some n"
     "cb_5xx (nd_breaker n) = 2" "cb_cooldown (nd_breaker n) = 600000000000"
    using demo_failed_facts by blast
  obtain w' where u: "UpdateCircuitBreaker w ''u'' ''5xx'' = Some w'"
      "\<forall>now. now - w_clock w (w_tick w) < cb_cooldown (nd_breaker n) \<longrightarrow> IsNodeBlocked (w_graph w') now ''u''"
    using breaker_trips [OF w(2,3), of "''5xx''"] w(4,5) by auto
  have "IsNodeBlocked (w_graph w') (w_clock w (w_tick w) + minute) ''u''"
    using u(2) w(5) by (simp add: minute_def second_def)
  with w(1) u(1) show ?thesis by blast
qed

text \<open>An open breaker never closes again: no operation ever puts a breaker into the half-open
  state from which a success would close it, so after its cooldown only the elapsed time lets the
  node through.\<close>

theorem open_breaker_stays_open:
  assumes "built w" "gm_get (dg_nodes (w_graph w)) i = Some n"
  shows "cb_state (nd_breaker n) \<noteq> CircuitHalfOpen \<and>
    (cb_state (nd_breaker n) = CircuitOpen \<longrightarrow>
      (\<exists>w' n'. UpdateCircuitBreaker w i ''success'' = Some w' \<and>
         gm_get (dg_nodes (w_graph w')) i = Some n' \<and> cb_state (nd_breaker n') = CircuitOpen))"
proof -
  have wf: "world_wf w" by (rule built_wf [OF assms(1)])
  have "node_ok i n" using wf assms(2) unfolding world_wf_def by blast
  moreover obtain w' where w': "UpdateCircuitBreaker w i ''success'' = Some w'"
      "gm_get (dg_nodes (w_graph w')) i = Some (breaker_node (w_clock w (w_tick w)) ''success'' n)"
    using UpdateCircuitBreaker_result [OF wf assms(2), of "''success''"] by auto
  moreover have "cb_state (nd_breaker n) = CircuitOpen \<Longrightarrow>
      cb_state (nd_breaker (breaker_node (w_clock w (w_tick w)) ''success'' n)) = CircuitOpen"
    by (simp add: breaker_node_def breaker_state_frame)
  ultimately show ?thesis by (auto simp: node_ok_def)
qed

lemma open_breaker_stays_open_witness:
  "\<exists>w n. demo_failed = Some w \<and> gm_get (dg_nodes (w_graph w)) ''u'' = Some n \<and>
     cb_state (nd_breaker n) \<noteq> CircuitHalfOpen"
proof -
  obtain w n where w: "demo_failed = Some w" "built w" "gm_get (dg_nodes (w_graph w)) ''u'' = Some n"
    using demo_failed_facts by blast
  from open_breaker_stays_open [OF w(2,3)] w show ?thesis by blast
qed

end
