(* ===== verification/GoNet.thy ===== *)
theory GoNet
  imports Prelude
begin

text \<open>
  The parts of Go's \<open>net/url\<close> and \<open>net\<close> packages that the program relies on: \<open>url.Parse\<close> with
  \<open>Scheme\<close>, \<open>Hostname\<close>, \<open>Port\<close> and \<open>Path\<close>, \<open>net.ParseIP\<close>, \<open>net.ParseCIDR\<close>,
  \<open>IPNet.Contains\<close> and \<open>net.JoinHostPort\<close>. An error of the library is \<open>None\<close>.
\<close>

section \<open>Character classes and cutting\<close>

definition is_alpha :: "char \<Rightarrow> bool" where
  "is_alpha c \<longleftrightarrow> is_lower c \<or> is_upper c"

definition is_hex :: "char \<Rightarrow> bool" where
  "is_hex c \<longleftrightarrow> is_digit c \<or> (97 \<le> byte c \<and> byte c \<le> 102) \<or> (65 \<le> byte c \<and> byte c \<le> 70)"

definition hex_val :: "char \<Rightarrow> nat" where
  "hex_val c = (if is_digit c then byte c - 48 else if is_lower c then byte c - 87 else byte c - 55)"

definition all_digits :: "string \<Rightarrow> bool" where
  "all_digits s \<longleftrightarrow> list_all is_digit s"

fun cut_at :: "(char \<Rightarrow> bool) \<Rightarrow> string \<Rightarrow> string \<times> string option" where
  "cut_at q s = (case index_byte q s of None \<Rightarrow> (s, None) | Some i \<Rightarrow> (take i s, Some (drop (Suc i) s)))"

section \<open>\<open>url.Parse\<close>\<close>

datatype url_mode = EncodePath | EncodeHost | EncodeZone | EncodeUser | EncodeFragment

definition host_punct :: string where
  "host_punct = ''!$&()*+,;=:[]<>'' @ [CHR 0x27, CHR 0x22]"

text \<open>\<open>shouldEscape\<close> for a host or a zone.\<close>

definition host_escape :: "char \<Rightarrow> bool" where
  "host_escape c \<longleftrightarrow> \<not> (is_alpha c \<or> is_digit c \<or> c \<in> set host_punct \<or> c \<in> set ''-_.~'')"

text \<open>\<open>unescape\<close>: percent decoding with the checks of each mode.\<close>

fun unescape :: "url_mode \<Rightarrow> string \<Rightarrow> string option" where
  "unescape m [] = Some []"
| "unescape m (c # s) =
     (if c = CHR ''%'' then
        (case s of
           h # l # r \<Rightarrow>
             if \<not> (is_hex h \<and> is_hex l) then None
             else if m = EncodeHost \<and> hex_val h < 8 \<and> \<not> (h = CHR ''2'' \<and> l = CHR ''5'') then None
             else if m = EncodeZone \<and> \<not> (h = CHR ''2'' \<and> l = CHR ''5'') \<and>
               char_of (hex_val h * 16 + hex_val l) \<noteq> CHR '' '' \<and>
               host_escape (char_of (hex_val h * 16 + hex_val l)) then None
             else map_option (\<lambda>t. char_of (hex_val h * 16 + hex_val l) # t) (unescape m r)
         | _ \<Rightarrow> None)
      else if (m = EncodeHost \<or> m = EncodeZone) \<and> byte c < 128 \<and> host_escape c then None
      else map_option (\<lambda>t. c # t) (unescape m s))"

definition valid_optional_port :: "string \<Rightarrow> bool" where
  "valid_optional_port p \<longleftrightarrow> (case p of [] \<Rightarrow> True | c # ds \<Rightarrow> c = CHR '':'' \<and> all_digits ds)"

fun scheme_scan :: "bool \<Rightarrow> string \<Rightarrow> string \<Rightarrow> (string \<times> string) option option" where
  "scheme_scan first acc [] = Some None"
| "scheme_scan first acc (c # s) =
     (if is_alpha c then scheme_scan False (acc @ [c]) s
      else if is_digit c \<or> c \<in> set ''+-.'' then (if first then Some None else scheme_scan False (acc @ [c]) s)
      else if c = CHR '':'' then (if first then None else Some (Some (acc, s)))
      else Some None)"

text \<open>\<open>getScheme\<close>: the scheme and the rest, or no scheme and the whole text; \<open>None\<close> when the text starts with a colon.\<close>

definition get_scheme :: "string \<Rightarrow> (string \<times> string) option" where
  "get_scheme s = map_option (\<lambda>r. case r of None \<Rightarrow> ('''', s) | Some p \<Rightarrow> p) (scheme_scan True [] s)"

definition user_char :: "char \<Rightarrow> bool" where
  "user_char c \<longleftrightarrow> is_alpha c \<or> is_digit c \<or> c \<in> set ''-._:~!$&()*+,;=%@'' \<or> c = CHR 0x27"

definition parse_host :: "string \<Rightarrow> string option" where
  "parse_host h =
     (if has_prefix h ''['' then
        (case last_index_byte (\<lambda>c. c = CHR '']'') h of
           None \<Rightarrow> None
         | Some i \<Rightarrow>
             if \<not> valid_optional_port (drop (Suc i) h) then None
             else (case index_str (take i h) ''%25'' of
                 None \<Rightarrow> unescape EncodeHost h
               | Some z \<Rightarrow> do {
                   h1 \<leftarrow> unescape EncodeHost (take z h);
                   h2 \<leftarrow> unescape EncodeZone (drop z (take i h));
                   h3 \<leftarrow> unescape EncodeHost (drop i h);
                   Some (h1 @ h2 @ h3) }))
      else (case last_index_byte (\<lambda>c. c = CHR '':'') h of
          Some i \<Rightarrow> if \<not> valid_optional_port (drop i h) then None else unescape EncodeHost h
        | None \<Rightarrow> unescape EncodeHost h))"

text \<open>The userinfo before the last at sign: a name and perhaps a password.\<close>

type_synonym userinfo = "(string \<times> string option) option"

definition parse_userinfo :: "string \<Rightarrow> userinfo option" where
  "parse_userinfo s =
     (if \<not> list_all user_char s then None
      else case cut_at (\<lambda>c. c = CHR '':'') s of
        (n, None) \<Rightarrow> map_option (\<lambda>n'. Some (n', None)) (unescape EncodeUser n)
      | (n, Some p) \<Rightarrow> do {
          n' \<leftarrow> unescape EncodeUser n;
          p' \<leftarrow> unescape EncodeUser p;
          Some (Some (n', Some p')) })"

definition parse_authority :: "string \<Rightarrow> (userinfo \<times> string) option" where
  "parse_authority a =
     (case last_index_byte (\<lambda>c. c = CHR ''@'') a of
        None \<Rightarrow> map_option (\<lambda>h. (None, h)) (parse_host a)
      | Some i \<Rightarrow> do {
          h \<leftarrow> parse_host (drop (Suc i) a);
          usr \<leftarrow> parse_userinfo (take i a);
          Some (usr, h) })"

record url =
  u_scheme :: string
  u_user :: userinfo
  u_host :: string
  u_path :: string
  u_query :: string
  u_fragment :: string

definition no_url :: url where
  "no_url = \<lparr>u_scheme = '''', u_user = None, u_host = '''', u_path = '''', u_query = '''', u_fragment = ''''\<rparr>"

text \<open>\<open>parse\<close>: the text before the fragment. A text with a scheme and no slash after it is opaque.\<close>

definition parse_rest :: "string \<Rightarrow> string \<Rightarrow> string \<Rightarrow> url option" where
  "parse_rest sch rest q =
     (if has_prefix rest ''//'' \<and> (sch \<noteq> '''' \<or> \<not> has_prefix rest ''///'') then
        (let a = drop 2 rest;
             (auth, p) = (case index_byte (\<lambda>c. c = CHR ''/'') a of None \<Rightarrow> (a, '''') | Some i \<Rightarrow> (take i a, drop i a))
         in do {
           (usr, h) \<leftarrow> parse_authority auth;
           p' \<leftarrow> unescape EncodePath p;
           Some (no_url\<lparr>u_scheme := sch, u_user := usr, u_host := h, u_path := p', u_query := q\<rparr>) })
      else do {
        p' \<leftarrow> unescape EncodePath rest;
        Some (no_url\<lparr>u_scheme := sch, u_path := p', u_query := q\<rparr>) })"

definition first_segment_colon :: "string \<Rightarrow> bool" where
  "first_segment_colon rest \<longleftrightarrow> CHR '':'' \<in> set (fst (cut_at (\<lambda>c. c = CHR ''/'') rest))"

definition parse_no_fragment :: "string \<Rightarrow> url option" where
  "parse_no_fragment s =
     (if list_ex (\<lambda>c. byte c < 32 \<or> byte c = 127) s then None
      else if s = ''*'' then Some (no_url\<lparr>u_path := ''*''\<rparr>)
      else do {
        (sch0, rest0) \<leftarrow> get_scheme s;
        let sch = to_lower sch0;
        let (rest, q) = (case cut_at (\<lambda>c. c = CHR ''?'') rest0 of (r, None) \<Rightarrow> (r, '''') | (r, Some q) \<Rightarrow> (r, q));
        if \<not> has_prefix rest ''/'' then
          (if sch \<noteq> '''' then Some (no_url\<lparr>u_scheme := sch, u_query := q\<rparr>)
           else if first_segment_colon rest then None
           else parse_rest sch rest q)
        else parse_rest sch rest q
      })"

definition url_parse :: "string \<Rightarrow> url option" where
  "url_parse raw =
     (case cut_at (\<lambda>c. c = CHR ''#'') raw of
        (s, None) \<Rightarrow> parse_no_fragment s
      | (s, Some f) \<Rightarrow> do {
          u \<leftarrow> parse_no_fragment s;
          f' \<leftarrow> unescape EncodeFragment f;
          Some (u\<lparr>u_fragment := f'\<rparr>) })"

text \<open>\<open>URL.Hostname\<close> and \<open>URL.Port\<close>.\<close>

definition strip_brackets :: "string \<Rightarrow> string" where
  "strip_brackets h = (if has_prefix h ''['' \<and> has_suffix h '']'' \<and> length h \<ge> 2 then butlast (tl h) else h)"

definition split_host_port :: "string \<Rightarrow> string \<times> string" where
  "split_host_port hp =
     (case last_index_byte (\<lambda>c. c = CHR '':'') hp of
        Some i \<Rightarrow> if valid_optional_port (drop i hp) then (strip_brackets (take i hp), drop (Suc i) hp)
                  else (strip_brackets hp, '''')
      | None \<Rightarrow> (strip_brackets hp, ''''))"

definition url_hostname :: "url \<Rightarrow> string" where
  "url_hostname u = fst (split_host_port (u_host u))"

definition url_port :: "url \<Rightarrow> string" where
  "url_port u = snd (split_host_port (u_host u))"

section \<open>Addresses\<close>

definition JoinHostPort :: "string \<Rightarrow> string \<Rightarrow> string" where
  "JoinHostPort h p =
     (if CHR '':'' \<in> set h \<or> CHR ''%'' \<in> set h then ''['' @ h @ '']:'' @ p else h @ '':'' @ p)"

type_synonym ip = "8 word list"

text \<open>One decimal field of an IPv4 address: no leading zero, at most 255.\<close>

fun dec_val :: "nat \<Rightarrow> string \<Rightarrow> nat" where
  "dec_val acc [] = acc"
| "dec_val acc (c # s) = dec_val (acc * 10 + (byte c - 48)) s"

definition ipv4_field :: "string \<Rightarrow> 8 word option" where
  "ipv4_field s =
     (if s = [] \<or> \<not> all_digits s \<or> (length s > 1 \<and> hd s = CHR ''0'') \<or> dec_val 0 s > 255 then None
      else Some (of_nat (dec_val 0 s)))"

definition parse_ipv4 :: "string \<Rightarrow> ip option" where
  "parse_ipv4 s =
     (case map ipv4_field (split_on (CHR ''.'') s) of
        [Some a, Some b, Some c, Some d] \<Rightarrow> Some [a, b, c, d]
      | _ \<Rightarrow> None)"

definition v4_prefix :: ip where
  "v4_prefix = replicate 10 0 @ [0xFF, 0xFF]"

text \<open>
  The loop of \<open>parseIPv6\<close>: \<open>out\<close> are the bytes so far and \<open>ell\<close> the position of the ellipsis;
  fuel 9 covers the at most eight groups.
\<close>

fun ipv6_groups :: "nat \<Rightarrow> ip \<Rightarrow> nat option \<Rightarrow> string \<Rightarrow> (ip \<times> nat option) option" where
  "ipv6_groups 0 out ell s = (if s = [] then Some (out, ell) else None)"
| "ipv6_groups (Suc k) out ell s =
     (if length out \<ge> 16 then (if s = [] then Some (out, ell) else None)
      else
        let g = takeWhile is_hex s; r = dropWhile is_hex s;
            acc = foldl (\<lambda>a c. a * 16 + int (hex_val c)) 0 g
        in
        if g = [] \<or> length g > 4 then None
        else if has_prefix r ''.'' then
          (if (ell = None \<and> length out \<noteq> 12) \<or> length out + 4 > 16 then None
           else map_option (\<lambda>v. (out @ v, ell)) (parse_ipv4 s))
        else
          let out' = out @ [word_of_int (acc div 256), word_of_int (acc mod 256)] in
          (case r of
             [] \<Rightarrow> Some (out', ell)
           | c # r' \<Rightarrow>
               if c \<noteq> CHR '':'' \<or> r' = [] then None
               else if hd r' = CHR '':'' then
                 (if ell \<noteq> None then None
                  else if tl r' = [] then Some (out', Some (length out'))
                  else ipv6_groups k out' (Some (length out')) (tl r'))
               else ipv6_groups k out' ell r'))"

definition parse_ipv6 :: "string \<Rightarrow> ip option" where
  "parse_ipv6 s =
     (let (ell, s') = (if has_prefix s ''::'' then (Some 0, drop 2 s) else (None, s)) in
      if ell \<noteq> None \<and> s' = [] then Some (replicate 16 0)
      else case ipv6_groups 9 [] ell s' of
        None \<Rightarrow> None
      | Some (out, e) \<Rightarrow>
          if length out < 16 then
            (case e of None \<Rightarrow> None
             | Some p \<Rightarrow> Some (take p out @ replicate (16 - length out) 0 @ drop p out))
          else if e \<noteq> None then None else Some out)"

text \<open>\<open>netip.ParseAddr\<close> without zones: 4 or 16 bytes.\<close>

definition parse_addr :: "string \<Rightarrow> ip option" where
  "parse_addr s =
     (if CHR ''%'' \<in> set s then None
      else case index_byte (\<lambda>c. c = CHR ''.'' \<or> c = CHR '':'') s of
        None \<Rightarrow> None
      | Some i \<Rightarrow> if s ! i = CHR ''.'' then parse_ipv4 s else parse_ipv6 s)"

definition to16 :: "ip \<Rightarrow> ip" where
  "to16 a = (if length a = 4 then v4_prefix @ a else a)"

text \<open>\<open>net.ParseIP\<close> always gives 16 bytes; \<open>IP.To4\<close> the last four of an IPv4 address.\<close>

definition ParseIP :: "string \<Rightarrow> ip option" where
  "ParseIP s = map_option to16 (parse_addr s)"

definition To4 :: "ip \<Rightarrow> ip option" where
  "To4 a = (if length a = 4 then Some a
            else if length a = 16 \<and> take 12 a = v4_prefix then Some (drop 12 a) else None)"

record ip_net =
  net_ip :: ip
  net_mask :: ip

definition mask_byte :: "nat \<Rightarrow> 8 word" where
  "mask_byte b = (if b \<ge> 8 then 0xFF else of_nat (256 - 2 ^ (8 - b)))"

definition CIDRMask :: "nat \<Rightarrow> nat \<Rightarrow> ip" where
  "CIDRMask ones bits = map (\<lambda>k. mask_byte (ones - 8 * k)) [0..<bits div 8]"

definition and_bytes :: "ip \<Rightarrow> ip \<Rightarrow> ip" where
  "and_bytes a m = map2 and a m"

definition ParseCIDR :: "string \<Rightarrow> ip_net option" where
  "ParseCIDR s =
     (case index_byte (\<lambda>c. c = CHR ''/'') s of
        None \<Rightarrow> None
      | Some i \<Rightarrow> do {
          a \<leftarrow> parse_addr (take i s);
          let m = drop (Suc i) s;
          if m = [] \<or> \<not> all_digits m \<or> dec_val 0 m > 8 * length a then None
          else
            let mask = CIDRMask (dec_val 0 m) (8 * length a)
            in Some \<lparr>net_ip = and_bytes a mask, net_mask = mask\<rparr> })"

text \<open>\<open>IPNet.Contains\<close> after \<open>networkNumberAndMask\<close>.\<close>

definition net_contains :: "ip_net \<Rightarrow> ip \<Rightarrow> bool" where
  "net_contains n x =
     (let nn = (case To4 (net_ip n) of Some a \<Rightarrow> a | None \<Rightarrow> net_ip n);
          m = (if length nn = 4 \<and> length (net_mask n) = 16 then drop 12 (net_mask n) else net_mask n);
          y = (case To4 x of Some a \<Rightarrow> a | None \<Rightarrow> x)
      in length m = length nn \<and> length y = length nn \<and> and_bytes nn m = and_bytes y m)"

section \<open>Lemmas\<close>

lemma all_digits_no_colon: "all_digits p \<Longrightarrow> CHR '':'' \<notin> set p"
  by (auto simp: all_digits_def list_all_iff is_digit_def byte_def)

lemma JoinHostPort_inj:
  assumes "CHR '':'' \<notin> set p" "CHR '':'' \<notin> set p'" "JoinHostPort h p = JoinHostPort h' p'"
  shows "h = h' \<and> p = p'"
proof -
  have cut: "a = b \<and> q = r" if "a @ '':'' @ q = b @ '':'' @ r" "CHR '':'' \<notin> set q" "CHR '':'' \<notin> set r" for a b q r :: string
    using that by (auto simp: append_eq_append_conv2 Cons_eq_append_conv append_eq_Cons_conv)
  have no: "\<not> (''['' @ a @ '']:'' @ q = b @ '':'' @ r)"
    if "CHR '':'' \<in> set a \<or> CHR ''%'' \<in> set a" "\<not> (CHR '':'' \<in> set b \<or> CHR ''%'' \<in> set b)"
      "CHR '':'' \<notin> set q" "CHR '':'' \<notin> set r" for a b q r :: string
  proof
    assume "''['' @ a @ '']:'' @ q = b @ '':'' @ r"
    with cut [of "''['' @ a @ '']''" q b r] that have "b = ''['' @ a @ '']''" by simp
    with that(1,2) show False by auto
  qed
  show ?thesis
    using assms cut [of "''['' @ h @ '']''" p "''['' @ h' @ '']''" p'] cut [of h p h' p'] no [of h h' p p'] no [of h' h p' p]
    unfolding JoinHostPort_def by (auto split: if_splits)
qed

lemma url_port_digits: "all_digits (url_port u)"
  by (auto simp: url_port_def split_host_port_def valid_optional_port_def all_digits_def drop_Suc
      split: option.splits list.splits) (metis drop_Suc list.sel(3) tl_drop)+

end
