(* ===== verification/Scope.thy ===== *)
theory Scope
  imports GoNet
begin

text \<open>
  The bounty-scope check, \<open>pkg/scope/validator.go\<close>: \<open>CompileAssets\<close> turns the asset list into
  a table of exact endpoints, a list of wildcards and a list of networks, and \<open>IsAllowed\<close> looks a
  target up in them. The compiled look-up is proved to agree with matching the assets one by one
  (\<open>matchURL\<close>, \<open>matchWildcard\<close>, \<open>matchCIDR\<close>).
\<close>

section \<open>Data\<close>

record asset =
  as_type :: string
  as_identifier :: string
  as_eligible :: bool

record cidr_block =
  cb_network :: ip_net
  cb_raw :: string

record scope_engine =
  se_exact :: "(string, string) gomap"
  se_wildcards :: "asset list"
  se_cidrs :: "cidr_block list"

text \<open>
  \<open>LoadDir\<close> over the listing of the directory, the contents of the files and the JSON decoder,
  which are the environment's.
\<close>

fun load_files ::
  "(string \<Rightarrow> string result) \<Rightarrow> (string \<Rightarrow> asset list result) \<Rightarrow> string list \<Rightarrow> asset list list result" where
  "load_files readf decode [] = Inr []"
| "load_files readf decode (p # ps) =
     (case readf p of
        Inl e \<Rightarrow> Inl (''scope: critical failure reading file '' @ p @ '': '' @ e)
      | Inr dat \<Rightarrow>
          (case decode dat of
             Inl e \<Rightarrow> Inl (''scope: critical parsing constraint violation in file '' @ p @ '': '' @ e)
           | Inr batch \<Rightarrow>
               (case load_files readf decode ps of Inl e \<Rightarrow> Inl e | Inr bs \<Rightarrow> Inr (batch # bs))))"

definition LoadDir ::
  "(string \<Rightarrow> string list result) \<Rightarrow> (string \<Rightarrow> string result) \<Rightarrow> (string \<Rightarrow> asset list result) \<Rightarrow> string
   \<Rightarrow> asset list result" where
  "LoadDir glob readf decode dir =
     (case glob dir of
        Inl e \<Rightarrow> Inl (''scope: listing '' @ go_quote dir @ '': '' @ e)
      | Inr paths \<Rightarrow> map_sum id concat (load_files readf decode paths))"

section \<open>Endpoints\<close>

definition isNumeric :: "string \<Rightarrow> bool" where
  "isNumeric s \<longleftrightarrow> s \<noteq> '''' \<and> list_all is_digit s"

definition isSchemeName :: "string \<Rightarrow> bool" where
  "isSchemeName s =
     (case s of [] \<Rightarrow> False
      | c # cs \<Rightarrow> is_alpha c \<and> list_all (\<lambda>c. is_alpha c \<or> is_digit c \<or> c = CHR ''+'' \<or> c = CHR ''-'' \<or> c = CHR ''.'') cs)"

definition schemePrefix :: "string \<Rightarrow> string option" where
  "schemePrefix raw =
     (case index_byte (\<lambda>c. c = CHR '':'') raw of
        None \<Rightarrow> None
      | Some idx \<Rightarrow>
          if idx = 0 then None
          else if \<not> isSchemeName (take idx raw) then None
          else if idx + 1 \<ge> length raw then Some (take idx raw)
          else if is_digit (raw ! (idx + 1)) then None
          else if raw ! (idx + 1) = CHR ''['' then None
          else Some (take idx raw))"

definition defaultPortForScheme :: "string \<Rightarrow> string" where
  "defaultPortForScheme scheme =
     (if scheme = ''http'' then ''80'' else if scheme = ''https'' then ''443'' else '''')"

definition http_endpoint :: "string \<Rightarrow> string \<times> string" where
  "http_endpoint raw =
     (case url_parse raw of
        None \<Rightarrow> ('''', '''')
      | Some u \<Rightarrow>
          let scheme = to_lower (u_scheme u) in
          if scheme \<noteq> ''http'' \<and> scheme \<noteq> ''https'' then ('''', '''')
          else (to_lower (url_hostname u),
                if url_port u = '''' then defaultPortForScheme scheme else url_port u))"

definition extractTargetEndpoint :: "string \<Rightarrow> string \<times> string" where
  "extractTargetEndpoint raw0 =
     (let raw = trim_space raw0 in
      if raw = '''' then ('''', '''')
      else if (case schemePrefix raw of None \<Rightarrow> False | Some sch \<Rightarrow> sch \<noteq> ''http'' \<and> sch \<noteq> ''https'') then ('''', '''')
      else http_endpoint (if \<not> contains_str raw ''://'' then ''https://'' @ raw else raw))"

definition asset_host_port :: "string \<Rightarrow> string \<times> string" where
  "asset_host_port clean0 =
     (let clean = (case index_byte (\<lambda>c. c \<in> set ''/?#'') clean0 of None \<Rightarrow> clean0 | Some i \<Rightarrow> take i clean0) in
      if has_prefix clean ''['' then
        (case index_byte (\<lambda>c. c = CHR '']'') clean of
           Some e \<Rightarrow>
             let host = drop 1 (take e clean); rest = drop (e + 1) clean in
             if has_prefix rest '':'' \<and> isNumeric (drop 1 rest) then (host, drop 1 rest) else (host, '''')
         | None \<Rightarrow> ('''', ''''))
      else
        (case last_index_byte (\<lambda>c. c = CHR '':'') clean of
           Some i \<Rightarrow>
             let host = take i clean; port = drop (i + 1) clean in
             if host \<noteq> '''' \<and> isNumeric port \<and> \<not> contains_str host '':'' then (host, port) else (clean, '''')
         | None \<Rightarrow> (clean, '''')))"

definition extractAssetEndpoint :: "string \<Rightarrow> string \<times> string" where
  "extractAssetEndpoint identifier =
     (let clean = to_lower (trim_space identifier) in
      if clean = '''' then ('''', '''')
      else if contains_str clean ''://'' then http_endpoint clean
      else asset_host_port clean)"

definition normalizeAssetIdentifier :: "string \<Rightarrow> string" where
  "normalizeAssetIdentifier identifier =
     (let (idHost, idPort) = extractAssetEndpoint identifier in
      if idHost = '''' then trim_space identifier
      else if idPort = '''' then idHost
      else JoinHostPort idHost idPort)"

section \<open>Matching one asset\<close>

definition portMatches :: "string \<Rightarrow> string \<Rightarrow> bool" where
  "portMatches targetPort assetPort \<longleftrightarrow> assetPort = '''' \<or> (targetPort \<noteq> '''' \<and> targetPort = assetPort)"

definition matchURL :: "string \<Rightarrow> string \<Rightarrow> string \<Rightarrow> bool" where
  "matchURL targetHost targetPort identifier =
     (let (idHost, idPort) = extractAssetEndpoint identifier in
      if idHost = '''' \<or> targetHost = '''' \<or> targetHost \<noteq> idHost then False
      else portMatches targetPort idPort)"

definition matchWildcard :: "string \<Rightarrow> string \<Rightarrow> string \<Rightarrow> bool" where
  "matchWildcard targetHost targetPort identifier =
     (let (idHost, idPort) = extractAssetEndpoint identifier in
      if targetHost = '''' \<or> \<not> has_prefix idHost ''*.'' then False
      else let baseDomain = drop 2 idHost in
        if baseDomain = '''' then False
        else if \<not> has_suffix targetHost (''.'' @ baseDomain) then False
        else if \<not> portMatches targetPort idPort then False
        else length targetHost > length baseDomain)"

definition matchCIDR :: "ip option \<Rightarrow> string \<Rightarrow> bool" where
  "matchCIDR targetIP identifier =
     (case targetIP of
        None \<Rightarrow> False
      | Some x \<Rightarrow> (case ParseCIDR (trim_space identifier) of None \<Rightarrow> False | Some n \<Rightarrow> net_contains n x))"

section \<open>The compiled engine\<close>

definition exact_key :: "string \<Rightarrow> string \<Rightarrow> string" where
  "exact_key host port = (if port = '''' then host @ '':'' else JoinHostPort host port)"

definition asset_kind :: "asset \<Rightarrow> string" where
  "asset_kind a = to_upper (trim_space (as_type a))"

definition compile_asset :: "scope_engine \<Rightarrow> asset \<Rightarrow> scope_engine" where
  "compile_asset engine a =
     (if \<not> as_eligible a then engine
      else if asset_kind a = ''URL'' then
        (let (host, port) = extractAssetEndpoint (as_identifier a) in
         if host \<noteq> '''' then
           (case gm_put (se_exact engine) (exact_key host port) (normalizeAssetIdentifier (as_identifier a)) of
              Some m \<Rightarrow> engine\<lparr>se_exact := m\<rparr> | None \<Rightarrow> engine)
         else engine)
      else if asset_kind a = ''WILDCARD'' then engine\<lparr>se_wildcards := se_wildcards engine @ [a]\<rparr>
      else if asset_kind a = ''CIDR'' then
        (case ParseCIDR (trim_space (as_identifier a)) of
           Some n \<Rightarrow> engine\<lparr>se_cidrs := se_cidrs engine @ [\<lparr>cb_network = n, cb_raw = trim_space (as_identifier a)\<rparr>]\<rparr>
         | None \<Rightarrow> engine)
      else engine)"

definition CompileAssets :: "asset list \<Rightarrow> scope_engine" where
  "CompileAssets assets = foldl compile_asset \<lparr>se_exact = gm_make, se_wildcards = [], se_cidrs = []\<rparr> assets"

definition engine_IsAllowed :: "scope_engine \<Rightarrow> string \<Rightarrow> bool \<times> string" where
  "engine_IsAllowed se target =
     (let (targetHost, targetPort) = extractTargetEndpoint target; targetIP = ParseIP targetHost in
      if targetHost = '''' \<and> targetIP = None then
        (False, ''target '' @ go_quote target @ '' is not a valid http(s) URL or hostname'')
      else case gm_get (se_exact se) (JoinHostPort targetHost targetPort) of
        Some txt \<Rightarrow> (True, ''matched URL '' @ txt)
      | None \<Rightarrow>
      (case gm_get (se_exact se) (targetHost @ '':'') of
        Some txt \<Rightarrow> (True, ''matched URL '' @ txt)
      | None \<Rightarrow>
      (case (case targetIP of None \<Rightarrow> None
             | Some x \<Rightarrow> find (\<lambda>b. net_contains (cb_network b) x) (se_cidrs se)) of
        Some b \<Rightarrow> (True, ''matched CIDR '' @ cb_raw b)
      | None \<Rightarrow>
      (case find (\<lambda>a. matchWildcard targetHost targetPort (as_identifier a)) (se_wildcards se) of
        Some a \<Rightarrow> (True, ''matched wildcard '' @ normalizeAssetIdentifier (as_identifier a))
      | None \<Rightarrow>
          if targetHost \<noteq> '''' then (False, ''target host '' @ go_quote targetHost @ '' matched no in-scope asset'')
          else (False, ''target matched no in-scope asset'')))))"

definition IsAllowed :: "string \<Rightarrow> asset list \<Rightarrow> bool \<times> string" where
  "IsAllowed target assets =
     (if assets = [] then (False, ''no scope files loaded'')
      else engine_IsAllowed (CompileAssets assets) target)"

section \<open>The compiled engine agrees with matching one by one\<close>

definition allows :: "string \<Rightarrow> asset \<Rightarrow> bool" where
  "allows target a =
     (let (targetHost, targetPort) = extractTargetEndpoint target in
      as_eligible a \<and>
      (asset_kind a = ''URL'' \<and> matchURL targetHost targetPort (as_identifier a) \<or>
       asset_kind a = ''WILDCARD'' \<and> matchWildcard targetHost targetPort (as_identifier a) \<or>
       asset_kind a = ''CIDR'' \<and> matchCIDR (ParseIP targetHost) (as_identifier a)))"

lemma http_endpoint_port:
  "http_endpoint raw = (h, p) \<Longrightarrow> CHR '':'' \<notin> set p \<and> (p = '''' \<longrightarrow> h = '''')"
  using all_digits_no_colon [OF url_port_digits]
  by (auto simp: http_endpoint_def defaultPortForScheme_def Let_def split: option.splits if_splits)

lemma isNumeric_no_colon: "isNumeric p \<Longrightarrow> CHR '':'' \<notin> set p"
  using all_digits_no_colon by (auto simp: isNumeric_def all_digits_def)

lemma extractAssetEndpoint_port: "extractAssetEndpoint i = (h, p) \<Longrightarrow> CHR '':'' \<notin> set p"
  using http_endpoint_port isNumeric_no_colon
  by (auto simp: extractAssetEndpoint_def asset_host_port_def Let_def split: option.splits if_splits)

lemma extractTargetEndpoint_port:
  "extractTargetEndpoint t = (h, p) \<Longrightarrow> CHR '':'' \<notin> set p \<and> (p = '''' \<longrightarrow> h = '''')"
  using http_endpoint_port
  by (auto simp: extractTargetEndpoint_def Let_def split: if_splits)

lemma exact_key_inj:
  assumes "CHR '':'' \<notin> set p" "CHR '':'' \<notin> set q" "q \<noteq> ''''"
  shows "(JoinHostPort h q = exact_key h' p \<or> h @ '':'' = exact_key h' p) \<longleftrightarrow> h' = h \<and> portMatches q p"
proof -
  have a: "JoinHostPort h q = exact_key h' p \<longleftrightarrow> h' = h \<and> p = q" if "p \<noteq> ''''"
    using that assms JoinHostPort_inj [of q p h h'] by (auto simp: exact_key_def)
  have tail: "r \<noteq> '''' \<Longrightarrow> CHR '':'' \<notin> set r \<Longrightarrow> JoinHostPort x r \<noteq> y @ '':''" for x y r
    by (cases r rule: rev_cases) (auto simp: JoinHostPort_def)
  show ?thesis
  proof (cases "p = ''''")
    case True
    with tail [of q h h'] assms show ?thesis by (auto simp: exact_key_def portMatches_def)
  next
    case False
    with a tail [of p h' h] assms show ?thesis by (auto simp: exact_key_def portMatches_def)
  qed
qed

lemma CompileAssets_snoc: "CompileAssets (as @ [a]) = compile_asset (CompileAssets as) a"
  by (simp add: CompileAssets_def)

lemma compile_asset_fields:
  "se_wildcards (compile_asset e a) =
     (if as_eligible a \<and> asset_kind a = ''WILDCARD'' then se_wildcards e @ [a] else se_wildcards e)"
  "\<not> (as_eligible a \<and> asset_kind a = ''URL'' \<and> fst (extractAssetEndpoint (as_identifier a)) \<noteq> '''') \<Longrightarrow>
     se_exact (compile_asset e a) = se_exact e"
  "cb_network ` set (se_cidrs (compile_asset e a)) =
     cb_network ` set (se_cidrs e) \<union>
     (if as_eligible a \<and> asset_kind a = ''CIDR'' then set_option (ParseCIDR (trim_space (as_identifier a))) else {})"
  by (auto simp: compile_asset_def split_beta split: option.split)

lemma compile_exact:
  "se_exact (CompileAssets as) \<noteq> None \<and>
   (gm_get (se_exact (CompileAssets as)) k \<noteq> None \<longleftrightarrow>
     (\<exists>a \<in> set as. \<exists>h p. as_eligible a \<and> asset_kind a = ''URL'' \<and> extractAssetEndpoint (as_identifier a) = (h, p) \<and>
        h \<noteq> '''' \<and> k = exact_key h p))"
proof (induction "as" rule: rev_induct)
  case Nil
  then show ?case by (simp add: CompileAssets_def gm_make_def gm_get_def)
next
  case (snoc a "as")
  show ?case
  proof (cases "as_eligible a \<and> asset_kind a = ''URL'' \<and> fst (extractAssetEndpoint (as_identifier a)) \<noteq> ''''")
    case False
    then have "se_exact (CompileAssets (as @ [a])) = se_exact (CompileAssets as)"
      unfolding CompileAssets_snoc by (rule compile_asset_fields(2))
    with snoc False show ?thesis by auto
  next
    case True
    obtain h p where hp: "extractAssetEndpoint (as_identifier a) = (h, p)" by fastforce
    obtain m where m: "gm_put (se_exact (CompileAssets as)) (exact_key h p) (normalizeAssetIdentifier (as_identifier a)) = Some m" "m \<noteq> None"
      by (rule gm_putE [of "se_exact (CompileAssets as)"]) (use snoc in auto)
    have "se_exact (CompileAssets (as @ [a])) = m"
      using True hp m by (simp add: CompileAssets_snoc compile_asset_def)
    with snoc m True hp gm_get_put [OF m(1), of k] show ?thesis by auto
  qed
qed

lemma compile_wildcards:
  "set (se_wildcards (CompileAssets as)) = {a \<in> set as. as_eligible a \<and> asset_kind a = ''WILDCARD''}"
proof (induction "as" rule: rev_induct)
  case Nil
  then show ?case by (simp add: CompileAssets_def)
next
  case (snoc a "as")
  then show ?case by (auto simp: CompileAssets_snoc compile_asset_fields)
qed

lemma compile_cidrs:
  "cb_network ` set (se_cidrs (CompileAssets as)) =
   {n. \<exists>a \<in> set as. as_eligible a \<and> asset_kind a = ''CIDR'' \<and> ParseCIDR (trim_space (as_identifier a)) = Some n}"
proof (induction "as" rule: rev_induct)
  case Nil
  then show ?case by (simp add: CompileAssets_def)
next
  case (snoc a "as")
  then show ?case
    by (cases "as_eligible a \<and> asset_kind a = ''CIDR''")
       (auto simp: CompileAssets_snoc compile_asset_fields(3) elem_set)
qed

lemma ParseIP_empty [simp]: "ParseIP '''' = None"
  by (simp add: ParseIP_def parse_addr_def)

lemma fst_engine_IsAllowed:
  assumes t: "extractTargetEndpoint target = (h, p)"
  shows "fst (engine_IsAllowed se target) \<longleftrightarrow>
    (h \<noteq> '''' \<or> ParseIP h \<noteq> None) \<and>
    (gm_get (se_exact se) (JoinHostPort h p) \<noteq> None \<or> gm_get (se_exact se) (h @ '':'') \<noteq> None \<or>
     (\<exists>x. ParseIP h = Some x \<and> (\<exists>b \<in> set (se_cidrs se). net_contains (cb_network b) x)) \<or>
     (\<exists>a \<in> set (se_wildcards se). matchWildcard h p (as_identifier a)))"
proof -
  have f: "find P xs \<noteq> None \<longleftrightarrow> (\<exists>x \<in> set xs. P x)" for P and xs :: "'a list"
    by (metis find_None_iff)
  have c: "(case ParseIP h of None \<Rightarrow> None | Some x \<Rightarrow> find (\<lambda>b. net_contains (cb_network b) x) (se_cidrs se)) \<noteq> None \<longleftrightarrow>
      (\<exists>x. ParseIP h = Some x \<and> (\<exists>b \<in> set (se_cidrs se). net_contains (cb_network b) x))"
    by (cases "ParseIP h") (simp_all add: f del: not_None_eq)
  show ?thesis
    unfolding c [symmetric] f [of "\<lambda>a. matchWildcard h p (as_identifier a)" "se_wildcards se", symmetric]
    unfolding engine_IsAllowed_def t Let_def prod.case
    by (cases "gm_get (se_exact se) (JoinHostPort h p)"; cases "gm_get (se_exact se) (h @ '':'')";
        cases "case ParseIP h of None \<Rightarrow> None | Some x \<Rightarrow> find (\<lambda>b. net_contains (cb_network b) x) (se_cidrs se)";
        cases "find (\<lambda>a. matchWildcard h p (as_identifier a)) (se_wildcards se)")
       (auto simp del: not_None_eq)
qed

text \<open>C5: The compiled look-up allows a target exactly when some asset of the list allows it on its own:
  a bounty-eligible URL asset with the same host and a matching port, a wildcard whose base the host
  lies under, or a network that contains the address.\<close>

theorem IsAllowed_iff_some_asset:
  "fst (IsAllowed target assets) \<longleftrightarrow> (\<exists>a \<in> set assets. allows target a)"
proof -
  obtain h p where t: "extractTargetEndpoint target = (h, p)" by fastforce
  show ?thesis
  proof (cases "h = ''''")
    case True
    with t show ?thesis
      by (auto simp: IsAllowed_def fst_engine_IsAllowed [OF t] allows_def matchURL_def matchWildcard_def matchCIDR_def)
  next
    case False
    with extractTargetEndpoint_port [OF t] have p: "CHR '':'' \<notin> set p" "p \<noteq> ''''" by auto
    let ?E = "CompileAssets assets"
    have url: "(gm_get (se_exact ?E) (JoinHostPort h p) \<noteq> None \<or> gm_get (se_exact ?E) (h @ '':'') \<noteq> None) \<longleftrightarrow>
       (\<exists>a \<in> set assets. as_eligible a \<and> asset_kind a = ''URL'' \<and> matchURL h p (as_identifier a))"
    proof -
      have key: "(\<exists>h' p'. extractAssetEndpoint i = (h', p') \<and> h' \<noteq> '''' \<and>
          (JoinHostPort h p = exact_key h' p' \<or> h @ '':'' = exact_key h' p')) \<longleftrightarrow> matchURL h p i" for i
        using extractAssetEndpoint_port [of i] exact_key_inj [OF _ p] False
        by (cases "extractAssetEndpoint i") (auto simp: matchURL_def)
      show ?thesis
        using compile_exact [of assets "JoinHostPort h p"] compile_exact [of assets "h @ '':''"]
        unfolding key [symmetric] by blast
    qed
    have cidr: "(\<exists>x. ParseIP h = Some x \<and> (\<exists>b \<in> set (se_cidrs ?E). net_contains (cb_network b) x)) \<longleftrightarrow>
       (\<exists>a \<in> set assets. as_eligible a \<and> asset_kind a = ''CIDR'' \<and> matchCIDR (ParseIP h) (as_identifier a))"
    proof -
      have "(\<exists>b \<in> set (se_cidrs ?E). net_contains (cb_network b) x) \<longleftrightarrow>
          (\<exists>n. (\<exists>a \<in> set assets. as_eligible a \<and> asset_kind a = ''CIDR'' \<and>
                 ParseCIDR (trim_space (as_identifier a)) = Some n) \<and> net_contains n x)" for x
      proof -
        have "(\<exists>b \<in> set (se_cidrs ?E). net_contains (cb_network b) x) \<longleftrightarrow>
            (\<exists>n \<in> cb_network ` set (se_cidrs ?E). net_contains n x)" by blast
        then show ?thesis unfolding compile_cidrs by simp
      qed
      moreover have "matchCIDR (Some x) i \<longleftrightarrow> (\<exists>n. ParseCIDR (trim_space i) = Some n \<and> net_contains n x)" for x i
        by (auto simp: matchCIDR_def split: option.splits)
      moreover have "\<not> matchCIDR None i" for i by (simp add: matchCIDR_def)
      ultimately show ?thesis by (cases "ParseIP h") (simp_all, blast)
    qed
    have wild: "(\<exists>a \<in> set (se_wildcards ?E). matchWildcard h p (as_identifier a)) \<longleftrightarrow>
       (\<exists>a \<in> set assets. as_eligible a \<and> asset_kind a = ''WILDCARD'' \<and> matchWildcard h p (as_identifier a))"
      by (auto simp: compile_wildcards)
    have "fst (engine_IsAllowed ?E target) \<longleftrightarrow> (\<exists>a \<in> set assets. allows target a)"
      unfolding fst_engine_IsAllowed [OF t] disj_assoc [symmetric] url
      unfolding disj_assoc cidr wild using False by (auto simp: allows_def t)
    then show ?thesis by (cases "assets = []") (simp_all add: IsAllowed_def)
  qed
qed

text \<open>A wildcard asset never covers a look-alike domain: a host it matches is some text, a dot and
  the whole base domain, so \<open>evilexample.com\<close> is not under \<open>*.example.com\<close>, and neither is the base itself.\<close>

theorem matchWildcard_label_boundary:
  assumes "matchWildcard h p i"
  shows "\<exists>r base port. extractAssetEndpoint i = (''*.'' @ base, port) \<and> base \<noteq> '''' \<and> h = r @ ''.'' @ base \<and>
    h \<noteq> base \<and> (port = '''' \<or> p = port)"
proof -
  obtain idHost idPort where e: "extractAssetEndpoint i = (idHost, idPort)" by fastforce
  with assms have m: "has_prefix idHost ''*.''" "drop 2 idHost \<noteq> ''''" "has_suffix h (''.'' @ drop 2 idHost)" "portMatches p idPort"
    by (simp_all add: matchWildcard_def Let_def split: if_splits)
  from m(1) obtain base where b: "idHost = ''*.'' @ base" by (auto simp: has_prefix_iff)
  with m obtain r where "base \<noteq> ''''" "h = r @ ''.'' @ base" by (auto simp: has_suffix_iff)
  note b this m(4)
  with e show ?thesis by (auto simp: portMatches_def)
qed

lemma matchWildcard_label_boundary_witness:
  "matchWildcard ''api.example.com'' ''443'' ''*.example.com'' \<and>
   (\<exists>r. ''api.example.com'' = r @ ''.example.com'') \<and> \<not> matchWildcard ''evilexample.com'' ''443'' ''*.example.com''"
proof -
  have m: "matchWildcard ''api.example.com'' ''443'' ''*.example.com''" by code_simp
  have n: "\<not> matchWildcard ''evilexample.com'' ''443'' ''*.example.com''" by code_simp
  have e: "extractAssetEndpoint ''*.example.com'' = (''*.example.com'', '''')" by code_simp
  from matchWildcard_label_boundary [OF m] e m n show ?thesis by fastforce
qed

end
