(* ===== verification/Proxy.thy ===== *)
theory Proxy
  imports Prelude
begin

text \<open>
  The proxy pool of \<open>pkg/engine/engine.go\<close>: \<open>LoadProxies\<close>, the round-robin \<open>GetNextProxy\<close> that skips
  proxies in cooldown, and \<open>ReportProxyStatus\<close> with its exponential backoff. The round-robin index is
  a 64-bit word, and so is the backoff, whose shift and product wrap around.
\<close>

section \<open>Data\<close>

record proxy =
  px_addr :: string
  px_cooldown :: gotime
  px_fails :: "64 word"

record proxy_pool =
  pp_list :: "proxy list"
  pp_index :: "64 word"
  pp_dialer :: bool

definition fresh_proxy :: "string \<Rightarrow> proxy" where
  "fresh_proxy a = \<lparr>px_addr = a, px_cooldown = 0, px_fails = 0\<rparr>"

text \<open>\<open>LoadProxies\<close> on the lines of the file.\<close>

definition LoadProxies :: "string list \<Rightarrow> proxy_pool \<Rightarrow> proxy_pool" where
  "LoadProxies lns p =
     (let lst = map fresh_proxy (filter (\<lambda>l. l \<noteq> '''') (map trim_space lns))
      in p\<lparr>pp_list := lst, pp_dialer := (if lst \<noteq> [] then True else pp_dialer p)\<rparr>)"

section \<open>Choosing a proxy\<close>

definition ready :: "gotime \<Rightarrow> proxy \<Rightarrow> bool" where
  "ready now p \<longleftrightarrow> time_is_zero (px_cooldown p) \<or> now > px_cooldown p"

text \<open>The loop over at most \<open>n\<close> proxies: the index advances with every one looked at.\<close>

fun next_ready :: "nat \<Rightarrow> gotime \<Rightarrow> proxy list \<Rightarrow> 64 word \<Rightarrow> proxy option \<times> 64 word" where
  "next_ready 0 now ps k = (None, k)"
| "next_ready (Suc n) now ps k =
     (let p = ps ! unat (k mod of_nat (length ps)) in
      if ready now p then (Some p, k + 1) else next_ready n now ps (k + 1))"

fun earliest :: "proxy \<Rightarrow> proxy list \<Rightarrow> proxy" where
  "earliest best [] = best"
| "earliest best (p # ps) = (if px_cooldown p < px_cooldown best then earliest p ps else earliest best ps)"

definition GetNextProxy :: "gotime \<Rightarrow> proxy_pool \<Rightarrow> string \<times> proxy_pool" where
  "GetNextProxy now pool =
     (case pp_list pool of
        [] \<Rightarrow> ('''', pool)
      | p # ps \<Rightarrow>
          (case next_ready (length (p # ps)) now (p # ps) (pp_index pool) of
             (Some q, k) \<Rightarrow> (px_addr q, pool\<lparr>pp_index := k\<rparr>)
           | (None, k) \<Rightarrow> (px_addr (earliest p ps), pool\<lparr>pp_index := k\<rparr>)))"

section \<open>Reporting the outcome\<close>

text \<open>\<open>(1 << failCount) * 15\<close> in 64-bit integers; a shift by 64 or more gives 0.\<close>

definition shift_one :: "64 word \<Rightarrow> 64 word" where
  "shift_one n = (if unat n < 64 then push_bit (unat n) 1 else 0)"

definition backoff_secs :: "64 word \<Rightarrow> int" where
  "backoff_secs fails =
     (let b = shift_one fails * 15 in if sint b > 600 then 600 else sint b)"

definition mark_blocked :: "gotime \<Rightarrow> proxy \<Rightarrow> proxy" where
  "mark_blocked now p =
     (let f = px_fails p + 1
      in p\<lparr>px_fails := f, px_cooldown := now + sint (word_of_int (backoff_secs f * second) :: 64 word)\<rparr>)"

definition mark_healthy :: "proxy \<Rightarrow> proxy" where
  "mark_healthy p = p\<lparr>px_fails := 0, px_cooldown := 0\<rparr>"

fun update_first :: "string \<Rightarrow> (proxy \<Rightarrow> proxy) \<Rightarrow> proxy list \<Rightarrow> proxy list" where
  "update_first a f [] = []"
| "update_first a f (p # ps) = (if px_addr p = a then f p # ps else p # update_first a f ps)"

definition ReportProxyStatus :: "gotime \<Rightarrow> string \<Rightarrow> bool \<Rightarrow> proxy_pool \<Rightarrow> proxy_pool" where
  "ReportProxyStatus now addr isBlocked pool =
     (if addr = '''' then pool
      else pool\<lparr>pp_list := update_first addr (if isBlocked then mark_blocked now else mark_healthy) (pp_list pool)\<rparr>)"

section \<open>The round robin finds a ready proxy\<close>

lemma next_ready_Some:
  "ps \<noteq> [] \<Longrightarrow> next_ready n now ps k = (Some p, k') \<Longrightarrow> length ps < 2 ^ 64 \<Longrightarrow> p \<in> set ps \<and> ready now p"
proof (induction n arbitrary: k)
  case (Suc n)
  have "unat (of_nat (length ps) :: 64 word) = length ps"
    using Suc.prems(3) by (simp add: unat_of_nat)
  then have "unat (k mod of_nat (length ps)) < length ps"
    using Suc.prems(1) by (simp add: unat_mod)
  with Suc show ?case by (auto simp: Let_def split: if_splits)
qed simp

lemma next_ready_None:
  "next_ready n now ps k = (None, k') \<Longrightarrow> j < n \<Longrightarrow> \<not> ready now (ps ! unat ((k + of_nat j) mod of_nat (length ps)))"
proof (induction n arbitrary: k j)
  case (Suc n)
  show ?case
  proof (cases j)
    case 0
    with Suc.prems show ?thesis by (auto simp: Let_def split: if_splits)
  next
    case (Suc i)
    with Suc.prems Suc.IH [of "k + 1" i] show ?thesis by (auto simp: Let_def add_ac split: if_splits)
  qed
qed simp

text \<open>As long as the index does not pass the last word, \<open>n\<close> steps visit every position.\<close>

lemma visits_all:
  assumes "ps \<noteq> []" "i < length ps" "unat k + length ps < 2 ^ 64"
  shows "\<exists>j < length ps. unat ((k + of_nat j :: 64 word) mod of_nat (length ps)) = i"
proof -
  let ?n = "length ps"
  define j where "j = (i + (?n - unat k mod ?n)) mod ?n"
  have n: "0 < ?n" using assms(1) by simp
  have "j < ?n" using n by (simp add: j_def)
  moreover have "(unat k + j) mod ?n = i"
  proof -
    have "(unat k + j) mod ?n = (unat k mod ?n + (i + (?n - unat k mod ?n))) mod ?n"
      by (simp add: j_def mod_add_eq mod_add_left_eq mod_add_right_eq)
    also have "unat k mod ?n + (i + (?n - unat k mod ?n)) = i + ?n"
      using mod_less_divisor [OF n, of "unat k"] by linarith
    finally show ?thesis using assms(2) by simp
  qed
  moreover have "unat (k + of_nat j :: 64 word) = unat k + j"
    using assms(3) \<open>j < ?n\<close> by (simp add: unat_word_ariths unat_of_nat)
  moreover have "unat (of_nat ?n :: 64 word) = ?n"
    using assms(3) by (simp add: unat_of_nat)
  ultimately show ?thesis by (auto simp: unat_mod)
qed

lemma earliest_min: "earliest best ps \<in> set (best # ps) \<and> (\<forall>q \<in> set (best # ps). px_cooldown (earliest best ps) \<le> px_cooldown q)"
proof (induction ps arbitrary: best)
  case (Cons p ps)
  from Cons [of p] Cons [of best] show ?case by (auto intro: order_trans less_imp_le)
qed simp

text \<open>\<open>GetNextProxy\<close> returns a proxy that is not in cooldown whenever there is one, and otherwise
  one of those whose cooldown ends first.\<close>

theorem GetNextProxy_best:
  assumes "pp_list pool \<noteq> []" "unat (pp_index pool) + length (pp_list pool) < 2 ^ 64"
  shows "\<exists>p \<in> set (pp_list pool). fst (GetNextProxy now pool) = px_addr p \<and>
    (if \<exists>q \<in> set (pp_list pool). ready now q then ready now p
     else \<forall>q \<in> set (pp_list pool). px_cooldown p \<le> px_cooldown q)"
proof -
  obtain q qs where l: "pp_list pool = q # qs" using assms(1) by (cases "pp_list pool") auto
  obtain r k where n: "next_ready (length (q # qs)) now (q # qs) (pp_index pool) = (r, k)" by fastforce
  show ?thesis
  proof (cases r)
    case (Some p)
    with n next_ready_Some [of "q # qs" "length (q # qs)" now "pp_index pool" p k] assms(2) l
    have "p \<in> set (q # qs) \<and> ready now p" by simp
    with n l Some show ?thesis by (auto simp: GetNextProxy_def)
  next
    case None
    have "\<not> ready now x" if x: "x \<in> set (q # qs)" for x
    proof -
      obtain i where i: "i < length (q # qs)" "(q # qs) ! i = x" using x unfolding in_set_conv_nth by blast
      obtain j where "j < length (q # qs)"
          "unat ((pp_index pool + of_nat j :: 64 word) mod of_nat (length (q # qs))) = i"
        using visits_all [of "q # qs" i "pp_index pool"] i(1) assms(2) l by auto
      with next_ready_None [OF n [unfolded None]] i(2) show ?thesis by metis
    qed
    with n l None earliest_min [of q qs] show ?thesis by (auto simp: GetNextProxy_def)
  qed
qed

definition demo_pool :: proxy_pool where
  "demo_pool = \<lparr>pp_list = [\<lparr>px_addr = ''a'', px_cooldown = 50, px_fails = 1\<rparr>, fresh_proxy ''b''], pp_index = 0, pp_dialer = True\<rparr>"

lemma GetNextProxy_best_witness:
  "fst (GetNextProxy 10 demo_pool) = ''b'' \<and> (\<exists>p \<in> set (pp_list demo_pool). ready 10 p \<and> fst (GetNextProxy 10 demo_pool) = px_addr p)"
proof -
  have c: "fst (GetNextProxy 10 demo_pool) = ''b''" by code_simp
  have "\<exists>q \<in> set (pp_list demo_pool). ready 10 q" by code_simp
  moreover have "pp_list demo_pool \<noteq> []" "unat (pp_index demo_pool) + length (pp_list demo_pool) < 2 ^ 64"
    by (simp_all add: demo_pool_def)
  ultimately show ?thesis using GetNextProxy_best [of demo_pool 10] c by auto
qed

section \<open>The backoff\<close>

lemma sint_word_of_int_id: "- (2 ^ 63) \<le> x \<Longrightarrow> x < 2 ^ 63 \<Longrightarrow> sint (word_of_int x :: 64 word) = x"
  by (simp only: sint_sbintrunc') (simp add: signed_take_bit_int_eq_self)

text \<open>A proxy that is blocked for the \<open>n\<close>-th time in a row cools down for the smaller of
  \<open>15 * 2 ^ n\<close> and 600 seconds, up to 59 failures in a row.\<close>

theorem backoff_doubles:
  assumes "n \<le> 59"
  shows "backoff_secs (of_nat n) = min (15 * 2 ^ n) 600"
proof -
  have u: "unat (of_nat n :: 64 word) = n" using assms by (simp add: unat_of_nat)
  have le: "(2 :: int) ^ n \<le> 2 ^ 59" using assms by (intro power_increasing) auto
  have "push_bit n 1 * 15 = (word_of_int (15 * 2 ^ n) :: 64 word)"
    by (simp add: push_bit_eq_mult mult.commute)
  moreover have "sint (word_of_int (15 * 2 ^ n) :: 64 word) = 15 * 2 ^ n"
    using le by (intro sint_word_of_int_id) (auto intro: order_trans [of _ 0])
  ultimately have "sint (push_bit n 1 * 15 :: 64 word) = 15 * 2 ^ n" by metis
  with u assms show ?thesis by (auto simp: backoff_secs_def shift_one_def Let_def min_def)
qed

lemma backoff_doubles_witness: "backoff_secs 3 = 120"
  using backoff_doubles [of 3] by simp

text \<open>From the 60th failure in a row on the product overflows and the cooldown vanishes: the proxy that
  fails most is ready again at once.\<close>

theorem backoff_lost:
  assumes "60 \<le> unat (px_fails p + 1)"
  shows "px_cooldown (mark_blocked now p) = now"
proof -
  have z: "sint (word_of_int (backoff_secs f * second) :: 64 word) = 0" if f: "60 \<le> unat f" for f
  proof (cases "64 \<le> unat f")
    case True
    then show ?thesis by (simp add: backoff_secs_def shift_one_def Let_def)
  next
    case False
    with f have "unat f \<in> {60, 61, 62, 63}" by auto
    then have "f \<in> {60, 61, 62, 63}" by (auto dest: arg_cong [of _ _ "of_nat :: nat \<Rightarrow> 64 word"])
    then show ?thesis by (auto simp: backoff_secs_def shift_one_def Let_def second_def)
  qed
  from z [OF assms] show ?thesis by (simp add: mark_blocked_def Let_def)
qed

lemma backoff_lost_witness:
  "px_cooldown (mark_blocked 7 \<lparr>px_addr = ''a'', px_cooldown = 0, px_fails = 59\<rparr>) = 7"
  by (rule backoff_lost) simp

end
