(* ===== verification/GoText.thy ===== *)
theory GoText
  imports GoNet
begin

text \<open>
  More of Go's text functions: \<open>strings.Fields\<close>, \<open>strings.ReplaceAll\<close> and \<open>strings.Split\<close> with longer
  patterns, \<open>strconv.Atoi\<close>, \<open>strconv.ParseInt\<close> in base 16, hexadecimal printing and base 64.
\<close>

section \<open>Splitting and replacing\<close>

fun str_fields_acc :: "string \<Rightarrow> string \<Rightarrow> string list" where
  "str_fields_acc w [] = (if w = [] then [] else [w])"
| "str_fields_acc w (c # s) =
     (if is_space c then (if w = [] then str_fields_acc [] s else w # str_fields_acc [] s) else str_fields_acc (w @ [c]) s)"

definition str_fields :: "string \<Rightarrow> string list" where
  "str_fields s = str_fields_acc [] s"

text \<open>\<open>strings.SplitN (s, sep, 2)\<close> for a one-byte separator.\<close>

definition split_two :: "char \<Rightarrow> string \<Rightarrow> string \<times> string option" where
  "split_two c s = cut_at (\<lambda>x. x = c) s"

text \<open>\<open>strings.ReplaceAll\<close> for a non-empty pattern, from left to right without overlap.\<close>

function replace_str :: "string \<Rightarrow> string \<Rightarrow> string \<Rightarrow> string" where
  "replace_str p r s =
     (if p = [] then s
      else case index_str s p of None \<Rightarrow> s
           | Some i \<Rightarrow> take i s @ r @ replace_str p r (drop (i + length p) s))"
  by pat_completeness auto
termination
  by (relation "measure (\<lambda>(p, r, s). length s)")
     (auto dest!: index_str_bound intro: diff_less simp: length_greater_0_conv [symmetric] simp del: length_greater_0_conv)

declare replace_str.simps [simp del]

definition trim_prefix :: "string \<Rightarrow> string \<Rightarrow> string" where
  "trim_prefix s p = (if has_prefix s p then drop (length p) s else s)"

definition trim_suffix :: "string \<Rightarrow> string \<Rightarrow> string" where
  "trim_suffix s p = (if has_suffix s p then take (length s - length p) s else s)"

section \<open>Numbers\<close>

definition int64_ok :: "int \<Rightarrow> bool" where
  "int64_ok i \<longleftrightarrow> - (2 ^ 63) \<le> i \<and> i < 2 ^ 63"

definition sign_split :: "string \<Rightarrow> int \<times> string" where
  "sign_split s = (case s of [] \<Rightarrow> (1, [])
     | c # r \<Rightarrow> if c = CHR ''+'' then (1, r) else if c = CHR ''-'' then (- 1, r) else (1, s))"

text \<open>The syntactic part of \<open>strconv.Atoi\<close>, and its value with the range check.\<close>

definition atoi_raw :: "string \<Rightarrow> int option" where
  "atoi_raw s = (let (sg, d) = sign_split s in
     if d = [] \<or> \<not> all_digits d then None else Some (sg * int (dec_val 0 d)))"

definition atoi :: "string \<Rightarrow> int option" where
  "atoi s = (case atoi_raw s of None \<Rightarrow> None | Some i \<Rightarrow> if int64_ok i then Some i else None)"

text \<open>The number that comes with the error: 0 for a syntax error, the nearest bound out of range.\<close>

definition atoi_value :: "string \<Rightarrow> int" where
  "atoi_value s = (case atoi_raw s of None \<Rightarrow> 0
     | Some i \<Rightarrow> if i \<ge> 2 ^ 63 then 2 ^ 63 - 1 else if i < - (2 ^ 63) then - (2 ^ 63) else i)"

definition hex_num :: "string \<Rightarrow> nat" where
  "hex_num s = foldl (\<lambda>a c. a * 16 + hex_val c) 0 s"

definition parse_hex64 :: "string \<Rightarrow> int option" where
  "parse_hex64 s = (let (sg, d) = sign_split s in
     if d = [] \<or> \<not> list_all is_hex d \<or> \<not> int64_ok (sg * int (hex_num d)) then None
     else Some (sg * int (hex_num d)))"

definition hex_digit :: "nat \<Rightarrow> char" where
  "hex_digit n = (if n < 10 then char_of (48 + n) else char_of (87 + n))"

fun nat_hex :: "nat \<Rightarrow> string" where
  "nat_hex n = (if n < 16 then [hex_digit n] else nat_hex (n div 16) @ [hex_digit (n mod 16)])"

declare nat_hex.simps [simp del]

section \<open>Base 64\<close>

definition b64_char :: "nat \<Rightarrow> char" where
  "b64_char n = ''ABCDEFGHIJKLMNOPQRSTUVWXYZabcdefghijklmnopqrstuvwxyz0123456789+/'' ! n"

fun b64_encode :: "string \<Rightarrow> string" where
  "b64_encode [] = []"
| "b64_encode [a] = [b64_char (byte a div 4), b64_char (byte a mod 4 * 16), CHR ''='', CHR ''='']"
| "b64_encode [a, b] =
     [b64_char (byte a div 4), b64_char (byte a mod 4 * 16 + byte b div 16), b64_char (byte b mod 16 * 4), CHR ''='']"
| "b64_encode (a # b # c # r) =
     [b64_char (byte a div 4), b64_char (byte a mod 4 * 16 + byte b div 16),
      b64_char (byte b mod 16 * 4 + byte c div 64), b64_char (byte c mod 64)] @ b64_encode r"

section \<open>Lemmas\<close>

lemma byte_char_of: "n < 256 \<Longrightarrow> byte (char_of n) = n"
  by (simp add: byte_def)

lemma byte_eqI: "byte c = byte d \<Longrightarrow> c = d"
  by (simp add: byte_def)

lemma index_str_None: "index_str s p = None \<longleftrightarrow> \<not> contains_str s p"
  by (induction s) auto

lemma index_str_Some:
  "index_str s p = Some i \<longleftrightarrow> i \<le> length s \<and> has_prefix (drop i s) p \<and> (\<forall>j < i. \<not> has_prefix (drop j s) p)"
proof (induction s arbitrary: i)
  case Nil
  then show ?case by (auto simp: has_prefix_def)
next
  case (Cons c s)
  show ?case
  proof (cases "has_prefix (c # s) p")
    case True
    then show ?thesis by (cases i) auto
  next
    case False
    with Cons show ?thesis by (cases i) (auto simp: less_Suc_eq_0_disj)
  qed
qed

lemma contains_drop: "contains_str s p \<longleftrightarrow> (\<exists>i \<le> length s. has_prefix (drop i s) p)"
proof
  assume "contains_str s p"
  then obtain i where "index_str s p = Some i" by (cases "index_str s p") (auto simp: index_str_None)
  then show "\<exists>i \<le> length s. has_prefix (drop i s) p" by (auto simp: index_str_Some)
next
  assume "\<exists>i \<le> length s. has_prefix (drop i s) p"
  then show "contains_str s p"
    by (auto simp: contains_str_sublist has_prefix_iff) (metis append_take_drop_id sublist_appendI)
qed

lemma index_str_cut: "index_str s p = Some i \<Longrightarrow> s = take i s @ p @ drop (i + length p) s"
proof -
  assume "index_str s p = Some i"
  then obtain r where r: "drop i s = p @ r" by (auto simp: index_str_Some has_prefix_iff)
  then have "r = drop (length p) (drop i s)" by simp
  then have "r = drop (i + length p) s" by (simp add: add.commute)
  with r show ?thesis by (metis append_take_drop_id)
qed

lemma hex_digit_facts: "n < 16 \<Longrightarrow> is_hex (hex_digit n) \<and> hex_val (hex_digit n) = n"
  by (auto simp: hex_digit_def is_hex_def hex_val_def is_digit_def is_lower_def byte_char_of)

lemma nat_hex_facts: "nat_hex n \<noteq> [] \<and> list_all is_hex (nat_hex n) \<and> hex_num (nat_hex n) = n"
proof (induction n rule: nat_hex.induct)
  case (1 n)
  show ?case
  proof (cases "n < 16")
    case True
    then show ?thesis using hex_digit_facts [of n] by (simp add: nat_hex.simps [of n] hex_num_def)
  next
    case False
    then show ?thesis using 1 hex_digit_facts [of "n mod 16"]
      by (simp add: nat_hex.simps [of n] hex_num_def)
  qed
qed

lemma is_hex_cases: "is_hex c \<Longrightarrow> c \<noteq> CHR ''+'' \<and> c \<noteq> CHR ''-'' \<and> \<not> is_space c \<and> c \<noteq> CHR '';'' \<and> c \<noteq> CHR 0x0A"
  by (auto simp: is_hex_def is_digit_def is_space_def byte_def)

lemma parse_hex64_nat_hex:
  assumes "int n < 2 ^ 63" shows "parse_hex64 (nat_hex n) = Some (int n)"
proof -
  obtain c r where c: "nat_hex n = c # r" "is_hex c" using nat_hex_facts [of n] by (cases "nat_hex n") auto
  then have "sign_split (nat_hex n) = (1, nat_hex n)" using is_hex_cases [of c] by (simp add: sign_split_def)
  with nat_hex_facts [of n] assms show ?thesis by (simp add: parse_hex64_def int64_ok_def)
qed

lemma split_on_append: "c \<notin> set w \<Longrightarrow> split_on c (w @ c # s) = w # split_on c s"
  by (induction w) auto

lemma split_on_single: "c \<notin> set w \<Longrightarrow> split_on c w = [w]"
  by (induction w) auto

lemma split_on_join: "ws \<noteq> [] \<Longrightarrow> \<forall>w \<in> set ws. c \<notin> set w \<Longrightarrow> split_on c (join [c] ws) = ws"
  by (induction "[c]" ws rule: join.induct) (auto simp: split_on_single split_on_append)

end
