(* ===== verification/HttpFraming.thy ===== *)
theory HttpFraming
  imports GoText
begin

text \<open>
  HTTP/1.x response framing, \<open>pkg/httpclient/client.go\<close>: chunked bodies (\<open>dechunkBody\<close>,
  \<open>hasCompleteChunkedBody\<close>), the framing headers (\<open>parseConsistentContentLength\<close>,
  \<open>transferEncodingChunkedFinal\<close>) and \<open>parseRawResponse\<close>. The connection is the list of what its
  \<open>Read\<close> calls return; reading on past the end of the list blocks, which is the value \<open>None\<close>. The
  decompressors of the standard library and of the Brotli package are parameters.
\<close>

definition MaxBodySize :: nat where "MaxBodySize = 5 * 1024 * 1024"

definition CR :: char where "CR = CHR 0x0D"
definition LF :: char where "LF = CHR 0x0A"
definition crlf :: string where "crlf = [CR, LF]"

lemmas eol_defs = CR_def LF_def crlf_def

section \<open>Chunked bodies\<close>

text \<open>\<open>ReadString\<close> up to a line feed: the line without it and the rest, or no rest at the end of the input.\<close>

definition read_line :: "string \<Rightarrow> string \<times> string option" where
  "read_line s = cut_at (\<lambda>c. c = LF) s"

lemma read_line_length: "read_line s = (l, Some r) \<Longrightarrow> length r < length s"
  by (auto simp: read_line_def dest!: index_byte_Some split: option.splits)

type_synonym trailers = "(string \<times> string) list"

definition is_eol :: "char \<Rightarrow> bool" where
  "is_eol c \<longleftrightarrow> c = CR \<or> c = LF"

text \<open>The trailer loop on the remaining lines, up to the first empty one.\<close>

fun read_trailers :: "string \<Rightarrow> trailers \<Rightarrow> string list \<Rightarrow> trailers" where
  "read_trailers lastKey ts [] = ts"
| "read_trailers lastKey ts (tline # tlines) =
     (let trimmed = trim_right is_eol tline in
      if trimmed = [] then ts
      else if hd trimmed = CHR '' '' \<or> hd trimmed = CHR 0x09 then
        read_trailers lastKey
          (if lastKey \<noteq> [] then AList.update lastKey
             ((case map_of ts lastKey of None \<Rightarrow> [] | Some v \<Rightarrow> v) @ '' '' @ trim_space trimmed) ts else ts) tlines
      else (case split_two (CHR '':'') trimmed of
          (_, None) \<Rightarrow> read_trailers lastKey ts tlines
        | (k, Some v) \<Rightarrow>
            read_trailers (to_lower (trim_space k)) (AList.update (to_lower (trim_space k)) (trim_space v) ts) tlines))"

definition chunk_line :: "string \<Rightarrow> string" where
  "chunk_line l =
     (let t = trim_space l in trim_space (case index_byte (\<lambda>c. c = CHR '';'') t of Some i \<Rightarrow> take i t | None \<Rightarrow> t))"

definition dechunk_end :: "string \<Rightarrow> string \<Rightarrow> string \<times> trailers option" where
  "dechunk_end body out = (if out \<noteq> [] then (out, None) else (body, None))"

definition skip_line :: "string \<Rightarrow> string" where
  "skip_line s = (case read_line s of (_, Some r) \<Rightarrow> r | (_, None) \<Rightarrow> [])"

lemma skip_line_length: "length (skip_line s) \<le> length s"
  using read_line_length [of s] by (cases "read_line s") (auto simp: skip_line_def less_imp_le split: option.splits)

function dechunk :: "string \<Rightarrow> string \<Rightarrow> string \<Rightarrow> string \<times> trailers option" where
  "dechunk body out buf =
     (case read_line buf of
        (l, None) \<Rightarrow> dechunk_end body out
      | (l, Some rest) \<Rightarrow>
          if trim_space l = [] then dechunk body out rest
          else case parse_hex64 (chunk_line l) of
            None \<Rightarrow> dechunk_end body out
          | Some sz \<Rightarrow>
              if sz < 0 then dechunk_end body out
              else if sz = 0 then (out, Some (read_trailers [] [] (split_on LF rest)))
              else if MaxBodySize \<le> length out then dechunk_end body out
              else
                let toRead = min (nat sz) (MaxBodySize - length out)
                in dechunk body (out @ take toRead rest) (skip_line (drop (nat sz) rest)))"
  by pat_completeness auto
termination
  by (relation "measure (\<lambda>(body, out, buf). length buf)")
     (auto dest!: sym [of _ "read_line _"] dest: read_line_length
        intro!: le_less_trans [OF skip_line_length] simp: less_imp_diff_less)

declare dechunk.simps [simp del]

definition dechunkBody :: "string \<Rightarrow> string \<times> trailers option" where
  "dechunkBody body = dechunk body [] body"

text \<open>The positions where a zero chunk may start, and the check of what follows.\<close>

fun zero_starts :: "string \<Rightarrow> string \<Rightarrow> nat \<Rightarrow> nat list" where
  "zero_starts eol [] n = []"
| "zero_starts eol (c # s) n =
     (if has_prefix (c # s) (eol @ ''0'' @ eol) then (n + length eol) # zero_starts eol s (Suc n) else zero_starts eol s (Suc n))"

definition hasCompleteChunkedBodyWithEOL :: "string \<Rightarrow> string \<Rightarrow> bool" where
  "hasCompleteChunkedBodyWithEOL body eol =
     (let zeroPrefix = ''0'' @ eol;
          starts = (if has_prefix body zeroPrefix then [0] else []) @ zero_starts eol body 0
      in \<exists>start \<in> set starts.
           let rest = drop (start + length zeroPrefix) body
           in has_prefix rest eol \<or> contains_str rest (eol @ eol))"

definition hasCompleteChunkedBody :: "string \<Rightarrow> bool" where
  "hasCompleteChunkedBody body \<longleftrightarrow>
     hasCompleteChunkedBodyWithEOL body crlf \<or> hasCompleteChunkedBodyWithEOL body [LF]"

section \<open>Requests\<close>

definition first_fields :: "string \<Rightarrow> string list" where
  "first_fields rawRequest = str_fields (fst (read_line rawRequest))"

definition requestExpectsNoResponseBody :: "string \<Rightarrow> bool" where
  "requestExpectsNoResponseBody rawRequest =
     (case first_fields rawRequest of [] \<Rightarrow> False | m # _ \<Rightarrow> equal_fold m ''HEAD'')"

definition requestMethod :: "string \<Rightarrow> string" where
  "requestMethod rawRequest = (case first_fields rawRequest of [] \<Rightarrow> '''' | m # _ \<Rightarrow> to_upper m)"

definition requestReplaySafe :: "string \<Rightarrow> bool" where
  "requestReplaySafe rawRequest \<longleftrightarrow> requestMethod rawRequest \<in> {''GET'', ''HEAD'', ''OPTIONS'', ''TRACE''}"

section \<open>Framing headers\<close>

fun consistent_length :: "int \<Rightarrow> string list \<Rightarrow> int result" where
  "consistent_length want [] = Inr want"
| "consistent_length want (raw # values) =
     (let val = trim_space raw in
      if val = '''' then Inl ''empty Content-Length value''
      else case atoi val of
        None \<Rightarrow> Inl (''invalid Content-Length value '' @ go_quote val)
      | Some n \<Rightarrow>
          if n < 0 then Inl (''invalid Content-Length value '' @ go_quote val)
          else if want = - 1 then consistent_length n values
          else if n \<noteq> want then Inl (''conflicting Content-Length values: '' @ itoa want @ '' and '' @ itoa n)
          else consistent_length want values)"

definition parseConsistentContentLength :: "string list \<Rightarrow> int result" where
  "parseConsistentContentLength values = consistent_length (- 1) values"

fun codings_chunked :: "bool \<Rightarrow> string list \<Rightarrow> bool result" where
  "codings_chunked seen2 [] = Inr seen2"
| "codings_chunked seen2 (raw # parts) =
     (let coding = to_lower (trim_space (fst (split_two (CHR '';'') raw))) in
      if coding = '''' then Inl ''invalid empty Transfer-Encoding coding''
      else if coding = ''chunked'' then
        (if seen2 \<or> parts \<noteq> [] then
           Inl ''invalid Transfer-Encoding: chunked must appear exactly once and as the final coding''
         else codings_chunked True parts)
      else codings_chunked seen2 parts)"

definition transferEncodingChunkedFinal :: "string \<Rightarrow> bool result" where
  "transferEncodingChunkedFinal val = codings_chunked False (split_on (CHR '','') val)"

definition responseHasNoBody :: "bool \<Rightarrow> int \<Rightarrow> bool" where
  "responseHasNoBody expectNoBody statusCode \<longleftrightarrow>
     expectNoBody \<or> (100 \<le> statusCode \<and> statusCode < 200) \<or> statusCode = 204 \<or> statusCode = 304"

definition responseAllowsKeepalive :: "bool \<Rightarrow> (string, string) gomap \<Rightarrow> bool" where
  "responseAllowsKeepalive isHTTP10 headerMap =
     (let connection = (case gm_get headerMap ''connection'' of None \<Rightarrow> '''' | Some v \<Rightarrow> v);
          values = (if connection \<noteq> '''' then map trim_space (split_on (CHR '','') connection) else [])
      in case find (\<lambda>v. equal_fold v ''close'' \<or> equal_fold v ''keep-alive'') values of
           Some v \<Rightarrow> \<not> equal_fold v ''close''
         | None \<Rightarrow> \<not> isHTTP10)"

section \<open>Headers\<close>

record raw_response =
  rr_status :: int
  rr_headers :: string
  rr_map :: "(string, string) gomap"
  rr_body :: string
  rr_raw :: string
  rr_complete :: bool
  rr_encoded :: bool

definition normalize_eol :: "string \<Rightarrow> string" where
  "normalize_eol s = replace_byte CR [LF] (replace_str crlf [LF] s)"

text \<open>The look-up in a raw header block, for a response without a header map.\<close>

definition header_line :: "string \<Rightarrow> string \<Rightarrow> string option" where
  "header_line lowerKey l =
     (if l = '''' then None
      else case split_two (CHR '':'') l of
        (_, None) \<Rightarrow> None
      | (k, Some v) \<Rightarrow> if to_lower (trim_space k) = lowerKey then Some (trim_space v) else None)"

definition GetHeader :: "raw_response \<Rightarrow> string \<Rightarrow> string" where
  "GetHeader r key =
     (let lowerKey = to_lower key in
      if rr_map r \<noteq> None then (case gm_get (rr_map r) lowerKey of Some v \<Rightarrow> v | None \<Rightarrow> '''')
      else (case List.map_filter (header_line lowerKey) (split_on LF (normalize_eol (rr_headers r))) of
              v # _ \<Rightarrow> v | [] \<Rightarrow> ''''))"

record head_info =
  hi_status :: int
  hi_http10 :: bool
  hi_map :: "(string \<times> string) list"
  hi_lengths :: "string list"
  hi_last :: string

text \<open>One header line after the status line: folded lines continue the previous value, and of a
  repeated name the first value stays, except that \<open>Transfer-Encoding\<close> values are joined.\<close>

definition head_line :: "head_info \<Rightarrow> string \<Rightarrow> head_info" where
  "head_line h l =
     (if trim_space l = '''' then h
      else if hd l = CHR '' '' \<or> hd l = CHR 0x09 then
        (if hi_last h \<noteq> '''' then
           h\<lparr>hi_map := AList.update (hi_last h)
               ((case map_of (hi_map h) (hi_last h) of Some v \<Rightarrow> v | None \<Rightarrow> '''') @ '' '' @ trim_space l) (hi_map h)\<rparr>
         else h)
      else case split_two (CHR '':'') l of
        (_, None) \<Rightarrow> h
      | (k0, Some v0) \<Rightarrow>
          let k = to_lower (trim_space k0); v = trim_space v0;
              h1 = (if k = ''content-length'' then h\<lparr>hi_lengths := hi_lengths h @ split_on (CHR '','') v\<rparr> else h);
              m = (case map_of (hi_map h1) k of
                     Some prev \<Rightarrow>
                       if k = ''transfer-encoding'' then
                         (if prev = '''' then AList.update k v (hi_map h1)
                          else if v \<noteq> '''' then AList.update k (prev @ '', '' @ v) (hi_map h1) else hi_map h1)
                       else hi_map h1
                   | None \<Rightarrow> AList.update k v (hi_map h1))
          in h1\<lparr>hi_map := m, hi_last := k\<rparr>)"

definition parse_head :: "string \<Rightarrow> head_info" where
  "parse_head headersStr =
     (let lns = split_on LF (normalize_eol headersStr);
          firstLine = trim_space (hd lns);
          h0 = \<lparr>hi_status = (case str_fields firstLine of _ # s # _ \<Rightarrow> atoi_value s | _ \<Rightarrow> 0),
                hi_http10 = has_prefix (to_upper firstLine) ''HTTP/1.0'', hi_map = [], hi_lengths = [], hi_last = ''''\<rparr>
      in foldl head_line h0 (tl lns))"

text \<open>The framing that the headers announce: chunked or not, and the content length or -1.\<close>

definition framing :: "head_info \<Rightarrow> (bool \<times> int) result" where
  "framing h =
     (case map_of (hi_map h) ''transfer-encoding'' of
        Some te \<Rightarrow>
          if hi_lengths h \<noteq> [] then
            Inl ''ambiguous response framing: Transfer-Encoding and Content-Length are both present''
          else (case transferEncodingChunkedFinal te of Inl e \<Rightarrow> Inl e | Inr c \<Rightarrow> Inr (c, - 1))
      | None \<Rightarrow>
          if hi_lengths h \<noteq> [] then
            (case parseConsistentContentLength (hi_lengths h) of Inl e \<Rightarrow> Inl e | Inr n \<Rightarrow> Inr (False, n))
          else Inr (False, - 1))"

section \<open>Reading a response\<close>

datatype read_err = NoErr | EOF | ReadErr string

record reader =
  rd_buf :: string
  rd_end :: "(nat \<times> nat) option"
  rd_head :: head_info
  rd_chunked :: bool
  rd_length :: int
  rd_err :: read_err

text \<open>The end of the headers, searched from four bytes before the new data: the position and the
  length of the separator.\<close>

definition find_end :: "nat \<Rightarrow> string \<Rightarrow> (nat \<times> nat) option" where
  "find_end start raw =
     (case index_str (drop start raw) (crlf @ crlf) of
        Some i \<Rightarrow> Some (start + i, 4)
      | None \<Rightarrow> (case index_str (drop start raw) [LF, LF] of Some i \<Rightarrow> Some (start + i, 2) | None \<Rightarrow> None))"

definition read_step :: "reader \<Rightarrow> string \<times> read_err \<Rightarrow> reader result" where
  "read_step r ce =
     (let raw = rd_buf r @ fst ce; r1 = r\<lparr>rd_buf := raw, rd_err := snd ce\<rparr> in
      if rd_end r \<noteq> None then Inr r1
      else case find_end (length (rd_buf r) - 4) raw of
        None \<Rightarrow> Inr r1
      | Some (e, sep) \<Rightarrow>
          let h = parse_head (take e raw) in
          (case framing h of
             Inl err \<Rightarrow> Inl err
           | Inr (ch, n) \<Rightarrow> Inr (r1\<lparr>rd_end := Some (e, sep), rd_head := h, rd_chunked := ch, rd_length := n\<rparr>)))"

definition body_so_far :: "reader \<Rightarrow> string" where
  "body_so_far r = (case rd_end r of Some (e, sep) \<Rightarrow> drop (e + sep) (rd_buf r) | None \<Rightarrow> '''')"

definition body_done :: "bool \<Rightarrow> reader \<Rightarrow> bool" where
  "body_done expectNoBody r \<longleftrightarrow> rd_end r \<noteq> None \<and>
     (responseHasNoBody expectNoBody (hi_status (rd_head r)) \<or>
      (if rd_chunked r then hasCompleteChunkedBody (body_so_far r)
       else rd_length r \<noteq> - 1 \<and> int (length (body_so_far r)) \<ge> rd_length r))"

fun read_loop :: "bool \<Rightarrow> reader \<Rightarrow> (string \<times> read_err) list \<Rightarrow> reader result option" where
  "read_loop expectNoBody r [] = None"
| "read_loop expectNoBody r (ce # ces) =
     (case read_step r ce of
        Inl e \<Rightarrow> Some (Inl e)
      | Inr r' \<Rightarrow>
          if body_done expectNoBody r' \<or> rd_err r' \<noteq> NoErr \<or> length (rd_buf r') > MaxBodySize then Some (Inr r')
          else read_loop expectNoBody r' ces)"

definition empty_head :: head_info where
  "empty_head = \<lparr>hi_status = 0, hi_http10 = False, hi_map = [], hi_lengths = [], hi_last = ''''\<rparr>"

definition start_reader :: reader where
  "start_reader = \<lparr>rd_buf = '''', rd_end = None, rd_head = empty_head, rd_chunked = False, rd_length = - 1, rd_err = NoErr\<rparr>"

definition response_complete :: "bool \<Rightarrow> reader \<Rightarrow> bool" where
  "response_complete expectNoBody r =
     (let noBody = responseHasNoBody expectNoBody (hi_status (rd_head r));
          complete = (case rd_end r of
             None \<Rightarrow> False
           | Some (e, sep) \<Rightarrow>
               if noBody then length (rd_buf r) = e + sep
               else if rd_chunked r then hasCompleteChunkedBody (body_so_far r)
               else rd_length r \<noteq> - 1 \<and> int (length (body_so_far r)) \<ge> rd_length r);
          http10EOF = (rd_end r \<noteq> None \<and> hi_http10 (rd_head r) \<and> \<not> rd_chunked r \<and> rd_length r = - 1 \<and> rd_err r = EOF)
      in if rd_err r \<noteq> NoErr then http10EOF else complete)"

text \<open>Content encodings, undone from the last to the first with the decoders given.\<close>

definition coding_name :: "string \<Rightarrow> string option" where
  "coding_name enc =
     (if enc \<in> {''gzip'', ''x-gzip''} then Some ''gzip''
      else if enc \<in> {''deflate'', ''x-deflate''} then Some ''deflate''
      else if enc \<in> {''br'', ''brotli''} then Some ''br'' else None)"

fun decode_all :: "(string \<Rightarrow> string \<Rightarrow> string result) \<Rightarrow> string list \<Rightarrow> string \<times> bool \<Rightarrow> string \<times> bool \<times> bool" where
  "decode_all dec [] (body, upd) = (body, upd, False)"
| "decode_all dec (raw # encs) (body, upd) =
     (let enc = to_lower (trim_space raw) in
      case coding_name enc of
        Some c \<Rightarrow> (case dec c body of
                     Inr b \<Rightarrow> decode_all dec encs (b, True)
                   | Inl _ \<Rightarrow> (body, upd, True))
      | None \<Rightarrow> if enc = '''' \<or> enc = ''identity'' then decode_all dec encs (body, upd) else (body, upd, True))"

definition finish_response :: "(string \<Rightarrow> string \<Rightarrow> string result) \<Rightarrow> bool \<Rightarrow> reader \<Rightarrow> raw_response result" where
  "finish_response dec expectNoBody r =
     (if rd_buf r = '''' then Inl ''empty response''
      else
        let noBody = responseHasNoBody expectNoBody (hi_status (rd_head r));
            hdrs = (case rd_end r of Some (e, _) \<Rightarrow> take e (rd_buf r) | None \<Rightarrow> '''');
            body0 = (if rd_end r = None then rd_buf r else if noBody then '''' else body_so_far r);
            complete = response_complete expectNoBody r \<and> length body0 \<le> MaxBodySize;
            body1 = take MaxBodySize body0;
            (body2, trs) = (if rd_chunked r then dechunkBody body1 else (body1, None));
            hmap0 = (if rd_end r = None then None else Some (hi_map (rd_head r)));
            hmap = (case trs of
                None \<Rightarrow> hmap0
              | Some [] \<Rightarrow> hmap0
              | Some ts \<Rightarrow> Some (foldl (\<lambda>m (k, v). AList.update k v m) (case hmap0 of None \<Rightarrow> [] | Some m \<Rightarrow> m) ts));
            resp = \<lparr>rr_status = hi_status (rd_head r), rr_headers = hdrs, rr_map = hmap, rr_body = body2,
                    rr_raw = rd_buf r, rr_complete = complete, rr_encoded = False\<rparr>;
            encHeader = to_lower (trim_space (GetHeader resp ''Content-Encoding''));
            (body3, upd, encoded) = (if encHeader \<noteq> '''' then decode_all dec (rev (split_on (CHR '','') encHeader)) (body2, rd_chunked r)
                                     else (body2, rd_chunked r, False))
        in Inr (resp\<lparr>rr_body := body3, rr_encoded := encoded,
                     rr_raw := (if upd then hdrs @ crlf @ crlf @ body3 else rd_buf r)\<rparr>))"

definition parseRawResponse ::
  "(string \<Rightarrow> string \<Rightarrow> string result) \<Rightarrow> (string \<times> read_err) list \<Rightarrow> bool \<Rightarrow> raw_response result option" where
  "parseRawResponse dec reads expectNoBody =
     map_option (\<lambda>x. case x of Inl e \<Rightarrow> Inl e | Inr r \<Rightarrow> finish_response dec expectNoBody r)
       (read_loop expectNoBody start_reader reads)"

section \<open>Chunked encoding is decoded back\<close>

definition chunk :: "string \<Rightarrow> string" where
  "chunk d = nat_hex (length d) @ crlf @ d @ crlf"

definition encode_chunks :: "string list \<Rightarrow> string" where
  "encode_chunks ds = concat (map chunk ds) @ ''0'' @ crlf @ crlf"

lemma index_byte_append: "\<forall>c \<in> set u. \<not> q c \<Longrightarrow> q x \<Longrightarrow> index_byte q (u @ x # s) = Some (length u)"
  by (induction u) auto

lemma read_line_crlf: "LF \<notin> set l \<Longrightarrow> read_line (l @ crlf @ s) = (l @ [CR], Some s)"
proof -
  assume "LF \<notin> set l"
  then have "\<forall>c \<in> set (l @ [CR]). \<not> c = LF" by (auto simp: eol_defs)
  from index_byte_append [OF this refl, of s] show ?thesis by (simp add: read_line_def crlf_def)
qed

lemma skip_line_crlf: "skip_line (crlf @ s) = s"
  using read_line_crlf [of "[]" s] by (simp add: skip_line_def)

lemma dropWhile_clean: "list_all (\<lambda>c. \<not> q c) l \<Longrightarrow> dropWhile q l = l \<and> dropWhile q (rev l) = rev l"
proof -
  have *: "list_all (\<lambda>c. \<not> q c) l \<Longrightarrow> dropWhile q l = l" for l by (cases l) auto
  assume "list_all (\<lambda>c. \<not> q c) l"
  with * [of l] * [of "rev l"] show ?thesis by simp
qed

lemma trim_space_id: "list_all (\<lambda>c. \<not> is_space c) l \<Longrightarrow> trim_space l = l"
  by (simp add: trim_space_def trim_by_def trim_left_def trim_right_def dropWhile_clean)

lemma trim_space_clean:
  assumes "list_all (\<lambda>c. \<not> is_space c) l" shows "trim_space (l @ [CR]) = l"
proof -
  have "dropWhile is_space (l @ [CR]) = (if l = [] then [] else l @ [CR])"
    using assms by (cases l) (auto simp: is_space_def CR_def byte_def)
  moreover have "dropWhile is_space (rev l) = rev l"
    using dropWhile_clean [OF assms] by simp
  moreover have "is_space CR" by (simp add: is_space_def CR_def byte_def)
  ultimately show ?thesis by (auto simp: trim_space_def trim_by_def trim_left_def trim_right_def)
qed

lemma chunk_line_hex:
  "trim_space (nat_hex n @ [CR]) = nat_hex n" "chunk_line (nat_hex n @ [CR]) = nat_hex n"
proof -
  have h: "list_all (\<lambda>c. \<not> is_space c) (nat_hex n)" "\<forall>c \<in> set (nat_hex n). c \<noteq> CHR '';''"
    using nat_hex_facts [of n] is_hex_cases by (auto simp: list_all_iff)
  show t: "trim_space (nat_hex n @ [CR]) = nat_hex n" by (rule trim_space_clean [OF h(1)])
  have "index_byte (\<lambda>c. c = CHR '';'') (nat_hex n) = None" using h(2) by (simp add: index_byte_None)
  moreover have "trim_space (nat_hex n) = nat_hex n" by (rule trim_space_id [OF h(1)])
  ultimately show "chunk_line (nat_hex n @ [CR]) = nat_hex n" by (simp add: chunk_line_def t Let_def)
qed

lemma nat_hex_no_LF: "LF \<notin> set (nat_hex n)"
  using nat_hex_facts [of n] is_hex_cases by (auto simp: list_all_iff LF_def)

lemma dechunk_header:
  assumes "n \<le> MaxBodySize"
  shows "dechunk body out (nat_hex n @ crlf @ rest) =
    (if n = 0 then (out, Some (read_trailers [] [] (split_on LF rest)))
     else if MaxBodySize \<le> length out then dechunk_end body out
     else dechunk body (out @ take (min n (MaxBodySize - length out)) rest) (skip_line (drop n rest)))"
proof -
  have "int n < 2 ^ 63" using assms by (simp add: MaxBodySize_def)
  then show ?thesis
    using nat_hex_facts [of n]
    by (simp add: dechunk.simps [of body out "nat_hex n @ crlf @ rest"] read_line_crlf nat_hex_no_LF chunk_line_hex
        parse_hex64_nat_hex)
qed

lemma dechunk_chunk:
  assumes "d \<noteq> []" "length out + length d \<le> MaxBodySize"
  shows "dechunk body out (chunk d @ s) = dechunk body (out @ d) s"
proof -
  have "length d \<le> MaxBodySize" "\<not> MaxBodySize \<le> length out" "length d \<noteq> 0" using assms by (cases d, auto)+
  with assms dechunk_header [of "length d" body out "d @ crlf @ s"] show ?thesis
    by (simp add: chunk_def skip_line_crlf min_absorb1)
qed

lemma dechunk_chunks:
  "\<forall>d \<in> set ds. d \<noteq> [] \<Longrightarrow> length out + length (concat ds) \<le> MaxBodySize \<Longrightarrow>
   dechunk body out (concat (map chunk ds) @ s) = dechunk body (out @ concat ds) s"
proof (induction ds arbitrary: out)
  case (Cons d ds)
  then have "dechunk body out (concat (map chunk (d # ds)) @ s) = dechunk body (out @ d) (concat (map chunk ds) @ s)"
    using dechunk_chunk [of d out body "concat (map chunk ds) @ s"] by simp
  with Cons.IH [of "out @ d"] Cons.prems show ?case by simp
qed simp

lemma zero_starts_mem:
  "has_prefix (drop k s) (eol @ ''0'' @ eol) \<Longrightarrow> k < length s \<Longrightarrow> n + k + length eol \<in> set (zero_starts eol s n)"
proof (induction s arbitrary: k n)
  case (Cons c s)
  show ?case
  proof (cases k)
    case 0
    with Cons.prems show ?thesis by simp
  next
    case (Suc j)
    with Cons.prems Cons.IH [of j "Suc n"] show ?thesis by auto
  qed
qed simp

lemma complete_marker: "hasCompleteChunkedBody (x @ crlf @ ''0'' @ crlf @ crlf @ y)"
proof -
  let ?b = "x @ crlf @ ''0'' @ crlf @ crlf @ y"
  have "length x + length crlf \<in> set (zero_starts crlf ?b 0)"
    using zero_starts_mem [of "length x" ?b crlf 0] has_prefix_append [of "crlf @ ''0'' @ crlf" "crlf @ y"]
    by (simp add: eol_defs)
  moreover have "drop (length x + length crlf + length (''0'' @ crlf)) ?b = crlf @ y" by (simp add: eol_defs)
  ultimately show ?thesis
    unfolding hasCompleteChunkedBody_def hasCompleteChunkedBodyWithEOL_def Let_def
    by (intro disjI1 bexI [of _ "length x + length crlf"]) auto
qed

lemma complete_start: "hasCompleteChunkedBody (''0'' @ crlf @ crlf @ y)"
proof -
  have "drop (0 + length (''0'' @ crlf)) (''0'' @ crlf @ crlf @ y) = crlf @ y" by (simp add: eol_defs)
  moreover have "has_prefix (''0'' @ crlf @ crlf @ y) (''0'' @ crlf)"
    using has_prefix_append [of "''0'' @ crlf" "crlf @ y"] by simp
  ultimately show ?thesis
    unfolding hasCompleteChunkedBody_def hasCompleteChunkedBodyWithEOL_def Let_def
    by (intro disjI1 bexI [of _ 0]) auto
qed

lemma encode_chunks_complete: "hasCompleteChunkedBody (encode_chunks ds)"
proof (cases ds rule: rev_cases)
  case Nil
  then show ?thesis using complete_start [of "[]"] by (simp add: encode_chunks_def)
next
  case (snoc es d)
  then have "encode_chunks ds = (concat (map chunk es) @ nat_hex (length d) @ crlf @ d) @ crlf @ ''0'' @ crlf @ crlf @ []"
    by (simp add: encode_chunks_def chunk_def)
  then show ?thesis using complete_marker by metis
qed

text \<open>C8: A chunked message of at most \<open>MaxBodySize\<close> bytes is recognised as complete and decoded to the
  concatenation of its chunks, with no trailers.\<close>

theorem dechunk_roundtrip:
  assumes "\<forall>d \<in> set ds. d \<noteq> []" "length (concat ds) \<le> MaxBodySize"
  shows "hasCompleteChunkedBody (encode_chunks ds) \<and> dechunkBody (encode_chunks ds) = (concat ds, Some [])"
proof -
  have "nat_hex 0 = ''0''" by code_simp
  then have "dechunk (encode_chunks ds) [] (encode_chunks ds) = (concat ds, Some (read_trailers [] [] (split_on LF crlf)))"
    using dechunk_chunks [of ds "[]" "encode_chunks ds" "''0'' @ crlf @ crlf"] assms
      dechunk_header [of 0 "encode_chunks ds" "concat ds" crlf]
    by (simp add: encode_chunks_def)
  moreover have "read_trailers [] [] (split_on LF crlf) = []"
    by (simp add: eol_defs trim_right_def is_eol_def)
  ultimately show ?thesis using encode_chunks_complete by (simp add: dechunkBody_def)
qed

lemma dechunk_roundtrip_witness:
  "dechunkBody (encode_chunks [''hello, '', ''world'']) = (''hello, world'', Some [])"
  using dechunk_roundtrip [of "[''hello, '', ''world'']"] by (simp add: MaxBodySize_def)

text \<open>The test for a complete chunked body looks for the terminating chunk anywhere, also inside chunk
  data: while a chunk whose data holds a blank zero chunk is still being received, the body already counts
  as complete, and the decoder finds no end of message.\<close>

theorem complete_inside_chunk_data:
  assumes "d = x @ crlf @ ''0'' @ crlf @ crlf @ y" "y \<noteq> []" "length d \<le> MaxBodySize"
  shows "hasCompleteChunkedBody (nat_hex (length d) @ crlf @ x @ crlf @ ''0'' @ crlf @ crlf) \<and>
    snd (dechunkBody (nat_hex (length d) @ crlf @ x @ crlf @ ''0'' @ crlf @ crlf)) = None"
proof
  let ?t = "x @ crlf @ ''0'' @ crlf @ crlf" and ?h = "nat_hex (length d)"
  show "hasCompleteChunkedBody (?h @ crlf @ ?t)"
    using complete_marker [of "?h @ crlf @ x" "[]"] by simp
  have l: "length ?t < length d" "length d \<noteq> 0" using assms(1,2) by auto
  have "dechunk (?h @ crlf @ ?t) [] (?h @ crlf @ ?t) = dechunk (?h @ crlf @ ?t) ?t []"
    using dechunk_header [OF assms(3), of "?h @ crlf @ ?t" "[]" ?t] l assms(3)
    by (simp add: skip_line_def read_line_def MaxBodySize_def)
  also have "\<dots> = (?t, None)"
    by (simp add: dechunk.simps [of _ _ "[]"] read_line_def dechunk_end_def eol_defs)
  finally show "snd (dechunkBody (?h @ crlf @ ?t)) = None" by (simp add: dechunkBody_def)
qed

lemma complete_inside_chunk_data_witness:
  "hasCompleteChunkedBody (nat_hex 9 @ crlf @ ''a'' @ crlf @ ''0'' @ crlf @ crlf)"
proof -
  have l: "length (''a'' @ crlf @ ''0'' @ crlf @ crlf @ ''b'') = 9" by (simp add: eol_defs)
  show ?thesis
    using complete_inside_chunk_data [OF refl, of "''b''" "''a''"] unfolding l by (simp add: MaxBodySize_def)
qed

section \<open>The incremental search misses no header end\<close>

lemma has_prefix_drop_contains: "has_prefix (drop j s) p \<Longrightarrow> contains_str s p"
  by (metis append_take_drop_id contains_str_sublist has_prefix_iff sublist_appendI)

lemma has_prefix_append_iff:
  "j + length p \<le> length b \<Longrightarrow> has_prefix (drop j (b @ c)) p \<longleftrightarrow> has_prefix (drop j b) p"
  by (simp add: has_prefix_def)

lemma index_str_from:
  assumes "\<forall>j < s. \<not> has_prefix (drop j raw) p" "s \<le> length raw"
  shows "index_str raw p = map_option ((+) s) (index_str (drop s raw) p)"
proof (cases "index_str (drop s raw) p")
  case None
  have "index_str raw p \<noteq> Some i" for i
  proof
    assume i: "index_str raw p = Some i"
    then have "has_prefix (drop i raw) p" by (simp add: index_str_Some)
    moreover from this assms(1) have "s \<le> i" by (meson not_le)
    ultimately have "has_prefix (drop (i - s) (drop s raw)) p" by (simp only: drop_drop) simp
    then have "contains_str (drop s raw) p" by (rule has_prefix_drop_contains)
    with None show False by (auto simp: index_str_None)
  qed
  with None show ?thesis by (cases "index_str raw p") auto
next
  case (Some i)
  then have i: "i \<le> length raw - s" "has_prefix (drop (s + i) raw) p" "\<forall>j < i. \<not> has_prefix (drop (s + j) raw) p"
    by (auto simp: index_str_Some add.commute)
  have "\<not> has_prefix (drop j raw) p" if "j < s + i" for j
    using assms(1) i(3) that by (cases "j < s") (auto dest!: spec [of _ "j - s"])
  with i assms(2) have "index_str raw p = Some (s + i)" by (auto simp: index_str_Some)
  with Some show ?thesis by simp
qed

lemma index_str_window:
  assumes "index_str b p = None" "length p \<le> 4"
  shows "index_str (b @ c) p = map_option ((+) (length b - 4)) (index_str (drop (length b - 4) (b @ c)) p)"
proof (rule index_str_from)
  show "\<forall>j < length b - 4. \<not> has_prefix (drop j (b @ c)) p"
  proof (intro allI impI)
    fix j assume "j < length b - 4"
    with assms(2) have "has_prefix (drop j (b @ c)) p \<longleftrightarrow> has_prefix (drop j b) p"
      by (intro has_prefix_append_iff) simp
    with assms(1) show "\<not> has_prefix (drop j (b @ c)) p"
      by (auto simp: index_str_None dest: has_prefix_drop_contains)
  qed
qed simp

lemma find_end_window:
  assumes "find_end 0 b = None"
  shows "find_end (length b - 4) (b @ c) = find_end 0 (b @ c)"
proof -
  have "index_str b (crlf @ crlf) = None" "index_str b [LF, LF] = None"
    using assms by (auto simp: find_end_def split: option.splits)
  from this [THEN index_str_window, of c] show ?thesis
    by (simp add: find_end_def eol_defs option.map_comp split: option.split)
qed

text \<open>The reference: every read searches the whole buffer again.\<close>

definition read_step_full :: "reader \<Rightarrow> string \<times> read_err \<Rightarrow> reader result" where
  "read_step_full r ce =
     (let raw = rd_buf r @ fst ce; r1 = r\<lparr>rd_buf := raw, rd_err := snd ce\<rparr> in
      if rd_end r \<noteq> None then Inr r1
      else case find_end 0 raw of
        None \<Rightarrow> Inr r1
      | Some (e, sep) \<Rightarrow>
          let h = parse_head (take e raw) in
          (case framing h of
             Inl err \<Rightarrow> Inl err
           | Inr (ch, n) \<Rightarrow> Inr (r1\<lparr>rd_end := Some (e, sep), rd_head := h, rd_chunked := ch, rd_length := n\<rparr>)))"

fun read_loop_full :: "bool \<Rightarrow> reader \<Rightarrow> (string \<times> read_err) list \<Rightarrow> reader result option" where
  "read_loop_full expectNoBody r [] = None"
| "read_loop_full expectNoBody r (ce # ces) =
     (case read_step_full r ce of
        Inl e \<Rightarrow> Some (Inl e)
      | Inr r' \<Rightarrow>
          if body_done expectNoBody r' \<or> rd_err r' \<noteq> NoErr \<or> length (rd_buf r') > MaxBodySize then Some (Inr r')
          else read_loop_full expectNoBody r' ces)"

lemma read_step_eq:
  assumes "rd_end r = None \<longrightarrow> find_end 0 (rd_buf r) = None"
  shows "read_step r ce = read_step_full r ce"
  using assms find_end_window [of "rd_buf r" "fst ce"]
  by (auto simp: read_step_def read_step_full_def Let_def)

lemma read_step_full_inv:
  "read_step_full r ce = Inr r' \<Longrightarrow> rd_end r' = None \<longrightarrow> find_end 0 (rd_buf r') = None"
  by (auto simp: read_step_full_def Let_def split: if_splits option.splits prod.splits sum.splits)

text \<open>C22: Searching each read only from four bytes before the new data finds the same header end as searching
  the whole buffer again, so the optimised loop returns the same result on every sequence of reads.\<close>

theorem incremental_header_search:
  "read_loop expectNoBody start_reader reads = read_loop_full expectNoBody start_reader reads"
proof -
  have "(rd_end r = None \<longrightarrow> find_end 0 (rd_buf r) = None) \<Longrightarrow>
      read_loop expectNoBody r reads = read_loop_full expectNoBody r reads" for r
  proof (induction reads arbitrary: r)
    case (Cons ce ces)
    then show ?case
      using read_step_eq [OF Cons.prems, of ce] read_step_full_inv [of r ce]
      by (auto split: sum.splits)
  qed simp
  moreover have "find_end 0 (rd_buf start_reader) = None"
    by (simp add: find_end_def start_reader_def eol_defs)
  ultimately show ?thesis by blast
qed

section \<open>Framing\<close>

definition codings :: "string \<Rightarrow> string list" where
  "codings val = map (\<lambda>raw. to_lower (trim_space (fst (split_two (CHR '';'') raw)))) (split_on (CHR '','') val)"

lemma codings_chunked_iff:
  "codings_chunked s parts = Inr b \<longleftrightarrow>
     (let cs = map (\<lambda>raw. to_lower (trim_space (fst (split_two (CHR '';'') raw)))) parts in
      '''' \<notin> set cs \<and>
      (if s then ''chunked'' \<notin> set cs \<and> b
       else if b then \<exists>pre. cs = pre @ [''chunked''] \<and> ''chunked'' \<notin> set pre else ''chunked'' \<notin> set cs))"
proof (induction s parts rule: codings_chunked.induct)
  case (2 s raw parts)
  define c where "c = to_lower (trim_space (fst (split_two (CHR '';'') raw)))"
  define cs where "cs = map (\<lambda>raw. to_lower (trim_space (fst (split_two (CHR '';'') raw)))) parts"
  have nil: "parts = [] \<longleftrightarrow> cs = []" by (simp add: cs_def)
  have pre: "(\<exists>pre. c # cs = pre @ [''chunked''] \<and> ''chunked'' \<notin> set pre) \<longleftrightarrow>
      (if c = ''chunked'' then cs = [] else \<exists>pre. cs = pre @ [''chunked''] \<and> ''chunked'' \<notin> set pre)"
    by (auto simp: Cons_eq_append_conv)
  have ih1: "codings_chunked True parts = Inr b \<longleftrightarrow> '''' \<notin> set cs \<and> ''chunked'' \<notin> set cs \<and> b"
    if "c \<noteq> ''''" "c = ''chunked''" "\<not> (s \<or> parts \<noteq> [])"
    using 2(1) [of c] that by (simp add: c_def cs_def)
  have ih2: "codings_chunked s parts = Inr b \<longleftrightarrow> '''' \<notin> set cs \<and>
      (if s then ''chunked'' \<notin> set cs \<and> b
       else if b then \<exists>pre. cs = pre @ [''chunked''] \<and> ''chunked'' \<notin> set pre else ''chunked'' \<notin> set cs)"
    if "c \<noteq> ''''" "c \<noteq> ''chunked''"
    using 2(2) [of c] that by (simp add: c_def cs_def Let_def)
  have unf: "codings_chunked s (raw # parts) =
     (if c = '''' then Inl ''invalid empty Transfer-Encoding coding''
      else if c = ''chunked'' then
        (if s \<or> parts \<noteq> [] then
           Inl ''invalid Transfer-Encoding: chunked must appear exactly once and as the final coding''
         else codings_chunked True parts)
      else codings_chunked s parts)"
    by (simp add: c_def Let_def)
  show ?case
    unfolding unf Let_def list.map c_def [symmetric] cs_def [symmetric] pre
    using ih1 ih2 nil by (cases "c = ''''"; cases "c = ''chunked''"; cases s; cases b) auto
qed auto

text \<open>C40: Chunked framing is accepted only when the last coding of \<open>Transfer-Encoding\<close> is \<open>chunked\<close>, no
  other one is, and no content length is given beside it; anything else is an error or not chunked.\<close>

theorem framing_chunked_iff:
  "framing h = Inr (True, n) \<longleftrightarrow>
     n = - 1 \<and> hi_lengths h = [] \<and>
     (\<exists>te pre. map_of (hi_map h) ''transfer-encoding'' = Some te \<and> codings te = pre @ [''chunked''] \<and>
        ''chunked'' \<notin> set pre \<and> '''' \<notin> set pre)"
proof -
  have te: "transferEncodingChunkedFinal te = Inr True \<longleftrightarrow>
      (\<exists>pre. codings te = pre @ [''chunked''] \<and> ''chunked'' \<notin> set pre \<and> '''' \<notin> set pre)" for te
  proof -
    have "transferEncodingChunkedFinal te = Inr True \<longleftrightarrow>
        '''' \<notin> set (codings te) \<and> (\<exists>pre. codings te = pre @ [''chunked''] \<and> ''chunked'' \<notin> set pre)"
      unfolding transferEncodingChunkedFinal_def codings_chunked_iff codings_def Let_def by simp
    then show ?thesis by auto
  qed
  show ?thesis
    by (auto simp: framing_def te [symmetric] split: option.splits sum.splits)
qed

end
