(* ===== verification/HttpClient.thy ===== *)
theory HttpClient
  imports HttpFraming
begin

text \<open>
  The other decisions of \<open>pkg/httpclient\<close> and \<open>pkg/netutil\<close>: private addresses and the resolution of a
  dial address with its SSRF protection, the rewriting of a request for an HTTP proxy, SOCKS5 proxy
  strings, the recognition of anti-bot pages, and the pool of idle connections. Name resolution and the
  clock are parameters.
\<close>

section \<open>Private addresses\<close>

definition private_cidrs :: "string list" where
  "private_cidrs =
     [''127.0.0.0/8'', ''10.0.0.0/8'', ''172.16.0.0/12'', ''192.168.0.0/16'',
      ''169.254.0.0/16'', ''::1/128'', ''fc00::/7'', ''fe80::/10'']"

definition IsPrivateIP :: "ip option \<Rightarrow> bool" where
  "IsPrivateIP ip =
     (case ip of None \<Rightarrow> False
      | Some x \<Rightarrow> \<exists>cidr \<in> set private_cidrs.
          (case ParseCIDR cidr of None \<Rightarrow> False | Some n \<Rightarrow> net_contains n x))"

definition IsPrivateHost :: "(string \<Rightarrow> string list result) \<Rightarrow> string \<Rightarrow> bool" where
  "IsPrivateHost lookup host =
     (let lower = to_lower host in
      if lower = '''' then False
      else if lower = ''localhost'' \<or> has_suffix lower ''.localhost'' then True
      else
        let ips = (case ParseIP host of
              Some x \<Rightarrow> Some [x]
            | None \<Rightarrow> (case lookup host of
                Inl _ \<Rightarrow> None
              | Inr addrs \<Rightarrow> if addrs = [] then None else Some (List.map_filter ParseIP addrs)))
        in case ips of None \<Rightarrow> True
           | Some xs \<Rightarrow> if xs = [] then True else \<exists>x \<in> set xs. IsPrivateIP (Some x))"

section \<open>Dial addresses\<close>

text \<open>\<open>net.SplitHostPort\<close>.\<close>

definition SplitHostPort :: "string \<Rightarrow> (string \<times> string) option" where
  "SplitHostPort hp =
     (case last_index_byte (\<lambda>c. c = CHR '':'') hp of
        None \<Rightarrow> None
      | Some i \<Rightarrow>
          if has_prefix hp ''['' then
            (case index_byte (\<lambda>c. c = CHR '']'') hp of
               None \<Rightarrow> None
             | Some e \<Rightarrow>
                 if e + 1 \<noteq> i \<or> CHR ''['' \<in> set (drop 1 hp) \<or> CHR '']'' \<in> set (drop (e + 1) hp) then None
                 else Some (take (e - 1) (drop 1 hp), drop (i + 1) hp))
          else if CHR '':'' \<in> set (take i hp) \<or> CHR ''['' \<in> set hp \<or> CHR '']'' \<in> set hp then None
          else Some (take i hp, drop (i + 1) hp))"

text \<open>\<open>IP.String\<close>: dotted decimal, or hexadecimal groups with the longest run of zeros elided.\<close>

definition ip_groups :: "ip \<Rightarrow> nat list" where
  "ip_groups a = map (\<lambda>k. unat (a ! (2 * k)) * 256 + unat (a ! (2 * k + 1))) [0..<8]"

fun zero_run :: "nat list \<Rightarrow> nat" where
  "zero_run [] = 0"
| "zero_run (g # gs) = (if g = 0 then Suc (zero_run gs) else 0)"

definition best_run :: "nat list \<Rightarrow> nat \<times> nat" where
  "best_run gs =
     foldl (\<lambda>(s, l) k. let r = zero_run (drop k gs) in if r \<ge> 2 \<and> r > l then (k, r) else (s, l)) (0, 0) [0..<length gs]"

definition ip_string :: "ip \<Rightarrow> string" where
  "ip_string a =
     (case To4 a of
        Some [w, x, y, z] \<Rightarrow> join ''.'' (map (\<lambda>b. nat_dec (unat b)) [w, x, y, z])
      | _ \<Rightarrow>
          let gs = ip_groups a; (s, l) = best_run gs in
          if l = 0 then join '':'' (map nat_hex gs)
          else join '':'' (map nat_hex (take s gs)) @ ''::'' @ join '':'' (map nat_hex (drop (s + l) gs)))"

text \<open>\<open>resolveDialAddress\<close>, after the check that the context is still alive.\<close>

definition ssrf_error :: "ip \<Rightarrow> goerror" where
  "ssrf_error x = ''SSRF protection: resolved target '' @ go_quote (ip_string x) @ '' is private or loopback''"

definition resolveDialAddress :: "(string \<Rightarrow> ip list result) \<Rightarrow> string \<Rightarrow> bool \<Rightarrow> string result" where
  "resolveDialAddress lookup address allowPrivateTargets =
     (case SplitHostPort address of
        None \<Rightarrow> Inl (''invalid dial address '' @ go_quote address)
      | Some (host, port) \<Rightarrow>
          (case ParseIP host of
             Some x \<Rightarrow>
               if \<not> allowPrivateTargets \<and> IsPrivateIP (Some x) then Inl (ssrf_error x)
               else Inr (JoinHostPort (ip_string x) port)
           | None \<Rightarrow>
               (case lookup host of
                  Inl e \<Rightarrow> Inl (''DNS lookup failed for '' @ go_quote host @ '': '' @ e)
                | Inr [] \<Rightarrow> Inl (''DNS lookup returned no addresses for '' @ go_quote host)
                | Inr (a # as) \<Rightarrow>
                    (case find (\<lambda>x. \<not> allowPrivateTargets \<and> IsPrivateIP (Some x)) (a # as) of
                       Some x \<Rightarrow> Inl (ssrf_error x)
                     | None \<Rightarrow> Inr (JoinHostPort (ip_string a) port)))))"

section \<open>HTTP proxies\<close>

definition parseHTTPProxyURL :: "string \<Rightarrow> url result" where
  "parseHTTPProxyURL proxyAddr =
     (case url_parse proxyAddr of
        Some u \<Rightarrow> if u_host u \<noteq> '''' then Inr u
          else (case url_parse (''http://'' @ proxyAddr) of
                  Some u' \<Rightarrow> if u_host u' \<noteq> '''' then Inr u' else Inl (''invalid HTTP proxy address '' @ go_quote proxyAddr)
                | None \<Rightarrow> Inl (''invalid HTTP proxy address '' @ go_quote proxyAddr))
      | None \<Rightarrow> (case url_parse (''http://'' @ proxyAddr) of
                  Some u' \<Rightarrow> if u_host u' \<noteq> '''' then Inr u' else Inl (''invalid HTTP proxy address '' @ go_quote proxyAddr)
                | None \<Rightarrow> Inl (''invalid HTTP proxy address '' @ go_quote proxyAddr)))"

definition basic_credentials :: "string \<Rightarrow> string option \<Rightarrow> string" where
  "basic_credentials u p = b64_encode (u @ '':'' @ (case p of None \<Rightarrow> '''' | Some p' \<Rightarrow> p'))"

definition maybeAddProxyAuthorization :: "string \<Rightarrow> string \<Rightarrow> string" where
  "maybeAddProxyAuthorization rawRequest proxyAddr =
     (case parseHTTPProxyURL proxyAddr of
        Inl _ \<Rightarrow> rawRequest
      | Inr proxyURL \<Rightarrow>
          (case u_user proxyURL of
             None \<Rightarrow> rawRequest
           | Some (u, p) \<Rightarrow>
               let (hend, sep) = (case index_str rawRequest (crlf @ crlf) of
                       Some i \<Rightarrow> (Some i, crlf @ crlf)
                     | None \<Rightarrow> (index_str rawRequest [LF, LF], [LF, LF]))
               in case hend of
                 None \<Rightarrow> rawRequest
               | Some e \<Rightarrow>
                   if contains_str (to_lower (take e rawRequest)) ([LF] @ ''proxy-authorization:'') then rawRequest
                   else
                     let header = ''Proxy-Authorization: Basic '' @ basic_credentials u p @
                           (if sep = crlf @ crlf then crlf else [LF]);
                         out0 = take (e + length sep) rawRequest;
                         out1 = take (length out0 - length sep) out0
                     in out1 @ header @ sep @ drop (e + length sep) rawRequest))"

definition rewriteHTTPProxyRequest :: "string \<Rightarrow> url \<Rightarrow> string \<Rightarrow> string" where
  "rewriteHTTPProxyRequest rawRequest targetURL proxyAddr =
     (let le = (case index_str rawRequest crlf of Some i \<Rightarrow> Some i | None \<Rightarrow> index_byte (\<lambda>c. c = LF) rawRequest) in
      case le of
        None \<Rightarrow> rawRequest
      | Some lineEnd \<Rightarrow>
          (case split_two (CHR '' '') (take lineEnd rawRequest) of
             (_, None) \<Rightarrow> maybeAddProxyAuthorization rawRequest proxyAddr
           | (method, Some r1) \<Rightarrow>
               (case split_two (CHR '' '') r1 of
                  (_, None) \<Rightarrow> maybeAddProxyAuthorization rawRequest proxyAddr
                | (tgt, Some proto) \<Rightarrow>
                    if has_prefix tgt ''http://'' \<or> has_prefix tgt ''https://'' then
                      maybeAddProxyAuthorization rawRequest proxyAddr
                    else
                      let t1 = (if tgt = '''' then ''/'' else tgt);
                          t2 = (if \<not> has_prefix t1 ''/'' \<and> t1 \<noteq> ''*'' then ''/'' @ t1 else t1);
                          t3 = (if t2 \<noteq> ''*'' then u_scheme targetURL @ ''://'' @ u_host targetURL @ t2 else t2)
                      in maybeAddProxyAuthorization
                           (method @ '' '' @ t3 @ '' '' @ proto @ drop lineEnd rawRequest) proxyAddr)))"

text \<open>\<open>parseSocks5Proxy\<close>: perhaps a user and a password, and the address.\<close>

definition parseSocks5Proxy :: "string \<Rightarrow> (string \<times> string) option \<times> string" where
  "parseSocks5Proxy proxyAddr0 =
     (let proxyAddr = trim_prefix proxyAddr0 ''socks5://'' in
      case last_index_byte (\<lambda>c. c = CHR ''@'') proxyAddr of
        None \<Rightarrow> (None, proxyAddr)
      | Some at \<Rightarrow>
          if at > 0 then
            (let creds = take at proxyAddr; addr = drop (at + 1) proxyAddr in
             case split_two (CHR '':'') creds of
               (u, Some p) \<Rightarrow> if addr \<noteq> '''' then (Some (u, p), addr) else (None, proxyAddr)
             | (_, None) \<Rightarrow> (None, proxyAddr))
          else (None, proxyAddr))"

section \<open>Anti-bot pages\<close>

definition challenge_signatures :: "string list" where
  "challenge_signatures =
     [''just a moment'', ''checking your browser'', ''verify you are human'', ''please enable cookies'',
      ''enable javascript and cookies'', ''security check'', ''human verification'', ''captcha'', ''turnstile'',
      ''cf-challenge'', ''access denied'', ''request blocked'', ''pardon our interruption'', ''attention required'',
      ''one moment please'', ''sorry, you have been blocked'', ''cloudflare'', ''incapsula incident id'',
      ''data-dome'', ''datadome'', ''modsecurity'', ''sucuri website firewall'',
      ''barracuda web application firewall'', ''the requested url was rejected'']"

definition isChallengeText :: "string \<Rightarrow> bool" where
  "isChallengeText bodyLower \<longleftrightarrow> bodyLower \<noteq> '''' \<and> (\<exists>sig \<in> set challenge_signatures. contains_str bodyLower sig)"

record antibot_signal =
  ab_blocked :: bool
  ab_provider :: string
  ab_reasons :: "string list"

definition add_reason :: "string \<Rightarrow> string \<Rightarrow> antibot_signal \<Rightarrow> antibot_signal" where
  "add_reason provider reason s =
     s\<lparr>ab_blocked := True,
       ab_provider := (if ab_provider s = '''' then provider else ab_provider s),
       ab_reasons := ab_reasons s @ [reason]\<rparr>"

text \<open>The provider rules in their order: header texts, body texts, provider and reason.\<close>

definition provider_rules :: "(string list \<times> string list \<times> string \<times> string) list" where
  "provider_rules =
     [([''server: cloudflare'', ''cf-ray:'', ''cf-mitigated: challenge''], [], ''cloudflare'', ''cloudflare header signature''),
      ([''server: akamaighost'', ''x-akamai-transformed:''], [''akamai''], ''akamai'', ''akamai signature''),
      ([''x-iinfo:'', ''x-cdn: incapsula''], [''incapsula incident id''], ''imperva'', ''imperva/incapsula signature''),
      ([''server: sucuri''], [''sucuri website firewall''], ''sucuri'', ''sucuri signature''),
      ([''server: bigip''], [''the requested url was rejected''], ''f5_bigip'', ''f5 bigip signature''),
      ([''modsecurity''], [''modsecurity action''], ''modsecurity'', ''modsecurity signature''),
      ([''server: barracuda''], [''barracuda web application firewall''], ''barracuda'', ''barracuda signature''),
      ([''server: datadome''], [''datadome''], ''datadome'', ''data dome signature'')]"

definition match_provider :: "string \<Rightarrow> string \<Rightarrow> (string \<times> string) option" where
  "match_provider headersLower bodyLower =
     map_option (\<lambda>(_, _, p, r). (p, r))
       (find (\<lambda>(hs, bs, _, _). (\<exists>h \<in> set hs. contains_str headersLower h) \<or> (\<exists>b \<in> set bs. contains_str bodyLower b)) provider_rules)"

definition InspectAntiBotResponse :: "raw_response option \<Rightarrow> antibot_signal" where
  "InspectAntiBotResponse resp =
     (let s0 = \<lparr>ab_blocked = False, ab_provider = '''', ab_reasons = []\<rparr> in
      case resp of
        None \<Rightarrow> s0
      | Some r \<Rightarrow>
          let hl = to_lower (rr_headers r); bl = to_lower (rr_body r);
              statusBlocked = (rr_status r = 403 \<or> rr_status r = 429);
              s1 = (if statusBlocked \<or> isChallengeText bl then
                      (case match_provider hl bl of Some (p, why) \<Rightarrow> add_reason p why s0 | None \<Rightarrow> s0) else s0);
              s2 = (if isChallengeText bl then
                      (let s = (if ab_provider s1 = '''' then s1\<lparr>ab_provider := ''generic''\<rparr> else s1)
                       in add_reason (ab_provider s) ''challenge body signature'' s) else s1)
          in if ab_blocked s2 then s2
             else if isChallengeText bl then add_reason ''generic'' ''challenge body signature'' s2 else s2)"

section \<open>Idle connections\<close>

text \<open>A connection is an identifier; the connections closed so far are part of the state.\<close>

record pooled_conn =
  pc_conn :: nat
  pc_scheme :: string
  pc_expires :: gotime

record conn_pool =
  cp_idle :: "(string, pooled_conn list) gomap"
  cp_max :: int
  cp_closed :: "nat list"

definition IdleConnTimeout :: duration where "IdleConnTimeout = 30 * second"

definition NewConnPool :: "int \<Rightarrow> conn_pool" where
  "NewConnPool maxIdlePerHost = \<lparr>cp_idle = gm_make, cp_max = maxIdlePerHost, cp_closed = []\<rparr>"

definition idle_of :: "conn_pool \<Rightarrow> string \<Rightarrow> pooled_conn list" where
  "idle_of p key = (case gm_get (cp_idle p) key of None \<Rightarrow> [] | Some cs \<Rightarrow> cs)"

text \<open>From the last parked connection back: the first that has not expired, the rest, and those closed.\<close>

fun pop_fresh :: "gotime \<Rightarrow> pooled_conn list \<Rightarrow> nat option \<times> pooled_conn list \<times> nat list" where
  "pop_fresh now [] = (None, [], [])"
| "pop_fresh now (pc # pcs) =
     (if now > pc_expires pc then (let (r, rest, closed) = pop_fresh now pcs in (r, rest, pc_conn pc # closed))
      else (Some (pc_conn pc), pcs, []))"

definition pool_put_idle :: "conn_pool \<Rightarrow> string \<Rightarrow> pooled_conn list \<Rightarrow> conn_pool" where
  "pool_put_idle p key cs = (case gm_put (cp_idle p) key cs of Some m \<Rightarrow> p\<lparr>cp_idle := m\<rparr> | None \<Rightarrow> p)"

definition pool_get :: "gotime \<Rightarrow> string \<Rightarrow> conn_pool \<Rightarrow> nat option \<times> conn_pool" where
  "pool_get now key p =
     (if idle_of p key = [] then (None, p)
      else let (r, rest, closed) = pop_fresh now (rev (idle_of p key))
           in (r, (pool_put_idle p key (rev rest))\<lparr>cp_closed := cp_closed p @ closed\<rparr>))"

definition pool_put :: "gotime \<Rightarrow> string \<Rightarrow> string \<Rightarrow> nat \<Rightarrow> conn_pool \<Rightarrow> conn_pool" where
  "pool_put now key scheme conn p =
     (if int (length (idle_of p key)) \<ge> cp_max p then p\<lparr>cp_closed := cp_closed p @ [conn]\<rparr>
      else pool_put_idle p key
             (idle_of p key @ [\<lparr>pc_conn = conn, pc_scheme = scheme, pc_expires = now + IdleConnTimeout\<rparr>]))"

definition pool_close :: "conn_pool \<Rightarrow> conn_pool" where
  "pool_close p =
     p\<lparr>cp_closed := cp_closed p @ concat (map (map pc_conn \<circ> snd) (gm_items (cp_idle p))),
       cp_idle := (if cp_idle p = None then None else gm_make)\<rparr>"

section \<open>What counts as private\<close>

definition private_v4 :: "8 word \<Rightarrow> 8 word \<Rightarrow> bool" where
  "private_v4 a b \<longleftrightarrow>
     a = 127 \<or> a = 10 \<or> a = 172 \<and> 16 \<le> b \<and> b \<le> 31 \<or> a = 192 \<and> b = 168 \<or> a = 169 \<and> b = 254"

lemma private_nets:
  "map ParseCIDR private_cidrs =
     [Some \<lparr>net_ip = [127, 0, 0, 0], net_mask = [255, 0, 0, 0]\<rparr>,
      Some \<lparr>net_ip = [10, 0, 0, 0], net_mask = [255, 0, 0, 0]\<rparr>,
      Some \<lparr>net_ip = [172, 16, 0, 0], net_mask = [255, 240, 0, 0]\<rparr>,
      Some \<lparr>net_ip = [192, 168, 0, 0], net_mask = [255, 255, 0, 0]\<rparr>,
      Some \<lparr>net_ip = [169, 254, 0, 0], net_mask = [255, 255, 0, 0]\<rparr>,
      Some \<lparr>net_ip = [0,0,0,0,0,0,0,0,0,0,0,0,0,0,0,1], net_mask = [255,255,255,255,255,255,255,255,255,255,255,255,255,255,255,255]\<rparr>,
      Some \<lparr>net_ip = [252,0,0,0,0,0,0,0,0,0,0,0,0,0,0,0], net_mask = [254,0,0,0,0,0,0,0,0,0,0,0,0,0,0,0]\<rparr>,
      Some \<lparr>net_ip = [254,128,0,0,0,0,0,0,0,0,0,0,0,0,0,0], net_mask = [255,192,0,0,0,0,0,0,0,0,0,0,0,0,0,0]\<rparr>]"
  by code_simp

lemma mask_240: "and (b :: 8 word) 240 = 16 \<longleftrightarrow> 16 \<le> b \<and> b \<le> 31"
proof -
  have "list_all (\<lambda>n. (and (of_nat n :: 8 word) 240 = 16) = (16 \<le> (of_nat n :: 8 word) \<and> (of_nat n :: 8 word) \<le> 31)) [0..<256]"
    by (simp add: upt_rec word_le_nat_alt)
  moreover have "unat b \<in> set [0..<256]" using unsigned_less [of b] by simp
  ultimately show ?thesis unfolding list_all_iff by (auto dest!: bspec [of _ _ "unat b"])
qed

lemma mask_255: "and (b :: 8 word) 255 = b"
proof -
  have "(255 :: 8 word) = - 1" by simp
  then show ?thesis by (simp only: and.right_neutral)
qed

lemma IsPrivateIP_map:
  "IsPrivateIP (Some x) \<longleftrightarrow> (\<exists>n \<in> set (map ParseCIDR private_cidrs). (case n of None \<Rightarrow> False | Some n \<Rightarrow> net_contains n x))"
  by (auto simp: IsPrivateIP_def)

lemma IsPrivateIP_four: "IsPrivateIP (Some (v4_prefix @ [a, b, c, d])) \<longleftrightarrow> private_v4 a b"
proof -
  have t: "To4 (v4_prefix @ [a, b, c, d]) = Some [a, b, c, d]" by (simp add: To4_def v4_prefix_def)
  show ?thesis
    unfolding IsPrivateIP_map private_nets
    by (auto simp: net_contains_def t Let_def and_bytes_def mask_240 [of b] mask_255 To4_def v4_prefix_def private_v4_def)
qed

text \<open>For an IPv4 address, written plainly or mapped into IPv6, \<open>IsPrivateIP\<close> is exactly membership in
  the loopback, private and link-local ranges; other special addresses such as 0.0.0.0 pass.\<close>

theorem IsPrivateIP_v4:
  "IsPrivateIP (Some (to16 [a, b, c, d])) \<longleftrightarrow>
     a = 127 \<or> a = 10 \<or> a = 172 \<and> 16 \<le> b \<and> b \<le> 31 \<or> a = 192 \<and> b = 168 \<or> a = 169 \<and> b = 254"
  using IsPrivateIP_four by (simp add: to16_def private_v4_def)

text \<open>With private targets forbidden, a dial address is resolved only to an address that is not private,
  and a name is refused when any one of its addresses is private, whichever would be dialled.\<close>

theorem resolveDialAddress_public:
  assumes "resolveDialAddress lookup address False = Inr dial"
  shows "\<exists>x port. dial = JoinHostPort (ip_string x) port \<and> \<not> IsPrivateIP (Some x) \<and>
    (\<exists>host. SplitHostPort address = Some (host, port) \<and>
       (ParseIP host = Some x \<or>
        ParseIP host = None \<and> (\<exists>xs. lookup host = Inr (x # xs) \<and> (\<forall>y \<in> set (x # xs). \<not> IsPrivateIP (Some y)))))"
proof -
  obtain host port where hp: "SplitHostPort address = Some (host, port)"
    using assms by (auto simp: resolveDialAddress_def split: option.splits)
  show ?thesis
  proof (cases "ParseIP host")
    case (Some x)
    with assms hp show ?thesis by (auto simp: resolveDialAddress_def split: if_splits)
  next
    case None
    with assms hp obtain x xs where l: "lookup host = Inr (x # xs)"
        "find (\<lambda>x. IsPrivateIP (Some x)) (x # xs) = None" "dial = JoinHostPort (ip_string x) port"
      by (auto simp: resolveDialAddress_def split: sum.splits list.splits option.splits)
    then have "\<forall>y \<in> set (x # xs). \<not> IsPrivateIP (Some y)" by (auto simp only: find_None_iff)
    with l hp None show ?thesis by auto
  qed
qed

lemma resolveDialAddress_public_witness:
  "resolveDialAddress (\<lambda>_. Inr [to16 [8, 8, 4, 4]]) ''example.com:443'' False = Inr ''8.8.4.4:443'' \<and>
   (\<exists>x port. ''8.8.4.4:443'' = JoinHostPort (ip_string x) port \<and> \<not> IsPrivateIP (Some x))"
proof -
  have s: "SplitHostPort ''example.com:443'' = Some (''example.com'', ''443'')" "ParseIP ''example.com'' = None"
    by code_simp+
  have d: "nat_dec 8 = ''8''" "nat_dec 4 = ''4''" by code_simp+
  have t: "To4 (to16 [8, 8, 4, 4]) = Some [8, 8, 4, 4]" by (simp add: To4_def to16_def v4_prefix_def)
  have i: "JoinHostPort (ip_string (to16 [8, 8, 4, 4])) ''443'' = ''8.8.4.4:443''"
    by (simp add: ip_string_def t d JoinHostPort_def)
  have p: "\<not> IsPrivateIP (Some (to16 [8, 8, 4, 4]))"
    using IsPrivateIP_four by (simp add: to16_def private_v4_def)
  have r: "resolveDialAddress (\<lambda>_. Inr [to16 [8, 8, 4, 4]]) ''example.com:443'' False = Inr ''8.8.4.4:443''"
    using s i p by (simp add: resolveDialAddress_def)
  from resolveDialAddress_public [OF r] r show ?thesis by blast
qed

section \<open>The proxy header\<close>

text \<open>The proxy credentials are written where the blank line was: directly behind the last header line,
  with no line break between the two, and followed by one line break too many.\<close>

theorem proxy_authorization_glued:
  assumes "parseHTTPProxyURL proxy = Inr purl" "u_user purl = Some (u, p)"
    "index_str (hdr @ crlf @ crlf @ body) (crlf @ crlf) = Some (length hdr)"
    "\<not> contains_str (to_lower hdr) ([LF] @ ''proxy-authorization:'')"
  shows "maybeAddProxyAuthorization (hdr @ crlf @ crlf @ body) proxy =
    hdr @ ''Proxy-Authorization: Basic '' @ basic_credentials u p @ crlf @ crlf @ crlf @ body"
proof -
  have l: "length crlf = 2" by (simp add: eol_defs)
  show ?thesis
    unfolding maybeAddProxyAuthorization_def assms(1) sum.case assms(2) option.case prod.case assms(3) Let_def
    using assms(4) by (simp add: l)
qed

lemma proxy_authorization_glued_witness:
  "maybeAddProxyAuthorization (''GET http://a/ HTTP/1.1'' @ crlf @ ''Host: a'' @ crlf @ crlf @ '''') ''http://me:pw@proxy:3128'' =
     ''GET http://a/ HTTP/1.1'' @ crlf @ ''Host: aProxy-Authorization: Basic bWU6cHc='' @ crlf @ crlf @ crlf"
proof -
  let ?h = "''GET http://a/ HTTP/1.1'' @ crlf @ ''Host: a''"
  obtain purl where u: "parseHTTPProxyURL ''http://me:pw@proxy:3128'' = Inr purl" "u_user purl = Some (''me'', Some ''pw'')"
  proof -
    have "(case parseHTTPProxyURL ''http://me:pw@proxy:3128'' of Inl _ \<Rightarrow> False | Inr w \<Rightarrow> u_user w = Some (''me'', Some ''pw''))"
      by code_simp
    with that show thesis by (auto split: sum.splits)
  qed
  have i: "index_str (?h @ crlf @ crlf @ '''') (crlf @ crlf) = Some (length ?h)" by code_simp
  have c: "\<not> contains_str (to_lower ?h) ([LF] @ ''proxy-authorization:'')" by code_simp
  have b: "basic_credentials ''me'' (Some ''pw'') = ''bWU6cHc=''" by code_simp
  from proxy_authorization_glued [OF u i c] b show ?thesis by simp
qed

section \<open>The pool\<close>

lemma pop_fresh_facts:
  "pop_fresh now pcs = (r, rest, closed) \<Longrightarrow>
     mset (map pc_conn pcs) = mset (case r of None \<Rightarrow> [] | Some c \<Rightarrow> [c]) + mset (map pc_conn rest) + mset closed \<and>
     (r = None \<longrightarrow> rest = []) \<and> set rest \<subseteq> set pcs \<and>
     (\<forall>c. r = Some c \<longrightarrow> (\<exists>pc \<in> set pcs. pc_conn pc = c \<and> now \<le> pc_expires pc))"
  by (induction pcs arbitrary: r rest closed) (auto split: if_splits prod.splits)

lemma idle_of_put:
  "cp_idle p \<noteq> None \<Longrightarrow> idle_of (pool_put_idle p key cs) k = (if k = key then cs else idle_of p k)"
  by (rule gm_putE [of "cp_idle p" key cs]) (auto simp: pool_put_idle_def idle_of_def gm_get_put)

lemma pool_put_idle_closed: "cp_closed (pool_put_idle p key cs) = cp_closed p"
  by (simp add: pool_put_idle_def split: option.split)

text \<open>\<open>Get\<close> hands out only a connection that has not expired, and neither loses nor duplicates one: what
  was idle for the key is handed out, closed or still idle, and the other keys are untouched.\<close>

theorem pool_get_conserves:
  assumes "cp_idle p \<noteq> None" "pool_get now key p = (r, p')"
  shows "mset (map pc_conn (idle_of p key)) + mset (cp_closed p) =
      mset (case r of None \<Rightarrow> [] | Some c \<Rightarrow> [c]) + mset (map pc_conn (idle_of p' key)) + mset (cp_closed p') \<and>
    (\<forall>k. k \<noteq> key \<longrightarrow> idle_of p' k = idle_of p k) \<and>
    (\<forall>c. r = Some c \<longrightarrow> (\<exists>pc \<in> set (idle_of p key). pc_conn pc = c \<and> now \<le> pc_expires pc))"
proof (cases "idle_of p key = []")
  case True
  with assms(2) show ?thesis by (auto simp: pool_get_def)
next
  case False
  obtain q rest closed where f: "pop_fresh now (rev (idle_of p key)) = (q, rest, closed)"
    by (metis prod_cases3)
  from assms(2) False f have r: "r = q" "p' = (pool_put_idle p key (rev rest))\<lparr>cp_closed := cp_closed p @ closed\<rparr>"
    by (auto simp: pool_get_def)
  have i: "idle_of p' k = (if k = key then rev rest else idle_of p k)" for k
    using idle_of_put [OF assms(1), of key "rev rest" k] r(2) by (simp add: idle_of_def)
  from pop_fresh_facts [OF f] show ?thesis
    unfolding r(1) using i r(2) by (auto simp: rev_map [symmetric] ac_simps)
qed

definition demo_conns :: conn_pool where
  "demo_conns = pool_put 0 ''k'' ''http'' 7 (NewConnPool 2)"

lemma pool_get_conserves_witness:
  "fst (pool_get 5 ''k'' demo_conns) = Some 7 \<and> mset (map pc_conn (idle_of demo_conns ''k'')) = {#7#} \<and>
   (\<exists>pc \<in> set (idle_of demo_conns ''k''). 5 \<le> pc_expires pc)"
proof -
  have n: "cp_idle demo_conns \<noteq> None" "fst (pool_get 5 ''k'' demo_conns) = Some 7" "map pc_conn (idle_of demo_conns ''k'') = [7]"
    by code_simp+
  obtain p' where g: "pool_get 5 ''k'' demo_conns = (Some 7, p')" using n(2) by (cases "pool_get 5 ''k'' demo_conns") auto
  from pool_get_conserves [OF n(1) g] n show ?thesis by auto
qed

end
