(* ===== verification/Submission.thy ===== *)
theory Submission
  imports GoText JobQueue GraphBuild
begin

text \<open>
  How jobs get into the queue, \<open>pkg/engine/engine.go\<close> and \<open>pkg/engine/worker.go\<close>: the sharded Bloom
  filter, the expansion of wordlist lines into paths and methods, the estimate of the number of jobs,
  \<open>Submit\<close> with its duplicate check, and \<open>SubmitHarvestPath\<close>, which also adds a node to the discovery
  graph. The Bloom filter of one shard is a package of its own: its operation is a parameter, and what
  is relied on is the contract \<open>bloom_laws\<close> (a key once added is always reported).
\<close>

section \<open>The sharded Bloom filter\<close>

definition fnv32 :: "string \<Rightarrow> 32 word" where
  "fnv32 key = foldl (\<lambda>h c. (xor h (of_nat (byte c))) * 16777619) 2166136261 key"

definition shard_index :: "nat \<Rightarrow> string \<Rightarrow> nat" where
  "shard_index n key = unat (fnv32 key mod of_nat n)"

definition bloomFilterShards :: nat where "bloomFilterShards = 32"

definition newShardedBloomFilter :: "(nat \<Rightarrow> 'f) \<Rightarrow> nat \<Rightarrow> nat \<Rightarrow> 'f list" where
  "newShardedBloomFilter new numShards expectedItems =
     (let itemsPerShard = (if expectedItems div numShards = 0 then 1 else expectedItems div numShards)
      in replicate numShards (new itemsPerShard))"

definition TestAndAddString :: "('f \<Rightarrow> string \<Rightarrow> bool \<times> 'f) \<Rightarrow> 'f list \<Rightarrow> string \<Rightarrow> bool \<times> 'f list" where
  "TestAndAddString taa sbf key =
     (let i = shard_index (length sbf) key; (dup, f) = taa (sbf ! i) key in (dup, sbf[i := f]))"

text \<open>What a Bloom filter promises: membership is monotone and an added key is a member.\<close>

definition bloom_laws :: "('f \<Rightarrow> string \<Rightarrow> bool) \<Rightarrow> ('f \<Rightarrow> string \<Rightarrow> bool \<times> 'f) \<Rightarrow> bool" where
  "bloom_laws has taa \<longleftrightarrow>
     (\<forall>f k. fst (taa f k) = has f k \<and> has (snd (taa f k)) k \<and> (\<forall>k'. has f k' \<longrightarrow> has (snd (taa f k)) k'))"

definition shards_ok :: "'f list \<Rightarrow> bool" where
  "shards_ok sbf \<longleftrightarrow> 0 < length sbf \<and> length sbf < 2 ^ 32"

definition sharded_has :: "('f \<Rightarrow> string \<Rightarrow> bool) \<Rightarrow> 'f list \<Rightarrow> string \<Rightarrow> bool" where
  "sharded_has has sbf key = has (sbf ! shard_index (length sbf) key) key"

lemma shard_index_less: "shards_ok sbf \<Longrightarrow> shard_index (length sbf) key < length sbf"
  by (simp add: shard_index_def shards_ok_def unat_mod unat_of_nat)

lemma TestAndAddString_length: "length (snd (TestAndAddString taa sbf key)) = length sbf"
  by (simp add: TestAndAddString_def Let_def split: prod.split)

lemma TestAndAddString_laws:
  assumes "bloom_laws has taa" "shards_ok sbf"
  shows "fst (TestAndAddString taa sbf k) = sharded_has has sbf k \<and>
    sharded_has has (snd (TestAndAddString taa sbf k)) k \<and>
    (\<forall>k'. sharded_has has sbf k' \<longrightarrow> sharded_has has (snd (TestAndAddString taa sbf k)) k') \<and>
    shards_ok (snd (TestAndAddString taa sbf k))"
proof -
  let ?i = "shard_index (length sbf) k"
  obtain d f where t: "taa (sbf ! ?i) k = (d, f)" by fastforce
  have l: "d = has (sbf ! ?i) k" "has f k" "\<And>k'. has (sbf ! ?i) k' \<Longrightarrow> has f k'"
    using assms(1) t unfolding bloom_laws_def by (metis fst_conv snd_conv)+
  have i: "?i < length sbf" by (rule shard_index_less [OF assms(2)])
  have "sharded_has has (sbf[?i := f]) k'" if "sharded_has has sbf k'" for k'
    using that l(3) i by (cases "shard_index (length sbf) k' = ?i") (auto simp: sharded_has_def)
  with l i t assms(2) show ?thesis
    by (simp add: TestAndAddString_def sharded_has_def Let_def shards_ok_def)
qed

section \<open>Saving the filter\<close>

fun little_endian :: "nat \<Rightarrow> nat \<Rightarrow> 8 word list" where
  "little_endian 0 n = []"
| "little_endian (Suc k) n = of_nat (n mod 256) # little_endian k (n div 256)"

fun from_little :: "8 word list \<Rightarrow> nat" where
  "from_little [] = 0"
| "from_little (b # bs) = unat b + 256 * from_little bs"

text \<open>Writing a shard is an operation of the filter package, \<open>ser\<close>, and so is reading one back into a
  filter, \<open>readFrom\<close>, which returns the filter as it is left and an error or none.\<close>

fun marshal_shards :: "('f \<Rightarrow> 8 word list result) \<Rightarrow> 'f list \<Rightarrow> 8 word list result" where
  "marshal_shards ser [] = Inr []"
| "marshal_shards ser (f # fs) =
     (case ser f of
        Inl e \<Rightarrow> Inl e
      | Inr shardBytes \<Rightarrow>
          (case marshal_shards ser fs of
             Inl e \<Rightarrow> Inl e
           | Inr out \<Rightarrow> Inr (little_endian 8 (length shardBytes) @ shardBytes @ out)))"

definition marshalBinary :: "('f \<Rightarrow> 8 word list result) \<Rightarrow> 'f list \<Rightarrow> 8 word list result" where
  "marshalBinary ser sbf =
     (case marshal_shards ser sbf of Inl e \<Rightarrow> Inl e | Inr out \<Rightarrow> Inr (little_endian 4 (length sbf) @ out))"

definition read_error :: "8 word list \<Rightarrow> string" where
  "read_error r = (if r = [] then ''EOF'' else ''unexpected EOF'')"

text \<open>An error in the middle leaves the shards before it replaced.\<close>

fun read_shards :: "('f \<Rightarrow> 8 word list \<Rightarrow> 'f \<times> string option) \<Rightarrow> 'f list \<Rightarrow> 8 word list \<Rightarrow> 'f list \<times> string option" where
  "read_shards readFrom [] r = ([], None)"
| "read_shards readFrom (f # fs) r =
     (if length r < 8 then (f # fs, Some (read_error r))
      else
        let shardLen = from_little (take 8 r); r1 = drop 8 r in
        if shardLen > length r1 then (f # fs, Some (''invalid bloom shard length '' @ nat_dec shardLen))
        else (case readFrom f (take shardLen r1) of
            (f', Some e) \<Rightarrow> (f' # fs, Some e)
          | (f', None) \<Rightarrow> (let (fs', err) = read_shards readFrom fs (drop shardLen r1) in (f' # fs', err))))"

definition unmarshalBinary :: "('f \<Rightarrow> 8 word list \<Rightarrow> 'f \<times> string option) \<Rightarrow> 'f list \<Rightarrow> 8 word list \<Rightarrow> 'f list \<times> string option" where
  "unmarshalBinary readFrom sbf data =
     (if length data < 4 then (sbf, Some (read_error data))
      else
        let numShards = from_little (take 4 data) in
        if numShards \<noteq> length sbf then
          (sbf, Some (''bloom shard mismatch: file='' @ nat_dec numShards @ '' engine='' @ nat_dec (length sbf)))
        else read_shards readFrom sbf (drop 4 data))"

lemma length_little_endian [simp]: "length (little_endian k n) = k"
  by (induction k arbitrary: n) auto

lemma from_little_endian: "n < 256 ^ k \<Longrightarrow> from_little (little_endian k n) = n"
proof (induction k arbitrary: n)
  case (Suc k)
  then have "n div 256 < 256 ^ k" by (simp add: less_mult_imp_div_less mult.commute)
  with Suc show ?case by (simp add: unat_of_nat)
qed simp

definition shard_saved :: "('f \<Rightarrow> 8 word list result) \<Rightarrow> ('f \<Rightarrow> 8 word list \<Rightarrow> 'f \<times> string option) \<Rightarrow> 'f \<Rightarrow> bool" where
  "shard_saved ser readFrom f \<longleftrightarrow> (\<exists>b. ser f = Inr b \<and> length b < 2 ^ 64 \<and> (\<forall>g. readFrom g b = (f, None)))"

lemma read_shards_back:
  "\<forall>f \<in> set fs. shard_saved ser readFrom f \<Longrightarrow> length gs = length fs \<Longrightarrow>
   \<exists>out. marshal_shards ser fs = Inr out \<and> read_shards readFrom gs out = (fs, None)"
proof (induction fs arbitrary: gs)
  case (Cons f fs)
  then obtain g gs' where gs: "gs = g # gs'" "length gs' = length fs" by (cases gs) auto
  from Cons gs(2) obtain out where o: "marshal_shards ser fs = Inr out" "read_shards readFrom gs' out = (fs, None)"
    by auto
  from Cons.prems(1) obtain b where b: "ser f = Inr b" "length b < 2 ^ 64" "\<And>g. readFrom g b = (f, None)"
    by (auto simp: shard_saved_def)
  have "from_little (little_endian 8 (length b)) = length b"
    using b(2) by (intro from_little_endian) simp
  with b o gs show ?case by (simp add: Let_def)
qed simp

text \<open>A filter that was saved is read back shard by shard as it was, by an engine with the same number
  of shards whatever its filters hold; an engine with another number of shards refuses it and keeps its own.\<close>

theorem bloom_marshal_roundtrip:
  assumes "\<forall>f \<in> set sbf. shard_saved ser readFrom f" "length sbf < 2 ^ 32"
  shows "\<exists>data. marshalBinary ser sbf = Inr data \<and> unmarshalBinary readFrom eng data =
    (if length eng = length sbf then (sbf, None)
     else (eng, Some (''bloom shard mismatch: file='' @ nat_dec (length sbf) @ '' engine='' @ nat_dec (length eng))))"
proof -
  have n: "from_little (little_endian 4 (length sbf)) = length sbf"
    using assms(2) by (intro from_little_endian) simp
  obtain out where o: "marshal_shards ser sbf = Inr out"
    "length eng = length sbf \<longrightarrow> read_shards readFrom eng out = (sbf, None)"
    using read_shards_back [OF assms(1)] by (metis (mono_tags) sum.inject(2))
  with n show ?thesis by (simp add: unmarshalBinary_def marshalBinary_def Let_def)
qed

lemma bloom_marshal_roundtrip_witness:
  "\<exists>data. marshalBinary (\<lambda>f. Inr f) [[1, 2], [3 :: 8 word]] = Inr data \<and>
     unmarshalBinary (\<lambda>f bs. (bs, None)) [[], []] data = ([[1, 2], [3]], None)"
  using bloom_marshal_roundtrip [of "[[1, 2], [3 :: 8 word]]" "\<lambda>f. Inr f" "\<lambda>f bs. (bs, None)" "[[], []]"]
  by (simp add: shard_saved_def)

section \<open>Wordlist lines\<close>

definition wordlistPathVariants :: "string \<Rightarrow> string \<Rightarrow> string list \<Rightarrow> string list" where
  "wordlistPathVariants basePath word extensions =
     (let path = (if basePath \<noteq> '''' then trim_suffix basePath ''/'' @ ''/'' @ trim_prefix word ''/'' else word)
      in path # List.map_filter (\<lambda>ext.
           let cleanExt = trim_space ext in
           if cleanExt = '''' then None
           else Some (path @ (if \<not> has_prefix cleanExt ''.'' then ''.'' @ cleanExt else cleanExt))) extensions)"

text \<open>The API pattern: some segment of the path is \<open>v\<close> and digits, \<open>api\<close>, \<open>rest\<close> or \<open>graphql\<close>.\<close>

definition api_segment :: "string \<Rightarrow> bool" where
  "api_segment s \<longleftrightarrow> s \<in> {''api'', ''rest'', ''graphql''} \<or>
     (case s of c # d # ds \<Rightarrow> c = CHR ''v'' \<and> all_digits (d # ds) | _ \<Rightarrow> False)"

definition isAPIPath :: "string \<Rightarrow> bool" where
  "isAPIPath l \<longleftrightarrow> list_ex api_segment (split_on (CHR ''/'') (to_lower l))"

definition resolveMethodsForPath :: "string \<Rightarrow> string list \<Rightarrow> bool \<Rightarrow> string list" where
  "resolveMethodsForPath l methods smartAPI =
     (if methods = [] then [''''] else if \<not> smartAPI \<or> isAPIPath l then methods else [''''])"

record scan_config =
  sc_methods :: "string list"
  sc_smart :: bool
  sc_exts :: "string list"
  sc_excluded :: "string \<Rightarrow> bool"

definition no_job :: job where
  "no_job = \<lparr>job_id = '''', job_session = '''', job_target = '''', job_type = '''', job_path = '''', job_depth = 0,
     job_harvest_depth = 0, job_method = '''', job_run = 0, job_headers = [], job_node = '''', job_priority = 0,
     job_reason = '''', job_created = 0\<rparr>"

text \<open>The jobs submitted for one line: for every method and every path variant that is not excluded.\<close>

definition line_jobs :: "scan_config \<Rightarrow> string \<Rightarrow> int \<Rightarrow> int \<Rightarrow> string \<Rightarrow> job list" where
  "line_jobs cfg base depth run word =
     (let paths = wordlistPathVariants base word (sc_exts cfg);
          methods = resolveMethodsForPath (hd paths) (sc_methods cfg) (sc_smart cfg)
      in concat (map (\<lambda>m. map (\<lambda>p. no_job\<lparr>job_path := p, job_depth := depth, job_method := m, job_run := run\<rparr>)
                           (filter (\<lambda>p. \<not> sc_excluded cfg p) paths)) methods))"

definition wordlist_words :: "string list \<Rightarrow> string list" where
  "wordlist_words lns = filter (\<lambda>l. l \<noteq> '''') (map (trim_right (\<lambda>c. c = CHR 0x0D)) lns)"

text \<open>A whole wordlist from the line after \<open>startLine\<close>, with one configuration and no cancellation.\<close>

definition scan_jobs :: "scan_config \<Rightarrow> nat \<Rightarrow> int \<Rightarrow> string list \<Rightarrow> job list" where
  "scan_jobs cfg startLine run lns = concat (map (line_jobs cfg '''' 0 run) (drop startLine (wordlist_words lns)))"

definition branch_jobs :: "scan_config \<Rightarrow> string \<Rightarrow> int \<Rightarrow> int \<Rightarrow> string list \<Rightarrow> job list" where
  "branch_jobs cfg basePath nextDepth run lns = concat (map (line_jobs cfg basePath nextDepth run) (wordlist_words lns))"

section \<open>The estimate\<close>

record estimate =
  es_words :: int
  es_exts :: int
  es_methods :: int
  es_jobs :: int
  es_recursive :: bool
  es_depth :: int
  es_worst :: int
  es_capped :: bool

definition worst_cap :: int where "worst_cap = 1000000000"

text \<open>The loop over the levels: worst case so far, size of the level, and whether the cap was hit.\<close>

fun worst_levels :: "nat \<Rightarrow> int \<Rightarrow> int \<Rightarrow> int \<Rightarrow> int \<times> bool" where
  "worst_levels 0 jobs worst level = (worst, False)"
| "worst_levels (Suc k) jobs worst level =
     (if level > worst_cap div max jobs 1 then (worst_cap, True)
      else
        let level' = level * max jobs 1; worst' = worst + level' in
        if worst' > worst_cap then (worst_cap, True) else worst_levels k jobs worst' level')"

definition line_estimate :: "scan_config \<Rightarrow> string \<Rightarrow> int" where
  "line_estimate cfg l =
     int (length (resolveMethodsForPath l (sc_methods cfg) (sc_smart cfg))) * (1 + int (length (sc_exts cfg)))"

definition EstimateWordlist :: "scan_config \<Rightarrow> bool \<Rightarrow> int \<Rightarrow> nat \<Rightarrow> string list \<Rightarrow> estimate" where
  "EstimateWordlist cfg recursive maxDepth startLine lns =
     (let ws = drop startLine (wordlist_words lns);
          jobs = sum_list (map (line_estimate cfg) ws);
          (worst, capped) = (if recursive \<and> maxDepth > 0 then worst_levels (nat maxDepth) jobs jobs jobs else (jobs, False))
      in \<lparr>es_words = int (length ws), es_exts = int (length (sc_exts cfg)),
          es_methods = (if sc_methods cfg = [] then 1 else int (length (sc_methods cfg))),
          es_jobs = jobs, es_recursive = recursive, es_depth = maxDepth, es_worst = worst, es_capped = capped\<rparr>)"

lemma length_variants: "length (wordlistPathVariants base w exts) \<le> 1 + length exts"
  by (simp add: wordlistPathVariants_def Let_def List.map_filter_def)

lemma length_variants_exact:
  "\<forall>e \<in> set exts. trim_space e \<noteq> '''' \<Longrightarrow> length (wordlistPathVariants base w exts) = 1 + length exts"
proof -
  assume "\<forall>e \<in> set exts. trim_space e \<noteq> ''''"
  then have "length (List.map_filter (\<lambda>ext. let cleanExt = trim_space ext in
      if cleanExt = '''' then None else Some (g cleanExt)) exts) = length exts" for g :: "string \<Rightarrow> string"
    by (induction exts) (auto simp: List.map_filter_simps Let_def)
  from this [of "\<lambda>c. (if base \<noteq> '''' then trim_suffix base ''/'' @ ''/'' @ trim_prefix w ''/'' else w) @
      (if \<not> has_prefix c ''.'' then ''.'' @ c else c)"]
  show ?thesis unfolding wordlistPathVariants_def Let_def by (simp del: append_assoc)
qed

lemma int_sum_list: "int (sum_list xs) = sum_list (map int xs)"
  by (induction xs) auto

lemma hd_variants: "hd (wordlistPathVariants '''' w exts) = w"
  by (simp add: wordlistPathVariants_def)

lemma length_line_jobs:
  "int (length (line_jobs cfg '''' d run w)) \<le> line_estimate cfg w \<and>
   ((\<forall>p. \<not> sc_excluded cfg p) \<and> (\<forall>e \<in> set (sc_exts cfg). trim_space e \<noteq> '''') \<longrightarrow>
    int (length (line_jobs cfg '''' d run w)) = line_estimate cfg w)"
proof -
  let ?ps = "wordlistPathVariants '''' w (sc_exts cfg)"
  let ?ms = "resolveMethodsForPath w (sc_methods cfg) (sc_smart cfg)"
  let ?n = "length (filter (\<lambda>p. \<not> sc_excluded cfg p) ?ps)"
  have l: "length (line_jobs cfg '''' d run w) = length ?ms * ?n"
    by (simp add: line_jobs_def hd_variants length_concat comp_def sum_list_triv Let_def)
  have "?n \<le> 1 + length (sc_exts cfg)"
    using length_variants [of "''''" w "sc_exts cfg"] order_trans [OF length_filter_le] by blast
  then have "length ?ms * ?n \<le> length ?ms * (1 + length (sc_exts cfg))" by (rule mult_le_mono2)
  then have a: "int (length (line_jobs cfg '''' d run w)) \<le> line_estimate cfg w"
    unfolding l line_estimate_def by (metis of_nat_1 of_nat_add of_nat_le_iff of_nat_mult)
  have "?n = 1 + length (sc_exts cfg)"
    if "\<forall>p. \<not> sc_excluded cfg p" "\<forall>e \<in> set (sc_exts cfg). trim_space e \<noteq> ''''"
  proof -
    have "filter (\<lambda>p. \<not> sc_excluded cfg p) ?ps = ?ps" using that(1) by simp
    with length_variants_exact [OF that(2)] show ?thesis by metis
  qed
  with a l show ?thesis by (simp add: line_estimate_def algebra_simps)
qed

text \<open>The estimate of a wordlist is an upper bound of the jobs that scanning it submits, and exact when no
  path is excluded and no extension is blank.\<close>

theorem estimate_bounds_scan:
  "int (length (scan_jobs cfg startLine run lns)) \<le> es_jobs (EstimateWordlist cfg rec depth startLine lns) \<and>
   (if (\<forall>p. \<not> sc_excluded cfg p) \<and> (\<forall>e \<in> set (sc_exts cfg). trim_space e \<noteq> '''')
    then int (length (scan_jobs cfg startLine run lns)) = es_jobs (EstimateWordlist cfg rec depth startLine lns)
    else True)"
proof -
  let ?ws = "drop startLine (wordlist_words lns)"
  have e: "es_jobs (EstimateWordlist cfg rec depth startLine lns) = sum_list (map (line_estimate cfg) ?ws)"
    by (simp add: EstimateWordlist_def Let_def split: prod.split)
  have s: "int (length (scan_jobs cfg startLine run lns)) = sum_list (map (\<lambda>w. int (length (line_jobs cfg '''' 0 run w))) ?ws)"
    by (simp add: scan_jobs_def length_concat comp_def int_sum_list)
  show ?thesis
    unfolding e s using length_line_jobs [of cfg 0 run]
    by (auto intro!: sum_list_mono arg_cong [of _ _ sum_list])
qed

lemma estimate_bounds_scan_witness:
  "int (length (scan_jobs \<lparr>sc_methods = [''GET''], sc_smart = False, sc_exts = [''php''], sc_excluded = (\<lambda>_. False)\<rparr> 0 1 [''a'', ''b''])) = 4"
proof -
  let ?cfg = "\<lparr>sc_methods = [''GET''], sc_smart = False, sc_exts = [''php''], sc_excluded = (\<lambda>_. False)\<rparr>"
  have "trim_space ''php'' \<noteq> ''''" "es_jobs (EstimateWordlist ?cfg False 0 0 [''a'', ''b'']) = 4" by code_simp+
  then show ?thesis using estimate_bounds_scan [of ?cfg 0 1 "[''a'', ''b'']" False 0] by simp
qed

lemma zdiv_less_iff: "0 < m \<Longrightarrow> a div m < l \<longleftrightarrow> a < l * m" for a m l :: int
proof -
  assume m: "0 < m"
  have "l \<le> a div m" if "l * m \<le> a" using zdiv_mono1 [OF that m] m by simp
  moreover have "l * m \<le> a" if "l \<le> a div m"
    using mult_right_mono [OF that, of m] m pos_mod_sign [OF m, of a] div_mult_mod_eq [of a m] by linarith
  ultimately show ?thesis by linarith
qed

text \<open>The recursive worst case is the sum of the levels, each the jobs of the wordlist times the level
  before, as long as the sum stays within the cap of \<open>10 ^ 9\<close>; otherwise it is the cap, and marked so.\<close>

theorem worst_levels_sum:
  assumes "0 \<le> jobs" "0 \<le> level" "0 \<le> worst"
  shows "worst_levels k jobs worst level =
    (let s = worst + (\<Sum>d = 1..k. level * max jobs 1 ^ d) in
     if 0 < k \<and> s > worst_cap then (worst_cap, True) else (s, False))"
  using assms(2,3)
proof (induction k arbitrary: worst level)
  case (Suc k)
  let ?m = "max jobs 1"
  have m: "1 \<le> ?m" by simp
  let ?S = "\<lambda>l. \<Sum>d = 1..k. l * ?m ^ d"
  have "(\<Sum>d = 1..Suc k. level * ?m ^ d) = level * ?m + (\<Sum>d = Suc 1..Suc k. level * ?m ^ d)"
    by (subst sum.atLeast_Suc_atMost) simp_all
  also have "(\<Sum>d = Suc 1..Suc k. level * ?m ^ d) = ?S (level * ?m)"
    by (subst sum.shift_bounds_cl_Suc_ivl) (simp add: mult.assoc)
  finally have shift: "(\<Sum>d = 1..Suc k. level * ?m ^ d) = level * ?m + ?S (level * ?m)" .
  have lm: "0 \<le> level * ?m" using Suc.prems(1) by simp
  have pos: "0 \<le> ?S (level * ?m)" using lm by (intro sum_nonneg) auto
  have div: "worst_cap div ?m < level \<longleftrightarrow> worst_cap < level * ?m"
    by (rule zdiv_less_iff) (use m in linarith)
  show ?case
  proof (cases "worst_cap < worst + level * ?m")
    case True
    with shift pos div show ?thesis by (simp add: Let_def del: sum.cl_ivl_Suc)
  next
    case False
    with Suc.prems(2) have "\<not> worst_cap div ?m < level" unfolding div by linarith
    moreover have "worst_levels k jobs (worst + level * ?m) (level * ?m) =
      (let s = worst + level * ?m + ?S (level * ?m) in
       if 0 < k \<and> s > worst_cap then (worst_cap, True) else (s, False))"
      using Suc.IH [OF lm, of "worst + level * ?m"] Suc.prems(2) lm by simp
    ultimately show ?thesis using False unfolding shift
      by (cases k) (simp_all add: Let_def add.assoc del: sum.cl_ivl_Suc)
  qed
qed simp

lemma worst_levels_sum_witness:
  "worst_levels 2 5 5 5 = (155, False) \<and> worst_levels 1 50000 50000 50000 = (1000000000, True)"
  using worst_levels_sum [of 5 5 5 2] worst_levels_sum [of 50000 50000 50000 1]
  by (simp add: worst_cap_def numeral_2_eq_2)

section \<open>Submit\<close>

text \<open>
  The part of the engine that submissions touch. The scanner context is live when it is set and not
  cancelled; the queue is behind the \<open>JobQueue\<close> interface, so its \<open>Push\<close> is a parameter that tells
  whether the job went in.
\<close>

record ('f, 'q) submit_state =
  sb_restarting :: bool
  sb_run :: int
  sb_filter :: "'f list"
  sb_live :: bool
  sb_queue :: 'q
  sb_processed :: int
  sb_total :: int
  sb_harvested :: int
  sb_active :: int
  sb_world :: "world option"

datatype submit_outcome = NotAdmitted | PathExcluded | DuplicateKey | ScannerDown | PushFailed | Queued

definition filter_key :: "job \<Rightarrow> string" where
  "filter_key j = (if job_method j \<noteq> '''' then job_method j @ '':'' @ job_path j else job_path j)"

definition Submit ::
  "(string \<Rightarrow> bool) \<Rightarrow> ('f \<Rightarrow> string \<Rightarrow> bool \<times> 'f) \<Rightarrow> ('q \<Rightarrow> job \<Rightarrow> bool \<times> 'q)
   \<Rightarrow> ('f, 'q) submit_state \<Rightarrow> job \<Rightarrow> submit_outcome \<times> ('f, 'q) submit_state" where
  "Submit excluded taa push st j =
     (if sb_restarting st \<or> job_run j \<noteq> sb_run st then (NotAdmitted, st)
      else if excluded (job_path j) then (PathExcluded, st)
      else
        let (dup, fs) = TestAndAddString taa (sb_filter st) (filter_key j); st1 = st\<lparr>sb_filter := fs\<rparr> in
        if dup then (DuplicateKey, st1\<lparr>sb_processed := sb_processed st1 + 1\<rparr>)
        else if \<not> sb_live st1 then (ScannerDown, st1)
        else
          let st2 = st1\<lparr>sb_active := sb_active st1 + 1\<rparr>; (ok, q) = push (sb_queue st2) j; st3 = st2\<lparr>sb_queue := q\<rparr> in
          if ok then (Queued, st3) else (PushFailed, st3\<lparr>sb_active := sb_active st3 - 1\<rparr>))"

text \<open>Submissions of any goroutines, in the order in which they reach the filter.\<close>

fun submit_all ::
  "(string \<Rightarrow> bool) \<Rightarrow> ('f \<Rightarrow> string \<Rightarrow> bool \<times> 'f) \<Rightarrow> ('q \<Rightarrow> job \<Rightarrow> bool \<times> 'q)
   \<Rightarrow> ('f, 'q) submit_state \<Rightarrow> job list \<Rightarrow> submit_outcome list \<times> ('f, 'q) submit_state" where
  "submit_all excluded taa push st [] = ([], st)"
| "submit_all excluded taa push st (j # js) =
     (let (out, st1) = Submit excluded taa push st j; (outs, st2) = submit_all excluded taa push st1 js
      in (out # outs, st2))"

text \<open>The job for one action of the discovery graph on a harvested path.\<close>

definition harvest_job :: "string \<Rightarrow> int \<Rightarrow> int \<Rightarrow> string \<Rightarrow> action \<Rightarrow> job" where
  "harvest_job path harvestDepth runID nodeID a =
     no_job\<lparr>job_type := ac_type a, job_path := path, job_harvest_depth := harvestDepth, job_method := ''GET'',
       job_run := runID, job_node := nodeID, job_priority := ac_priority a, job_created := ac_created a\<rparr>"

definition harvest_node ::
  "string \<Rightarrow> string \<Rightarrow> string \<Rightarrow> evidence \<Rightarrow> ('f, 'q) submit_state \<Rightarrow> (string \<times> action list \<times> ('f, 'q) submit_state) option" where
  "harvest_node parentID path sourceType e st =
     (case sb_world st of
        None \<Rightarrow> Some ('''', [], st)
      | Some w \<Rightarrow> do {
          (i, as, w') \<leftarrow> AddPathNode w parentID path path sourceType e;
          Some (i, as, st\<lparr>sb_world := Some w'\<rparr>) })"

text \<open>\<open>SubmitHarvestPath\<close>; no result is a panic of the discovery graph.\<close>

definition SubmitHarvestPath ::
  "(string \<Rightarrow> bool) \<Rightarrow> ('f \<Rightarrow> string \<Rightarrow> bool \<times> 'f) \<Rightarrow> ('q \<Rightarrow> job \<Rightarrow> bool \<times> 'q) \<Rightarrow> string \<Rightarrow> int \<Rightarrow> int \<Rightarrow> string
   \<Rightarrow> string \<Rightarrow> evidence \<Rightarrow> ('f, 'q) submit_state \<Rightarrow> (submit_outcome list \<times> ('f, 'q) submit_state) option" where
  "SubmitHarvestPath excluded taa push rawPath runID harvestDepth parentID sourceType e st =
     (let path = trim_space rawPath in
      if path = '''' \<or> excluded path then Some ([], st)
      else
        let st1 = st\<lparr>sb_total := sb_total st + 1, sb_harvested := sb_harvested st + 1\<rparr> in do {
          (nodeID, actions, st2) \<leftarrow>
            harvest_node parentID path sourceType e st1;
          Some (submit_all excluded taa push st2
            (no_job\<lparr>job_type := JobTypeDiscovery, job_path := path, job_harvest_depth := harvestDepth,
               job_method := ''GET'', job_run := runID, job_node := nodeID\<rparr>
             # map (harvest_job path harvestDepth runID nodeID) actions)) })"

lemma Submit_filter:
  assumes "bloom_laws has taa" "shards_ok (sb_filter st)" "Submit excluded taa push st j = (out, st')"
  shows "shards_ok (sb_filter st') \<and> sb_run st' = sb_run st \<and> sb_restarting st' = sb_restarting st \<and>
    (\<forall>k. sharded_has has (sb_filter st) k \<longrightarrow> sharded_has has (sb_filter st') k) \<and>
    (out \<in> {Queued, DuplicateKey, ScannerDown, PushFailed} \<longrightarrow> sharded_has has (sb_filter st') (filter_key j)) \<and>
    (out = Queued \<longrightarrow> \<not> sharded_has has (sb_filter st) (filter_key j)) \<and>
    sb_active st' = sb_active st + of_bool (out = Queued) \<and>
    sb_processed st' = sb_processed st + of_bool (out = DuplicateKey)"
proof -
  obtain d fs where t: "TestAndAddString taa (sb_filter st) (filter_key j) = (d, fs)" by fastforce
  from TestAndAddString_laws [OF assms(1,2), of "filter_key j"] t
  have l: "d = sharded_has has (sb_filter st) (filter_key j)" "sharded_has has fs (filter_key j)" "shards_ok fs"
    "\<forall>k. sharded_has has (sb_filter st) k \<longrightarrow> sharded_has has fs k" by auto
  show ?thesis
    using assms(2,3) l t unfolding Submit_def
    by (auto simp: Let_def split: if_splits prod.splits)
qed

lemma submit_all_keys:
  assumes "bloom_laws has taa"
  shows "submit_all excluded taa push st js = (outs, st') \<Longrightarrow> shards_ok (sb_filter st) \<Longrightarrow>
    (let ks = map (filter_key \<circ> fst) (filter (\<lambda>p. snd p = Queued) (zip js outs)) in
      length outs = length js \<and> distinct ks \<and> (\<forall>k \<in> set ks. \<not> sharded_has has (sb_filter st) k) \<and>
      sb_active st' = sb_active st + int (length ks) \<and>
      sb_processed st' = sb_processed st + int (length (filter (\<lambda>out. out = DuplicateKey) outs)))"
proof (induction js arbitrary: st outs st')
  case (Cons j js)
  obtain out st1 where s: "Submit excluded taa push st j = (out, st1)" by fastforce
  obtain outs' st2 where r: "submit_all excluded taa push st1 js = (outs', st2)" by fastforce
  from Cons.prems(1) s r have e: "outs = out # outs'" "st' = st2" by simp_all
  note f = Submit_filter [OF assms Cons.prems(2) s]
  from Cons.IH [OF r] f show ?case unfolding e Let_def
    by (cases out) auto
qed simp

text \<open>C37: Under the contract of the Bloom filter, no two queued jobs have the same key (the method and the
  path), in whatever order the goroutines submit; the active count grows by the queued jobs and the
  processed count by the duplicates.\<close>

theorem Submit_once:
  assumes "bloom_laws has taa" "shards_ok (sb_filter st)" "submit_all excluded taa push st js = (outs, st')"
  shows "distinct (map (filter_key \<circ> fst) (filter (\<lambda>p. snd p = Queued) (zip js outs))) \<and>
    sb_active st' = sb_active st + int (length (filter (\<lambda>out. out = Queued) outs)) \<and>
    sb_processed st' = sb_processed st + int (length (filter (\<lambda>out. out = DuplicateKey) outs))"
proof -
  note k = submit_all_keys [OF assms(1) assms(3,2), unfolded Let_def]
  then have "length js = length outs" by simp
  then have "length (filter (\<lambda>p. snd p = Queued) (zip js outs)) = length (filter (\<lambda>out. out = Queued) outs)"
    by (induction js outs rule: list_induct2) auto
  with k show ?thesis by simp
qed

text \<open>A filter that remembers every key, to run the definitions on.\<close>

definition exact_taa :: "string list \<Rightarrow> string \<Rightarrow> bool \<times> string list" where
  "exact_taa f k = (k \<in> set f, k # f)"

lemma exact_laws: "bloom_laws (\<lambda>f k. k \<in> set f) exact_taa"
  by (auto simp: bloom_laws_def exact_taa_def)

definition demo_submit :: "(string list, job list) submit_state" where
  "demo_submit = \<lparr>sb_restarting = False, sb_run = 1, sb_filter = [[], []], sb_live = True, sb_queue = [],
     sb_processed = 0, sb_total = 0, sb_harvested = 0, sb_active = 0, sb_world = Some demo_world\<rparr>"

definition demo_push :: "job list \<Rightarrow> job \<Rightarrow> bool \<times> job list" where
  "demo_push q j = (True, q @ [j])"

definition demo_jobs :: "job list" where
  "demo_jobs = map (\<lambda>p. no_job\<lparr>job_path := p, job_run := 1\<rparr>) [''a'', ''b'', ''a'']"

lemma Submit_once_witness:
  "distinct (map (filter_key \<circ> fst) (filter (\<lambda>p. snd p = Queued)
      (zip demo_jobs (fst (submit_all (\<lambda>_. False) exact_taa demo_push demo_submit demo_jobs))))) \<and>
   fst (submit_all (\<lambda>_. False) exact_taa demo_push demo_submit demo_jobs) = [Queued, Queued, DuplicateKey]"
proof
  have "shards_ok (sb_filter demo_submit)" by (simp add: shards_ok_def demo_submit_def)
  from Submit_once [OF exact_laws this prod.collapse [symmetric]]
  show "distinct (map (filter_key \<circ> fst) (filter (\<lambda>p. snd p = Queued)
      (zip demo_jobs (fst (submit_all (\<lambda>_. False) exact_taa demo_push demo_submit demo_jobs)))))" by blast
  show "fst (submit_all (\<lambda>_. False) exact_taa demo_push demo_submit demo_jobs) = [Queued, Queued, DuplicateKey]"
    by code_simp
qed

section \<open>The jobs of the discovery graph's actions\<close>

lemma Submit_known:
  assumes "bloom_laws has taa" "shards_ok (sb_filter st)" "Submit excluded taa push st j = (out, st')"
    "sharded_has has (sb_filter st) (filter_key j)" "\<not> excluded (job_path j)"
  shows "out \<in> {NotAdmitted, DuplicateKey}"
proof -
  have "fst (TestAndAddString taa (sb_filter st) (filter_key j))"
    using TestAndAddString_laws [OF assms(1,2)] assms(4) by blast
  with assms(3,5) show ?thesis
    by (cases "TestAndAddString taa (sb_filter st) (filter_key j)") (auto simp: Submit_def Let_def split: if_splits)
qed

lemma submit_all_known:
  assumes "bloom_laws has taa" "\<And>j. j \<in> set js \<Longrightarrow> filter_key j = k \<and> \<not> excluded (job_path j)"
  shows "submit_all excluded taa push st js = (outs, st') \<Longrightarrow> shards_ok (sb_filter st) \<Longrightarrow>
    sharded_has has (sb_filter st) k \<Longrightarrow> set outs \<subseteq> {NotAdmitted, DuplicateKey}"
  using assms(2)
proof (induction js arbitrary: st outs st')
  case (Cons j js)
  obtain out st1 where s: "Submit excluded taa push st j = (out, st1)" by fastforce
  obtain outs' st2 where r: "submit_all excluded taa push st1 js = (outs', st2)" by fastforce
  from Cons.prems(1) s r have e: "outs = out # outs'" by simp
  have "out \<in> {NotAdmitted, DuplicateKey}"
    using Submit_known [OF assms(1) Cons.prems(2) s] Cons.prems(3,4) by simp
  moreover have "set outs' \<subseteq> {NotAdmitted, DuplicateKey}"
  proof (rule Cons.IH [OF r])
    show "shards_ok (sb_filter st1)" "sharded_has has (sb_filter st1) k"
      using Submit_filter [OF assms(1) Cons.prems(2) s] Cons.prems(3) by blast+
  qed (use Cons.prems(4) in auto)
  ultimately show ?case unfolding e by simp
qed simp

lemma harvest_node_frame:
  "harvest_node parentID path sourceType e st = Some (i, as, st') \<Longrightarrow>
   sb_filter st' = sb_filter st \<and> sb_run st' = sb_run st"
  by (auto simp: harvest_node_def split: option.splits Option.bind_splits)

lemma Submit_refused: "sb_restarting st \<or> job_run j \<noteq> sb_run st \<Longrightarrow> Submit excluded taa push st j = (NotAdmitted, st)"
  by (simp add: Submit_def)

lemma submit_all_refused:
  "\<forall>j \<in> set js. sb_restarting st \<or> job_run j \<noteq> sb_run st \<Longrightarrow>
   submit_all excluded taa push st js = (replicate (length js) NotAdmitted, st)"
proof (induction js)
  case (Cons j js)
  then have "Submit excluded taa push st j = (NotAdmitted, st)" by (intro Submit_refused) auto
  with Cons show ?case by simp
qed simp

text \<open>\<open>SubmitHarvestPath\<close> never queues a job for an action of the discovery graph: these jobs have
  the method and the path of the discovery job submitted just before, so the duplicate check drops each
  of them (or the whole submission was not admitted).\<close>

theorem harvest_actions_dropped:
  assumes "bloom_laws has taa" "shards_ok (sb_filter st)"
    "SubmitHarvestPath excluded taa push rawPath runID hdep parentID sourceType e st = Some (out # outs, st')"
  shows "set outs \<subseteq> {NotAdmitted, DuplicateKey}"
proof -
  define path where "path = trim_space rawPath"
  let ?st1 = "st\<lparr>sb_total := sb_total st + 1, sb_harvested := sb_harvested st + 1\<rparr>"
  have x: "\<not> excluded path" using assms(3) by (auto simp: SubmitHarvestPath_def path_def [symmetric])
  from assms(3) obtain nodeID actions st2 where h: "harvest_node parentID path sourceType e ?st1 = Some (nodeID, actions, st2)"
    and s: "submit_all excluded taa push st2
          (no_job\<lparr>job_type := JobTypeDiscovery, job_path := path, job_harvest_depth := hdep, job_method := ''GET'',
             job_run := runID, job_node := nodeID\<rparr> # map (harvest_job path hdep runID nodeID) actions) = (out # outs, st')"
    unfolding SubmitHarvestPath_def path_def [symmetric]
    by (auto simp: Let_def split: if_splits Option.bind_splits simp del: submit_all.simps)
  have st2: "sb_filter st2 = sb_filter st" using harvest_node_frame [OF h] by simp
  let ?j = "no_job\<lparr>job_type := JobTypeDiscovery, job_path := path, job_harvest_depth := hdep, job_method := ''GET'',
             job_run := runID, job_node := nodeID\<rparr>"
  let ?js = "map (harvest_job path hdep runID nodeID) actions"
  obtain st3 where first: "Submit excluded taa push st2 ?j = (out, st3)"
    using s by (auto split: prod.splits)
  then have rest: "submit_all excluded taa push st3 ?js = (outs, st')"
    using s by (auto split: prod.splits)
  have k: "filter_key j = ''GET:'' @ path \<and> \<not> excluded (job_path j)" if "j \<in> set ?js" for j
    using that x by (auto simp: harvest_job_def filter_key_def)
  have ok: "shards_ok (sb_filter st2)" using assms(2) st2 by simp
  note f = Submit_filter [OF assms(1) ok first]
  show ?thesis
  proof (cases "out \<in> {NotAdmitted, PathExcluded}")
    case True
    then have "out = NotAdmitted" "st3 = st2" "sb_restarting st2 \<or> runID \<noteq> sb_run st2"
      using first x by (auto simp: Submit_def Let_def split: if_splits prod.splits)
    then have "outs = replicate (length ?js) NotAdmitted"
      using rest submit_all_refused [of ?js st2] by (auto simp: harvest_job_def)
    then show ?thesis by auto
  next
    case False
    have "sharded_has has (sb_filter st3) (''GET:'' @ path)"
      using f False by (cases out) (auto simp: filter_key_def)
    with f show ?thesis using submit_all_known [OF assms(1) k rest] by blast
  qed
qed

lemma harvest_actions_dropped_witness:
  "\<exists>st'. SubmitHarvestPath (\<lambda>_. False) exact_taa demo_push ''/users/{id} '' 1 0 '''' ''openapi'' no_evidence demo_submit
     = Some ([Queued, DuplicateKey], st') \<and> set [DuplicateKey] \<subseteq> {NotAdmitted, DuplicateKey}"
proof -
  have "map_option fst (SubmitHarvestPath (\<lambda>_. False) exact_taa demo_push ''/users/{id} '' 1 0 '''' ''openapi''
     no_evidence demo_submit) = Some [Queued, DuplicateKey]" by code_simp
  then obtain st' where "SubmitHarvestPath (\<lambda>_. False) exact_taa demo_push ''/users/{id} '' 1 0 '''' ''openapi''
     no_evidence demo_submit = Some ([Queued, DuplicateKey], st')" by auto
  moreover have "shards_ok (sb_filter demo_submit)" by (simp add: shards_ok_def demo_submit_def)
  ultimately show ?thesis using harvest_actions_dropped [OF exact_laws] by blast
qed

end
