(* ===== verification/Request.thy ===== *)
theory Request
  imports HttpClient "HOL-Library.List_Lexorder" "HOL-Library.Char_ord"
begin

text \<open>
  Building the raw request and following redirects: \<open>buildRequest\<close> and \<open>fullURLForPayload\<close> of
  \<open>pkg/engine/engine.go\<close>, and \<open>sanitizeHeaderToken\<close>, \<open>validateOutboundHostname\<close>, \<open>SetTarget\<close>,
  \<open>redirectOrigin\<close>, \<open>buildRedirectRequest\<close>, \<open>automaticRetrySafe\<close>, \<open>followRedirectChain\<close> and the retry loop
  of \<open>pkg/engine/engine_request.go\<close>.
\<close>

section \<open>The raw request\<close>

definition no_eol :: "string \<Rightarrow> string" where
  "no_eol s = filter (\<lambda>c. c \<noteq> LF) (filter (\<lambda>c. c \<noteq> CR) s)"

lemma length_replace_str: "length r \<le> length p \<Longrightarrow> length (replace_str p r s) \<le> length s"
proof (induction p r s rule: replace_str.induct)
  case (1 p r s)
  show ?case
  proof (cases "p = [] \<or> index_str s p = None")
    case False
    then obtain i where i: "p \<noteq> []" "index_str s p = Some i" by auto
    have "length (replace_str p r (drop (i + length p) s)) \<le> length (drop (i + length p) s)"
      using 1 i by simp
    with i 1(2) index_str_bound [OF i(2)] show ?thesis by (simp add: replace_str.simps [of p r s])
  qed (auto simp: replace_str.simps [of p r s])
qed

lemma length_replace_str_less:
  assumes "length r < length p" "contains_str s p"
  shows "length (replace_str p r s) < length s"
proof -
  from assms(2) obtain i where i: "index_str s p = Some i" by (cases "index_str s p") (auto simp: index_str_None)
  with assms(1) index_str_bound [OF i] length_replace_str [of r p "drop (i + length p) s"]
  show ?thesis by (auto simp: replace_str.simps [of p r s])
qed

text \<open>The loop that strips double line ends, until none is left.\<close>

function strip_blank_lines :: "string \<Rightarrow> string" where
  "strip_blank_lines s =
     (if contains_str s (crlf @ crlf) then strip_blank_lines (replace_str (crlf @ crlf) crlf s) else s)"
  by pat_completeness auto
termination
  by (relation "measure length") (auto intro!: length_replace_str_less simp: crlf_def)

declare strip_blank_lines.simps [simp del]

definition default_header :: "string \<Rightarrow> string \<Rightarrow> string \<Rightarrow> string" where
  "default_header lower name line =
     (if \<not> contains_str lower (LF # name) \<and> \<not> has_prefix lower name then line @ crlf else '''')"

definition default_headers :: "string \<Rightarrow> string" where
  "default_headers headersStr =
     (let l = to_lower headersStr in
      default_header l ''connection:'' ''Connection: keep-alive'' @
      default_header l ''accept:'' ''Accept: */*'' @
      default_header l ''accept-encoding:'' ''Accept-Encoding: identity'')"

definition request_head :: "string \<Rightarrow> string \<Rightarrow> string \<Rightarrow> string \<Rightarrow> string \<Rightarrow> string" where
  "request_head meth reqPath reqHost ua headersStr =
     (let hs = strip_blank_lines headersStr in
      meth @ '' '' @ no_eol reqPath @ '' HTTP/1.1'' @ crlf @ ''Host: '' @ no_eol reqHost @ crlf @
      ''User-Agent: '' @ no_eol ua @ crlf @ hs @ default_headers hs @ crlf)"

definition buildRequest :: "string \<Rightarrow> string \<Rightarrow> string \<Rightarrow> string \<Rightarrow> string \<Rightarrow> string \<Rightarrow> string" where
  "buildRequest meth reqPath reqHost ua headersStr bodyContent =
     (if bodyContent \<noteq> '''' then request_head meth reqPath reqHost ua headersStr @ bodyContent
      else request_head meth reqPath reqHost ua headersStr)"

definition fullURLForPayload :: "string \<Rightarrow> string \<Rightarrow> string \<Rightarrow> string" where
  "fullURLForPayload baseURL payload requestBody =
     (case index_str baseURL ''{PAYLOAD}'' of
        Some i \<Rightarrow> take i baseURL @ payload @ drop (i + 9) baseURL
      | None \<Rightarrow>
          if contains_str requestBody ''{PAYLOAD}'' then baseURL
          else trim_right (\<lambda>c. c = CHR ''/'') baseURL @ (if \<not> has_prefix payload ''/'' then ''/'' @ payload else payload))"

section \<open>Where the head of the request ends\<close>

lemma eol_split:
  assumes "CR \<notin> set s"
  shows "index_str (s @ t) (crlf @ crlf) = map_option (\<lambda>i. length s + i) (index_str t (crlf @ crlf))"
  using assms
  by (cases "index_str t (crlf @ crlf)"; induction s) (auto simp: has_prefix_def crlf_def)

lemma eol_step:
  assumes "\<not> has_prefix t crlf"
  shows "index_str (crlf @ t) (crlf @ crlf) = map_option (\<lambda>i. 2 + i) (index_str t (crlf @ crlf))"
  using assms by (auto simp: crlf_def has_prefix_def CR_def LF_def option.map_comp comp_def numeral_2_eq_2)

lemma prefix4: "has_prefix s (crlf @ crlf) \<longleftrightarrow> (\<exists>r. s = CR # LF # CR # LF # r)"
  by (auto simp: has_prefix_iff crlf_def)

text \<open>An occurrence that spans the border of two texts covers the first character of the second.\<close>

lemma prefix4_border:
  assumes "has_prefix (s @ c # t) (crlf @ crlf)" "c \<noteq> CR" "c \<noteq> LF"
  shows "has_prefix s (crlf @ crlf)"
proof -
  from assms(1) obtain r where r: "s @ c # t = CR # LF # CR # LF # r" by (auto simp: prefix4)
  have "4 \<le> length s"
  proof (rule ccontr)
    assume "\<not> 4 \<le> length s"
    then have "length s = 0 \<or> length s = 1 \<or> length s = 2 \<or> length s = 3" by linarith
    moreover have "(CR # LF # CR # LF # r) ! length s = c" by (simp add: r [symmetric])
    ultimately show False using assms(2,3) by auto
  qed
  then have "take 4 s = take 4 (s @ c # t)" by simp
  then show ?thesis unfolding r by (simp add: has_prefix_def crlf_def numeral_eq_Suc)
qed

lemma no_blank_append:
  assumes "\<not> contains_str s (crlf @ crlf)" "\<not> contains_str (c # t) (crlf @ crlf)" "c \<noteq> CR" "c \<noteq> LF"
  shows "\<not> contains_str (s @ c # t) (crlf @ crlf)"
  using assms(1)
proof (induction s)
  case Nil
  then show ?case using assms(2) by simp
next
  case (Cons x s)
  with prefix4_border [of "x # s" c t] assms(3,4) show ?case by auto
qed

text \<open>A header block that ends with a line end and holds no blank line is followed by one.\<close>

lemma blank_after_block:
  assumes "\<not> contains_str hs (crlf @ crlf)" "has_suffix hs crlf"
  shows "index_str (hs @ crlf @ b) (crlf @ crlf) = Some (length hs - 2)"
proof -
  from assms(2) obtain h where h: "hs = h @ crlf" by (auto simp: has_suffix_def has_prefix_iff crlf_def rev_eq_append_conv)
  have "\<not> has_prefix (drop j (hs @ crlf @ b)) (crlf @ crlf)" if j: "j < length h" for j
  proof
    assume p: "has_prefix (drop j (hs @ crlf @ b)) (crlf @ crlf)"
    define d where "d = drop j h"
    have d: "d \<noteq> []" "drop j (hs @ crlf @ b) = d @ CR # LF # CR # LF # b"
      using j by (simp_all add: d_def h crlf_def)
    from p obtain r where r: "d @ CR # LF # CR # LF # b = CR # LF # CR # LF # r" unfolding d(2) prefix4 by blast
    show False
    proof (cases "length d = 1")
      case True
      with r show False by (auto simp: length_Suc_conv CR_def LF_def)
    next
      case False
      with d(1) have "2 \<le> length d" by (cases d rule: list.exhaust) (auto simp: Suc_le_eq)
      then have "take 4 (d @ [CR, LF]) = take 4 (d @ CR # LF # CR # LF # b)"
        by (cases d; cases "tl d"; cases "tl (tl d)") (auto simp: take_Cons')
      then have "has_prefix (drop j hs) (crlf @ crlf)"
        unfolding r using j by (simp add: has_prefix_def crlf_def h d_def numeral_eq_Suc)
      then have "contains_str hs (crlf @ crlf)" unfolding contains_drop using j h by (intro exI [of _ j]) simp
      with assms(1) show False by blast
    qed
  qed
  then show ?thesis unfolding index_str_Some by (simp add: h has_prefix_def crlf_def)
qed

section \<open>The head ends where it should\<close>

lemma no_eol_set: "CR \<notin> set (no_eol s)" "LF \<notin> set (no_eol s)"
  by (simp_all add: no_eol_def)

lemma strip_blank_lines_clean: "\<not> contains_str (strip_blank_lines s) (crlf @ crlf)"
proof (induction s rule: strip_blank_lines.induct)
  case (1 s)
  then show ?case by (cases "contains_str s (crlf @ crlf)") (simp_all add: strip_blank_lines.simps [of s])
qed

lemma suffix_crlf_append: "2 \<le> length y \<Longrightarrow> has_suffix (x @ y) crlf = has_suffix y crlf"
  by (auto simp: has_suffix_def has_prefix_def crlf_def)

lemma replace_keeps_suffix:
  "has_suffix s crlf \<Longrightarrow> has_suffix (replace_str (crlf @ crlf) crlf s) crlf"
proof (induction "crlf @ crlf" crlf s rule: replace_str.induct)
  case (1 s)
  show ?case
  proof (cases "index_str s (crlf @ crlf)")
    case None
    with 1(2) show ?thesis by (simp add: replace_str.simps [of _ _ s] crlf_def)
  next
    case (Some i)
    define y where "y = drop (i + 4) s"
    have s: "s = take i s @ crlf @ crlf @ y" using index_str_cut [OF Some] by (simp add: y_def crlf_def numeral_eq_Suc)
    have r: "replace_str (crlf @ crlf) crlf s = take i s @ crlf @ replace_str (crlf @ crlf) crlf y"
      using Some by (simp add: replace_str.simps [of _ _ s] crlf_def y_def numeral_eq_Suc)
    have "has_suffix (crlf @ crlf @ y) crlf"
      using 1(2) suffix_crlf_append [of "crlf @ crlf @ y" "take i s"] s by (simp add: crlf_def)
    then have "y = [] \<or> has_suffix y crlf"
      by (cases y rule: rev_cases) (auto simp: has_suffix_def has_prefix_def crlf_def CR_def LF_def take_Cons' split: if_splits)
    then have "has_suffix (crlf @ replace_str (crlf @ crlf) crlf y) crlf"
    proof
      assume "y = []"
      then show ?thesis by (simp add: replace_str.simps has_suffix_def has_prefix_def crlf_def)
    next
      assume y: "has_suffix y crlf"
      have "has_suffix (replace_str (crlf @ crlf) crlf y) crlf"
        using 1(1) [OF _ Some] y by (simp add: crlf_def y_def numeral_eq_Suc)
      then show ?thesis by (auto simp: has_suffix_def has_prefix_iff)
    qed
    then show ?thesis unfolding r using suffix_crlf_append [of "crlf @ replace_str (crlf @ crlf) crlf y" "take i s"]
      by (simp add: crlf_def)
  qed
qed

lemma strip_keeps_suffix: "has_suffix s crlf \<Longrightarrow> has_suffix (strip_blank_lines s) crlf"
proof (induction s rule: strip_blank_lines.induct)
  case (1 s)
  then show ?case
    by (cases "contains_str s (crlf @ crlf)") (simp_all add: strip_blank_lines.simps [of s] replace_keeps_suffix)
qed

lemma replace_keeps_start:
  assumes "\<not> has_prefix s crlf"
  shows "\<not> has_prefix (replace_str (crlf @ crlf) crlf s) crlf"
proof (cases "index_str s (crlf @ crlf)")
  case None
  with assms show ?thesis by (simp add: replace_str.simps [of _ _ s] crlf_def)
next
  case (Some i)
  define y where "y = drop (i + 4) s"
  have s: "s = take i s @ crlf @ crlf @ y" using index_str_cut [OF Some] by (simp add: y_def crlf_def numeral_eq_Suc)
  have r: "replace_str (crlf @ crlf) crlf s = take i s @ crlf @ replace_str (crlf @ crlf) crlf y"
    using Some by (simp add: replace_str.simps [of _ _ s] crlf_def y_def numeral_eq_Suc)
  obtain a t where a: "take i s = a # t" using assms s by (cases "take i s") (auto simp: has_prefix_def crlf_def)
  show ?thesis
  proof (cases t)
    case Nil
    with r a show ?thesis by (simp add: has_prefix_def crlf_def CR_def LF_def)
  next
    case (Cons b u)
    have "s = a # b # u @ crlf @ crlf @ y" using s a Cons by simp
    with assms r a Cons show ?thesis by (simp add: has_prefix_def crlf_def)
  qed
qed

lemma strip_keeps_start: "\<not> has_prefix s crlf \<Longrightarrow> \<not> has_prefix (strip_blank_lines s) crlf"
proof (induction s rule: strip_blank_lines.induct)
  case (1 s)
  then show ?case
    by (cases "contains_str s (crlf @ crlf)") (simp_all add: strip_blank_lines.simps [of s] replace_keeps_start)
qed

text \<open>A block of header lines: not blank, no blank line inside, ends with a line end.\<close>

definition header_block :: "string \<Rightarrow> bool" where
  "header_block hs \<longleftrightarrow> \<not> contains_str hs (crlf @ crlf) \<and> has_suffix hs crlf \<and> \<not> has_prefix hs crlf"

lemma suffix_crlf_split: "has_suffix s crlf \<Longrightarrow> \<exists>h. s = h @ crlf"
  by (auto simp: has_suffix_def has_prefix_iff crlf_def rev_eq_append_conv)

lemma header_block_length: "header_block hs \<Longrightarrow> 2 \<le> length hs"
  unfolding header_block_def using suffix_crlf_split [of hs] by (auto simp: crlf_def)

lemma header_block_append:
  assumes "hs = [] \<or> header_block hs" "header_block (c # t)" "c \<noteq> CR" "c \<noteq> LF"
  shows "header_block (hs @ c # t)"
proof (cases "hs = []")
  case False
  with assms(1) have h: "header_block hs" by blast
  have "has_suffix (hs @ c # t) crlf"
    using assms(2) header_block_length [OF assms(2)] suffix_crlf_append [of "c # t" hs] by (simp add: header_block_def)
  moreover have "\<not> contains_str (hs @ c # t) (crlf @ crlf)"
    using h assms by (intro no_blank_append) (auto simp: header_block_def)
  moreover have "\<not> has_prefix (hs @ c # t) crlf"
    using h header_block_length [OF h] by (auto simp: header_block_def has_prefix_def crlf_def)
  ultimately show ?thesis by (simp add: header_block_def)
qed (use assms in simp)

lemma header_lines:
  "header_block (''Connection: keep-alive'' @ crlf)" "header_block (''Accept: */*'' @ crlf)"
  "header_block (''Accept-Encoding: identity'' @ crlf)"
  by code_simp+

lemma default_header_block:
  assumes "hs = [] \<or> header_block hs" "header_block (line @ crlf)" "line = c # t" "c \<noteq> CR" "c \<noteq> LF"
  shows "hs @ default_header l n line = [] \<or> header_block (hs @ default_header l n line)"
  using assms header_block_append [of hs c "t @ crlf"] by (auto simp: default_header_def)

lemma header_part:
  assumes "hs = [] \<or> header_block hs"
  shows "header_block (hs @ default_headers hs)"
proof -
  let ?d = "default_header (to_lower hs)"
  let ?h1 = "hs @ ?d ''connection:'' ''Connection: keep-alive''"
  let ?h2 = "?h1 @ ?d ''accept:'' ''Accept: */*''"
  have "?h1 = [] \<or> header_block ?h1"
    by (rule default_header_block [OF assms header_lines(1) refl]) (simp_all add: CR_def LF_def)
  then have "?h2 = [] \<or> header_block ?h2"
    by (rule default_header_block [OF _ header_lines(2) refl]) (simp_all add: CR_def LF_def)
  then have "?h2 @ ?d ''accept-encoding:'' ''Accept-Encoding: identity'' = [] \<or>
    header_block (?h2 @ ?d ''accept-encoding:'' ''Accept-Encoding: identity'')"
    by (rule default_header_block [OF _ header_lines(3) refl]) (simp_all add: CR_def LF_def)
  then have a: "hs @ default_headers hs = [] \<or> header_block (hs @ default_headers hs)"
    by (simp only: default_headers_def Let_def append_assoc)
  moreover have "hs @ default_headers hs \<noteq> []"
    by (auto simp: default_headers_def default_header_def to_lower_def has_prefix_def)
  ultimately show ?thesis by blast
qed

lemma request_head_ends:
  assumes "CR \<notin> set meth" "headersStr = '''' \<or> has_suffix headersStr crlf" "\<not> has_prefix headersStr crlf"
  shows "index_str (buildRequest meth reqPath reqHost ua headersStr bodyContent) (crlf @ crlf) =
      Some (length (request_head meth reqPath reqHost ua headersStr) - 4) \<and>
    drop (length (request_head meth reqPath reqHost ua headersStr)) (buildRequest meth reqPath reqHost ua headersStr bodyContent)
      = bodyContent"
proof -
  let ?hs = "strip_blank_lines headersStr"
  define blk where "blk = ?hs @ default_headers ?hs"
  have "?hs = [] \<or> header_block ?hs"
    using assms(2,3) strip_blank_lines_clean strip_keeps_start strip_keeps_suffix
    by (auto simp: header_block_def strip_blank_lines.simps [of "''''"] crlf_def)
  then have b: "header_block blk" unfolding blk_def by (rule header_part)
  define l1 l2 l3 where "l1 = meth @ '' '' @ no_eol reqPath @ '' HTTP/1.1''" and "l2 = ''Host: '' @ no_eol reqHost"
    and "l3 = ''User-Agent: '' @ no_eol ua"
  have l: "CR \<notin> set l1" "CR \<notin> set l2" "CR \<notin> set l3"
    using assms(1) no_eol_set by (auto simp: l1_def l2_def l3_def CR_def)
  have h: "request_head meth reqPath reqHost ua headersStr = l1 @ crlf @ l2 @ crlf @ l3 @ crlf @ blk @ crlf"
    by (simp add: request_head_def Let_def blk_def l1_def l2_def l3_def)
  have r: "buildRequest meth reqPath reqHost ua headersStr bodyContent
      = l1 @ crlf @ l2 @ crlf @ l3 @ crlf @ blk @ crlf @ bodyContent"
    by (simp add: buildRequest_def h)
  have s: "\<not> has_prefix (l2 @ t) crlf" "\<not> has_prefix (l3 @ t) crlf" for t
    by (simp_all add: l2_def l3_def has_prefix_def crlf_def CR_def)
  note len = header_block_length [OF b]
  then have sb: "\<not> has_prefix (blk @ t) crlf" for t
    using b by (auto simp: header_block_def has_prefix_def crlf_def)
  have "index_str (blk @ crlf @ bodyContent) (crlf @ crlf) = Some (length blk - 2)"
    using b by (intro blank_after_block) (auto simp: header_block_def)
  then have "index_str (buildRequest meth reqPath reqHost ua headersStr bodyContent) (crlf @ crlf)
      = Some (length l1 + (2 + (length l2 + (2 + (length l3 + (2 + (length blk - 2)))))))"
    unfolding r by (simp add: eol_split l eol_step s sb)
  moreover have "length (request_head meth reqPath reqHost ua headersStr) - 4 =
      length l1 + (2 + (length l2 + (2 + (length l3 + (2 + (length blk - 2))))))"
    using len unfolding h by (simp add: crlf_def)
  ultimately show ?thesis by (simp add: buildRequest_def)
qed

text \<open>C15: The path, the host and the user agent cannot break out of their lines, and the header block cannot
  end the head early: with a method on one line and headers that are lines and do not start with a blank
  one, the first blank line of the request is the one that ends the head, and what follows is the body.\<close>

theorem buildRequest_head_ends:
  assumes "CR \<notin> set meth" "headersStr = '''' \<or> has_suffix headersStr crlf" "\<not> has_prefix headersStr crlf"
  shows "index_str (buildRequest meth reqPath reqHost ua headersStr bodyContent) (crlf @ crlf) =
      Some (length (request_head meth reqPath reqHost ua headersStr) - 4) \<and>
    drop (length (request_head meth reqPath reqHost ua headersStr)) (buildRequest meth reqPath reqHost ua headersStr bodyContent)
      = bodyContent"
  using assms by (rule request_head_ends)

lemma buildRequest_head_ends_witness:
  "index_str (buildRequest ''POST'' ''/a'' ''h'' ''u'' (''X: 1'' @ crlf) ''body'') (crlf @ crlf) =
     Some (length (request_head ''POST'' ''/a'' ''h'' ''u'' (''X: 1'' @ crlf)) - 4)"
proof -
  have "CR \<notin> set ''POST''" "has_suffix (''X: 1'' @ crlf) crlf" "\<not> has_prefix (''X: 1'' @ crlf) crlf"
    by (simp_all add: CR_def has_suffix_def has_prefix_def crlf_def)
  then show ?thesis using buildRequest_head_ends [of "''POST''" "''X: 1'' @ crlf" "''/a''" "''h''" "''u''" "''body''"] by blast
qed

section \<open>Headers and targets\<close>

definition sanitizeHeaderToken :: "string \<Rightarrow> string" where
  "sanitizeHeaderToken s = filter (\<lambda>c. c \<noteq> CR \<and> c \<noteq> LF) s"

definition render_headers :: "(string \<times> string list) list \<Rightarrow> string" where
  "render_headers hs =
     concat (map (\<lambda>(k, vs). concat (map (\<lambda>v. sanitizeHeaderToken k @ '': '' @ sanitizeHeaderToken v @ crlf) vs)) hs)"

definition validateOutboundHostname :: "(string \<Rightarrow> string list result) \<Rightarrow> string \<Rightarrow> bool \<Rightarrow> unit result" where
  "validateOutboundHostname lookup hostname allowPrivate =
     (if \<not> allowPrivate \<and> IsPrivateHost lookup hostname
      then Inl (''SSRF protection: target '' @ go_quote hostname @ '' resolves to a private or loopback address'')
      else Inr ())"

record target =
  tg_base :: string
  tg_host :: string
  tg_scope :: string

text \<open>\<open>SetTarget\<close> up to the refresh of the HTTP/2 client.\<close>

definition SetTarget :: "(string \<Rightarrow> string list result) \<Rightarrow> bool \<Rightarrow> string \<Rightarrow> target \<Rightarrow> target result" where
  "SetTarget lookup allowPrivate raw t =
     (let targetURL = replace_str ''{payload}'' ''{PAYLOAD}'' raw in
      case url_parse targetURL of
        None \<Rightarrow> Inl ''parse error''
      | Some u \<Rightarrow>
          if u_scheme u = '''' \<or> u_host u = '''' then Inl ''invalid URL: missing scheme or host''
          else (case validateOutboundHostname lookup (url_hostname u) allowPrivate of
              Inl e \<Rightarrow> Inl e
            | Inr _ \<Rightarrow> Inr (t\<lparr>tg_base := targetURL, tg_host := u_host u,
                tg_scope := (if tg_scope t = '''' then url_hostname u else tg_scope t)\<rparr>)))"

section \<open>Redirects\<close>

definition redirectOrigin :: "url option \<Rightarrow> string" where
  "redirectOrigin uo =
     (case uo of
        None \<Rightarrow> ''''
      | Some u \<Rightarrow>
          let sch = to_lower (u_scheme u);
              port = (if url_port u = '''' then (if sch = ''http'' then ''80'' else if sch = ''https'' then ''443'' else '''')
                      else url_port u)
          in sch @ ''://'' @ to_lower (url_hostname u) @ '':'' @ port)"

text \<open>
  A request as \<open>net/http\<close> reads it: method, header with canonical names, body. Reading a request, the
  escaped path, the text of a URL and the resolution of a reference are operations of \<open>net/http\<close> and
  \<open>net/url\<close>, collected in one parameter.
\<close>

record http_request =
  hq_method :: string
  hq_header :: "(string \<times> string list) list"
  hq_body :: string

record net_ops =
  no_read :: "string \<Rightarrow> http_request result"
  no_escaped :: "url \<Rightarrow> string"
  no_text :: "url \<Rightarrow> string"
  no_resolve :: "url \<Rightarrow> url \<Rightarrow> url"
  no_lookup :: "string \<Rightarrow> string list result"

definition header_del :: "string list \<Rightarrow> (string \<times> string list) list \<Rightarrow> (string \<times> string list) list" where
  "header_del ks hs = filter (\<lambda>(k, _). k \<notin> set ks) hs"

definition header_first :: "string \<Rightarrow> (string \<times> string list) list \<Rightarrow> string" where
  "header_first k hs = (case map_of hs k of Some (v # _) \<Rightarrow> v | _ \<Rightarrow> '''')"

definition credential_headers :: "string list" where
  "credential_headers = [''Authorization'', ''Cookie'', ''Proxy-Authorization'']"

text \<open>The method of the next request, and whether the body is dropped.\<close>

definition redirect_method :: "int \<Rightarrow> string \<Rightarrow> string \<times> bool" where
  "redirect_method status meth =
     (if status = 303 then (if meth \<noteq> ''HEAD'' then (''GET'', True) else (meth, False))
      else if status = 301 \<or> status = 302 then (if meth = ''POST'' then (''GET'', True) else (meth, False))
      else (meth, False))"

definition redirect_headers :: "http_request \<Rightarrow> string \<Rightarrow> string \<Rightarrow> string \<Rightarrow> url \<Rightarrow> (string \<times> string list) list" where
  "redirect_headers req meth body currentURL nextURL =
     (let h1 = header_del [''Host'', ''Content-Length'', ''Transfer-Encoding''] (hq_header req);
          h2 = (if redirectOrigin (url_parse currentURL) \<noteq> redirectOrigin (Some nextURL)
                then header_del credential_headers h1 else h1)
      in if body \<noteq> '''' then h2 @ [(''Content-Length'', [nat_dec (length body)])]
         else if meth \<in> {''POST'', ''PUT'', ''PATCH'', ''DELETE''} then h2 @ [(''Content-Length'', [''0''])]
         else h2)"

definition buildRedirectRequest :: "net_ops \<Rightarrow> string \<Rightarrow> int \<Rightarrow> string \<Rightarrow> url \<Rightarrow> string result" where
  "buildRedirectRequest ops rawRequest statusCode currentURL nextURL =
     (case no_read ops rawRequest of
        Inl e \<Rightarrow> Inl (''parse redirect request: '' @ e)
      | Inr req \<Rightarrow>
          let (meth, dropBody) = redirect_method statusCode (hq_method req);
              body = (if dropBody then '''' else hq_body req);
              headers = redirect_headers req meth body currentURL nextURL;
              p0 = (if no_escaped ops nextURL = '''' then ''/'' else no_escaped ops nextURL);
              reqPath = (if u_query nextURL \<noteq> '''' then p0 @ ''?'' @ u_query nextURL else p0);
              hdrs = sort_key fst (filter (\<lambda>(k, _). \<not> equal_fold k ''User-Agent'') headers)
          in Inr (buildRequest meth reqPath (u_host nextURL) (header_first ''User-Agent'' (hq_header req))
                    (render_headers hdrs) body))"

text \<open>
  The chain, with the executor of a request as a parameter that threads its state; the result is the
  last response and the URL it came from, empty when no redirect was followed.
\<close>

fun followRedirectChain ::
  "net_ops \<Rightarrow> bool \<Rightarrow> (string \<Rightarrow> string \<Rightarrow> 's \<Rightarrow> raw_response result \<times> 's)
   \<Rightarrow> nat \<Rightarrow> raw_response \<Rightarrow> string \<Rightarrow> string \<Rightarrow> string \<Rightarrow> 's \<Rightarrow> (raw_response \<times> string) \<times> 's" where
  "followRedirectChain ops allow exec 0 resp finalURL currentURL raw s = ((resp, finalURL), s)"
| "followRedirectChain ops allow exec (Suc n) resp finalURL currentURL raw s =
     (let location = GetHeader resp ''Location'' in
      if rr_status resp < 300 \<or> rr_status resp \<ge> 400 \<or> location = '''' then ((resp, finalURL), s)
      else (case (url_parse currentURL, url_parse location) of
          (Some baseURL, Some locURL) \<Rightarrow>
            (let nextURL = no_resolve ops baseURL locURL in
             case validateOutboundHostname (no_lookup ops) (url_hostname nextURL) allow of
               Inl _ \<Rightarrow> ((resp, finalURL), s)
             | Inr _ \<Rightarrow>
                 (case buildRedirectRequest ops raw (rr_status resp) currentURL nextURL of
                    Inl _ \<Rightarrow> ((resp, finalURL), s)
                  | Inr next \<Rightarrow>
                      (case exec (no_text ops nextURL) next s of
                         (Inl _, s') \<Rightarrow> ((resp, finalURL), s')
                       | (Inr nextResp, s') \<Rightarrow>
                           followRedirectChain ops allow exec n nextResp (no_text ops nextURL) (no_text ops nextURL) next s')))
        | _ \<Rightarrow> ((resp, finalURL), s)))"

text \<open>What the server on another origin is sent does not depend on the credentials.\<close>

definition without_credentials :: "http_request \<Rightarrow> http_request" where
  "without_credentials req =
     req\<lparr>hq_header := header_del [''Authorization'', ''Cookie'', ''Proxy-Authorization''] (hq_header req)\<rparr>"

lemma header_del_del: "header_del ks (header_del ls hs) = header_del ls (header_del ks hs)"
  "header_del ks (header_del ks hs) = header_del ks hs"
  by (auto simp: header_del_def conj_commute)

lemma header_first_del: "k \<notin> set ks \<Longrightarrow> header_first k (header_del ks hs) = header_first k hs"
proof -
  assume "k \<notin> set ks"
  then have "map_of (header_del ks hs) k = map_of hs k"
    by (induction hs) (auto simp: header_del_def)
  then show ?thesis by (simp add: header_first_def)
qed

lemma redirect_other_origin:
  assumes "no_read ops raw1 = Inr req" "no_read ops raw2 = Inr (without_credentials req)"
    "redirectOrigin (url_parse cur) \<noteq> redirectOrigin (Some u)"
  shows "buildRedirectRequest ops raw1 st cur u = buildRedirectRequest ops raw2 st cur u"
proof -
  have "header_first ''User-Agent'' (hq_header (without_credentials req)) = header_first ''User-Agent'' (hq_header req)"
    by (simp add: without_credentials_def header_first_del)
  moreover have "redirect_headers (without_credentials req) m b cur u = redirect_headers req m b cur u" for m b
    using assms(3) by (simp add: redirect_headers_def without_credentials_def Let_def header_del_del credential_headers_def)
  moreover have "hq_method (without_credentials req) = hq_method req" "hq_body (without_credentials req) = hq_body req"
    by (simp_all add: without_credentials_def)
  ultimately show ?thesis using assms(1,2) by (auto simp: buildRedirectRequest_def Let_def split: prod.split)
qed

text \<open>C23: A redirect to another origin (scheme, host and port) leaks no credentials: the whole chain, every
  request sent and the result, is the same as if the first request had carried no \<open>Authorization\<close>,
  \<open>Cookie\<close> or \<open>Proxy-Authorization\<close> header.\<close>

theorem redirect_no_credentials:
  assumes "no_read ops raw1 = Inr req" "no_read ops raw2 = Inr (without_credentials req)"
    "url_parse cur = Some b" "url_parse (GetHeader resp ''Location'') = Some l"
    "redirectOrigin (Some b) \<noteq> redirectOrigin (Some (no_resolve ops b l))"
  shows "followRedirectChain ops allow exec n resp final cur raw1 s = followRedirectChain ops allow exec n resp final cur raw2 s"
proof (cases n)
  case (Suc m)
  have "buildRedirectRequest ops raw1 st cur (no_resolve ops b l) = buildRedirectRequest ops raw2 st cur (no_resolve ops b l)" for st
    using redirect_other_origin [OF assms(1,2)] assms(3,5) by simp
  with Suc assms(3,4) show ?thesis by (auto simp: Let_def split: sum.split prod.split)
qed simp

definition demo_ops :: net_ops where
  "demo_ops = \<lparr>no_read = (\<lambda>raw. Inr \<lparr>hq_method = ''GET'',
      hq_header = (if raw = ''r1'' then [(''Accept'', [''x'']), (''Cookie'', [''s''])] else [(''Accept'', [''x''])]), hq_body = ''''\<rparr>),
     no_escaped = u_path, no_text = u_host, no_resolve = (\<lambda>b l. l), no_lookup = (\<lambda>h. Inl ''no such host'')\<rparr>"

definition demo_redirect :: raw_response where
  "demo_redirect = \<lparr>rr_status = 302, rr_headers = '''', rr_map = Some [(''location'', ''http://b/x'')], rr_body = '''',
     rr_raw = '''', rr_complete = True, rr_encoded = False\<rparr>"

lemma redirect_no_credentials_witness:
  "followRedirectChain demo_ops False (\<lambda>u raw s. (Inl ''down'', s @ [(u, raw)])) 3 demo_redirect '''' ''http://a/'' ''r1'' [] =
   followRedirectChain demo_ops False (\<lambda>u raw s. (Inl ''down'', s @ [(u, raw)])) 3 demo_redirect '''' ''http://a/'' ''r2'' []"
proof -
  let ?b = "no_url\<lparr>u_scheme := ''http'', u_host := ''a'', u_path := ''/''\<rparr>"
  let ?l = "no_url\<lparr>u_scheme := ''http'', u_host := ''b'', u_path := ''/x''\<rparr>"
  have u: "url_parse ''http://a/'' = Some ?b" "url_parse (GetHeader demo_redirect ''Location'') = Some ?l"
    "redirectOrigin (Some ?b) \<noteq> redirectOrigin (Some ?l)" by code_simp+
  have r: "no_read demo_ops ''r1'' = Inr \<lparr>hq_method = ''GET'', hq_header = [(''Accept'', [''x'']), (''Cookie'', [''s''])], hq_body = ''''\<rparr>"
    "no_read demo_ops ''r2'' = Inr (without_credentials \<lparr>hq_method = ''GET'', hq_header = [(''Accept'', [''x'']), (''Cookie'', [''s''])], hq_body = ''''\<rparr>)"
    by (simp_all add: demo_ops_def without_credentials_def header_del_def)
  show ?thesis by (rule redirect_no_credentials [OF r u(1,2)]) (use u(3) in \<open>simp add: demo_ops_def\<close>)
qed

section \<open>The retry loop\<close>

definition automaticRetrySafe :: "string \<Rightarrow> bool" where
  "automaticRetrySafe raw =
     (case str_fields (case index_byte (\<lambda>c. c = LF) raw of None \<Rightarrow> raw | Some i \<Rightarrow> take i raw) of
        [] \<Rightarrow> False
      | m # _ \<Rightarrow> to_upper m \<in> {''GET'', ''HEAD'', ''OPTIONS'', ''TRACE''})"

text \<open>
  What the loop does besides sending: it reports the proxy as blocked or not, and sleeps. One attempt
  (\<open>executeRequestOnce\<close>), the classification of a response as blocked, the anti-bot solver, which may
  replace the response, and the cancellation of the context are parameters.
\<close>

datatype retry_effect = Attempted | Reported bool | Slept duration

record 's retry_ops =
  ro_once :: "'s \<Rightarrow> raw_response result \<times> 's"
  ro_blocked :: "raw_response \<Rightarrow> bool"
  ro_solved :: "raw_response \<Rightarrow> 's \<Rightarrow> raw_response option \<times> 's"
  ro_context_error :: "goerror \<Rightarrow> bool"
  ro_cancelled :: "'s \<Rightarrow> bool"

fun retry_loop :: "'s retry_ops \<Rightarrow> nat \<Rightarrow> duration \<Rightarrow> 's \<Rightarrow> raw_response result \<times> retry_effect list \<times> 's" where
  "retry_loop ro left backoff s =
     (case ro_once ro s of
        (Inr resp, s1) \<Rightarrow>
          (case ro_solved ro resp s1 of
             (Some retryResp, s2) \<Rightarrow> (Inr retryResp, [Attempted, Reported (ro_blocked ro resp)], s2)
           | (None, s2) \<Rightarrow> (Inr resp, [Attempted, Reported (ro_blocked ro resp)], s2))
      | (Inl e, s1) \<Rightarrow>
          if ro_context_error ro e then (Inl e, [Attempted], s1)
          else (case left of
              0 \<Rightarrow> (Inl e, [Attempted, Reported True], s1)
            | Suc n \<Rightarrow>
                if ro_cancelled ro s1 then (Inl ''context canceled'', [Attempted, Reported True], s1)
                else (let (r, es, s2) = retry_loop ro n (backoff * 2) s1
                      in (r, [Attempted, Reported True, Slept backoff] @ es, s2))))"

declare retry_loop.simps [simp del]

text \<open>The result is \<open>None\<close> when Go returns a nil response and a nil error.\<close>

definition executeRequestWithRetry ::
  "'s retry_ops \<Rightarrow> int \<Rightarrow> string \<Rightarrow> 's \<Rightarrow> raw_response result option \<times> retry_effect list \<times> 's" where
  "executeRequestWithRetry ro maxRetries rawRequest s =
     (let retries = (if \<not> automaticRetrySafe rawRequest then 0 else maxRetries) in
      if retries < 0 then (None, [], s)
      else let (r, es, s') = retry_loop ro (nat retries) second s in (Some r, es, s'))"

definition attempts :: "retry_effect list \<Rightarrow> nat" where
  "attempts es = length (filter (\<lambda>x. x = Attempted) es)"

definition sleeps :: "retry_effect list \<Rightarrow> duration list" where
  "sleeps es = List.map_filter (\<lambda>x. case x of Slept d \<Rightarrow> Some d | _ \<Rightarrow> None) es"

lemma retry_loop_bounds:
  "retry_loop ro left b s = (r, es, s') \<Longrightarrow>
   1 \<le> attempts es \<and> attempts es \<le> Suc left \<and> sleeps es = map (\<lambda>i. b * 2 ^ i) [0..<attempts es - 1]"
proof (induction left arbitrary: b s r es s')
  case 0
  then show ?case
    by (subst (asm) retry_loop.simps)
       (auto simp: attempts_def sleeps_def List.map_filter_simps split: prod.splits sum.splits option.splits if_splits)
next
  case (Suc n)
  obtain o1 s1 where o: "ro_once ro s = (o1, s1)" by fastforce
  obtain r2 es2 s2 where l: "retry_loop ro n (b * 2) s1 = (r2, es2, s2)" by (metis prod_cases3)
  note ih = Suc.IH [OF l]
  show ?case
  proof (cases "es = [Attempted, Reported True, Slept b] @ es2")
    case True
    have "attempts es = Suc (attempts es2)" "sleeps es = b # sleeps es2"
      by (simp_all add: True attempts_def sleeps_def List.map_filter_simps)
    moreover obtain k where "attempts es2 = Suc k" using ih by (cases "attempts es2") auto
    moreover have "map (\<lambda>i. b * 2 * 2 ^ i) [0..<k] = map (\<lambda>i. b * 2 ^ i) [1..<Suc k]"
      by (simp add: map_Suc_upt [symmetric] del: upt_Suc)
    ultimately show ?thesis using ih by (simp add: upt_conv_Cons del: upt_Suc)
  next
    case False
    with Suc.prems o l show ?thesis
      by (subst (asm) retry_loop.simps)
         (auto simp: attempts_def sleeps_def List.map_filter_simps split: prod.splits sum.splits option.splits if_splits)
  qed
qed

text \<open>A request that is not safe to repeat is sent once only, whatever the configured number of retries;
  any request is sent at most once more than that number, with pauses of 1, 2, 4, \<open>\<dots>\<close> seconds between.\<close>

theorem retries_bounded:
  assumes "executeRequestWithRetry ro maxRetries raw s = (Some r, es, s')"
  shows "attempts es \<le> Suc (nat maxRetries) \<and> (\<not> automaticRetrySafe raw \<longrightarrow> attempts es = 1) \<and>
    sleeps es = map (\<lambda>i. second * 2 ^ i) [0..<attempts es - 1]"
proof -
  from assms obtain k where k: "retry_loop ro k second s = (r, es, s')"
      "k \<le> nat maxRetries" "\<not> automaticRetrySafe raw \<longrightarrow> k = 0"
    by (auto simp: executeRequestWithRetry_def Let_def split: if_splits prod.splits)
  from retry_loop_bounds [OF k(1)] k(2,3) show ?thesis by auto
qed

definition demo_retry :: "nat retry_ops" where
  "demo_retry = \<lparr>ro_once = (\<lambda>s. (Inl ''reset'', s + 1)), ro_blocked = (\<lambda>_. False), ro_solved = (\<lambda>_ s. (None, s)),
     ro_context_error = (\<lambda>_. False), ro_cancelled = (\<lambda>_. False)\<rparr>"

lemma retries_bounded_witness:
  "\<exists>es s'. executeRequestWithRetry demo_retry 2 ''GET / HTTP/1.1'' 0 = (Some (Inl ''reset''), es, s') \<and>
     attempts es = 3 \<and> sleeps es = [second, second * 2]"
proof -
  let ?e = "executeRequestWithRetry demo_retry 2 ''GET / HTTP/1.1'' 0"
  have "fst ?e = Some (Inl ''reset'')" "attempts (fst (snd ?e)) = 3" by code_simp+
  then obtain es s' where e: "?e = (Some (Inl ''reset''), es, s')" "attempts es = 3"
    by (metis fst_conv prod.collapse snd_conv)
  from retries_bounded [OF e(1)] e(2) have "sleeps es = [second, second * 2]"
    by (simp add: numeral_3_eq_3 upt_rec)
  with e show ?thesis by blast
qed

text \<open>A negative number of retries sends nothing and returns a nil response without an error.\<close>

lemma negative_retries:
  "automaticRetrySafe raw \<Longrightarrow> maxRetries < 0 \<Longrightarrow> executeRequestWithRetry ro maxRetries raw s = (None, [], s)"
  by (simp add: executeRequestWithRetry_def)

end
