(* ===== verification/Filters.thy ===== *)
theory Filters
  imports HttpClient Simhash
begin

text \<open>
  From a response to the decision to keep it, \<open>pkg/engine/engine.go\<close> and the worker: the metrics of
  \<open>computeResponseMetrics\<close> with its ASCII and UTF-8 paths, \<open>containsFold\<close> and \<open>Classify403\<close>,
  \<open>applyFilters\<close>, and the smart filter that counts fingerprints. Compiled regular expressions are
  predicates on the body.
\<close>

section \<open>UTF-8\<close>

text \<open>\<open>utf8.DecodeRune\<close> on a non-empty text: the code point (65533 for an invalid sequence) and its width.\<close>

definition cont_byte :: "char \<Rightarrow> bool" where
  "cont_byte c \<longleftrightarrow> 128 \<le> byte c \<and> byte c \<le> 191"

definition second_ok :: "nat \<Rightarrow> char \<Rightarrow> bool" where
  "second_ok lead c \<longleftrightarrow>
     (if lead = 224 then 160 else if lead = 240 then 144 else 128) \<le> byte c \<and>
     byte c \<le> (if lead = 237 then 159 else if lead = 244 then 143 else 191)"

definition rune_error :: int where "rune_error = 65533"

definition decode_rune :: "string \<Rightarrow> int \<times> nat" where
  "decode_rune s =
     (case s of
        [] \<Rightarrow> (rune_error, 0)
      | a # r \<Rightarrow>
          let l = byte a in
          if l < 128 then (int l, 1)
          else if l < 194 \<or> l > 244 then (rune_error, 1)
          else (case r of
              [] \<Rightarrow> (rune_error, 1)
            | b # r2 \<Rightarrow>
                if \<not> second_ok l b then (rune_error, 1)
                else if l < 224 then (int (l - 192) * 64 + int (byte b - 128), 2)
                else (case r2 of
                    [] \<Rightarrow> (rune_error, 1)
                  | c # r3 \<Rightarrow>
                      if \<not> cont_byte c then (rune_error, 1)
                      else if l < 240 then (int (l - 224) * 4096 + int (byte b - 128) * 64 + int (byte c - 128), 3)
                      else (case r3 of
                          [] \<Rightarrow> (rune_error, 1)
                        | d # _ \<Rightarrow>
                            if \<not> cont_byte d then (rune_error, 1)
                            else (int (l - 240) * 262144 + int (byte b - 128) * 4096 + int (byte c - 128) * 64
                                    + int (byte d - 128), 4)))))"

lemma decode_rune_width: "s \<noteq> [] \<Longrightarrow> 0 < snd (decode_rune s)"
  by (cases s) (auto simp: decode_rune_def Let_def split: list.split)

function runes :: "string \<Rightarrow> int list" where
  "runes s = (if s = [] then [] else fst (decode_rune s) # runes (drop (snd (decode_rune s)) s))"
  by pat_completeness auto
termination
  by (relation "measure length") (use decode_rune_width in \<open>auto intro!: diff_less\<close>)

declare runes.simps [simp del]

text \<open>\<open>unicode.IsSpace\<close>.\<close>

definition rune_space :: "int \<Rightarrow> bool" where
  "rune_space r \<longleftrightarrow> r \<in> {9, 10, 11, 12, 13, 32, 133, 160, 5760, 8232, 8233, 8239, 8287, 12288} \<or> (8192 \<le> r \<and> r \<le> 8202)"

section \<open>Metrics of a response\<close>

definition isASCII :: "string \<Rightarrow> bool" where
  "isASCII b \<longleftrightarrow> list_all (\<lambda>c. byte c < 128) b"

text \<open>The counting loop, with the word in progress, on bytes and on code points.\<close>

fun count_words :: "('a \<Rightarrow> bool) \<Rightarrow> bool \<Rightarrow> 'a list \<Rightarrow> int" where
  "count_words sp inWord [] = 0"
| "count_words sp inWord (c # s) =
     (if sp c then count_words sp False s
      else (if \<not> inWord then 1 else 0) + count_words sp True s)"

definition count_lines :: "('a \<Rightarrow> bool) \<Rightarrow> 'a list \<Rightarrow> int" where
  "count_lines nl s = int (length (filter nl s)) + 1"

definition text_counts :: "string \<Rightarrow> int \<times> int" where
  "text_counts body =
     (if body = [] then (0, 0)
      else if isASCII body then (count_words is_space False body, count_lines (\<lambda>c. c = LF) body)
      else (count_words rune_space False (runes body), count_lines (\<lambda>r. r = 10) (runes body)))"

record metrics =
  mt_size :: int
  mt_words :: int
  mt_lines :: int
  mt_type :: string
  mt_hash :: "64 word"


definition computeResponseMetrics :: "raw_response \<Rightarrow> string \<Rightarrow> metrics" where
  "computeResponseMetrics resp successfulMethod =
     (let cl = GetHeader resp ''Content-Length'';
          bodyLen = int (length (rr_body resp));
          bodySize = (if rr_encoded resp then - 1
                  else if successfulMethod = ''HEAD'' \<and> cl \<noteq> '''' then (case atoi cl of Some s \<Rightarrow> s | None \<Rightarrow> bodyLen)
                  else bodyLen);
          (ws, ls) = (if rr_encoded resp then (- 1, - 1) else text_counts (rr_body resp));
          ct = GetHeader resp ''Content-Type'';
          ctype = (case index_byte (\<lambda>c. c = CHR '';'') ct of None \<Rightarrow> ct | Some i \<Rightarrow> trim_space (take i ct))
      in \<lparr>mt_size = bodySize, mt_words = ws, mt_lines = ls, mt_type = ctype, mt_hash = simhashBody (rr_body resp)\<rparr>)"

section \<open>Classification of a 403 response\<close>

text \<open>\<open>containsFold\<close>: the pattern is given in lower case; upper-case letters of the text are folded.\<close>

fun fold_prefix :: "string \<Rightarrow> string \<Rightarrow> bool" where
  "fold_prefix b [] = True"
| "fold_prefix [] (d # sub) = False"
| "fold_prefix (c # b) (d # sub) = (lower_char c = d \<and> fold_prefix b sub)"

fun containsFold :: "string \<Rightarrow> string \<Rightarrow> bool" where
  "containsFold b sub =
     (if sub = [] then True
      else if length b < length sub then False
      else list_ex (\<lambda>i. fold_prefix (drop i b) sub) [0..<Suc (length b - length sub)])"

declare containsFold.simps [simp del]

text \<open>Whether some header line has the name, ignoring case.\<close>

definition line_name :: "string \<Rightarrow> string option" where
  "line_name l =
     (let l1 = (if l \<noteq> [] \<and> last l = CR then butlast l else l)
      in map_option (\<lambda>i. trim_space (take i l1)) (index_byte (\<lambda>c. c = CHR '':'') l1))"

definition has_header_line :: "string \<Rightarrow> string \<Rightarrow> bool" where
  "has_header_line headers name =
     list_ex (\<lambda>l. case line_name l of None \<Rightarrow> False | Some k \<Rightarrow> equal_fold k name) (split_on LF headers)"

definition maxScan :: nat where "maxScan = 8 * 1024"

definition Classify403 :: "string \<Rightarrow> string \<Rightarrow> string" where
  "Classify403 body headers =
     (let buf = take maxScan body;
          cfRay = has_header_line headers ''cf-ray'';
          cfCache = has_header_line headers ''cf-cache-status''
      in if containsFold buf ''attention required! | cloudflare'' \<or> containsFold buf ''sorry, you have been blocked'' \<or>
           containsFold buf ''cf-error-details'' then ''CF_WAF_BLOCK''
         else if containsFold buf ''request forbidden by administrative rules'' \<and> (cfRay \<or> cfCache) then ''CF_ADMIN_403''
         else if containsFold buf ''<center>nginx</center>'' \<and> \<not> cfRay then ''NGINX_403''
         else ''GENERIC_403'')"

section \<open>The filters\<close>

record filter_config =
  fc_sizes :: "int list"
  fc_ranges :: "(int \<times> int) list"
  fc_codes :: "int list"
  fc_words :: int
  fc_lines :: int
  fc_match_words :: int
  fc_match_lines :: int
  fc_match_re :: "(string \<Rightarrow> bool) option"
  fc_filter_re :: "(string \<Rightarrow> bool) option"
  fc_rt_min :: duration
  fc_rt_max :: duration
  fc_match_types :: "string list"
  fc_filter_types :: "string list"

text \<open>The rules before the clustering, as the reason of the first one that rejects.\<close>

datatype filter_rule = RuleStatus | RuleSize | RuleRange | RuleWords | RuleLines | RuleMatchWords | RuleMatchLines
  | RuleMatchRe | RuleFilterRe | RuleSlow | RuleFast | RuleType | RuleTypeOut

definition filter_rules :: "filter_config \<Rightarrow> raw_response \<Rightarrow> metrics \<Rightarrow> duration \<Rightarrow> bool \<Rightarrow> (filter_rule \<times> bool) list" where
  "filter_rules fc resp m dur skipRT =
     (let ct = to_lower (mt_type m); body = rr_body resp; enc = rr_encoded resp in
      [(RuleStatus, fc_codes fc \<noteq> [] \<and> rr_status resp \<notin> set (fc_codes fc)),
       (RuleSize, fc_sizes fc \<noteq> [] \<and> mt_size m \<in> set (fc_sizes fc)),
       (RuleRange, list_ex (\<lambda>(lo, hi). mt_size m \<ge> 0 \<and> mt_size m \<ge> lo \<and> mt_size m \<le> hi) (fc_ranges fc)),
       (RuleWords, fc_words fc \<ge> 0 \<and> mt_words m = fc_words fc),
       (RuleLines, fc_lines fc \<ge> 0 \<and> mt_lines m = fc_lines fc),
       (RuleMatchWords, fc_match_words fc \<ge> 0 \<and> mt_words m \<noteq> fc_match_words fc),
       (RuleMatchLines, fc_match_lines fc \<ge> 0 \<and> mt_lines m \<noteq> fc_match_lines fc),
       (RuleMatchRe, case fc_match_re fc of None \<Rightarrow> False | Some r \<Rightarrow> enc \<or> \<not> r body),
       (RuleFilterRe, case fc_filter_re fc of None \<Rightarrow> False | Some r \<Rightarrow> \<not> enc \<and> r body),
       (RuleFast, \<not> skipRT \<and> fc_rt_min fc > 0 \<and> dur < fc_rt_min fc),
       (RuleSlow, \<not> skipRT \<and> fc_rt_max fc > 0 \<and> dur > fc_rt_max fc),
       (RuleType, fc_match_types fc \<noteq> [] \<and> \<not> list_ex (\<lambda>t. contains_str ct t) (fc_match_types fc)),
       (RuleTypeOut, list_ex (\<lambda>t. contains_str ct t) (fc_filter_types fc))])"

definition simhashEligible :: "raw_response \<Rightarrow> string \<Rightarrow> 64 word \<Rightarrow> bool" where
  "simhashEligible resp reqMethod h \<longleftrightarrow>
     \<not> equal_fold reqMethod ''HEAD'' \<and> rr_body resp \<noteq> [] \<and> rr_complete resp \<and> \<not> rr_encoded resp \<and> h \<noteq> 0"

definition applyFilters ::
  "filter_config \<Rightarrow> raw_response \<Rightarrow> string \<Rightarrow> metrics \<Rightarrow> duration \<Rightarrow> bool \<Rightarrow> bool \<Rightarrow> simhash_tracker
   \<Rightarrow> bool \<times> simhash_tracker" where
  "applyFilters fc resp reqMethod m dur forceKeep skipRT tr =
     (if forceKeep then (True, tr)
      else if list_ex snd (filter_rules fc resp m dur skipRT) then (False, tr)
      else if simhashEligible resp reqMethod (mt_hash m)
      then (let (soft, tr') = isSoftFour tr (mt_hash m) in (\<not> soft, tr'))
      else (True, tr))"

section \<open>The smart filter\<close>

record fingerprint_key =
  fk_status :: int
  fk_size :: int
  fk_type :: string
  fk_hash :: "64 word"
  fk_403 :: string

definition makeAutoFilterFingerprint :: "int \<Rightarrow> int \<Rightarrow> string \<Rightarrow> 64 word \<Rightarrow> string \<Rightarrow> fingerprint_key" where
  "makeAutoFilterFingerprint status bodySize ct h t403 =
     \<lparr>fk_status = status, fk_size = bodySize, fk_type = to_lower (trim_space ct), fk_hash = h, fk_403 = t403\<rparr>"

definition smart_eligible :: "raw_response \<Rightarrow> metrics \<Rightarrow> bool" where
  "smart_eligible resp m \<longleftrightarrow> mt_size m \<noteq> - 1 \<and> rr_status resp \<in> {200, 301, 302, 403}"

text \<open>The counters of the fingerprints, whether the result goes on, and whether the trigger is announced.\<close>

definition smart_filter ::
  "int \<Rightarrow> raw_response \<Rightarrow> metrics \<Rightarrow> string \<Rightarrow> (fingerprint_key \<Rightarrow> int) \<Rightarrow> bool \<times> bool \<times> (fingerprint_key \<Rightarrow> int)" where
  "smart_filter threshold resp m t403 counts =
     (if smart_eligible resp m then
        let k = makeAutoFilterFingerprint (rr_status resp) (mt_size m) (mt_type m) (mt_hash m) t403;
            n = counts k + 1; counts' = counts(k := n)
        in (\<not> (threshold > 0 \<and> n \<ge> threshold), threshold > 0 \<and> n = threshold, counts')
      else (True, False, counts))"

section \<open>The fast path agrees with the general one\<close>

lemma runes_ascii: "isASCII b \<Longrightarrow> runes b = map (int \<circ> byte) b"
proof (induction b)
  case (Cons c b)
  then have "decode_rune (c # b) = (int (byte c), 1)" by (simp add: isASCII_def decode_rune_def)
  with Cons show ?case by (simp add: runes.simps [of "c # b"] isASCII_def)
qed (simp add: runes.simps)

lemma rune_space_ascii: "byte c < 128 \<Longrightarrow> rune_space (int (byte c)) = is_space c"
  by (auto simp: rune_space_def is_space_def)

lemma byte_LF: "byte c = 10 \<longleftrightarrow> c = LF"
proof
  assume "byte c = 10"
  then have "byte c = byte LF" by (simp add: byte_def LF_def)
  then show "c = LF" by (rule byte_eqI)
qed (simp add: byte_def LF_def)

lemma count_words_map: "(\<And>x. x \<in> set xs \<Longrightarrow> p (f x) = q x) \<Longrightarrow> count_words p w (map f xs) = count_words q w xs"
  by (induction xs arbitrary: w) auto

lemma count_words_fields:
  "count_words is_space (w \<noteq> []) s + (if w \<noteq> [] then 1 else 0) = int (length (str_fields_acc w s))"
proof (induction s arbitrary: w)
  case (Cons c s)
  show ?case
    using Cons [of "[]"] Cons [of "w @ [c]"] by (cases "w = []") auto
qed simp

text \<open>For an ASCII body the byte loop counts the same words and lines as decoding the body as UTF-8
  would, and the words are the fields between white space.\<close>

theorem metrics_ascii:
  assumes "isASCII body" "body \<noteq> ''''"
  shows "text_counts body = (count_words rune_space False (runes body), count_lines (\<lambda>r. r = 10) (runes body)) \<and>
    fst (text_counts body) = int (length (str_fields body))"
proof
  have "count_words rune_space False (runes body) = count_words is_space False body"
    using assms(1) rune_space_ascii unfolding runes_ascii [OF assms(1)]
    by (intro count_words_map) (auto simp: isASCII_def list_all_iff)
  moreover have "count_lines (\<lambda>r. r = 10) (runes body) = count_lines (\<lambda>c. c = LF) body"
    unfolding runes_ascii [OF assms(1)] count_lines_def
    by (auto simp: filter_map comp_def byte_LF intro!: arg_cong [of _ _ length] filter_cong)
  ultimately show "text_counts body = (count_words rune_space False (runes body), count_lines (\<lambda>r. r = 10) (runes body))"
    using assms by (simp add: text_counts_def)
  show "fst (text_counts body) = int (length (str_fields body))"
    using assms count_words_fields [of "[]" body] by (simp add: text_counts_def str_fields_def)
qed

lemma metrics_ascii_witness: "text_counts (''a b'' @ [LF] @ ''c'') = (3, 2)"
proof -
  have a: "isASCII (''a b'' @ [LF] @ ''c'')" "str_fields (''a b'' @ [LF] @ ''c'') = [''a'', ''b'', ''c'']"
    "count_lines (\<lambda>r. r = 10) (runes (''a b'' @ [LF] @ ''c'')) = 2" by code_simp+
  have n: "''a b'' @ [LF] @ ''c'' \<noteq> ''''" by simp
  note m = metrics_ascii [OF a(1) n]
  show ?thesis
  proof (rule prod_eqI)
    show "fst (text_counts (''a b'' @ [LF] @ ''c'')) = fst (3, 2 :: int)" using conjunct2 [OF m] unfolding a(2) by simp
    show "snd (text_counts (''a b'' @ [LF] @ ''c'')) = snd (3 :: int, 2)" unfolding conjunct1 [OF m] a(3) by simp
  qed
qed

section \<open>Folding search\<close>

lemma fold_prefix_iff: "fold_prefix b sub \<longleftrightarrow> has_prefix (to_lower b) sub"
  by (induction b sub rule: fold_prefix.induct) (auto simp: has_prefix_def to_lower_def)

lemma has_prefix_long: "has_prefix s p \<Longrightarrow> length p \<le> length s"
  by (auto simp: has_prefix_iff)

lemma containsFold_iff: "containsFold b sub \<longleftrightarrow> contains_str (to_lower b) sub"
proof -
  have c: "contains_str (to_lower b) sub \<longleftrightarrow> (\<exists>i \<le> length b. has_prefix (to_lower (drop i b)) sub)"
    by (simp add: contains_drop to_lower_def drop_map)
  have l: "i + length sub \<le> length b" if "has_prefix (to_lower (drop i b)) sub" "i \<le> length b" for i
    using has_prefix_long [OF that(1)] that(2) by (simp add: to_lower_def)
  show ?thesis
  proof (cases "sub = [] \<or> length b < length sub")
    case True
    then show ?thesis
    proof
      assume "sub = []"
      then show ?thesis by (simp add: containsFold.simps contains_str_sublist)
    next
      assume "length b < length sub"
      with l have "\<not> (\<exists>i \<le> length b. has_prefix (to_lower (drop i b)) sub)" by fastforce
      moreover have "sub \<noteq> []" using \<open>length b < length sub\<close> by auto
      ultimately show ?thesis using \<open>length b < length sub\<close> by (simp add: c containsFold.simps [of b sub])
    qed
  next
    case False
    have "i \<le> length b \<and> has_prefix (to_lower (drop i b)) sub \<longleftrightarrow>
        i < Suc (length b - length sub) \<and> has_prefix (to_lower (drop i b)) sub" for i
      using l [of i] False by linarith
    then have "(\<exists>i \<le> length b. has_prefix (to_lower (drop i b)) sub) \<longleftrightarrow>
        list_ex (\<lambda>i. fold_prefix (drop i b) sub) [0..<Suc (length b - length sub)]"
      unfolding list_ex_iff set_upt fold_prefix_iff by fastforce
    with False show ?thesis by (simp add: c containsFold.simps [of b sub] del: upt_Suc)
  qed
qed

section \<open>The smart filter lets only so many through\<close>

fun smart_run ::
  "int \<Rightarrow> (raw_response \<times> metrics \<times> string) list \<Rightarrow> (fingerprint_key \<Rightarrow> int) \<Rightarrow> bool list" where
  "smart_run threshold [] counts = []"
| "smart_run threshold ((resp, m, t) # rs) counts =
     (let (keep, _, counts') = smart_filter threshold resp m t counts in keep # smart_run threshold rs counts')"

definition response_key :: "raw_response \<times> metrics \<times> string \<Rightarrow> fingerprint_key" where
  "response_key = (\<lambda>(resp, m, t). makeAutoFilterFingerprint (rr_status resp) (mt_size m) (mt_type m) (mt_hash m) t)"

definition counted :: "fingerprint_key \<Rightarrow> raw_response \<times> metrics \<times> string \<Rightarrow> bool" where
  "counted k r \<longleftrightarrow> smart_eligible (fst r) (fst (snd r)) \<and> response_key r = k"

lemma smart_run_bound:
  assumes "threshold > 0"
  shows "int (length (filter (\<lambda>(r, keep). keep \<and> counted k r) (zip rs (smart_run threshold rs counts))))
    = min (int (length (filter (counted k) rs))) (max 0 (threshold - 1 - counts k))"
proof (induction rs arbitrary: counts)
  case (Cons r rs)
  obtain resp m t where r: "r = (resp, m, t)" by (metis prod_cases3)
  obtain keep trig counts' where s: "smart_filter threshold resp m t counts = (keep, trig, counts')" by (metis prod_cases3)
  have "counts' k = counts k + of_bool (counted k r) \<and> (counted k r \<longrightarrow> keep = (counts k + 1 < threshold))"
    using s assms by (auto simp: smart_filter_def Let_def counted_def response_key_def r split: if_splits)
  with Cons [of counts'] s show ?case by (auto simp: r)
qed simp

text \<open>Of the responses with one fingerprint (status, size, type, hash, kind of 403) exactly the first
  threshold minus one pass the smart filter, however they are mixed with others.\<close>

theorem smart_filter_bound:
  assumes "threshold > 0" "counts k = 0"
  shows "int (length (filter (\<lambda>(r, keep). keep \<and> counted k r) (zip rs (smart_run threshold rs counts))))
    = min (int (length (filter (counted k) rs))) (threshold - 1)"
  using smart_run_bound [OF assms(1), of k rs counts] assms by simp

definition demo_hit :: "raw_response \<times> metrics \<times> string" where
  "demo_hit = (\<lparr>rr_status = 200, rr_headers = '''', rr_map = None, rr_body = ''x'', rr_raw = '''', rr_complete = True,
      rr_encoded = False\<rparr>, \<lparr>mt_size = 1, mt_words = 1, mt_lines = 1, mt_type = '''', mt_hash = 5\<rparr>, '''')"

lemma smart_filter_bound_witness:
  "int (length (filter (\<lambda>(r, keep). keep \<and> counted (response_key demo_hit) r)
      (zip (replicate 5 demo_hit) (smart_run 3 (replicate 5 demo_hit) (\<lambda>_. 0))))) = 2"
proof -
  have "counted (response_key demo_hit) demo_hit" by (simp add: counted_def smart_eligible_def demo_hit_def)
  then have "length (filter (counted (response_key demo_hit)) (replicate 5 demo_hit)) = 5" by simp
  then show ?thesis using smart_filter_bound [of 3 "\<lambda>_. 0" "response_key demo_hit" "replicate 5 demo_hit"] by simp
qed

end
