(* ===== verification/Recursion.thy ===== *)
theory Recursion
  imports GoText
begin

text \<open>
  Recursive scanning, \<open>pkg/engine/recursive.go\<close> and \<open>pkg/engine/recursive_tracker.go\<close>: the signatures of
  responses, the paths a hit is compared with to detect a mirror of a parent, the pruning of static
  branches, and the scope check of \<open>ProcessHit\<close>. The signature store is a map from normalised paths.
\<close>

section \<open>Signatures and paths\<close>

record signature =
  sg_status :: int
  sg_size :: int
  sg_words :: int
  sg_lines :: int
  sg_type :: string
  sg_hash :: "64 word"

definition makeRecursiveResponseSignature :: "int \<Rightarrow> int \<Rightarrow> int \<Rightarrow> int \<Rightarrow> string \<Rightarrow> 64 word \<Rightarrow> signature" where
  "makeRecursiveResponseSignature status bodySize ws ls ct h =
     \<lparr>sg_status = status, sg_size = bodySize, sg_words = ws, sg_lines = ls, sg_type = to_lower (trim_space ct), sg_hash = h\<rparr>"

definition path_segments :: "string \<Rightarrow> string list" where
  "path_segments path =
     (let p = trim_space path; p1 = (case index_byte (\<lambda>c. c = CHR ''?'') p of None \<Rightarrow> p | Some i \<Rightarrow> take i p)
      in fields_func (CHR ''/'') p1)"

definition normalizeRecursiveSignaturePath :: "string \<Rightarrow> string" where
  "normalizeRecursiveSignaturePath path = (let parts = path_segments path in if parts = [] then '''' else join ''/'' parts)"

text \<open>\<open>add\<close>: the references so far in order; the empty path, the path itself and repetitions are skipped.\<close>

definition add_ref :: "string \<Rightarrow> string list \<Rightarrow> string \<Rightarrow> string list" where
  "add_ref normalized refs ref = (if ref = '''' \<or> ref = normalized \<or> ref \<in> set refs then refs else refs @ [ref])"

definition parent_refs :: "string list \<Rightarrow> string list" where
  "parent_refs segments = map (\<lambda>i. join ''/'' (take i segments)) (rev [1..<length segments])"

definition collapsed_refs :: "string list \<Rightarrow> string list" where
  "collapsed_refs segments =
     map (\<lambda>i. join ''/'' (take i segments @ drop (Suc i) segments))
       (filter (\<lambda>i. equal_fold (segments ! (i - 1)) (segments ! i)) [1..<length segments])"

definition recursiveMirrorReferencePaths :: "string \<Rightarrow> string list" where
  "recursiveMirrorReferencePaths path =
     (let normalized = normalizeRecursiveSignaturePath path in
      if normalized = '''' then []
      else let segments = split_on (CHR ''/'') normalized in
        if length segments < 2 then []
        else foldl (add_ref normalized) [] (parent_refs segments @ collapsed_refs segments))"

type_synonym signatures = "string \<Rightarrow> signature option"

definition RememberSignature :: "string \<Rightarrow> signature \<Rightarrow> signatures \<Rightarrow> signatures" where
  "RememberSignature path sig m =
     (let normalized = normalizeRecursiveSignaturePath path in
      if normalized = '''' then m else m(normalized \<mapsto> sig))"

definition IsMirror :: "string \<Rightarrow> signature \<Rightarrow> signatures \<Rightarrow> bool" where
  "IsMirror path sig m = list_ex (\<lambda>ref. m ref = Some sig) (recursiveMirrorReferencePaths path)"

section \<open>Pruning\<close>

definition recursiveTerminalSegment :: "string \<Rightarrow> string" where
  "recursiveTerminalSegment path =
     (let normalized = normalizeRecursiveSignaturePath path in
      if normalized = '''' then '''' else to_lower (trim_space (last (split_on (CHR ''/'') normalized))))"

definition isStaticContentType :: "string \<Rightarrow> bool" where
  "isStaticContentType contentType =
     (let ct = (case index_byte (\<lambda>c. c = CHR '';'') contentType of None \<Rightarrow> contentType | Some i \<Rightarrow> trim_space (take i contentType))
      in has_prefix ct ''image/'' \<or> has_prefix ct ''font/'' \<or> ct = ''text/css'' \<or> ct = ''application/font-woff'' \<or>
         ct = ''application/font-woff2'' \<or> ct = ''application/vnd.ms-fontobject'')"

definition isLowValueStaticSegment :: "string \<Rightarrow> bool" where
  "isLowValueStaticSegment segment \<longleftrightarrow> to_lower (trim_space segment) \<in>
     {''font'', ''fonts'', ''icon'', ''icons'', ''image'', ''images'', ''img'', ''imgs'', ''css'', ''styles'', ''style''}"

definition static_tokens :: "string list" where
  "static_tokens = [''.woff'', ''.woff2'', ''.ttf'', ''.otf'', ''.eot'', ''.svg'', ''.png'', ''.jpg'', ''.jpeg'', ''.gif'',
     ''.webp'', ''.ico'', ''.css'', ''.map'']"

definition bodyLooksLikeStaticDirectoryListing :: "string \<Rightarrow> bool" where
  "bodyLooksLikeStaticDirectoryListing body =
     (if body = [] then False
      else let l = to_lower body; staticCount = sum_list (map (count_str l) static_tokens) in
        if staticCount < 3 then False
        else contains_str l ''<a '' \<or> contains_str l ''index of'' \<or> contains_str l ''directory'')"

definition interesting_tokens :: "string list" where
  "interesting_tokens = [''admin'', ''api'', ''auth'', ''backup'', ''.bak'', ''.old'', ''.orig'', ''.save'', ''.sql'', ''.sqlite'',
     ''config'', ''debug'', ''dev'', ''.env'', ''private'', ''secret'', ''test'', ''upload'', ''user'']"

definition bodyContainsInterestingRecursiveToken :: "string \<Rightarrow> bool" where
  "bodyContainsInterestingRecursiveToken body =
     (if body = [] then False else list_ex (contains_str (to_lower body)) interesting_tokens)"

definition shouldPruneRecursiveBranch :: "string \<Rightarrow> string \<Rightarrow> string \<Rightarrow> bool \<times> string" where
  "shouldPruneRecursiveBranch path contentType body =
     (let terminal = recursiveTerminalSegment path; ct = to_lower (trim_space contentType);
          listing = bodyLooksLikeStaticDirectoryListing body; token = bodyContainsInterestingRecursiveToken body in
      if terminal = '''' then (False, '''')
      else if isStaticContentType ct then (True, ''static content type'')
      else if isLowValueStaticSegment terminal \<and> token then (False, '''')
      else if isLowValueStaticSegment terminal \<and> (terminal = ''fonts'' \<or> terminal = ''font'') then (True, ''font asset directory'')
      else if isLowValueStaticSegment terminal \<and> listing then (True, ''static directory listing'')
      else if listing \<and> \<not> token then (True, ''mostly static directory listing'')
      else (False, ''''))"

section \<open>A hit\<close>

datatype hit_outcome = Pruned string | OutOfScope | NoScanner | BranchStarted

text \<open>Whether the redirect of a hit stays in the scope domain.\<close>

definition redirect_in_scope :: "string \<Rightarrow> string \<Rightarrow> bool" where
  "redirect_in_scope scopeDom redirect =
     (if redirect = '''' then True
      else case url_parse redirect of
        None \<Rightarrow> True
      | Some u \<Rightarrow> if u_host u = '''' then True
                  else url_hostname u = scopeDom \<or> has_suffix (url_hostname u) (''.'' @ scopeDom))"

text \<open>\<open>ProcessHit\<close>, with the number of active jobs; a started branch reserves one.\<close>

definition ProcessHit ::
  "string \<Rightarrow> bool \<Rightarrow> bool \<Rightarrow> string \<Rightarrow> string \<Rightarrow> string \<Rightarrow> string \<Rightarrow> int \<Rightarrow> hit_outcome \<times> int" where
  "ProcessHit scopeDom scannerSet doPrune payload redirect contentType body active =
     (if doPrune \<and> fst (shouldPruneRecursiveBranch payload contentType body)
      then (Pruned (snd (shouldPruneRecursiveBranch payload contentType body)), active)
      else if \<not> redirect_in_scope scopeDom redirect then (OutOfScope, active)
      else if \<not> scannerSet then (NoScanner, active)
      else (BranchStarted, active + 1))"

section \<open>The references of a path\<close>

text \<open>Splitting a joined list of segments gives the segments back.\<close>

lemma path_segments_clean: "w \<in> set (path_segments path) \<Longrightarrow> w \<noteq> '''' \<and> CHR ''/'' \<notin> set w"
  by (auto simp: path_segments_def Let_def fields_func_def dest: split_on_no_sep)

lemma join_inj:
  assumes "\<forall>w \<in> set ws. w \<noteq> '''' \<and> CHR ''/'' \<notin> set w" "\<forall>w \<in> set vs. w \<noteq> '''' \<and> CHR ''/'' \<notin> set w" "join ''/'' ws = join ''/'' vs"
  shows "ws = vs"
proof (cases "ws = [] \<or> vs = []")
  case True
  have e: "join ''/'' us = '''' \<longleftrightarrow> us = []" if "\<forall>w \<in> set us. w \<noteq> ''''" for us
    using that by (induction "''/''" us rule: join.induct) auto
  from True assms e [of ws] e [of vs] show ?thesis by auto
next
  case False
  then show ?thesis using assms split_on_join [of ws] split_on_join [of vs] by metis
qed

lemma segments_of_normal:
  "path_segments path \<noteq> [] \<Longrightarrow> split_on (CHR ''/'') (normalizeRecursiveSignaturePath path) = path_segments path"
  using path_segments_clean [of _ path] by (simp add: normalizeRecursiveSignaturePath_def Let_def split_on_join)

lemma normal_empty: "normalizeRecursiveSignaturePath path = '''' \<longleftrightarrow> path_segments path = []"
proof
  assume a: "normalizeRecursiveSignaturePath path = ''''"
  show "path_segments path = []"
  proof (rule ccontr)
    assume n: "path_segments path \<noteq> []"
    with a have "join ''/'' (path_segments path) = join ''/'' []" by (simp add: normalizeRecursiveSignaturePath_def Let_def)
    then have "path_segments path = []" using path_segments_clean [of _ path] by (intro join_inj) auto
    with n show False by simp
  qed
qed (simp add: normalizeRecursiveSignaturePath_def)

lemma foldl_add_ref:
  "set (foldl (add_ref n) refs xs) = set refs \<union> {x \<in> set xs. x \<noteq> '''' \<and> x \<noteq> n} \<and>
   (distinct refs \<longrightarrow> distinct (foldl (add_ref n) refs xs)) \<and>
   length (foldl (add_ref n) refs xs) \<le> length refs + length xs"
proof (induction xs arbitrary: refs)
  case (Cons x xs)
  show ?case using Cons [of "add_ref n refs x"] by (auto simp: add_ref_def)
qed simp

text \<open>The paths a hit is compared with are pairwise different, at most twice the number of segments minus
  two, and each has fewer segments than the hit: a proper prefix of its segments, or its segments without
  one that repeats the segment before it (ignoring case).\<close>

theorem mirror_references:
  "distinct (recursiveMirrorReferencePaths path) \<and>
   length (recursiveMirrorReferencePaths path) \<le> 2 * (length (path_segments path) - 1) \<and>
   set (recursiveMirrorReferencePaths path) =
     {join ''/'' (take i (path_segments path)) | i. 1 \<le> i \<and> i < length (path_segments path)} \<union>
     {join ''/'' (take i (path_segments path) @ drop (Suc i) (path_segments path)) | i.
        1 \<le> i \<and> i < length (path_segments path) \<and> equal_fold (path_segments path ! (i - 1)) (path_segments path ! i)}"
proof (cases "length (path_segments path) < 2")
  case True
  have "recursiveMirrorReferencePaths path = []"
  proof (cases "path_segments path = []")
    case False
    with True segments_of_normal [OF False] show ?thesis by (simp add: recursiveMirrorReferencePaths_def Let_def)
  qed (simp add: recursiveMirrorReferencePaths_def normalizeRecursiveSignaturePath_def)
  with True show ?thesis by (auto simp: less_Suc_eq numeral_2_eq_2)
next
  case False
  let ?ss = "path_segments path" and ?n = "normalizeRecursiveSignaturePath path"
  let ?l = "parent_refs ?ss @ collapsed_refs ?ss"
  have ne: "?ss \<noteq> []" using False by auto
  have r: "recursiveMirrorReferencePaths path = foldl (add_ref ?n) [] ?l"
    using False ne by (simp add: recursiveMirrorReferencePaths_def Let_def segments_of_normal normal_empty)
  have j: "join ''/'' us \<noteq> '''' \<and> join ''/'' us \<noteq> ?n" if "set us \<subseteq> set ?ss" "us \<noteq> []" "length us < length ?ss" for us
  proof -
    have c: "\<forall>w \<in> set us. w \<noteq> '''' \<and> CHR ''/'' \<notin> set w" using path_segments_clean that(1) by blast
    have "join ''/'' us \<noteq> join ''/'' ?ss" using join_inj [OF c, of ?ss] path_segments_clean [of _ path] that(3) by auto
    moreover have "join ''/'' us \<noteq> join ''/'' []" using join_inj [OF c, of "[]"] that(2) by auto
    ultimately show ?thesis using ne by (simp add: normalizeRecursiveSignaturePath_def Let_def)
  qed
  have "join ''/'' (take i ?ss) \<noteq> '''' \<and> join ''/'' (take i ?ss) \<noteq> ?n" if "1 \<le> i" "i < length ?ss" for i
    using that ne by (intro j) (auto dest: in_set_takeD)
  moreover have "join ''/'' (take i ?ss @ drop (Suc i) ?ss) \<noteq> '''' \<and> join ''/'' (take i ?ss @ drop (Suc i) ?ss) \<noteq> ?n"
    if "1 \<le> i" "i < length ?ss" for i
    using that ne by (intro j) (auto dest: in_set_takeD in_set_dropD)
  ultimately have "{x \<in> set ?l. x \<noteq> '''' \<and> x \<noteq> ?n} = set ?l"
    by (auto simp: parent_refs_def collapsed_refs_def)
  moreover have "length ?l \<le> 2 * (length ?ss - 1)"
    using length_filter_le [of "\<lambda>i. equal_fold (?ss ! (i - 1)) (?ss ! i)" "[1..<length ?ss]"]
    by (simp add: parent_refs_def collapsed_refs_def)
  ultimately show ?thesis
    using foldl_add_ref [of ?n "[]" ?l] unfolding r by (auto simp: parent_refs_def collapsed_refs_def)
qed

end
