(* ===== verification/Lifecycle.thy ===== *)
theory Lifecycle
  imports Prelude
begin

text \<open>
  The generations of a scan, \<open>pkg/engine/engine.go\<close> and \<open>pkg/engine/worker.go\<close>: the admission gate and the
  accounting of \<open>Submit\<close>, the loop of a worker around one job, the branches of recursive scanning, the
  steps of \<open>ChangeWordlist\<close> and the steps of \<open>Shutdown\<close>. Every atomic action of a goroutine is one event;
  an execution is any sequence of enabled events. A job is represented by its \<open>RunID\<close>, a scanner context
  by its number; \<open>activeJobs\<close> and \<open>submissionWg\<close> are the counters of the wait groups of that name. The
  passive harvester, the parameter tasks, \<open>SetWorkerCount\<close> and the bound of the queue are left out.
\<close>

section \<open>State and events\<close>

text \<open>A call of \<open>Submit\<close> past the gate, and one that has counted its job and is in \<open>Push\<close> with its context.\<close>

datatype submitter = Admitted int | Pushing nat int

text \<open>A worker in \<open>Pop\<close>, with a job before the check of the run, at work with its context, or ended.\<close>

datatype worker = InPop | Got int | Busy nat | Ended

datatype restart_phase = NoRestart | GateClosed | Drained | ActiveZero | Quiet

datatype down_phase = Up | Cancelled | ScannersDone | QueueClosed

record life =
  lf_queue :: "int list"
  lf_closed :: bool
  lf_run :: int
  lf_restarting :: bool
  lf_ctx :: nat
  lf_next_ctx :: nat
  lf_cancelled :: "nat list"
  lf_submits :: "submitter list"
  lf_workers :: "worker list"
  lf_branches :: nat
  lf_scanners :: nat
  lf_active :: int
  lf_wg :: int
  lf_restart :: restart_phase
  lf_down :: down_phase

datatype event =
    Admit | Drop nat | Count nat | PushOk nat | PushFail nat
  | PopJob nat nat | Stale nat | StartJob nat | FinishJob nat | QuitWorker nat | PopClosed nat
  | SpawnBranch nat | EndBranch | EndScanner
  | RestartBegin | RestartDrain | RestartActive | RestartScanners | RestartReset
  | DownBegin | DownScanners | DownClose

definition remove_at :: "nat \<Rightarrow> 'a list \<Rightarrow> 'a list" where
  "remove_at i xs = take i xs @ drop (Suc i) xs"

definition submitter_at :: "life \<Rightarrow> nat \<Rightarrow> submitter option" where
  "submitter_at s i = (if i < length (lf_submits s) then Some (lf_submits s ! i) else None)"

definition worker_at :: "life \<Rightarrow> nat \<Rightarrow> worker option" where
  "worker_at s i = (if i < length (lf_workers s) then Some (lf_workers s ! i) else None)"

definition set_worker :: "nat \<Rightarrow> worker \<Rightarrow> life \<Rightarrow> life" where
  "set_worker i w s = s\<lparr>lf_workers := (lf_workers s)[i := w]\<rparr>"

definition leave_submit :: "nat \<Rightarrow> life \<Rightarrow> life" where
  "leave_submit i s = s\<lparr>lf_submits := remove_at i (lf_submits s), lf_wg := lf_wg s - 1\<rparr>"

definition add_active :: "int \<Rightarrow> life \<Rightarrow> life" where
  "add_active n s = s\<lparr>lf_active := lf_active s + n\<rparr>"

definition is_cancelled :: "life \<Rightarrow> nat \<Rightarrow> bool" where
  "is_cancelled s c \<longleftrightarrow> c \<in> set (lf_cancelled s)"

section \<open>Submitting\<close>

definition submit_event :: "event \<Rightarrow> life \<Rightarrow> life option" where
  "submit_event ev s =
     (case ev of
        Admit \<Rightarrow>
          if lf_restarting s then None
          else Some (s\<lparr>lf_submits := lf_submits s @ [Admitted (lf_run s)], lf_wg := lf_wg s + 1\<rparr>)
      | Drop i \<Rightarrow> (case submitter_at s i of Some (Admitted _) \<Rightarrow> Some (leave_submit i s) | _ \<Rightarrow> None)
      | Count i \<Rightarrow>
          (case submitter_at s i of
             Some (Admitted r) \<Rightarrow>
               if is_cancelled s (lf_ctx s) then None
               else Some (add_active 1 (s\<lparr>lf_submits := (lf_submits s)[i := Pushing (lf_ctx s) r]\<rparr>))
           | _ \<Rightarrow> None)
      | PushOk i \<Rightarrow>
          (case submitter_at s i of
             Some (Pushing _ r) \<Rightarrow>
               if lf_closed s then None else Some (leave_submit i (s\<lparr>lf_queue := lf_queue s @ [r]\<rparr>))
           | _ \<Rightarrow> None)
      | PushFail i \<Rightarrow>
          (case submitter_at s i of
             Some (Pushing c _) \<Rightarrow>
               if is_cancelled s c \<or> lf_closed s then Some (leave_submit i (add_active (- 1) s)) else None
           | _ \<Rightarrow> None)
      | _ \<Rightarrow> None)"

section \<open>Working\<close>

text \<open>\<open>Pop\<close> hands a worker some queued job; the queue's order is that of another theory.\<close>

definition pop_job :: "nat \<Rightarrow> nat \<Rightarrow> life \<Rightarrow> life option" where
  "pop_job i k s =
     (if worker_at s i = Some InPop \<and> k < length (lf_queue s)
      then Some (set_worker i (Got (lf_queue s ! k)) (s\<lparr>lf_queue := remove_at k (lf_queue s)\<rparr>)) else None)"

text \<open>A job of another run is given up; otherwise the worker loads the scanner context and starts.\<close>

definition stale_job :: "nat \<Rightarrow> life \<Rightarrow> life option" where
  "stale_job i s =
     (case worker_at s i of
        Some (Got r) \<Rightarrow> if r \<noteq> lf_run s then Some (set_worker i InPop (add_active (- 1) s)) else None
      | _ \<Rightarrow> None)"

definition start_job :: "nat \<Rightarrow> life \<Rightarrow> life option" where
  "start_job i s =
     (case worker_at s i of
        Some (Got r) \<Rightarrow> if r = lf_run s then Some (set_worker i (Busy (lf_ctx s)) s) else None
      | _ \<Rightarrow> None)"

definition finish_job :: "nat \<Rightarrow> life \<Rightarrow> life option" where
  "finish_job i s =
     (case worker_at s i of Some (Busy _) \<Rightarrow> Some (set_worker i InPop (add_active (- 1) s)) | _ \<Rightarrow> None)"

text \<open>The return of the worker when its context is cancelled while it waits for the end of a pause (or for
  room in the result channel).\<close>

definition quit_worker :: "nat \<Rightarrow> life \<Rightarrow> life option" where
  "quit_worker i s =
     (case worker_at s i of
        Some (Busy c) \<Rightarrow> if is_cancelled s c then Some (set_worker i Ended (add_active (- 1) s)) else None
      | _ \<Rightarrow> None)"

text \<open>A branch is reserved while its parent job is still counted.\<close>

definition spawn_branch :: "nat \<Rightarrow> life \<Rightarrow> life option" where
  "spawn_branch i s =
     (case worker_at s i of
        Some (Busy _) \<Rightarrow> Some (add_active 1 (s\<lparr>lf_branches := lf_branches s + 1, lf_scanners := lf_scanners s + 1\<rparr>))
      | _ \<Rightarrow> None)"

definition end_branch :: "life \<Rightarrow> life option" where
  "end_branch s =
     (if 0 < lf_branches s
      then Some (add_active (- 1) (s\<lparr>lf_branches := lf_branches s - 1, lf_scanners := lf_scanners s - 1\<rparr>)) else None)"

definition worker_event :: "event \<Rightarrow> life \<Rightarrow> life option" where
  "worker_event ev s =
     (case ev of
        PopJob i k \<Rightarrow> pop_job i k s
      | Stale i \<Rightarrow> stale_job i s
      | StartJob i \<Rightarrow> start_job i s
      | FinishJob i \<Rightarrow> finish_job i s
      | QuitWorker i \<Rightarrow> quit_worker i s
      | PopClosed i \<Rightarrow>
          if worker_at s i = Some InPop \<and> lf_closed s \<and> lf_queue s = [] then Some (set_worker i Ended s) else None
      | SpawnBranch i \<Rightarrow> spawn_branch i s
      | EndBranch \<Rightarrow> end_branch s
      | EndScanner \<Rightarrow> if lf_branches s < lf_scanners s then Some (s\<lparr>lf_scanners := lf_scanners s - 1\<rparr>) else None
      | _ \<Rightarrow> None)"

lemmas worker_defs = worker_event_def pop_job_def stale_job_def start_job_def finish_job_def quit_worker_def
  spawn_branch_def end_branch_def

section \<open>Restarting\<close>

definition restart_event :: "event \<Rightarrow> life \<Rightarrow> life option" where
  "restart_event ev s =
     (case ev of
        RestartBegin \<Rightarrow>
          if lf_restart s = NoRestart
          then Some (s\<lparr>lf_restarting := True, lf_cancelled := lf_next_ctx s # lf_ctx s # lf_cancelled s,
                 lf_ctx := lf_next_ctx s, lf_next_ctx := Suc (lf_next_ctx s), lf_run := lf_run s + 1,
                 lf_restart := GateClosed\<rparr>)
          else None
      | RestartDrain \<Rightarrow>
          if lf_restart s = GateClosed \<and> lf_wg s = 0
          then Some (add_active (- int (length (lf_queue s))) (s\<lparr>lf_queue := [], lf_restart := Drained\<rparr>)) else None
      | RestartActive \<Rightarrow>
          if lf_restart s = Drained \<and> lf_active s = 0 then Some (s\<lparr>lf_restart := ActiveZero\<rparr>) else None
      | RestartScanners \<Rightarrow>
          if lf_restart s = ActiveZero \<and> lf_scanners s = 0 then Some (s\<lparr>lf_restart := Quiet\<rparr>) else None
      | RestartReset \<Rightarrow>
          if lf_restart s = Quiet
          then Some (s\<lparr>lf_ctx := lf_next_ctx s, lf_next_ctx := Suc (lf_next_ctx s), lf_restarting := False,
                 lf_scanners := lf_scanners s + 1, lf_restart := NoRestart\<rparr>)
          else None
      | _ \<Rightarrow> None)"

section \<open>Shutting down\<close>

definition down_event :: "event \<Rightarrow> life \<Rightarrow> life option" where
  "down_event ev s =
     (case ev of
        DownBegin \<Rightarrow>
          if lf_down s = Up then Some (s\<lparr>lf_cancelled := lf_ctx s # lf_cancelled s, lf_down := Cancelled\<rparr>) else None
      | DownScanners \<Rightarrow>
          if lf_down s = Cancelled \<and> lf_scanners s = 0 then Some (s\<lparr>lf_down := ScannersDone\<rparr>) else None
      | DownClose \<Rightarrow>
          if lf_down s = ScannersDone \<and> lf_active s = 0 then Some (s\<lparr>lf_closed := True, lf_down := QueueClosed\<rparr>) else None
      | _ \<Rightarrow> None)"

definition life_step :: "event \<Rightarrow> life \<Rightarrow> life option" where
  "life_step ev s =
     (case submit_event ev s of Some s' \<Rightarrow> Some s' | None \<Rightarrow>
     (case worker_event ev s of Some s' \<Rightarrow> Some s' | None \<Rightarrow>
     (case restart_event ev s of Some s' \<Rightarrow> Some s' | None \<Rightarrow> down_event ev s)))"

fun run_life :: "event list \<Rightarrow> life \<Rightarrow> life option" where
  "run_life [] s = Some s"
| "run_life (ev # evs) s = Option.bind (life_step ev s) (run_life evs)"

text \<open>After \<open>Start\<close> and \<open>KickoffScanner\<close>: \<open>n\<close> workers in \<open>Pop\<close>, one scanner.\<close>

definition life_start :: "nat \<Rightarrow> life" where
  "life_start n = \<lparr>lf_queue = [], lf_closed = False, lf_run = 0, lf_restarting = False, lf_ctx = 0, lf_next_ctx = 1,
     lf_cancelled = [], lf_submits = [], lf_workers = replicate n InPop, lf_branches = 0, lf_scanners = 1, lf_active = 0,
     lf_wg = 0, lf_restart = NoRestart, lf_down = Up\<rparr>"

inductive life_reach :: "nat \<Rightarrow> life \<Rightarrow> bool" for n where
  reach_start: "life_reach n (life_start n)"
| reach_step: "life_reach n s \<Longrightarrow> life_step ev s = Some s' \<Longrightarrow> life_reach n s'"

section \<open>The accounting\<close>

fun occ :: "worker \<Rightarrow> int" where
  "occ (Got _) = 1"
| "occ (Busy _) = 1"
| "occ _ = 0"

fun psh :: "submitter \<Rightarrow> int" where
  "psh (Pushing _ _) = 1"
| "psh (Admitted _) = 0"

definition occupied :: "worker list \<Rightarrow> int" where
  "occupied ws = sum_list (map occ ws)"

definition pushing :: "submitter list \<Rightarrow> int" where
  "pushing us = sum_list (map psh us)"

lemma sum_list_change: "i < length xs \<Longrightarrow> sum_list (map f (xs[i := x])) = sum_list (map f xs) - f (xs ! i) + (f x :: int)"
  by (induction xs arbitrary: i) (auto split: nat.split)

lemma sum_list_remove: "i < length xs \<Longrightarrow> sum_list (map f (remove_at i xs)) = sum_list (map f xs) - (f (xs ! i) :: int)"
proof -
  assume "i < length xs"
  then have "sum_list (map f xs) = sum_list (map f (take i xs @ xs ! i # drop (Suc i) xs))"
    by (simp only: id_take_nth_drop [symmetric])
  then show ?thesis by (simp add: remove_at_def)
qed

lemma length_remove_at: "i < length xs \<Longrightarrow> length (remove_at i xs) = length xs - 1"
  by (simp add: remove_at_def)

lemma occupied_nonneg: "0 \<le> occupied ws"
proof -
  have "0 \<le> occ w" for w by (cases w) auto
  then show ?thesis unfolding occupied_def by (intro sum_list_nonneg) auto
qed

lemma pushing_nonneg: "0 \<le> pushing us"
proof -
  have "0 \<le> psh u" for u by (cases u) auto
  then show ?thesis unfolding pushing_def by (intro sum_list_nonneg) auto
qed

lemma worker_at_Some: "worker_at s i = Some w \<longleftrightarrow> i < length (lf_workers s) \<and> lf_workers s ! i = w"
  by (auto simp: worker_at_def)

lemma submitter_at_Some: "submitter_at s i = Some u \<longleftrightarrow> i < length (lf_submits s) \<and> lf_submits s ! i = u"
  by (auto simp: submitter_at_def)

lemma occupied_zero: "occupied ws = 0 \<Longrightarrow> w \<in> set ws \<Longrightarrow> occ w = 0"
proof -
  have n: "0 \<le> occ w" for w by (cases w) auto
  show "occupied ws = 0 \<Longrightarrow> w \<in> set ws \<Longrightarrow> occ w = 0"
    unfolding occupied_def using sum_list_nonneg_eq_0_iff [of "map occ ws"] n by auto
qed

definition accounted :: "life \<Rightarrow> bool" where
  "accounted s \<longleftrightarrow>
     lf_active s = int (length (lf_queue s)) + occupied (lf_workers s) + pushing (lf_submits s) + int (lf_branches s) \<and>
     lf_wg s = int (length (lf_submits s)) \<and> lf_branches s \<le> lf_scanners s"

definition gated :: "life \<Rightarrow> bool" where
  "gated s \<longleftrightarrow>
     (lf_restarting s \<longleftrightarrow> lf_restart s \<noteq> NoRestart) \<and>
     (lf_restart s \<in> {Drained, ActiveZero, Quiet} \<longrightarrow> lf_submits s = [] \<and> lf_queue s = []) \<and>
     (lf_restart s \<in> {ActiveZero, Quiet} \<longrightarrow> lf_active s = 0) \<and>
     (lf_restart s = Quiet \<longrightarrow> lf_scanners s = 0)"

lemmas life_ops = add_active_def leave_submit_def set_worker_def

lemma submit_accounted: "accounted s \<Longrightarrow> submit_event ev s = Some s' \<Longrightarrow> accounted s'"
  by (cases ev)
     (auto simp: submit_event_def accounted_def life_ops submitter_at_Some occupied_def pushing_def sum_list_change
        sum_list_remove length_remove_at split: option.splits submitter.splits if_splits)

lemma worker_accounted: "accounted s \<Longrightarrow> worker_event ev s = Some s' \<Longrightarrow> accounted s'"
  by (cases ev)
     (auto simp: worker_defs accounted_def life_ops worker_at_Some occupied_def pushing_def sum_list_change
        length_remove_at split: option.splits worker.splits if_splits)

lemma restart_accounted: "accounted s \<Longrightarrow> restart_event ev s = Some s' \<Longrightarrow> accounted s'"
  by (cases ev) (auto simp: restart_event_def accounted_def life_ops split: if_splits)

lemma down_accounted: "accounted s \<Longrightarrow> down_event ev s = Some s' \<Longrightarrow> accounted s'"
  by (cases ev) (auto simp: down_event_def accounted_def split: if_splits)

lemma life_step_cases:
  assumes "life_step ev s = Some s'"
  obtains "submit_event ev s = Some s'" | "worker_event ev s = Some s'" | "restart_event ev s = Some s'"
    | "down_event ev s = Some s'"
  using assms by (auto simp: life_step_def split: option.splits)

lemma step_accounted: "accounted s \<Longrightarrow> life_step ev s = Some s' \<Longrightarrow> accounted s'"
  by (erule life_step_cases) (blast intro: submit_accounted worker_accounted restart_accounted down_accounted)+

lemma workers_idle:
  assumes "accounted s" "gated s" "lf_restart s \<in> {ActiveZero, Quiet}" "w \<in> set (lf_workers s)"
  shows "w \<in> {InPop, Ended}"
proof -
  have "occupied (lf_workers s) = 0"
    using assms(1-3) occupied_nonneg [of "lf_workers s"] pushing_nonneg [of "lf_submits s"]
    by (auto simp: accounted_def gated_def)
  from occupied_zero [OF this assms(4)] show ?thesis by (cases w) auto
qed

lemma worker_frame:
  "worker_event ev s = Some s' \<Longrightarrow>
   lf_restart s' = lf_restart s \<and> lf_restarting s' = lf_restarting s \<and> lf_submits s' = lf_submits s \<and>
   (lf_queue s = [] \<longrightarrow> lf_queue s' = [])"
  by (cases ev)
     (auto simp: worker_defs life_ops remove_at_def split: option.splits worker.splits if_splits)

lemma worker_still:
  assumes "\<And>i. worker_at s i \<in> {None, Some InPop, Some Ended}" "lf_branches s = 0" "worker_event ev s = Some s'"
  shows "lf_active s' = lf_active s \<and> (lf_scanners s = 0 \<longrightarrow> lf_scanners s' = 0)"
proof -
  have w: "worker_at s i \<noteq> Some (Got r)" "worker_at s i \<noteq> Some (Busy c)" for i r c
    using assms(1) [of i] by auto
  show ?thesis
    using assms(2,3) w
    by (cases ev) (auto simp: worker_defs life_ops split: option.splits worker.splits if_splits)
qed

lemma worker_gated:
  assumes a: "accounted s" and g: "gated s" and e: "worker_event ev s = Some s'"
  shows "gated s'"
proof (cases "lf_restart s \<in> {ActiveZero, Quiet}")
  case True
  have w: "worker_at s i \<in> {None, Some InPop, Some Ended}" for i
    using workers_idle [OF a g True] by (auto simp: worker_at_def)
  have "lf_queue s = []" "lf_active s = 0" using g True by (auto simp: gated_def)
  then have "lf_branches s = 0"
    using a occupied_nonneg [of "lf_workers s"] pushing_nonneg [of "lf_submits s"] by (simp add: accounted_def)
  from worker_still [OF w this e] worker_frame [OF e] g show ?thesis by (simp add: gated_def)
next
  case False
  with worker_frame [OF e] g show ?thesis by (simp add: gated_def)
qed

lemma submit_frame:
  "submit_event ev s = Some s' \<Longrightarrow>
   lf_restart s' = lf_restart s \<and> lf_restarting s' = lf_restarting s \<and> lf_scanners s' = lf_scanners s \<and>
   (lf_restarting s \<and> lf_submits s = [] \<longrightarrow> False)"
  by (cases ev)
     (auto simp: submit_event_def life_ops submitter_at_Some split: option.splits submitter.splits if_splits)

lemma submit_gated: "gated s \<Longrightarrow> submit_event ev s = Some s' \<Longrightarrow> gated s'"
  using submit_frame [of ev s s'] unfolding gated_def by auto

lemma restart_gated: "accounted s \<Longrightarrow> gated s \<Longrightarrow> restart_event ev s = Some s' \<Longrightarrow> gated s'"
  by (cases ev) (auto simp: restart_event_def gated_def life_ops accounted_def split: if_splits)

lemma down_frame:
  "down_event ev s = Some s' \<Longrightarrow> lf_restart s' = lf_restart s \<and> lf_restarting s' = lf_restarting s \<and>
   lf_submits s' = lf_submits s \<and> lf_queue s' = lf_queue s \<and> lf_active s' = lf_active s \<and> lf_scanners s' = lf_scanners s"
  by (cases ev) (auto simp: down_event_def split: if_splits)

lemma down_gated: "gated s \<Longrightarrow> down_event ev s = Some s' \<Longrightarrow> gated s'"
  using down_frame [of ev s s'] by (simp add: gated_def)

lemma step_gated: "accounted s \<Longrightarrow> gated s \<Longrightarrow> life_step ev s = Some s' \<Longrightarrow> gated s'"
  by (erule life_step_cases) (blast intro: submit_gated worker_gated restart_gated down_gated)+

lemma reach_inv: "life_reach n s \<Longrightarrow> accounted s \<and> gated s"
proof (induction rule: life_reach.induct)
  case reach_start
  show ?case by (simp add: accounted_def gated_def life_start_def occupied_def pushing_def sum_list_replicate)
next
  case (reach_step s ev s')
  then show ?case using step_accounted step_gated by blast
qed


lemma run_life_reach: "run_life evs s = Some s' \<Longrightarrow> life_reach n s \<Longrightarrow> life_reach n s'"
proof (induction evs arbitrary: s)
  case (Cons ev evs)
  then show ?case by (cases "life_step ev s") (auto intro: reach_step)
qed simp

definition demo_restart :: "event list" where
  "demo_restart = [Admit, Count 0, PushOk 0, PopJob 0 0, StartJob 0, Admit, RestartBegin, Drop 0, RestartDrain, FinishJob 0,
     RestartActive, EndScanner, RestartScanners]"


section \<open>Workers that end while jobs are queued\<close>

definition stranded :: "life \<Rightarrow> bool" where
  "stranded s \<longleftrightarrow> set (lf_workers s) \<subseteq> {Ended} \<and> lf_queue s \<noteq> [] \<and> lf_down s \<in> {Cancelled, ScannersDone} \<and>
     lf_restart s = NoRestart"

lemma step_run: "life_step ev s = Some s' \<Longrightarrow> lf_run s \<le> lf_run s'"
  by (erule life_step_cases)
     (cases ev; auto simp: submit_event_def worker_defs restart_event_def down_event_def life_ops
        split: option.splits submitter.splits worker.splits if_splits)+

lemma stranded_active: "accounted s \<Longrightarrow> stranded s \<Longrightarrow> 0 < lf_active s"
proof -
  assume s: "accounted s" "stranded s"
  then have "0 < length (lf_queue s)" by (simp add: stranded_def)
  with s(1) occupied_nonneg [of "lf_workers s"] pushing_nonneg [of "lf_submits s"] show ?thesis
    unfolding accounted_def by linarith
qed

lemma stranded_submit: "stranded s \<Longrightarrow> submit_event ev s = Some s' \<Longrightarrow> stranded s'"
  by (cases ev) (auto simp: submit_event_def stranded_def life_ops split: option.splits submitter.splits if_splits)

lemma stranded_worker: "stranded s \<Longrightarrow> worker_event ev s = Some s' \<Longrightarrow> stranded s'"
proof -
  assume s: "stranded s" and e: "worker_event ev s = Some s'"
  have "worker_at s i = None \<or> worker_at s i = Some Ended" for i
    using s by (auto simp: stranded_def worker_at_def dest!: nth_mem)
  then have w: "worker_at s i \<noteq> Some (Got r)" "worker_at s i \<noteq> Some (Busy c)" "worker_at s i \<noteq> Some InPop" for i r c
    by (metis option.distinct(1) option.inject worker.distinct)+
  from s e show ?thesis
    by (cases ev) (auto simp: worker_defs stranded_def life_ops w split: option.splits worker.splits if_splits)
qed

lemma stranded_step:
  assumes "accounted s" "stranded s" "life_step ev s = Some s'" "lf_run s' = lf_run s"
  shows "stranded s'"
  using assms(3)
proof (cases rule: life_step_cases)
  case 3
  with assms(2,4) show ?thesis by (cases ev) (auto simp: restart_event_def stranded_def split: if_splits)
next
  case 4
  with assms(2) stranded_active [OF assms(1,2)] show ?thesis
    by (cases ev) (auto simp: down_event_def stranded_def split: if_splits)
qed (use assms(2) stranded_submit stranded_worker in blast)+

inductive life_steps :: "life \<Rightarrow> life \<Rightarrow> bool" where
  steps_refl: "life_steps s s"
| steps_step: "life_steps s s' \<Longrightarrow> life_step ev s' = Some s'' \<Longrightarrow> life_steps s s''"

lemma steps_run: "life_steps s s' \<Longrightarrow> lf_run s \<le> lf_run s'"
  by (induction rule: life_steps.induct) (auto dest: step_run)

lemma stranded_steps:
  "life_steps s s' \<Longrightarrow> accounted s \<Longrightarrow> stranded s \<Longrightarrow> lf_run s' = lf_run s \<Longrightarrow> accounted s' \<and> stranded s'"
proof (induction rule: life_steps.induct)
  case (steps_step s s' ev s'')
  have "lf_run s' = lf_run s" using steps_run [OF steps_step(1)] step_run [OF steps_step(2)] steps_step.prems(3) by simp
  with steps_step show ?case using step_accounted stranded_step by metis
qed simp

text \<open>Once \<open>Shutdown\<close> has cancelled the scan, workers that were paused with a job (or waiting for room in
  the result channel) end; when all have ended with a job still queued, \<open>Shutdown\<close> waits for ever for
  \<open>activeJobs\<close>: in every continuation without a restart the count stays positive and the queue is not closed.\<close>

theorem shutdown_stranded:
  assumes "life_reach n s" "set (lf_workers s) \<subseteq> {Ended}" "lf_queue s \<noteq> []" "lf_down s \<in> {Cancelled, ScannersDone}"
    "lf_restart s = NoRestart" "life_steps s s'" "lf_run s' = lf_run s"
  shows "0 < lf_active s' \<and> lf_down s' \<noteq> QueueClosed"
proof -
  have "accounted s" using reach_inv [OF assms(1)] by blast
  moreover have "stranded s" using assms(2-5) by (simp add: stranded_def)
  ultimately have "accounted s'" "stranded s'" using stranded_steps [OF assms(6)] assms(7) by blast+
  then show ?thesis using stranded_active [of s'] by (auto simp: stranded_def)
qed

definition demo_paused :: "event list" where
  "demo_paused = [Admit, Count 0, PushOk 0, Admit, Count 0, PushOk 0, PopJob 0 0, StartJob 0, DownBegin, QuitWorker 0,
     EndScanner, DownScanners]"

lemma shutdown_stranded_witness:
  "\<exists>s. run_life demo_paused (life_start 1) = Some s \<and> lf_down s = ScannersDone \<and> 0 < lf_active s"
proof -
  have "map_option (\<lambda>s. (lf_workers s, lf_queue s, lf_down s, lf_restart s)) (run_life demo_paused (life_start 1))
      = Some ([Ended], [0], ScannersDone, NoRestart)" by code_simp
  then obtain s where s: "run_life demo_paused (life_start 1) = Some s" "lf_workers s = [Ended]" "lf_queue s = [0]"
    "lf_down s = ScannersDone" "lf_restart s = NoRestart" by auto
  have "0 < lf_active s"
    using shutdown_stranded [OF run_life_reach [OF s(1) reach_start] _ _ _ s(5) steps_refl] s by simp
  with s show ?thesis by blast
qed

end
