(* ===== verification/SortedMap.thy ===== *)
theory SortedMap
  imports Prelude "HOL-Library.List_Lexorder" "HOL-Library.Char_ord"
begin

text \<open>
  The keys of a Go map in the order of \<open>sort.Strings\<close>, the way the program walks a map when the order matters:
  strings are compared byte by byte.
\<close>

definition sorted_items :: "(string, 'v) gomap \<Rightarrow> (string \<times> 'v) list" where
  "sorted_items m = sort_key fst (gm_items m)"

lemma distinct_fst_insort:
  "distinct (map fst (insort_key fst x xs)) \<longleftrightarrow> fst x \<notin> fst ` set xs \<and> distinct (map fst xs)"
  by (induction xs) (auto simp: set_insort_key)

lemma sorted_items_distinct: "gm_ok m \<Longrightarrow> distinct (map fst (sorted_items m))"
proof -
  have "distinct (map fst (sort_key fst xs)) = distinct (map fst xs)" for xs :: "(string \<times> 'a) list"
    by (induction xs) (auto simp: distinct_fst_insort)
  then show "gm_ok m \<Longrightarrow> distinct (map fst (sorted_items m))"
    by (simp add: sorted_items_def gm_ok_def gm_keys_def)
qed

lemma sorted_items_get: "gm_ok m \<Longrightarrow> (k, v) \<in> set (sorted_items m) \<longleftrightarrow> gm_get m k = Some v"
  by (simp add: sorted_items_def gm_items_get)

lemma sorted_items_keys: "fst ` set (sorted_items m) = {k. gm_get m k \<noteq> None}"
  using gm_get_keys [of m] by (auto simp: sorted_items_def gm_keys_def)

lemma sorted_items_sorted: "sorted (map fst (sorted_items m))"
  by (simp add: sorted_items_def)

end
