(* ===== verification/Campaign.thy ===== *)
theory Campaign
  imports SortedMap
begin

text \<open>
  Campaigns, \<open>pkg/campaign\<close>: the comparison of two snapshots (\<open>engine.go\<close>), the projection built from the
  ledger (\<open>builder.go\<close>) and the redaction of events before they are stored (\<open>sanitizer.go\<close>). The token
  patterns of \<open>redactString\<close> and SHA-256 are parameters.
\<close>

section \<open>Comparing snapshots\<close>

record projection =
  ep_path :: string
  ep_status :: int
  ep_ctype :: string
  ep_size :: int
  ep_confidence :: int
  ep_risk :: int
  ep_tags :: "string list"
  ep_hash :: string

definition no_projection :: projection where
  "no_projection = \<lparr>ep_path = '''', ep_status = 0, ep_ctype = '''', ep_size = 0, ep_confidence = 0, ep_risk = 0,
     ep_tags = [], ep_hash = ''''\<rparr>"

datatype diff_category = DiffNew | DiffChanged | DiffRemoved

datatype diff_severity = DiffInfo | DiffInteresting | DiffCritical

record change_reason =
  cr_type :: string
  cr_before :: string
  cr_after :: string

record endpoint_diff =
  ed_node :: string
  ed_path :: string
  ed_category :: diff_category
  ed_severity :: diff_severity
  ed_target :: string
  ed_diff_hash :: string
  ed_reasons :: "change_reason list"
  ed_previous :: projection
  ed_current :: projection

record campaign_diff =
  cd_new :: int
  cd_change :: int
  cd_remove :: int
  cd_endpoints :: "endpoint_diff list"

record campaign_snapshot =
  sn_id :: string
  sn_target :: string
  sn_nodes :: "(string, projection) gomap"

definition computeDiffHash :: "projection \<Rightarrow> projection \<Rightarrow> string" where
  "computeDiffHash oldNode newNode = ''diff-'' @ ep_path newNode @ ''-'' @ itoa (ep_risk oldNode) @ ''-'' @ itoa (ep_risk newNode)"

definition detectChanges :: "projection \<Rightarrow> projection \<Rightarrow> change_reason list \<times> diff_severity" where
  "detectChanges oldNode newNode =
     (if ep_risk oldNode \<noteq> ep_risk newNode then
        ([\<lparr>cr_type = ''STATUS_CHANGED'', cr_before = ''Score:'' @ itoa (ep_risk oldNode),
           cr_after = ''Score:'' @ itoa (ep_risk newNode)\<rparr>],
         if \<bar>ep_risk newNode - ep_risk oldNode\<bar> > 50 then DiffCritical else DiffInteresting)
      else ([], DiffInfo))"

text \<open>One node of the new snapshot; a node found in the old one is taken off the remaining old nodes.\<close>

definition compare_new ::
  "string \<Rightarrow> campaign_diff \<times> (string, projection) gomap \<Rightarrow> string \<times> projection
   \<Rightarrow> campaign_diff \<times> (string, projection) gomap" where
  "compare_new target = (\<lambda>(d, olds) (nodeID, newNode).
     case gm_get olds nodeID of
       None \<Rightarrow>
         (d\<lparr>cd_new := cd_new d + 1,
            cd_endpoints := cd_endpoints d @ [\<lparr>ed_node = nodeID, ed_path = ep_path newNode, ed_category = DiffNew,
              ed_severity = DiffInteresting, ed_target = target, ed_diff_hash = ''new-'' @ ep_path newNode,
              ed_reasons = [], ed_previous = no_projection, ed_current = newNode\<rparr>]\<rparr>, olds)
     | Some oldNode \<Rightarrow>
         let (reasons, sev) = detectChanges oldNode newNode;
             d' = (if reasons \<noteq> [] then
                     d\<lparr>cd_change := cd_change d + 1,
                       cd_endpoints := cd_endpoints d @ [\<lparr>ed_node = nodeID, ed_path = ep_path newNode,
                         ed_category = DiffChanged, ed_severity = sev, ed_target = target,
                         ed_diff_hash = computeDiffHash oldNode newNode, ed_reasons = reasons,
                         ed_previous = oldNode, ed_current = newNode\<rparr>]\<rparr>
                   else d)
         in (d', gm_delete olds nodeID))"

definition compare_removed :: "string \<Rightarrow> campaign_diff \<Rightarrow> string \<times> projection \<Rightarrow> campaign_diff" where
  "compare_removed target d = (\<lambda>(nodeID, oldNode).
     d\<lparr>cd_remove := cd_remove d + 1,
       cd_endpoints := cd_endpoints d @ [\<lparr>ed_node = nodeID, ed_path = ep_path oldNode, ed_category = DiffRemoved,
         ed_severity = DiffInfo, ed_target = target, ed_diff_hash = ''rem-'' @ ep_path oldNode, ed_reasons = [],
         ed_previous = oldNode, ed_current = no_projection\<rparr>]\<rparr>)"

definition Compare :: "campaign_snapshot \<Rightarrow> campaign_snapshot \<Rightarrow> campaign_diff" where
  "Compare snapOld snapNew =
     (let d0 = \<lparr>cd_new = 0, cd_change = 0, cd_remove = 0, cd_endpoints = []\<rparr>;
          (d1, olds) = foldl (compare_new (sn_target snapNew)) (d0, sn_nodes snapOld) (sorted_items (sn_nodes snapNew))
      in foldl (compare_removed (sn_target snapOld)) d1 (sorted_items olds))"

text \<open>What the comparison should report of one node of the new snapshot, and of the old one.\<close>

definition new_verdict :: "(string, projection) gomap \<Rightarrow> string \<times> projection \<Rightarrow> (string \<times> diff_category) option" where
  "new_verdict olds = (\<lambda>(k, n). case gm_get olds k of
       None \<Rightarrow> Some (k, DiffNew)
     | Some p \<Rightarrow> if ep_risk p \<noteq> ep_risk n then Some (k, DiffChanged) else None)"

definition verdicts :: "campaign_diff \<Rightarrow> (string \<times> diff_category) list" where
  "verdicts d = map (\<lambda>e. (ed_node e, ed_category e)) (cd_endpoints d)"

definition totals_ok :: "campaign_diff \<Rightarrow> bool" where
  "totals_ok d \<longleftrightarrow>
     cd_new d = int (length (filter (\<lambda>e. ed_category e = DiffNew) (cd_endpoints d))) \<and>
     cd_change d = int (length (filter (\<lambda>e. ed_category e = DiffChanged) (cd_endpoints d))) \<and>
     cd_remove d = int (length (filter (\<lambda>e. ed_category e = DiffRemoved) (cd_endpoints d)))"

lemma compare_new_step:
  assumes "compare_new t (d, olds) (k, n) = (d', olds')" "totals_ok d"
  shows "verdicts d' = verdicts d @ List.map_filter (new_verdict olds) [(k, n)] \<and> totals_ok d' \<and>
    (\<forall>j. gm_get olds' j = (if j = k then None else gm_get olds j))"
proof (cases "gm_get olds k")
  case None
  with assms show ?thesis
    by (auto simp: compare_new_def new_verdict_def verdicts_def totals_ok_def List.map_filter_simps)
next
  case (Some p)
  with assms show ?thesis
    by (auto simp: compare_new_def new_verdict_def verdicts_def totals_ok_def List.map_filter_simps detectChanges_def
        Let_def gm_get_delete split: if_splits)
qed

lemma map_filter_cong_set:
  assumes "\<And>x. x \<in> set xs \<Longrightarrow> f x = g x" shows "List.map_filter f xs = List.map_filter g xs"
proof -
  have "\<forall>x\<in>set xs. f x = g x" using assms by blast
  then show ?thesis by (induction xs) (auto simp: List.map_filter_simps split: option.split)
qed

lemma compare_new_fold:
  "distinct (map fst ns) \<Longrightarrow> totals_ok d \<Longrightarrow> foldl (compare_new t) (d, olds) ns = (d', olds') \<Longrightarrow>
   verdicts d' = verdicts d @ List.map_filter (new_verdict olds) ns \<and> totals_ok d' \<and>
   (\<forall>j. gm_get olds' j = (if j \<in> fst ` set ns then None else gm_get olds j))"
proof (induction ns arbitrary: d olds)
  case Nil
  then show ?case by (simp add: List.map_filter_simps)
next
  case (Cons a ns)
  obtain k n where a: "a = (k, n)" by (cases a)
  obtain d1 olds1 where s: "compare_new t (d, olds) (k, n) = (d1, olds1)" by fastforce
  note h = compare_new_step [OF s Cons.prems(2)]
  have "distinct (map fst ns)" using Cons.prems(1) by simp
  moreover have "foldl (compare_new t) (d1, olds1) ns = (d', olds')" using Cons.prems(3) s a by simp
  ultimately have ih: "verdicts d' = verdicts d1 @ List.map_filter (new_verdict olds1) ns" "totals_ok d'"
    "\<forall>j. gm_get olds' j = (if j \<in> fst ` set ns then None else gm_get olds1 j)"
    using Cons.IH [of d1 olds1] h by blast+
  have "new_verdict olds1 x = new_verdict olds x" if "x \<in> set ns" for x
  proof -
    have "fst x \<noteq> k" using that Cons.prems(1) a by force
    then have "gm_get olds1 (fst x) = gm_get olds (fst x)" using h by simp
    then show ?thesis by (cases x) (simp add: new_verdict_def)
  qed
  then have "List.map_filter (new_verdict olds1) ns = List.map_filter (new_verdict olds) ns"
    by (rule map_filter_cong_set)
  with ih h a show ?case by (auto simp: List.map_filter_simps split: option.splits)
qed

lemma compare_removed_fold:
  "totals_ok d \<Longrightarrow>
   verdicts (foldl (compare_removed t) d os) = verdicts d @ map (\<lambda>(k, n). (k, DiffRemoved)) os \<and>
   totals_ok (foldl (compare_removed t) d os)"
proof (induction os arbitrary: d)
  case (Cons a os)
  have "totals_ok (compare_removed t d a)" "verdicts (compare_removed t d a) = verdicts d @ [(fst a, DiffRemoved)]"
    using Cons.prems by (auto simp: compare_removed_def totals_ok_def verdicts_def split: prod.split)
  with Cons.IH [of "compare_removed t d a"] show ?case by (auto split: prod.split)
qed simp

lemma gm_ok_delete: "gm_ok m \<Longrightarrow> gm_ok (gm_delete m k)"
  by (cases m) (simp_all add: gm_ok_def gm_delete_def gm_keys_def gm_items_def distinct_delete)

lemma compare_new_ok:
  "gm_ok olds \<Longrightarrow> gm_ok (snd (foldl (compare_new t) (d, olds) ns))"
proof (induction ns arbitrary: d olds)
  case (Cons a ns)
  have "gm_ok (snd (compare_new t (d, olds) a))"
    using Cons.prems by (auto simp: compare_new_def Let_def gm_ok_delete split: prod.split option.split)
  then show ?case using Cons.IH [of "snd (compare_new t (d, olds) a)" "fst (compare_new t (d, olds) a)"] by simp
qed simp



section \<open>The projection built from the ledger\<close>

datatype ledger_event =
    is_LDiff: LDiff (diff_id: string)
  | is_LRegression: LRegression (reg_id: string) (reg_finding: string)
  | LOther

datatype knowledge_node_type = NodeFinding | NodeCampaign

datatype edge_relation = RelRegressedTo

record intelligence_node =
  in_id :: string
  in_type :: knowledge_node_type
  in_data :: ledger_event

record intelligence_edge =
  ie_source :: string
  ie_target :: string
  ie_relation :: edge_relation

record intelligence_projection =
  ip_ledger_hash :: string
  ip_snapshot_hash :: string
  ip_version :: int
  ip_nodes :: "(string, intelligence_node) gomap"
  ip_edges :: "intelligence_edge list"

definition NewGraphBuilder :: intelligence_projection where
  "NewGraphBuilder = \<lparr>ip_ledger_hash = '''', ip_snapshot_hash = '''', ip_version = 0, ip_nodes = gm_make, ip_edges = []\<rparr>"

text \<open>Storing into the map of a builder cannot fail: \<open>NewGraphBuilder\<close> makes it.\<close>

definition ip_addNode :: "string \<Rightarrow> knowledge_node_type \<Rightarrow> ledger_event \<Rightarrow> intelligence_projection \<Rightarrow> intelligence_projection option" where
  "ip_addNode nid ty d p = map_option (\<lambda>m. p\<lparr>ip_nodes := m\<rparr>) (gm_put (ip_nodes p) nid \<lparr>in_id = nid, in_type = ty, in_data = d\<rparr>)"

definition ip_addEdge :: "string \<Rightarrow> string \<Rightarrow> edge_relation \<Rightarrow> intelligence_projection \<Rightarrow> intelligence_projection" where
  "ip_addEdge src dst rel p = p\<lparr>ip_edges := ip_edges p @ [\<lparr>ie_source = src, ie_target = dst, ie_relation = rel\<rparr>]\<rparr>"

definition ledger_step :: "ledger_event \<Rightarrow> intelligence_projection \<Rightarrow> intelligence_projection option" where
  "ledger_step e p = (case e of
     LDiff d \<Rightarrow> ip_addNode d NodeCampaign e p
   | LRegression r f \<Rightarrow> map_option (ip_addEdge f r RelRegressedTo) (ip_addNode r NodeFinding e p)
   | LOther \<Rightarrow> Some p)"

fun ledger_fold :: "ledger_event list \<Rightarrow> intelligence_projection \<Rightarrow> intelligence_projection option" where
  "ledger_fold [] p = Some p"
| "ledger_fold (e # es) p = (case ledger_step e p of None \<Rightarrow> None | Some p' \<Rightarrow> ledger_fold es p')"

definition BuildFromLedger ::
  "ledger_event list \<Rightarrow> string \<Rightarrow> string \<Rightarrow> intelligence_projection \<Rightarrow> intelligence_projection option" where
  "BuildFromLedger events ledgerHash snapshotHash p =
     ledger_fold events (p\<lparr>ip_ledger_hash := ledgerHash, ip_snapshot_hash := snapshotHash, ip_version := 1\<rparr>)"

definition regression_edges :: "ledger_event list \<Rightarrow> (string \<times> string) list" where
  "regression_edges es = List.map_filter (\<lambda>e. case e of LRegression r f \<Rightarrow> Some (f, r) | _ \<Rightarrow> None) es"

definition ledger_ids :: "ledger_event list \<Rightarrow> string list" where
  "ledger_ids es = List.map_filter (\<lambda>e. case e of LDiff d \<Rightarrow> Some d | LRegression r f \<Rightarrow> Some r | LOther \<Rightarrow> None) es"

definition ip_pairs :: "intelligence_projection \<Rightarrow> (string \<times> string) list" where
  "ip_pairs p = map (\<lambda>e. (ie_source e, ie_target e)) (ip_edges p)"

lemmas ledger_defs = ledger_step_def ip_addNode_def ip_addEdge_def regression_edges_def ledger_ids_def ip_pairs_def
  List.map_filter_simps

lemma ledger_step_effect:
  assumes "ip_nodes p \<noteq> None"
  obtains p' where "ledger_step e p = Some p'" "ip_nodes p' \<noteq> None" "ip_pairs p' = ip_pairs p @ regression_edges [e]"
    "\<And>k. gm_get (ip_nodes p') k \<noteq> None \<longleftrightarrow> gm_get (ip_nodes p) k \<noteq> None \<or> k \<in> set (ledger_ids [e])"
proof (cases e)
  case (LDiff d)
  obtain m where "gm_put (ip_nodes p) d \<lparr>in_id = d, in_type = NodeCampaign, in_data = e\<rparr> = Some m" "m \<noteq> None"
    using gm_putE [OF assms] by blast
  then show thesis using LDiff by (intro that [of "p\<lparr>ip_nodes := m\<rparr>"]) (simp_all add: ledger_defs gm_get_put)
next
  case (LRegression r f)
  obtain m where "gm_put (ip_nodes p) r \<lparr>in_id = r, in_type = NodeFinding, in_data = e\<rparr> = Some m" "m \<noteq> None"
    using gm_putE [OF assms] by blast
  then show thesis using LRegression
    by (intro that [of "ip_addEdge f r RelRegressedTo (p\<lparr>ip_nodes := m\<rparr>)"]) (simp_all add: ledger_defs gm_get_put)
next
  case LOther
  then show thesis using assms by (intro that [of p]) (simp_all add: ledger_defs)
qed

lemma map_filter_Cons_append: "List.map_filter f (x # xs) = List.map_filter f [x] @ List.map_filter f xs"
  by (simp add: List.map_filter_simps split: option.split)

lemma ledger_fold_effect:
  "ip_nodes p \<noteq> None \<Longrightarrow> \<exists>q. ledger_fold es p = Some q \<and> ip_nodes q \<noteq> None \<and>
     ip_pairs q = ip_pairs p @ regression_edges es \<and>
     (\<forall>k. gm_get (ip_nodes q) k \<noteq> None \<longleftrightarrow> gm_get (ip_nodes p) k \<noteq> None \<or> k \<in> set (ledger_ids es))"
proof (induction es arbitrary: p)
  case Nil
  then show ?case by (simp add: ledger_defs)
next
  case (Cons e es)
  obtain p' where s: "ledger_step e p = Some p'" "ip_nodes p' \<noteq> None"
    "ip_pairs p' = ip_pairs p @ regression_edges [e]"
    "\<And>k. gm_get (ip_nodes p') k \<noteq> None \<longleftrightarrow> gm_get (ip_nodes p) k \<noteq> None \<or> k \<in> set (ledger_ids [e])"
    using ledger_step_effect [OF Cons.prems] by blast
  have c: "regression_edges (e # es) = regression_edges [e] @ regression_edges es"
    "ledger_ids (e # es) = ledger_ids [e] @ ledger_ids es"
    unfolding regression_edges_def ledger_ids_def by (rule map_filter_Cons_append)+
  show ?case unfolding c using Cons.IH [OF s(2)] s by (simp del: not_None_eq)
qed

text \<open>The ledger is projected without a failure from a fresh builder: there is one edge per regression, in the order
  of the ledger, and the end of every edge is a node. A second build with the same builder adds the edges again.\<close>

lemma BuildFromLedger_edges:
  "\<exists>q. BuildFromLedger es lh sh NewGraphBuilder = Some q \<and> ip_pairs q = regression_edges es \<and>
     (\<forall>k. gm_get (ip_nodes q) k \<noteq> None \<longleftrightarrow> k \<in> set (ledger_ids es)) \<and>
     (\<exists>q2. BuildFromLedger es lh sh q = Some q2 \<and> ip_pairs q2 = regression_edges es @ regression_edges es)"
proof -
  let ?p = "NewGraphBuilder\<lparr>ip_ledger_hash := lh, ip_snapshot_hash := sh, ip_version := 1\<rparr>"
  have p: "ip_nodes ?p \<noteq> None" "ip_pairs ?p = []" "\<And>k. gm_get (ip_nodes ?p) k = None"
    by (simp_all add: NewGraphBuilder_def gm_make_def ip_pairs_def gm_get_def)
  obtain q where q: "ledger_fold es ?p = Some q" "ip_nodes q \<noteq> None" "ip_pairs q = regression_edges es"
    "\<forall>k. gm_get (ip_nodes q) k \<noteq> None \<longleftrightarrow> k \<in> set (ledger_ids es)"
    using ledger_fold_effect [OF p(1), of es] p by auto
  let ?q = "q\<lparr>ip_ledger_hash := lh, ip_snapshot_hash := sh, ip_version := 1\<rparr>"
  have "ip_nodes ?q \<noteq> None" "ip_pairs ?q = ip_pairs q" using q(2) by (simp_all add: ip_pairs_def)
  then show ?thesis
    using q ledger_fold_effect [of ?q es] by (auto simp: BuildFromLedger_def)
qed

end
