(* ===== verification/Sanitizer.thy ===== *)
theory Sanitizer
  imports GoText
begin

text \<open>
  Redaction of events before they reach the ledger, \<open>pkg/campaign/sanitizer.go\<close>. The two token patterns are
  translated to matchers on bytes: the classes of the patterns are disjoint from what follows them, so that the
  leftmost-first match of the regular expression is the greedy scan below (\<open>(?i)\<close> also folds the Kelvin sign and
  the long s into the letter classes). SHA-256 is the parameter \<open>sha\<close>, from a string to its digest as numbers
  below 256; nothing is assumed of it. A decoded JSON value is the datatype \<open>json\<close>.
\<close>

section \<open>The token patterns\<close>

text \<open>The number of bytes a letter class takes at the head of a string: one, two for the long s, three for the
  Kelvin sign.\<close>

fun class_head :: "(char \<Rightarrow> bool) \<Rightarrow> string \<Rightarrow> nat" where
  "class_head p [] = 0"
| "class_head p (c # s) =
     (if p c then 1
      else if c = CHR 0xC5 \<and> take 1 s = [CHR 0xBF] then 2
      else if c = CHR 0xE2 \<and> take 2 s = [CHR 0x84, CHR 0xAA] then 3
      else 0)"

lemma take_eq_prefix: "take n s = w \<Longrightarrow> length w = n \<Longrightarrow> \<exists>r. s = w @ r"
  by (metis append_take_drop_id)

lemma class_head_le: "class_head p s \<le> length s"
  by (cases "(p, s)" rule: class_head.cases) (auto dest!: take_eq_prefix)

function class_run :: "(char \<Rightarrow> bool) \<Rightarrow> string \<Rightarrow> nat" where
  "class_run p s = (let n = class_head p s in if n = 0 then 0 else n + class_run p (drop n s))"
  by pat_completeness auto
termination
proof (relation "measure (length \<circ> snd)", goal_cases)
  case (2 p s n)
  then show ?case using class_head_le [of p s] by auto
qed simp

declare class_run.simps [simp del]

definition bearer_char :: "char \<Rightarrow> bool" where
  "bearer_char c \<longleftrightarrow> is_upper c \<or> is_lower c \<or> is_digit c \<or> c \<in> set ''-._~+/''"

definition jwt_char :: "char \<Rightarrow> bool" where
  "jwt_char c \<longleftrightarrow> is_upper c \<or> is_lower c \<or> is_digit c \<or> c \<in> set ''_-''"

definition re_space :: "char \<Rightarrow> bool" where
  "re_space c \<longleftrightarrow> c \<in> {CHR 0x20, CHR 0x09, CHR 0x0A, CHR 0x0C, CHR 0x0D}"

text \<open>\<open>bearerRegex\<close>: the lengths of its two groups when it matches at the head of the string.\<close>

definition bearer_match :: "string \<Rightarrow> (nat \<times> nat) option" where
  "bearer_match s =
     (if to_lower (take 6 s) = ''bearer'' then
        let w = length (takeWhile re_space (drop 6 s));
            r = drop (6 + w) s;
            t = class_run bearer_char r;
            q = length (takeWhile (\<lambda>c. c = CHR ''='') (drop t r))
        in if w = 0 \<or> t = 0 then None else Some (6 + w, t + q)
      else None)"

text \<open>\<open>jwtRegex\<close>: the length of its match at the head of the string.\<close>

definition jwt_part :: "string \<Rightarrow> nat option" where
  "jwt_part s = (let n = class_run jwt_char s in
     if n = 0 \<or> take 1 (drop n s) \<noteq> ''.'' then None else Some (Suc n))"

definition jwt_ey :: "string \<Rightarrow> nat option" where
  "jwt_ey s = (if to_lower (take 2 s) = ''ey'' then map_option (\<lambda>n. 2 + n) (jwt_part (drop 2 s)) else None)"

definition jwt_match :: "string \<Rightarrow> nat option" where
  "jwt_match s = (case jwt_ey s of None \<Rightarrow> None
     | Some m \<Rightarrow> (case jwt_ey (drop m s) of None \<Rightarrow> None
        | Some n \<Rightarrow> let t = class_run jwt_char (drop (m + n) s) in if t = 0 then None else Some (m + n + t)))"

text \<open>\<open>ReplaceAllStringFunc\<close>: leftmost matches that do not overlap, \<open>m\<close> the length of the match at the head.\<close>

function (sequential) replace_matches :: "(string \<Rightarrow> nat option) \<Rightarrow> (string \<Rightarrow> string) \<Rightarrow> string \<Rightarrow> string" where
  "replace_matches m f [] = []"
| "replace_matches m f (c # s) = (case m (c # s) of
     Some (Suc n) \<Rightarrow> f (c # take n s) @ replace_matches m f (drop n s)
   | _ \<Rightarrow> c # replace_matches m f s)"
  by pat_completeness auto
termination by (relation "measure (length \<circ> snd \<circ> snd)") auto

declare replace_matches.simps(2) [simp del]

section \<open>Redaction\<close>

definition hex_byte :: "nat \<Rightarrow> string" where
  "hex_byte n = [hex_digit (n div 16 mod 16), hex_digit (n mod 16)]"

definition sha_hex :: "(string \<Rightarrow> nat list) \<Rightarrow> string \<Rightarrow> string" where
  "sha_hex sha s = concat (map hex_byte (sha s))"

definition redact_mark :: string where
  "redact_mark = ''[REDACTED sha256:''"

definition hashValue :: "(string \<Rightarrow> nat list) \<Rightarrow> string \<Rightarrow> string" where
  "hashValue sha s = redact_mark @ sha_hex sha s @ '']''"

definition redact_bearer :: "(string \<Rightarrow> nat list) \<Rightarrow> string \<Rightarrow> string" where
  "redact_bearer sha w = (case bearer_match w of
     Some (a, b) \<Rightarrow> take a w @ hashValue sha (take b (drop a w)) | None \<Rightarrow> w)"

definition redactString :: "(string \<Rightarrow> nat list) \<Rightarrow> string \<Rightarrow> string" where
  "redactString sha s =
     replace_matches jwt_match (hashValue sha)
       (replace_matches (\<lambda>s. map_option (\<lambda>(a, b). a + b) (bearer_match s)) (redact_bearer sha) s)"

section \<open>What the matchers depend on\<close>

lemma class_head_extend:
  "class_head p (d @ CHR ''['' # y) \<noteq> 0 \<Longrightarrow> \<not> p (CHR ''['') \<Longrightarrow> class_head p (d @ z) \<noteq> 0"
  by (cases d; cases "tl d") (auto dest!: take_eq_prefix split: if_splits simp: append_eq_Cons_conv numeral_eq_Suc)

lemma class_head_exact:
  "class_head p (u @ v) = n \<Longrightarrow> n \<noteq> 0 \<Longrightarrow> n \<le> length u \<Longrightarrow> class_head p (u @ v') = n"
  by (cases u) (auto split: if_splits simp: take_Cons' numeral_eq_Suc)

lemma class_run_le: "class_run p s \<le> length s"
proof (induction p s rule: class_run.induct)
  case (1 p s)
  then show ?case using class_head_le [of p s] by (subst class_run.simps) (auto simp: Let_def)
qed

lemma class_run_zero: "class_run p s = 0 \<longleftrightarrow> class_head p s = 0"
  by (subst class_run.simps) (simp add: Let_def)

lemma class_run_exact:
  assumes "\<not> p c" "c \<noteq> CHR 0xC5" "c \<noteq> CHR 0xE2"
  shows "class_run p (u @ c # r) = length u \<Longrightarrow> class_run p (u @ c # r') = length u"
proof (induction "length u" arbitrary: u rule: less_induct)
  case less
  have st: "class_run p w = (let n = class_head p w in if n = 0 then 0 else n + class_run p (drop n w))" for w
    by (rule class_run.simps)
  define n where "n = class_head p (u @ c # r)"
  show ?case
  proof (cases "n = 0")
    case True
    then have "u = []" using less.prems st [of "u @ c # r"] n_def by simp
    then show ?thesis using assms st [of "c # r'"] by simp
  next
    case False
    have "class_run p (u @ c # r) = n + class_run p (drop n (u @ c # r))"
      by (subst st) (simp only: Let_def n_def [symmetric] False if_False)
    with less.prems have e: "length u = n + class_run p (drop n (u @ c # r))" by (rule trans [OF sym])
    then have nu: "n \<le> length u" by linarith
    have "drop n (u @ c # r) = drop n u @ c # r" using nu by simp
    moreover have "class_run p (drop n (u @ c # r)) = length u - n" using e by linarith
    ultimately have "class_run p (drop n u @ c # r) = length (drop n u)" by simp
    then have "class_run p (drop n u @ c # r') = length (drop n u)"
      using less.hyps [of "drop n u"] False nu by simp
    moreover have "class_head p (u @ c # r') = n" using class_head_exact [of p u "c # r" n] n_def False nu by simp
    ultimately show ?thesis using st [of "u @ c # r'"] False nu by (simp add: Let_def)
  qed
qed

lemma class_run_no_bracket:
  "\<not> p (CHR ''['') \<Longrightarrow> CHR ''['' \<notin> set (take (class_run p s) s)"
proof (induction p s rule: class_run.induct)
  case (1 p s)
  define n where "n = class_head p s"
  have "CHR ''['' \<notin> set (take n s)"
    unfolding n_def using "1.prems"
    by (cases "(p, s)" rule: class_head.cases) (auto dest!: take_eq_prefix simp: numeral_eq_Suc)
  moreover have "CHR ''['' \<notin> set (take (class_run p (drop n s)) (drop n s))" if "n \<noteq> 0"
    using 1 that n_def by simp
  ultimately show ?case
    using class_run.simps [of p s] n_def by (auto simp: Let_def take_add)
qed

definition bracket_local :: "(string \<Rightarrow> 'a option) \<Rightarrow> bool" where
  "bracket_local m \<longleftrightarrow> (\<forall>x y z. m (x @ CHR ''['' # y) \<noteq> None \<longrightarrow> m (x @ z) \<noteq> None)"

lemma chars_not_bracket:
  "\<not> bearer_char (CHR ''['')" "\<not> jwt_char (CHR ''['')" "\<not> re_space (CHR ''['')" "\<not> jwt_char (CHR ''.'')"
  "lower_char (CHR ''['') = CHR ''[''"
  by (simp_all add: bearer_char_def jwt_char_def re_space_def is_upper_def is_lower_def is_digit_def byte_def
      lower_char_def)

lemma lower_prefix_split:
  assumes "to_lower (take n (x @ CHR ''['' # y)) = w" "length w = n" "CHR ''['' \<notin> set w"
  shows "n \<le> length x" "to_lower (take n x) = w"
proof -
  show n: "n \<le> length x"
  proof (rule ccontr)
    assume "\<not> n \<le> length x"
    then have "CHR ''['' \<in> set (to_lower (take n (x @ CHR ''['' # y)))"
      by (auto simp: to_lower_def take_Cons' chars_not_bracket)
    with assms show False by simp
  qed
  with assms(1) show "to_lower (take n x) = w" by simp
qed

lemma bearer_match_iff:
  "bearer_match s \<noteq> None \<longleftrightarrow> to_lower (take 6 s) = ''bearer'' \<and> takeWhile re_space (drop 6 s) \<noteq> [] \<and>
   class_head bearer_char (dropWhile re_space (drop 6 s)) \<noteq> 0"
proof -
  have "dropWhile re_space (drop 6 s) = drop (6 + length (takeWhile re_space (drop 6 s))) s"
    by (simp only: dropWhile_eq_drop drop_drop add.commute)
  then show ?thesis by (simp add: bearer_match_def Let_def class_run_zero)
qed

lemma bearer_local: "bracket_local bearer_match"
proof (unfold bracket_local_def, intro allI impI)
  fix x y z
  assume "bearer_match (x @ CHR ''['' # y) \<noteq> None"
  then have l: "to_lower (take 6 (x @ CHR ''['' # y)) = ''bearer''"
    and w: "takeWhile re_space (drop 6 (x @ CHR ''['' # y)) \<noteq> []"
    and t: "class_head bearer_char (dropWhile re_space (drop 6 (x @ CHR ''['' # y))) \<noteq> 0"
    unfolding bearer_match_iff by blast+
  have n: "6 \<le> length x" "to_lower (take 6 x) = ''bearer''" using lower_prefix_split [OF l] by simp_all
  define x1 where "x1 = drop 6 x"
  have d: "drop 6 (x @ v) = x1 @ v" for v using n x1_def by simp
  obtain a where a: "a \<in> set x1" "\<not> re_space a"
    using t d by (cases "\<forall>a\<in>set x1. re_space a") (auto simp: dropWhile_append2 chars_not_bracket)
  have tw: "takeWhile re_space (x1 @ v) = takeWhile re_space x1"
    and dw: "dropWhile re_space (x1 @ v) = dropWhile re_space x1 @ v" for v
    using a takeWhile_append1 [of a x1 re_space] dropWhile_append1 [of a x1 re_space] by blast+
  have "takeWhile re_space x1 \<noteq> []" "class_head bearer_char (dropWhile re_space x1 @ CHR ''['' # y) \<noteq> 0"
    using w t d a by (simp_all only: d tw dw simp_thms)
  then have "class_head bearer_char (dropWhile re_space x1 @ z) \<noteq> 0"
    using class_head_extend chars_not_bracket by blast
  then have "class_head bearer_char (dropWhile re_space (drop 6 (x @ z))) \<noteq> 0"
    by (simp only: d dw simp_thms)
  moreover have "takeWhile re_space (drop 6 (x @ z)) \<noteq> []"
    using \<open>takeWhile re_space x1 \<noteq> []\<close> by (simp only: d tw simp_thms)
  moreover have "to_lower (take 6 (x @ z)) = ''bearer''" using n by simp
  ultimately show "bearer_match (x @ z) \<noteq> None" unfolding bearer_match_iff by blast
qed

lemma jwt_ey_shape:
  assumes "jwt_ey s = Some n"
  obtains u r where "s = take 2 s @ u @ CHR ''.'' # r" "n = Suc (length u + 2)" "to_lower (take 2 s) = ''ey''"
    "length (take 2 s) = 2" "u \<noteq> []" "CHR ''['' \<notin> set u" "class_run jwt_char (u @ CHR ''.'' # r) = length u"
proof -
  have l: "to_lower (take 2 s) = ''ey''" and p: "jwt_part (drop 2 s) = Some (n - 2)" "2 \<le> n"
    using assms by (auto simp: jwt_ey_def split: if_splits)
  define k where "k = class_run jwt_char (drop 2 s)"
  have k: "k \<noteq> 0" "take 1 (drop k (drop 2 s)) = ''.''" "n - 2 = Suc k"
    using p by (auto simp: jwt_part_def Let_def k_def split: if_splits)
  obtain r where r: "drop k (drop 2 s) = CHR ''.'' # r"
    using k(2) take_eq_prefix [of 1 "drop k (drop 2 s)" "''.''"] by auto
  define u where "u = take k (drop 2 s)"
  have e: "drop 2 s = u @ CHR ''.'' # r" unfolding u_def r [symmetric] by (rule append_take_drop_id [symmetric])
  have kl: "k = length u" using class_run_le [of jwt_char "drop 2 s"] by (simp add: u_def k_def)
  have two: "length (take 2 s) = 2" using arg_cong [OF l, of length] by simp
  show thesis
  proof (rule that [of u r])
    show "s = take 2 s @ u @ CHR ''.'' # r" unfolding e [symmetric] by (rule append_take_drop_id [symmetric])
    show "CHR ''['' \<notin> set u"
      unfolding u_def k_def by (rule class_run_no_bracket) (rule chars_not_bracket)
    show "class_run jwt_char (u @ CHR ''.'' # r) = length u" using e kl k_def by simp
  qed (use l two k kl p in auto)
qed

lemma jwt_ey_rebuild:
  assumes "class_run jwt_char (u @ CHR ''.'' # r) = length u" "u \<noteq> []" "to_lower h = ''ey''" "length h = 2"
  shows "jwt_ey (h @ u @ CHR ''.'' # r') = Some (Suc (length u + 2))"
proof -
  have "class_run jwt_char (u @ CHR ''.'' # r') = length u"
    using assms(1) by (rule class_run_exact [rotated 3]) (simp_all add: chars_not_bracket)
  then show ?thesis using assms by (simp add: jwt_ey_def jwt_part_def Let_def)
qed

lemma jwt_match_iff:
  "jwt_match s \<noteq> None \<longleftrightarrow> (\<exists>m n. jwt_ey s = Some m \<and> jwt_ey (drop m s) = Some n \<and>
     class_head jwt_char (drop (m + n) s) \<noteq> 0)"
  by (auto simp: jwt_match_def Let_def class_run_zero split: option.splits)

lemma jwt_local: "bracket_local jwt_match"
proof (unfold bracket_local_def, intro allI impI)
  fix x y z
  define S where "S = x @ CHR ''['' # y"
  assume "jwt_match (x @ CHR ''['' # y) \<noteq> None"
  then obtain m n where mn: "jwt_ey S = Some m" "jwt_ey (drop m S) = Some n"
    "class_head jwt_char (drop (m + n) S) \<noteq> 0" unfolding jwt_match_iff S_def [symmetric] by blast
  define h1 h2 where "h1 = take 2 S" and "h2 = take 2 (drop m S)"
  obtain u1 r1 where a: "S = h1 @ u1 @ CHR ''.'' # r1" "m = Suc (length u1 + 2)" "to_lower h1 = ''ey''"
    "length h1 = 2" "u1 \<noteq> []" "CHR ''['' \<notin> set u1" "class_run jwt_char (u1 @ CHR ''.'' # r1) = length u1"
    unfolding h1_def by (rule jwt_ey_shape [OF mn(1)])
  obtain u2 r2 where b: "drop m S = h2 @ u2 @ CHR ''.'' # r2" "n = Suc (length u2 + 2)" "to_lower h2 = ''ey''"
    "length h2 = 2" "u2 \<noteq> []" "CHR ''['' \<notin> set u2" "class_run jwt_char (u2 @ CHR ''.'' # r2) = length u2"
    unfolding h2_def by (rule jwt_ey_shape [OF mn(2)])
  have r1: "r1 = h2 @ u2 @ CHR ''.'' # r2" using b(1) a(2,4) by (subst (asm) a(1)) simp
  have r2: "drop (m + n) S = r2" using a(2,4) b(2,4) by (subst a(1)) (simp add: r1 numeral_eq_Suc)
  define pre where "pre = h1 @ u1 @ ''.'' @ h2 @ u2 @ ''.''"
  have low: "CHR ''['' \<notin> set h" if "to_lower h = ''ey''" for h
  proof
    assume "CHR ''['' \<in> set h"
    then have "lower_char (CHR ''['') \<in> set (to_lower h)" by (simp add: to_lower_def)
    with that show False by (simp add: chars_not_bracket)
  qed
  have pb: "CHR ''['' \<notin> set pre" using low [OF a(3)] low [OF b(3)] a(6) b(6) by (simp add: pre_def)
  have "pre @ r2 = x @ CHR ''['' # y" using a(1) r1 S_def by (simp add: pre_def)
  then obtain d where d: "x = pre @ d" "r2 = d @ CHR ''['' # y"
    proof (rule exE [OF append_eq_append_conv2 [THEN iffD1]])
    fix us
    assume "pre = x @ us \<and> us @ r2 = CHR ''['' # y \<or> pre @ us = x \<and> r2 = us @ CHR ''['' # y"
    moreover have "us = []" if "pre = x @ us" "us @ r2 = CHR ''['' # y" using that pb by (cases us) auto
    ultimately show thesis using that by fastforce
  qed
  have "class_head jwt_char (d @ z) \<noteq> 0"
    using mn(3) unfolding r2 d(2) by (rule class_head_extend) (rule chars_not_bracket)
  moreover have xz: "x @ z = h1 @ u1 @ CHR ''.'' # (h2 @ u2 @ CHR ''.'' # (d @ z))" by (simp add: d pre_def)
  have "jwt_ey (x @ z) = Some m" unfolding xz a(2) by (rule jwt_ey_rebuild [OF a(7,5,3,4)])
  moreover have "drop m (x @ z) = h2 @ u2 @ CHR ''.'' # (d @ z)" using a(2,4) by (simp add: xz)
  then have "jwt_ey (drop m (x @ z)) = Some n"
    using jwt_ey_rebuild [OF b(7,5,3,4)] b(2) by (simp only:)
  moreover have "drop (m + n) (x @ z) = d @ z"
    using a(2,4) b(2,4) by (simp only: xz) (simp add: numeral_eq_Suc)
  ultimately show "jwt_match (x @ z) \<noteq> None" unfolding jwt_match_iff by auto
qed

section \<open>Replacing leaves nothing to be found\<close>

definition no_match :: "(string \<Rightarrow> 'a option) \<Rightarrow> string \<Rightarrow> bool" where
  "no_match m s \<longleftrightarrow> (\<forall>k. m (drop k s) = None)"

text \<open>A redactor replaces every match by a text that starts with a part of the match and goes on with a bracket.\<close>

locale redactor =
  fixes m :: "string \<Rightarrow> nat option" and f :: "string \<Rightarrow> string"
  assumes pos: "m s \<noteq> Some 0"
    and marked: "m s = Some n \<Longrightarrow> \<exists>p q. f (take n s) = p @ CHR ''['' # q \<and> prefix p s"
begin

lemma step:
  "replace_matches m f (c # s) =
   (case m (c # s) of None \<Rightarrow> c # replace_matches m f s
    | Some n \<Rightarrow> f (take n (c # s)) @ replace_matches m f (drop n (c # s)))"
  using pos [of "c # s"] by (auto simp: replace_matches.simps(2) split: option.split nat.split)

lemma shape:
  "replace_matches m f s = s \<or> (\<exists>x y z. replace_matches m f s = x @ CHR ''['' # y \<and> s = x @ z)"
proof (induction s)
  case (Cons c s)
  show ?case
  proof (cases "m (c # s)")
    case None
    then have e: "replace_matches m f (c # s) = c # replace_matches m f s" unfolding step by simp
    from Cons.IH show ?thesis
    proof (elim disjE exE conjE)
      fix x y z
      assume h: "replace_matches m f s = x @ CHR ''['' # y" "s = x @ z"
      have "replace_matches m f (c # s) = (c # x) @ CHR ''['' # y \<and> c # s = (c # x) @ z"
        unfolding e h(1) using h(2) by simp
      then show ?thesis by blast
    qed (simp only: e simp_thms)
  next
    case (Some n)
    then obtain p q where "f (take n (c # s)) = p @ CHR ''['' # q" "prefix p (c # s)" using marked by blast
    moreover have "replace_matches m f (c # s) = f (take n (c # s)) @ replace_matches m f (drop n (c # s))"
      using Some unfolding step by simp
    ultimately show ?thesis by (auto simp: prefix_def)
  qed
qed simp

text \<open>A pattern that a bracket cuts off, that the inserted texts do not start, and that only occurs where
  \<open>m\<close> matches, does not occur after the replacement.\<close>

lemma no_match_after:
  assumes loc: "bracket_local g" and nil: "g [] = None"
    and free: "\<And>s n k v. m s = Some n \<Longrightarrow> k < length (f (take n s)) \<Longrightarrow> g (drop k (f (take n s)) @ v) = None"
  shows "\<forall>k. m (drop k s) = None \<longrightarrow> g (drop k s) = None \<Longrightarrow> no_match g (replace_matches m f s)"
proof (induction "length s" arbitrary: s rule: less_induct)
  case less
  show ?case
  proof (cases s)
    case Nil
    then show ?thesis using nil by (simp add: no_match_def)
  next
    case (Cons c s')
    have sub: "\<forall>k. m (drop k (drop j s)) = None \<longrightarrow> g (drop k (drop j s)) = None" for j
      using less.prems by (simp only: drop_drop) blast
    show ?thesis
    proof (cases "m s")
      case None
      then have e: "replace_matches m f s = c # replace_matches m f s'" using step Cons by simp
      have ih: "no_match g (replace_matches m f s')" using less.hyps [of s'] sub [of 1] Cons by simp
      have gs: "g s = None" using less.prems None by (metis drop_0)
      have "g (c # replace_matches m f s') = None"
        using shape [of s']
      proof (elim disjE exE conjE)
        fix x y z
        assume h: "replace_matches m f s' = x @ CHR ''['' # y" "s' = x @ z"
        have "g ((c # x) @ CHR ''['' # y) \<noteq> None \<longrightarrow> g ((c # x) @ z) \<noteq> None"
          using loc unfolding bracket_local_def by blast
        then show ?thesis using gs h Cons by simp
      qed (use gs Cons in simp)
      then have "g (drop k (replace_matches m f s)) = None" for k
        using ih e by (cases k) (simp_all add: no_match_def)
      then show ?thesis by (simp only: no_match_def) simp
    next
      case (Some n)
      define w where "w = f (take n s)"
      define t where "t = replace_matches m f (drop n s)"
      have e: "replace_matches m f s = w @ t"
        using step Cons Some by (simp add: w_def t_def)
      have "n \<noteq> 0" using Some pos [of s] by auto
      then have ih: "no_match g t" unfolding t_def using less.hyps [of "drop n s"] sub [of n] Cons by simp
      have "g (drop k (w @ t)) = None" for k
      proof (cases "k < length w")
        case True
        then show ?thesis using free [OF Some, of k t] by (simp add: w_def)
      next
        case False
        then show ?thesis using ih by (simp add: no_match_def)
      qed
      then show ?thesis by (simp only: no_match_def e) simp
    qed
  qed
qed

end

section \<open>Redacted strings\<close>

lemma hex_digit_not:
  assumes "n < 16" shows "lower_char (hex_digit n) \<notin> set ''ry[''"
proof -
  have h: "byte (hex_digit n) = (if n < 10 then 48 + n else 87 + n)"
    using assms by (simp add: hex_digit_def byte_def)
  then have "lower_char (hex_digit n) = hex_digit n" using assms by (simp add: lower_char_def is_upper_def)
  moreover have "byte (hex_digit n) \<notin> byte ` set ''ry[''" using h assms by (simp add: byte_def split: if_split)
  ultimately show ?thesis by (metis imageI)
qed

lemma sha_hex_chars:
  assumes "c \<in> set (sha_hex sha s)" shows "lower_char c \<notin> set ''ry[''"
proof -
  obtain n where "c = hex_digit (n div 16 mod 16) \<or> c = hex_digit (n mod 16)"
    using assms by (auto simp: sha_hex_def hex_byte_def)
  then show ?thesis using hex_digit_not [of "n div 16 mod 16"] hex_digit_not [of "n mod 16"] by auto
qed

lemma redact_mark_length: "length redact_mark = 17"
  by code_simp

lemma hashValue_chars:
  "k < 17 \<Longrightarrow> drop k (hashValue sha s) @ v = drop k redact_mark @ sha_hex sha s @ '']'' @ v"
  "17 \<le> k \<Longrightarrow> k < length (hashValue sha s) \<Longrightarrow>
    drop k (hashValue sha s) @ v = drop (k - 17) (sha_hex sha s) @ '']'' @ v"
  by (simp_all add: hashValue_def redact_mark_length)

lemma prefix_chars:
  "to_lower (take 6 t) = ''bearer'' \<Longrightarrow> lower_char (t ! 0) = CHR ''b'' \<and> lower_char (t ! 3) = CHR ''r'' \<and> 6 \<le> length t"
  "to_lower (take 2 t) = ''ey'' \<Longrightarrow> lower_char (t ! 0) = CHR ''e'' \<and> lower_char (t ! 1) = CHR ''y'' \<and> 2 \<le> length t"
proof -
  assume h: "to_lower (take 6 t) = ''bearer''"
  have "length (to_lower (take 6 t)) = 6" "to_lower (take 6 t) ! 0 = CHR ''b''" "to_lower (take 6 t) ! 3 = CHR ''r''"
    unfolding h by simp_all
  then show "lower_char (t ! 0) = CHR ''b'' \<and> lower_char (t ! 3) = CHR ''r'' \<and> 6 \<le> length t"
    by (simp add: to_lower_def)
next
  assume h: "to_lower (take 2 t) = ''ey''"
  have "length (to_lower (take 2 t)) = 2" "to_lower (take 2 t) ! 0 = CHR ''e''" "to_lower (take 2 t) ! 1 = CHR ''y''"
    unfolding h by simp_all
  then show "lower_char (t ! 0) = CHR ''e'' \<and> lower_char (t ! 1) = CHR ''y'' \<and> 2 \<le> length t"
    by (simp add: to_lower_def)
qed

lemma hash_tail_free:
  assumes "\<forall>c\<in>set h. lower_char c \<notin> set ''ry[''"
  shows "to_lower (take 6 (h @ '']'' @ v)) \<noteq> ''bearer''" "to_lower (take 2 (h @ '']'' @ v)) \<noteq> ''ey''"
proof -
  have br: "lower_char (CHR '']'') = CHR '']''" by code_simp
  have nth: "lower_char ((h @ '']'' @ v) ! i) \<noteq> c" if "i < length h" "c \<in> set ''ry[''" for i c
    using assms that by (metis nth_append nth_mem)
  show "to_lower (take 6 (h @ '']'' @ v)) \<noteq> ''bearer''"
  proof
    assume e: "to_lower (take 6 (h @ '']'' @ v)) = ''bearer''"
    have "\<not> 3 < length h" using prefix_chars(1) [OF e] nth [of 3 "CHR ''r''"] by auto
    then have "to_lower (take 6 (h @ '']'' @ v)) ! length h = CHR '']''"
      by (simp add: to_lower_def nth_append br)
    moreover have "length h = 0 \<or> length h = 1 \<or> length h = 2 \<or> length h = 3"
      using \<open>\<not> 3 < length h\<close> by linarith
    ultimately show False unfolding e by auto
  qed
  show "to_lower (take 2 (h @ '']'' @ v)) \<noteq> ''ey''"
  proof
    assume e: "to_lower (take 2 (h @ '']'' @ v)) = ''ey''"
    have "\<not> 1 < length h" using prefix_chars(2) [OF e] nth [of 1 "CHR ''y''"] by auto
    then have "to_lower (take 2 (h @ '']'' @ v)) ! length h = CHR '']''"
      by (simp add: to_lower_def nth_append br)
    moreover have "length h = 0 \<or> length h = 1" using \<open>\<not> 1 < length h\<close> by linarith
    ultimately show False unfolding e by auto
  qed
qed

lemma hash_head_free:
  assumes "k < 17"
  shows "to_lower (take 6 (drop k redact_mark @ v)) \<noteq> ''bearer''" "to_lower (take 2 (drop k redact_mark @ v)) \<noteq> ''ey''"
proof -
  have "\<forall>k\<in>set [0..<17]. lower_char (redact_mark ! k) \<noteq> CHR ''b'' \<and>
     (lower_char (redact_mark ! k) = CHR ''e'' \<longrightarrow> k < 16 \<and> lower_char (redact_mark ! (k + 1)) \<noteq> CHR ''y'')"
    by code_simp
  then have f: "lower_char (redact_mark ! k) \<noteq> CHR ''b''"
    "lower_char (redact_mark ! k) = CHR ''e'' \<longrightarrow> k < 16 \<and> lower_char (redact_mark ! (k + 1)) \<noteq> CHR ''y''"
    using assms by simp_all
  have "(drop k redact_mark @ v) ! 0 = redact_mark ! k" using assms by (simp add: nth_append redact_mark_length)
  moreover have "k < 16 \<longrightarrow> (drop k redact_mark @ v) ! 1 = redact_mark ! (k + 1)"
    by (auto simp: nth_append redact_mark_length)
  ultimately show "to_lower (take 6 (drop k redact_mark @ v)) \<noteq> ''bearer''"
    "to_lower (take 2 (drop k redact_mark @ v)) \<noteq> ''ey''"
    using f prefix_chars by metis+
qed

lemma hash_free:
  assumes "k < length (hashValue sha s)"
  shows "bearer_match (drop k (hashValue sha s) @ v) = None" "jwt_match (drop k (hashValue sha s) @ v) = None"
proof -
  have tl: "\<forall>c\<in>set (drop j (sha_hex sha s)). lower_char c \<notin> set ''ry[''" for j
    using sha_hex_chars in_set_dropD by metis
  have "to_lower (take 6 (drop k (hashValue sha s) @ v)) \<noteq> ''bearer'' \<and>
      to_lower (take 2 (drop k (hashValue sha s) @ v)) \<noteq> ''ey''"
  proof (cases "k < 17")
    case True
    then show ?thesis unfolding hashValue_chars(1) [OF True] using hash_head_free [OF True] by blast
  next
    case False
    then have "17 \<le> k" by simp
    show ?thesis
      unfolding hashValue_chars(2) [OF \<open>17 \<le> k\<close> assms] using hash_tail_free [OF tl] by blast
  qed
  then show "bearer_match (drop k (hashValue sha s) @ v) = None" "jwt_match (drop k (hashValue sha s) @ v) = None"
    by (simp_all add: bearer_match_def jwt_match_def jwt_ey_def)
qed

abbreviation bearer_length :: "string \<Rightarrow> nat option" where
  "bearer_length s \<equiv> map_option (\<lambda>(a, b). a + b) (bearer_match s)"

lemma class_head_le_run: "class_head p s \<le> class_run p s"
  by (cases "class_head p s = 0") (use class_run.simps [of p s] in \<open>simp_all add: Let_def\<close>)

text \<open>The groups of a match: the first is the word and white space, and the match matches again on its own.\<close>

lemma bearer_groups:
  assumes "bearer_match s = Some (a, b)"
  shows "a = 6 + length (takeWhile re_space (drop 6 s))" "take a s = take 6 s @ takeWhile re_space (drop 6 s)"
    "to_lower (take 6 s) = ''bearer''" "length (take 6 s) = 6"
    "class_head bearer_char (drop a s) \<noteq> 0" "class_head bearer_char (drop a s) \<le> b" "a < a + b"
    "takeWhile re_space (drop 6 s) \<noteq> []"
proof -
  have l: "to_lower (take 6 s) = ''bearer''" using assms by (simp add: bearer_match_def split: if_splits)
  then show "to_lower (take 6 s) = ''bearer''" .
  show six: "length (take 6 s) = 6" using arg_cong [OF l, of length] by simp
  show a: "a = 6 + length (takeWhile re_space (drop 6 s))"
    using assms l by (simp add: bearer_match_def Let_def split: if_splits)
  show "take a s = take 6 s @ takeWhile re_space (drop 6 s)"
    unfolding a take_add by (rule arg_cong [OF takeWhile_eq_take [symmetric]])
  have b: "class_run bearer_char (drop a s) \<noteq> 0 \<and> class_run bearer_char (drop a s) \<le> b
      \<and> takeWhile re_space (drop 6 s) \<noteq> []"
    using assms l unfolding a by (auto simp: bearer_match_def Let_def split: if_splits)
  then show "class_head bearer_char (drop a s) \<noteq> 0" "class_head bearer_char (drop a s) \<le> b" "a < a + b"
    "takeWhile re_space (drop 6 s) \<noteq> []"
    using class_run_zero [of bearer_char "drop a s"] class_head_le_run [of bearer_char "drop a s"] by linarith+ 
qed

lemma bearer_again:
  assumes "bearer_match s = Some (a, b)"
  shows "\<exists>c. bearer_match (take (a + b) s) = Some (a, c)"
proof -
  note g = bearer_groups [OF assms]
  define w where "w = take (a + b) s"
  have six: "take 6 w = take 6 s" using g(1) by (simp add: w_def)
  define sp where "sp = takeWhile re_space (drop 6 s)"
  have "drop a s = dropWhile re_space (drop 6 s)"
    unfolding g(1) by (simp only: dropWhile_eq_drop drop_drop add.commute)
  then have ns: "drop a s = [] \<or> \<not> re_space (hd (drop a s))" using hd_dropWhile [of re_space "drop 6 s"] by metis
  have spl: "drop 6 s = sp @ drop a s"
    unfolding sp_def \<open>drop a s = dropWhile re_space (drop 6 s)\<close> by simp
  have "drop 6 w = take (length sp + b) (drop 6 s)" by (simp add: w_def drop_take g(1) sp_def)
  then have dw: "drop 6 w = sp @ take b (drop a s)" unfolding spl by simp
  have "class_head bearer_char (drop a s) \<le> length (take b (drop a s))"
    using g(6) class_head_le [of bearer_char "drop a s"] by simp
  moreover have "class_head bearer_char (take b (drop a s) @ drop b (drop a s)) = class_head bearer_char (drop a s)"
    by (simp only: append_take_drop_id)
  ultimately have "class_head bearer_char (take b (drop a s) @ []) = class_head bearer_char (drop a s)"
    using class_head_exact g(5) by blast
  then have ch: "class_head bearer_char (take b (drop a s)) \<noteq> 0" using g(5) by simp
  then obtain c r where cr: "take b (drop a s) = c # r" by (cases "take b (drop a s)") simp_all
  have "c = hd (drop a s)" "drop a s \<noteq> []" using cr by (cases "drop a s"; cases b; simp)+
  then have nc: "\<not> re_space c" using ns by simp
  have all: "\<forall>x\<in>set sp. re_space x" using set_takeWhileD sp_def by metis
  have tw: "takeWhile re_space (drop 6 w) = sp" "dropWhile re_space (drop 6 w) = take b (drop a s)"
    unfolding dw cr using all nc by (simp_all add: takeWhile_append2 dropWhile_append2)
  have "bearer_match w \<noteq> None"
    unfolding bearer_match_iff tw six using g(3,8) ch sp_def by simp
  then obtain a' c' where m: "bearer_match w = Some (a', c')" by auto
  then have "a' = a" using bearer_groups(1) [OF m] tw(1) g(1) sp_def by simp
  with m w_def show ?thesis by blast
qed

lemma redact_bearer_shape:
  assumes "bearer_match s = Some (a, b)"
  shows "\<exists>t. redact_bearer sha (take (a + b) s) = take a s @ hashValue sha t"
  using bearer_again [OF assms] by (auto simp: redact_bearer_def)

lemma hashValue_bracket: "hashValue sha t = CHR ''['' # tl redact_mark @ sha_hex sha t @ '']''"
  by (simp add: hashValue_def redact_mark_def)

lemma redact_bearer_free:
  assumes "bearer_match s = Some (a, b)" "k < length (redact_bearer sha (take (a + b) s))"
  shows "bearer_match (drop k (redact_bearer sha (take (a + b) s)) @ v) = None"
proof -
  note g = bearer_groups [OF assms(1)]
  obtain t where t: "redact_bearer sha (take (a + b) s) = take a s @ hashValue sha t"
    using redact_bearer_shape [OF assms(1)] by blast
  define sp where "sp = takeWhile re_space (drop 6 s)"
  have la: "length (take a s) = a" using g(1,2,4) by simp
  have all: "\<forall>x\<in>set sp. re_space x" using set_takeWhileD sp_def by metis
  consider "k = 0" | "0 < k" "k < a" | "a \<le> k" by linarith
  then show ?thesis
  proof cases
    case 1
    have e: "drop k (take a s @ hashValue sha t) @ v = take 6 s @ sp @ hashValue sha t @ v"
      using 1 g(2) sp_def by simp
    have "dropWhile re_space (sp @ hashValue sha t @ v) = hashValue sha t @ v"
      unfolding hashValue_bracket using all by (simp add: dropWhile_append2 chars_not_bracket)
    moreover have "drop 6 (take 6 s @ sp @ hashValue sha t @ v) = sp @ hashValue sha t @ v" using g(4) by simp
    moreover have "class_head bearer_char (hashValue sha t @ v) = 0"
      unfolding hashValue_bracket by (simp add: chars_not_bracket)
    ultimately have "\<not> bearer_match (take 6 s @ sp @ hashValue sha t @ v) \<noteq> None"
      by (simp only: bearer_match_iff) simp
    then show ?thesis unfolding t e by blast
  next
    case 2
    have "lower_char (take a s ! k) \<noteq> CHR ''b''"
    proof (cases "k < 6")
      case True
      have "lower_char (take a s ! k) = to_lower (take 6 s) ! k"
        using True g(2,4) by (simp add: to_lower_def nth_append)
      moreover have "k = 1 \<or> k = 2 \<or> k = 3 \<or> k = 4 \<or> k = 5" using 2 True by linarith
      ultimately show ?thesis unfolding g(3) by (auto simp: numeral_eq_Suc)
    next
      case False
      then have "take a s ! k = sp ! (k - 6)" "k - 6 < length sp"
        using 2 g(1,2,4) sp_def by (simp_all add: nth_append)
      then have "re_space (take a s ! k)" using all by simp
      then show ?thesis by (auto simp: re_space_def lower_char_def is_upper_def byte_def)
    qed
    moreover have "(drop k (take a s @ hashValue sha t) @ v) ! 0 = take a s ! k" using 2 la by (simp add: nth_append)
    ultimately show ?thesis
      unfolding t using prefix_chars(1) [of "drop k (take a s @ hashValue sha t) @ v"]
      by (auto simp: bearer_match_def)
  next
    case 3
    then have "drop k (take a s @ hashValue sha t) @ v = drop (k - a) (hashValue sha t) @ v"
      "k - a < length (hashValue sha t)" using la assms(2) t by simp_all
    then show ?thesis unfolding t using hash_free(1) by simp
  qed
qed

interpretation jwt: redactor jwt_match "hashValue sha" for sha
proof
  show "jwt_match s \<noteq> Some 0" for s by (auto simp: jwt_match_def Let_def split: option.splits)
  show "\<exists>p q. hashValue sha (take n s) = p @ CHR ''['' # q \<and> prefix p s" for s n
    by (rule exI [of _ "[]"]) (simp add: hashValue_def redact_mark_def)
qed

interpretation bearer: redactor bearer_length "redact_bearer sha" for sha
proof
  show "bearer_length s \<noteq> Some 0" for s
    using bearer_groups(7) [of s] by (cases "bearer_match s") auto
  fix s n
  assume "bearer_length s = Some n"
  then obtain a b where ab: "bearer_match s = Some (a, b)" "n = a + b" by auto
  then obtain t where "redact_bearer sha (take n s) = take a s @ hashValue sha t"
    using redact_bearer_shape by blast
  then have "redact_bearer sha (take n s) = take a s @ CHR ''['' # tl redact_mark @ sha_hex sha t @ '']''"
    by (simp add: hashValue_def redact_mark_def)
  then show "\<exists>p q. redact_bearer sha (take n s) = p @ CHR ''['' # q \<and> prefix p s"
    using take_is_prefix by blast
qed

text \<open>C6: after the redaction of a string neither token pattern occurs in it any more: no bearer token and no JWT
  can be found at any position, whatever the string was.\<close>

theorem redactString_clean:
  "no_match bearer_match (redactString sha s) \<and> no_match jwt_match (redactString sha s)"
proof -
  have nil: "bearer_match [] = None" "jwt_match [] = None"
    by (simp_all add: bearer_match_def jwt_match_def jwt_ey_def to_lower_def)
  define r where "r = replace_matches bearer_length (redact_bearer sha) s"
  have "no_match bearer_match r"
    unfolding r_def
  proof (rule bearer.no_match_after [OF bearer_local nil(1)])
    fix s :: string and n k v
    assume "bearer_length s = Some n" "k < length (redact_bearer sha (take n s))"
    then show "bearer_match (drop k (redact_bearer sha (take n s)) @ v) = None"
      using redact_bearer_free by auto
  qed simp
  then have "no_match bearer_match (replace_matches jwt_match (hashValue sha) r)"
    by (intro jwt.no_match_after [OF bearer_local nil(1)] hash_free) (simp_all add: no_match_def)
  moreover have "no_match jwt_match (replace_matches jwt_match (hashValue sha) r)"
    by (rule jwt.no_match_after [OF jwt_local nil(2)]) (simp_all add: hash_free)
  ultimately show ?thesis by (simp add: redactString_def r_def)
qed

section \<open>Redacting a decoded event\<close>

datatype json = JNull | JBool bool | JNum string | JStr string | JArr "json list" | JObj "(string \<times> json) list"

text \<open>\<open>strings.ToLower\<close> maps the Kelvin sign to k and the dotted capital I to i; other letters beyond ASCII
  cannot give one of the five names.\<close>

definition sensitive_key :: "string \<Rightarrow> bool" where
  "sensitive_key key \<longleftrightarrow>
     to_lower (replace_str [CHR 0xE2, CHR 0x84, CHR 0xAA] ''k'' (replace_str [CHR 0xC4, CHR 0xB0] ''i'' key))
     \<in> set [''authorization'', ''cookie'', ''set-cookie'', ''x-api-key'', ''x-amz-security-token'']"

definition hash_item :: "(string \<Rightarrow> nat list) \<Rightarrow> json \<Rightarrow> json" where
  "hash_item sha v = (case v of JStr s \<Rightarrow> JStr (hashValue sha s) | _ \<Rightarrow> v)"

text \<open>The value under a sensitive key; \<open>w\<close> is the value the general walk gives.\<close>

definition redact_secret :: "(string \<Rightarrow> nat list) \<Rightarrow> json \<Rightarrow> json \<Rightarrow> json" where
  "redact_secret sha v w = (case v of
     JStr s \<Rightarrow> JStr (hashValue sha s)
   | JArr items \<Rightarrow> JArr (map (hash_item sha) items)
   | _ \<Rightarrow> w)"

fun walkAndRedact :: "(string \<Rightarrow> nat list) \<Rightarrow> json \<Rightarrow> json" where
  "walkAndRedact sha (JStr s) = JStr (redactString sha s)"
| "walkAndRedact sha (JObj kvs) =
     JObj (map (\<lambda>(key, v). (key, if sensitive_key key then redact_secret sha v (walkAndRedact sha v)
                                  else walkAndRedact sha v)) kvs)"
| "walkAndRedact sha (JArr vs) = JArr (map (walkAndRedact sha) vs)"
| "walkAndRedact sha v = v"

text \<open>All strings of a value; the strings that stand under a sensitive key, directly or in a list; and the values
  whose lists under sensitive keys hold strings only.\<close>

fun json_strings :: "json \<Rightarrow> string list" where
  "json_strings (JStr s) = [s]"
| "json_strings (JArr vs) = concat (map json_strings vs)"
| "json_strings (JObj kvs) = concat (map (\<lambda>(k, v). json_strings v) kvs)"
| "json_strings _ = []"

definition direct_strings :: "json \<Rightarrow> string list" where
  "direct_strings v = (case v of JStr s \<Rightarrow> [s]
     | JArr vs \<Rightarrow> List.map_filter (\<lambda>i. case i of JStr s \<Rightarrow> Some s | _ \<Rightarrow> None) vs | _ \<Rightarrow> [])"

fun json_secrets :: "json \<Rightarrow> string list" where
  "json_secrets (JArr vs) = concat (map json_secrets vs)"
| "json_secrets (JObj kvs) =
     concat (map (\<lambda>(k, v). (if sensitive_key k then direct_strings v else []) @ json_secrets v) kvs)"
| "json_secrets _ = []"

definition is_text :: "json \<Rightarrow> bool" where
  "is_text v \<longleftrightarrow> (case v of JStr s \<Rightarrow> True | _ \<Rightarrow> False)"

fun plain_lists :: "json \<Rightarrow> bool" where
  "plain_lists (JArr vs) = list_all plain_lists vs"
| "plain_lists (JObj kvs) = list_all (\<lambda>(k, v). plain_lists v \<and>
     (sensitive_key k \<longrightarrow> (case v of JArr items \<Rightarrow> list_all is_text items | _ \<Rightarrow> True))) kvs"
| "plain_lists _ = True"

lemma hashValue_clean: "no_match bearer_match (hashValue sha s)" "no_match jwt_match (hashValue sha s)"
proof -
  have "bearer_match (drop k (hashValue sha s)) = None \<and> jwt_match (drop k (hashValue sha s)) = None" for k
  proof (cases "k < length (hashValue sha s)")
    case True
    then show ?thesis using hash_free [of k sha s "[]"] by simp
  qed (simp add: bearer_match_def jwt_match_def jwt_ey_def to_lower_def)
  then show "no_match bearer_match (hashValue sha s)" "no_match jwt_match (hashValue sha s)"
    by (simp_all add: no_match_def)
qed

lemma is_text_iff: "is_text v \<longleftrightarrow> (\<exists>s. v = JStr s)"
  by (cases v) (simp_all add: is_text_def)

lemma hash_items:
  assumes "list_all is_text items"
  shows "t \<in> set (json_strings (JArr (map (hash_item sha) items))) \<Longrightarrow> \<exists>s. t = hashValue sha s"
    "json_secrets (JArr (map (hash_item sha) items)) = []"
    "t \<in> set (direct_strings (JArr (map (hash_item sha) items))) \<Longrightarrow> \<exists>s. t = hashValue sha s"
proof -
  have "\<exists>ss. items = map JStr ss"
    using assms by (induction items) (auto simp: is_text_iff, metis list.simps(9))
  then obtain ss where "items = map JStr ss" by blast
  then have h: "map (hash_item sha) items = map JStr (map (hashValue sha) ss)" by (simp add: hash_item_def)
  have c: "concat (map json_strings (map JStr ss)) = ss" "concat (map json_secrets (map JStr ss)) = []"
    "direct_strings (JArr (map JStr ss)) = ss" for ss
    by (induction ss) (simp_all add: direct_strings_def List.map_filter_simps)
  show "t \<in> set (json_strings (JArr (map (hash_item sha) items))) \<Longrightarrow> \<exists>s. t = hashValue sha s"
    "json_secrets (JArr (map (hash_item sha) items)) = []"
    "t \<in> set (direct_strings (JArr (map (hash_item sha) items))) \<Longrightarrow> \<exists>s. t = hashValue sha s"
    unfolding h json_strings.simps json_secrets.simps c by auto
qed

text \<open>In a redacted event no string holds a bearer token or a JWT, and every string under a sensitive key,
  directly or in a list, is the hash of something, provided the lists under sensitive keys hold strings only (the
  other items of such a list are stored as they are).\<close>

theorem walk_redacts:
  assumes "plain_lists v"
  shows "(\<forall>t\<in>set (json_strings (walkAndRedact sha v)). no_match bearer_match t \<and> no_match jwt_match t) \<and>
    (\<forall>t\<in>set (json_secrets (walkAndRedact sha v)). \<exists>s. t = hashValue sha s)"
  using assms
proof (induction sha v rule: walkAndRedact.induct)
  case (2 sha kvs)
  define g where "g k v = (if sensitive_key k then redact_secret sha v (walkAndRedact sha v) else walkAndRedact sha v)"
    for k v
  have "(\<forall>t\<in>set (json_strings (g k v)). no_match bearer_match t \<and> no_match jwt_match t) \<and>
      (\<forall>t\<in>set (json_secrets (g k v)). \<exists>s. t = hashValue sha s) \<and>
      (sensitive_key k \<longrightarrow> (\<forall>t\<in>set (direct_strings (g k v)). \<exists>s. t = hashValue sha s))"
    if kv: "(k, v) \<in> set kvs" for k v
  proof -
    have pl: "plain_lists v" and tl: "sensitive_key k \<Longrightarrow> (case v of JArr items \<Rightarrow> list_all is_text items | _ \<Rightarrow> True)"
      using "2.prems"(1) kv by (auto simp: list_all_iff)
    have ih: "(\<forall>t\<in>set (json_strings (walkAndRedact sha v)). no_match bearer_match t \<and> no_match jwt_match t) \<and>
        (\<forall>t\<in>set (json_secrets (walkAndRedact sha v)). \<exists>s. t = hashValue sha s)"
      using "2.IH" [OF kv refl] pl by (cases "sensitive_key k") blast+
    show ?thesis
    proof (cases "sensitive_key k")
      case True
      show ?thesis
      proof (cases v)
        case (JArr items)
        then have "list_all is_text items" using tl True by simp
        then show ?thesis
          using JArr True hash_items hashValue_clean by (fastforce simp: g_def redact_secret_def)
      qed (use True ih in \<open>auto simp: g_def redact_secret_def hashValue_clean direct_strings_def\<close>)
    qed (use ih in \<open>simp add: g_def\<close>)
  qed
  moreover have "walkAndRedact sha (JObj kvs) = JObj (map (\<lambda>(k, v). (k, g k v)) kvs)" by (simp add: g_def)
  ultimately show ?case
    by (simp only: json_strings.simps json_secrets.simps map_map) (fastforce split: if_splits)
qed (auto simp: redactString_clean list_all_iff)

theorem walk_redacts_witness:
  "let v = JObj [(''method'', JStr ''GET''),
      (''headers'', JObj [(''Cookie'', JArr [JStr ''a=b'']), (''X-Api-Key'', JStr ''k1'')])] in
   plain_lists v \<and>
   (\<forall>t\<in>set (json_strings (walkAndRedact (\<lambda>_. [171]) v)). no_match bearer_match t \<and> no_match jwt_match t) \<and>
   (\<forall>t\<in>set (json_secrets (walkAndRedact (\<lambda>_. [171]) v)). \<exists>s. t = hashValue (\<lambda>_. [171]) s)"
proof -
  have "plain_lists (JObj [(''method'', JStr ''GET''),
      (''headers'', JObj [(''Cookie'', JArr [JStr ''a=b'']), (''X-Api-Key'', JStr ''k1'')])])" by code_simp
  from this walk_redacts [OF this, of "\<lambda>_. [171]"] show ?thesis unfolding Let_def by blast
qed

text \<open>What is left: an item that is not a string stays as it is in a list under a sensitive key, and the first of
  two tokens hides the second.\<close>

lemma list_items_kept:
  "sensitive_key k \<Longrightarrow> \<not> is_text v \<Longrightarrow> walkAndRedact sha (JObj [(k, JArr [v])]) = JObj [(k, JArr [v])]"
  by (cases v) (simp_all add: redact_secret_def hash_item_def is_text_def)

lemma second_token_kept:
  "redactString (\<lambda>_. [171]) ''Bearer Bearer tok'' = ''Bearer [REDACTED sha256:ab] tok''"
  by code_simp

end
