(* ===== verification/Knowledge.thy ===== *)
theory Knowledge
  imports Sanitizer Complex_Main
begin

text \<open>
  Analyst knowledge, \<open>pkg/knowledge\<close>: the decay of weights (\<open>decay.go\<close>), the signature of a pattern
  (\<open>signature.go\<close>), the store of decisions (\<open>store.go\<close>) and the priority computed from it (\<open>priority.go\<close>).
  Weights are \<open>float64\<close> in the code and real numbers here; \<open>math.Exp\<close> is the parameter \<open>expf\<close>, of
  which nothing is assumed. The clock readings of one recording are one instant. Products of counts wrap at 64 bits.
\<close>

section \<open>Decay\<close>

record knowledge_decay =
  kd_confirmed :: gotime
  kd_observed :: gotime
  kd_half_life :: int
  kd_current :: real
  kd_min :: real

definition CalculateDecayedWeight :: "(real \<Rightarrow> real) \<Rightarrow> knowledge_decay \<Rightarrow> gotime \<Rightarrow> real \<Rightarrow> real" where
  "CalculateDecayedWeight expf decay now originalWeight =
     (if kd_half_life decay \<le> 0 then originalWeight
      else let ageDays = real_of_int (time_sub now (kd_confirmed decay)) / real_of_int hour / 24;
               age = (if ageDays < 0 then 0 else ageDays);
               newWeight = originalWeight * expf (- age / real_of_int (kd_half_life decay))
           in if newWeight < kd_min decay then kd_min decay else newWeight)"

definition int_of_float :: "real \<Rightarrow> int" where
  "int_of_float x = (if 0 \<le> x then \<lfloor>x\<rfloor> else \<lceil>x\<rceil>)"

section \<open>Signatures and decisions\<close>

record pattern_signature =
  ps_method :: string
  ps_route :: string
  ps_status :: int
  ps_ctype :: string
  ps_tags :: "string list"

definition signature_text :: "pattern_signature \<Rightarrow> string" where
  "signature_text s = join ''|'' [ps_method s, ps_route s, itoa (ps_status s), ps_ctype s, join '','' (ps_tags s)]"

definition signature_hash :: "(string \<Rightarrow> nat list) \<Rightarrow> pattern_signature \<Rightarrow> string" where
  "signature_hash sha s = sha_hex sha (signature_text s)"

datatype decision_type = DecisionApproved | DecisionRejected | DecisionConfirmed | DecisionDismissed | OtherDecision string

record analyst_decision =
  ad_id :: string
  ad_decision :: decision_type
  ad_confidence :: int
  ad_evidence :: int

datatype knowledge_scope = ScopeScan | ScopeTarget | ScopeGlobal | ScopeCampaign | OtherScope string

record knowledge_context =
  kc_target :: string
  kc_project :: string
  kc_campaign :: string

record knowledge_entry =
  ke_hash :: string
  ke_decision :: string
  ke_target :: string
  ke_project :: string
  ke_campaign :: string
  ke_scope :: knowledge_scope
  ke_decay :: knowledge_decay
  ke_created :: gotime
  ke_expires :: gotime

record diff_memory =
  dm_fingerprint :: string
  dm_seen :: int
  dm_last :: gotime
  dm_action :: string

record memory_store =
  ms_entries :: "(string, knowledge_entry list) gomap"
  ms_diffs :: "(string, diff_memory) gomap"

section \<open>The store\<close>

definition NewMemoryStore :: memory_store where
  "NewMemoryStore = \<lparr>ms_entries = gm_make, ms_diffs = gm_make\<rparr>"

definition int64_times :: "int \<Rightarrow> int \<Rightarrow> int" where
  "int64_times a b = sint (word_of_int (a * b) :: 64 word)"

definition initial_weight :: "analyst_decision \<Rightarrow> int" where
  "initial_weight d =
     (if ad_decision d \<in> {DecisionConfirmed, DecisionApproved} then
        let w = int64_times (ad_confidence d) (ad_evidence d) in if w = 0 then 5 else w
      else if ad_decision d \<in> {DecisionRejected, DecisionDismissed} then - 5
      else 0)"

definition new_entry ::
  "gotime \<Rightarrow> analyst_decision \<Rightarrow> string \<Rightarrow> knowledge_context \<Rightarrow> knowledge_scope \<Rightarrow> knowledge_entry" where
  "new_entry now d h ctx scope =
     \<lparr>ke_hash = h, ke_decision = ad_id d, ke_target = kc_target ctx, ke_project = kc_project ctx, ke_campaign = '''',
      ke_scope = scope,
      ke_decay = \<lparr>kd_confirmed = now, kd_observed = now, kd_half_life = 30,
                  kd_current = real_of_int (initial_weight d), kd_min = 5\<rparr>,
      ke_created = now, ke_expires = now + 90 * 24 * hour\<rparr>"

definition maxPerHash :: nat where "maxPerHash = 100"

definition keep_recent :: "gotime \<Rightarrow> knowledge_entry list \<Rightarrow> knowledge_entry list" where
  "keep_recent now es =
     (let cleaned = filter (\<lambda>e. now < ke_expires e) es
      in if maxPerHash \<le> length cleaned then drop (length cleaned - maxPerHash + 1) cleaned else cleaned)"

definition entries_of :: "memory_store \<Rightarrow> string \<Rightarrow> knowledge_entry list" where
  "entries_of st h = (case gm_get (ms_entries st) h of None \<Rightarrow> [] | Some es \<Rightarrow> es)"

definition RecordDecision ::
  "(string \<Rightarrow> nat list) \<Rightarrow> gotime \<Rightarrow> analyst_decision \<Rightarrow> pattern_signature \<Rightarrow> knowledge_context \<Rightarrow> knowledge_scope
   \<Rightarrow> memory_store \<Rightarrow> memory_store option" where
  "RecordDecision sha now d sig ctx scope st =
     (let h = signature_hash sha sig in
      map_option (\<lambda>m. st\<lparr>ms_entries := m\<rparr>)
        (gm_put (ms_entries st) h (keep_recent now (entries_of st h) @ [new_entry now d h ctx scope])))"

definition RecordDiffMemory :: "diff_memory \<Rightarrow> memory_store \<Rightarrow> memory_store option" where
  "RecordDiffMemory mem st = map_option (\<lambda>m. st\<lparr>ms_diffs := m\<rparr>) (gm_put (ms_diffs st) (dm_fingerprint mem) mem)"

definition LookupDiffMemory :: "string \<Rightarrow> memory_store \<Rightarrow> diff_memory option" where
  "LookupDiffMemory h st = gm_get (ms_diffs st) h"

definition entry_visible :: "knowledge_context \<Rightarrow> gotime \<Rightarrow> knowledge_entry \<Rightarrow> bool" where
  "entry_visible ctx t e \<longleftrightarrow>
     \<not> (ke_scope e = ScopeTarget \<and> ke_target e \<noteq> kc_target ctx) \<and>
     \<not> (ke_scope e = ScopeScan \<and> (ke_target e \<noteq> kc_target ctx \<or> ke_project e \<noteq> kc_project ctx)) \<and>
     \<not> (ke_scope e = ScopeCampaign \<and> (ke_target e \<noteq> kc_target ctx \<or> ke_campaign e \<noteq> kc_campaign ctx)) \<and>
     \<not> t > ke_expires e"

definition lookup_step ::
  "(real \<Rightarrow> real) \<Rightarrow> knowledge_context \<Rightarrow> gotime \<Rightarrow> int \<times> int \<Rightarrow> knowledge_entry \<Rightarrow> int \<times> int" where
  "lookup_step expf ctx t = (\<lambda>(boost, penalty) e.
     if \<not> entry_visible ctx t e then (boost, penalty)
     else let w = int_of_float (CalculateDecayedWeight expf (ke_decay e) t (kd_current (ke_decay e)))
          in if w > 0 then (boost + w, penalty) else if w < 0 then (boost, penalty + (- w)) else (boost, penalty))"

text \<open>The confidence boost and the penalty.\<close>

definition LookupPattern ::
  "(string \<Rightarrow> nat list) \<Rightarrow> (real \<Rightarrow> real) \<Rightarrow> pattern_signature \<Rightarrow> knowledge_context \<Rightarrow> gotime \<Rightarrow> memory_store
   \<Rightarrow> int \<times> int" where
  "LookupPattern sha expf sig ctx t st = foldl (lookup_step expf ctx t) (0, 0) (entries_of st (signature_hash sha sig))"

section \<open>Priorities\<close>

record knowledge_policy =
  kp_max_influence :: int
  kp_min_samples :: int

record priority_reason =
  pr_source :: string
  pr_value :: int
  pr_reference :: string

definition influence :: "int \<Rightarrow> int \<Rightarrow> int" where
  "influence maxInf netBoost = (if netBoost > maxInf then maxInf else if netBoost < - maxInf then - maxInf else netBoost)"

definition Calculate :: "int \<Rightarrow> int \<times> int \<Rightarrow> knowledge_policy \<Rightarrow> int \<times> priority_reason list" where
  "Calculate basePriority kResult policy =
     (let (boost, penalty) = kResult;
          base = [\<lparr>pr_source = ''Base Priority'', pr_value = basePriority, pr_reference = ''Evidence + RiskScore''\<rparr>];
          samples = go_div (boost + penalty) 5
      in if samples < kp_min_samples policy then
           (basePriority,
            if samples > 0 then base @ [\<lparr>pr_source = ''Analyst Knowledge'', pr_value = 0,
              pr_reference = ''Ignored knowledge: Below boost threshold ('' @ itoa samples @ '' < ''
                @ itoa (kp_min_samples policy) @ '')''\<rparr>] else base)
         else let net = influence (kp_max_influence policy) (boost - penalty)
              in (basePriority + net,
                  if net \<noteq> 0 then base @ [\<lparr>pr_source = ''Analyst Knowledge'', pr_value = net,
                    pr_reference = ''Calculated from '' @ itoa samples @ '' feedback samples''\<rparr>] else base))"

section \<open>What recorded knowledge does\<close>

type_synonym recording = "gotime \<times> analyst_decision \<times> pattern_signature \<times> knowledge_context \<times> knowledge_scope"

fun record_all :: "(string \<Rightarrow> nat list) \<Rightarrow> recording list \<Rightarrow> memory_store \<Rightarrow> memory_store option" where
  "record_all sha [] st = Some st"
| "record_all sha ((now, d, sig, ctx, scope) # rs) st =
     (case RecordDecision sha now d sig ctx scope st of None \<Rightarrow> None | Some st' \<Rightarrow> record_all sha rs st')"

definition store_wf :: "memory_store \<Rightarrow> bool" where
  "store_wf st \<longleftrightarrow> ms_entries st \<noteq> None \<and>
     (\<forall>h. length (entries_of st h) \<le> maxPerHash \<and>
          (\<forall>e \<in> set (entries_of st h). kd_min (ke_decay e) = 5 \<and> 0 < kd_half_life (ke_decay e) \<and> ke_campaign e = ''''))"

lemma keep_recent_facts:
  "set (keep_recent now es) \<subseteq> set es" "length (keep_recent now es) < maxPerHash"
  by (auto simp: keep_recent_def Let_def maxPerHash_def dest: in_set_dropD)

lemma RecordDecision_wf:
  assumes "store_wf st"
  obtains st' where "RecordDecision sha now d sig ctx scope st = Some st'" "store_wf st'"
    "entries_of st' (signature_hash sha sig) = keep_recent now (entries_of st (signature_hash sha sig))
       @ [new_entry now d (signature_hash sha sig) ctx scope]"
proof -
  define h where "h = signature_hash sha sig"
  define es where "es = keep_recent now (entries_of st h) @ [new_entry now d h ctx scope]"
  obtain m where m: "gm_put (ms_entries st) h es = Some m" "m \<noteq> None"
    using assms gm_putE [of "ms_entries st" h es] by (auto simp: store_wf_def)
  have e: "entries_of (st\<lparr>ms_entries := m\<rparr>) k = (if k = h then es else entries_of st k)" for k
    using m(1) by (simp add: entries_of_def gm_get_put)
  have "store_wf (st\<lparr>ms_entries := m\<rparr>)"
    using assms m(2) keep_recent_facts [of now "entries_of st h"]
    unfolding store_wf_def e es_def by (auto simp: new_entry_def)
  with m e show thesis by (intro that [of "st\<lparr>ms_entries := m\<rparr>"]) (simp_all add: RecordDecision_def Let_def h_def es_def)
qed

lemma record_all_wf: "store_wf st \<Longrightarrow> \<exists>st'. record_all sha rs st = Some st' \<and> store_wf st'"
proof (induction rs arbitrary: st)
  case (Cons r rs)
  obtain now d sig ctx scope where r: "r = (now, d, sig, ctx, scope)" by (cases r) auto
  obtain st1 where "RecordDecision sha now d sig ctx scope st = Some st1" "store_wf st1"
    using RecordDecision_wf [OF Cons.prems] by blast
  then show ?case using Cons.IH r by auto
qed simp

lemma store_wf_new: "store_wf NewMemoryStore"
  by (simp add: store_wf_def NewMemoryStore_def entries_of_def gm_get_make gm_make_def gm_get_def)

lemma decayed_at_least: "0 < kd_half_life k \<Longrightarrow> kd_min k \<le> CalculateDecayedWeight expf k now w"
  by (simp add: CalculateDecayedWeight_def Let_def)

lemma lookup_fold_bounds:
  "\<forall>e \<in> set es. kd_min (ke_decay e) = 5 \<and> 0 < kd_half_life (ke_decay e) \<Longrightarrow>
   \<exists>b. foldl (lookup_step expf ctx t) (x, p) es = (x + b, p) \<and> b \<ge> 5 * int (length (filter (entry_visible ctx t) es))"
proof (induction es arbitrary: x)
  case (Cons e es)
  define w where "w = int_of_float (CalculateDecayedWeight expf (ke_decay e) t (kd_current (ke_decay e)))"
  have "5 \<le> CalculateDecayedWeight expf (ke_decay e) t (kd_current (ke_decay e))"
    using decayed_at_least [of "ke_decay e" expf t "kd_current (ke_decay e)"] Cons.prems by simp
  then have w: "5 \<le> w" unfolding w_def int_of_float_def by (simp add: le_floor_iff)
  define x' where "x' = (if entry_visible ctx t e then x + w else x)"
  have s: "lookup_step expf ctx t (x, p) e = (x', p)"
    using w by (simp add: lookup_step_def x'_def flip: w_def)
  obtain b where "foldl (lookup_step expf ctx t) (x', p) es = (x' + b, p)"
    "b \<ge> 5 * int (length (filter (entry_visible ctx t) es))"
    using Cons.IH [of x'] Cons.prems by auto
  then show ?case using s w by (auto simp: x'_def intro: exI [of _ "w + b"] exI [of _ b])
qed simp

lemma influence_bounds: "0 \<le> m \<Longrightarrow> - m \<le> influence m n \<and> influence m n \<le> m"
  by (simp add: influence_def)

lemma Calculate_priority:
  "fst (Calculate base (boost, penalty) policy) =
   base + (if go_div (boost + penalty) 5 < kp_min_samples policy then 0
           else influence (kp_max_influence policy) (boost - penalty))"
  by (simp add: Calculate_def Let_def)

text \<open>Whatever decisions were recorded, the store never yields a penalty, and the priority computed from it is
  never below the base priority nor more than the maximal influence above it: the decisions of an analyst to reject
  or dismiss raise priorities like the others, because the minimal weight of every entry is 5.\<close>

theorem knowledge_only_raises:
  assumes "0 \<le> kp_max_influence policy"
  shows "\<exists>st. record_all sha rs NewMemoryStore = Some st \<and>
    snd (LookupPattern sha expf sig ctx t st) = 0 \<and>
    base \<le> fst (Calculate base (LookupPattern sha expf sig ctx t st) policy) \<and>
    fst (Calculate base (LookupPattern sha expf sig ctx t st) policy) \<le> base + kp_max_influence policy"
proof -
  obtain st where st: "record_all sha rs NewMemoryStore = Some st" "store_wf st"
    using record_all_wf [OF store_wf_new] by blast
  obtain b where b: "LookupPattern sha expf sig ctx t st = (b, 0)" "0 \<le> b"
    using lookup_fold_bounds [of "entries_of st (signature_hash sha sig)" expf ctx t 0 0] st(2)
    by (force simp: LookupPattern_def store_wf_def)
  then have "0 \<le> influence (kp_max_influence policy) b" using assms by (simp add: influence_def)
  then show ?thesis using st b influence_bounds [OF assms, of b] assms by (simp add: Calculate_priority)
qed

theorem knowledge_only_raises_witness:
  "0 \<le> kp_max_influence \<lparr>kp_max_influence = 15, kp_min_samples = 1\<rparr> \<and>
   (\<exists>st. record_all (\<lambda>_. [7]) [(0, \<lparr>ad_id = ''d'', ad_decision = DecisionRejected, ad_confidence = 9, ad_evidence = 9\<rparr>,
        \<lparr>ps_method = ''GET'', ps_route = ''/a'', ps_status = 200, ps_ctype = '''', ps_tags = []\<rparr>,
        \<lparr>kc_target = ''t'', kc_project = ''p'', kc_campaign = ''''\<rparr>, ScopeTarget)] NewMemoryStore = Some st \<and>
    snd (LookupPattern (\<lambda>_. [7]) (\<lambda>_. 1) \<lparr>ps_method = ''GET'', ps_route = ''/a'', ps_status = 200, ps_ctype = '''', ps_tags = []\<rparr>
      \<lparr>kc_target = ''t'', kc_project = ''p'', kc_campaign = ''''\<rparr> 0 st) = 0)"
  using knowledge_only_raises [of "\<lparr>kp_max_influence = 15, kp_min_samples = 1\<rparr>" "\<lambda>_. [7]"
      "[(0, \<lparr>ad_id = ''d'', ad_decision = DecisionRejected, ad_confidence = 9, ad_evidence = 9\<rparr>,
        \<lparr>ps_method = ''GET'', ps_route = ''/a'', ps_status = 200, ps_ctype = '''', ps_tags = []\<rparr>,
        \<lparr>kc_target = ''t'', kc_project = ''p'', kc_campaign = ''''\<rparr>, ScopeTarget)]" "\<lambda>_. 1"
      "\<lparr>ps_method = ''GET'', ps_route = ''/a'', ps_status = 200, ps_ctype = '''', ps_tags = []\<rparr>"
      "\<lparr>kc_target = ''t'', kc_project = ''p'', kc_campaign = ''''\<rparr>" 0]
  by auto

lemma keep_recent_news:
  assumes "length old + length news < maxPerHash \<or> length old + length news = maxPerHash \<and> length news < maxPerHash"
    "\<forall>e \<in> set news. now < ke_expires e"
  shows "\<exists>old'. keep_recent now (old @ news) = old' @ news \<and> length old' + length news < maxPerHash"
proof -
  define f where "f = filter (\<lambda>e. now < ke_expires e) old"
  have c: "filter (\<lambda>e. now < ke_expires e) (old @ news) = f @ news" using assms(2) by (simp add: f_def)
  have l: "length f \<le> length old" by (simp add: f_def)
  show ?thesis
  proof (cases "maxPerHash \<le> length (f @ news)")
    case True
    then have "length (f @ news) = maxPerHash" "length news < maxPerHash" using assms(1) l by auto
    then have "keep_recent now (old @ news) = drop 1 f @ news \<and> length (drop 1 f) + length news < maxPerHash"
      unfolding keep_recent_def c Let_def by (cases f) (auto simp: maxPerHash_def)
    then show ?thesis by blast
  next
    case False
    then show ?thesis unfolding keep_recent_def c Let_def by auto
  qed
qed

definition recordings_at :: "gotime \<Rightarrow> pattern_signature \<Rightarrow> (analyst_decision \<times> knowledge_context) list \<Rightarrow> recording list" where
  "recordings_at now sig ds = map (\<lambda>(d, c). (now, d, sig, c, ScopeTarget)) ds"

lemma record_all_append:
  "record_all sha (rs @ ss) st = (case record_all sha rs st of None \<Rightarrow> None | Some st' \<Rightarrow> record_all sha ss st')"
  by (induction rs arbitrary: st) (auto split: option.split prod.split)

lemma newest_stay:
  assumes "store_wf st" "entries_of st h = old @ news" "length old + length news \<le> maxPerHash"
    "h = signature_hash sha sig" "\<forall>e \<in> set news. now < ke_expires e" "length news + length ds \<le> maxPerHash"
  shows "\<exists>st' old'. record_all sha (recordings_at now sig ds) st = Some st' \<and> store_wf st' \<and>
    entries_of st' h = old' @ news @ map (\<lambda>(d, c). new_entry now d h c ScopeTarget) ds \<and>
    length old' + length news + length ds \<le> maxPerHash"
  using assms
proof (induction ds arbitrary: st old news)
  case Nil
  then show ?case by (auto simp: recordings_at_def)
next
  case (Cons dc ds)
  obtain d c where dc: "dc = (d, c)" by fastforce
  obtain st1 where s: "RecordDecision sha now d sig c ScopeTarget st = Some st1" "store_wf st1"
    "entries_of st1 h = keep_recent now (old @ news) @ [new_entry now d h c ScopeTarget]"
    using RecordDecision_wf [OF Cons.prems(1), of sha now d sig c ScopeTarget] Cons.prems(2,4) by metis
  obtain old1 where o: "keep_recent now (old @ news) = old1 @ news" "length old1 + length news < maxPerHash"
    using keep_recent_news [of old news now] Cons.prems(3,5,6) by fastforce
  define news1 where "news1 = news @ [new_entry now d h c ScopeTarget]"
  have "now < ke_expires (new_entry now d h c ScopeTarget)" by (simp add: new_entry_def duration_defs)
  then have f: "\<forall>e \<in> set news1. now < ke_expires e" using Cons.prems(5) by (simp add: news1_def)
  have "entries_of st1 h = old1 @ news1" using s(3) o(1) by (simp add: news1_def)
  then obtain st' old' where "record_all sha (recordings_at now sig ds) st1 = Some st'" "store_wf st'"
    "entries_of st' h = old' @ news1 @ map (\<lambda>(d, c). new_entry now d h c ScopeTarget) ds"
    "length old' + length news1 + length ds \<le> maxPerHash"
    using Cons.IH [OF s(2) _ _ Cons.prems(4) f] o(2) Cons.prems(6) by (fastforce simp: news1_def)
  then show ?case using s(1) dc by (auto simp: recordings_at_def news1_def)
qed

text \<open>The knowledge about a target is not isolated from the decisions about other targets: after a hundred
  decisions on the same pattern scoped to other targets, the lookup finds nothing of what was recorded before,
  whatever it was.\<close>

theorem foreign_decisions_evict:
  assumes "100 \<le> length ds" "\<forall>(d, c) \<in> set ds. kc_target c \<noteq> kc_target ctx"
  shows "\<exists>st. record_all sha (rs @ recordings_at now sig ds) NewMemoryStore = Some st \<and>
    LookupPattern sha expf sig ctx t st = (0, 0)"
proof -
  define ds1 ds2 where "ds1 = take (length ds - 100) ds" and "ds2 = drop (length ds - 100) ds"
  have l: "length ds2 = maxPerHash" using assms(1) by (simp add: ds2_def maxPerHash_def)
  have sp: "recordings_at now sig ds = recordings_at now sig ds1 @ recordings_at now sig ds2"
    unfolding recordings_at_def ds1_def ds2_def by (simp flip: map_append)
  define h where "h = signature_hash sha sig"
  obtain st1 where s1: "record_all sha (rs @ recordings_at now sig ds1) NewMemoryStore = Some st1" "store_wf st1"
    using record_all_wf [OF store_wf_new] by blast
  have "length (entries_of st1 h) \<le> maxPerHash" using s1(2) by (simp add: store_wf_def)
  then obtain st2 old where s2: "record_all sha (recordings_at now sig ds2) st1 = Some st2"
    "entries_of st2 h = old @ [] @ map (\<lambda>(d, c). new_entry now d h c ScopeTarget) ds2"
    "length old + length ([] :: knowledge_entry list) + length ds2 \<le> maxPerHash"
    using newest_stay [OF s1(2), of h "entries_of st1 h" "[]" sha sig now ds2] l h_def by auto
  have e: "entries_of st2 h = map (\<lambda>(d, c). new_entry now d h c ScopeTarget) ds2" using s2 l by simp
  have "\<forall>e \<in> set (entries_of st2 h). \<not> entry_visible ctx t e"
    unfolding e using assms(2) by (auto simp: entry_visible_def new_entry_def ds2_def dest!: in_set_dropD)
  moreover have "\<forall>e \<in> set es. \<not> entry_visible ctx t e \<Longrightarrow> foldl (lookup_step expf ctx t) (0, 0) es = (0, 0)" for es
    by (induction es) (simp_all add: lookup_step_def)
  ultimately have "LookupPattern sha expf sig ctx t st2 = (0, 0)" by (simp add: LookupPattern_def h_def)
  moreover have "record_all sha (rs @ recordings_at now sig ds) NewMemoryStore = Some st2"
    unfolding sp append_assoc [symmetric] by (subst record_all_append) (simp add: s1 s2)
  ultimately show ?thesis by blast
qed

theorem foreign_decisions_evict_witness:
  "let d = \<lparr>ad_id = ''d'', ad_decision = DecisionApproved, ad_confidence = 9, ad_evidence = 9\<rparr>;
       sig = \<lparr>ps_method = ''GET'', ps_route = ''/a'', ps_status = 200, ps_ctype = '''', ps_tags = []\<rparr>;
       c1 = \<lparr>kc_target = ''t'', kc_project = ''p'', kc_campaign = ''''\<rparr>;
       c2 = \<lparr>kc_target = ''u'', kc_project = ''p'', kc_campaign = ''''\<rparr>
   in \<exists>st. record_all (\<lambda>_. [7]) ([(0, d, sig, c1, ScopeTarget)] @ recordings_at 1 sig (replicate 100 (d, c2))) NewMemoryStore
        = Some st \<and> LookupPattern (\<lambda>_. [7]) (\<lambda>_. 1) sig c1 2 st = (0, 0)"
  unfolding Let_def by (rule foreign_decisions_evict) auto

lemma campaign_entries_unseen:
  "store_wf st \<Longrightarrow> e \<in> set (entries_of st h) \<Longrightarrow> ke_scope e = ScopeCampaign \<Longrightarrow> kc_campaign ctx \<noteq> '''' \<Longrightarrow>
   \<not> entry_visible ctx t e"
  by (force simp: store_wf_def entry_visible_def)

end
