(* ===== verification/Findings.thy ===== *)
theory Findings
  imports Sanitizer
begin

text \<open>
  Findings and what is made of them: the states of a finding (\<open>pkg/engine/finding.go\<close>), the suggestions of the
  playbooks (\<open>pkg/playbook\<close>), the deduplication of validations (\<open>pkg/validation\<close>), the report of a finding
  (\<open>pkg/report\<close>) and the snapshots of a replay (\<open>pkg/replay\<close>). SHA-256 and the JSON form of an artifact
  are parameters.
\<close>

section \<open>The states of a finding\<close>

text \<open>A status is a string; these are the declared ones.\<close>

definition FindingNew :: string where "FindingNew = ''new''"
definition FindingReview :: string where "FindingReview = ''review''"
definition FindingConfirmed :: string where "FindingConfirmed = ''confirmed''"
definition FindingRejected :: string where "FindingRejected = ''rejected''"
definition FindingDuplicate :: string where "FindingDuplicate = ''duplicate''"
definition FindingFixed :: string where "FindingFixed = ''fixed''"

lemmas finding_statuses = FindingNew_def FindingReview_def FindingConfirmed_def FindingRejected_def
  FindingDuplicate_def FindingFixed_def

definition invalid_transition :: "string \<Rightarrow> string \<Rightarrow> string" where
  "invalid_transition st next = ''invalid transition from '' @ st @ '' to '' @ next"

definition Transition :: "string \<Rightarrow> string \<Rightarrow> string result" where
  "Transition st next =
     (if st = FindingNew \<or> st = FindingReview then
        (if next \<noteq> FindingConfirmed \<and> next \<noteq> FindingRejected then Inl (invalid_transition st next) else Inr next)
      else if st = FindingConfirmed then
        (if next \<noteq> FindingFixed \<and> next \<noteq> FindingDuplicate then Inl (invalid_transition st next) else Inr next)
      else if st = FindingDuplicate then
        (if next \<noteq> FindingReview then Inl (invalid_transition st next) else Inr next)
      else if st = FindingFixed \<or> st = FindingRejected then
        Inl (''terminal state '' @ st @ '' cannot transition to '' @ next)
      else Inr next)"

text \<open>The status after a call: an error leaves it as it was.\<close>

definition attempt :: "string \<Rightarrow> string \<Rightarrow> string" where
  "attempt st next = (case Transition st next of Inl _ \<Rightarrow> st | Inr st' \<Rightarrow> st')"

definition declared_statuses :: "string set" where
  "declared_statuses = {FindingNew, FindingReview, FindingConfirmed, FindingRejected, FindingDuplicate, FindingFixed}"

text \<open>Whether the last status of a path was reached lawfully: fixed and duplicate only from confirmed, review only
  from duplicate, and nothing after fixed or rejected.\<close>

definition lawful_step :: "string \<Rightarrow> string \<Rightarrow> bool" where
  "lawful_step st st' \<longleftrightarrow> (st, st') \<in>
     {(FindingNew, FindingConfirmed), (FindingNew, FindingRejected),
      (FindingReview, FindingConfirmed), (FindingReview, FindingRejected),
      (FindingConfirmed, FindingFixed), (FindingConfirmed, FindingDuplicate),
      (FindingDuplicate, FindingReview)}"

lemma attempt_declared:
  "st \<in> declared_statuses \<Longrightarrow> attempt st next = (if lawful_step st next then next else st)"
  by (auto simp: attempt_def Transition_def lawful_step_def declared_statuses_def finding_statuses)

lemma lawful_declared: "lawful_step st st' \<Longrightarrow> st' \<in> declared_statuses"
  by (auto simp: lawful_step_def declared_statuses_def)

lemma foldl_attempt_declared: "st \<in> declared_statuses \<Longrightarrow> foldl attempt st ns \<in> declared_statuses"
  by (induction ns arbitrary: st) (auto simp: attempt_declared lawful_declared)



lemma undeclared_status_open: "st \<notin> declared_statuses \<Longrightarrow> Transition st next = Inr next"
  by (auto simp: Transition_def declared_statuses_def)

definition GenerateDedupKey :: "string \<Rightarrow> string \<Rightarrow> string \<Rightarrow> string \<Rightarrow> string" where
  "GenerateDedupKey tgt endpoint vulnType parameter = tgt @ ''|'' @ endpoint @ ''|'' @ vulnType @ ''|'' @ parameter"

section \<open>Playbooks\<close>

record trigger_rule =
  tr_event :: string
  tr_condition :: "(string, string) gomap"

record playbook =
  pb_id :: string
  pb_triggers :: "trigger_rule list"
  pb_actions :: "string list"
  pb_enabled :: bool

record graph_event =
  ge_id :: string
  ge_type :: string
  ge_node :: string

record suggestion =
  sg_id :: string
  sg_playbook :: string
  sg_finding :: string
  sg_node :: string
  sg_validation :: string
  sg_reason :: string
  sg_confidence :: int
  sg_trigger :: string
  sg_refs :: "string list"
  sg_state :: string

definition suggestion_id :: "playbook \<Rightarrow> graph_event \<Rightarrow> string" where
  "suggestion_id pb ev = ''sg-'' @ pb_id pb @ ''-'' @ ge_id ev"

definition suggest :: "playbook \<Rightarrow> graph_event \<Rightarrow> string \<Rightarrow> string \<Rightarrow> suggestion" where
  "suggest pb ev status action =
     \<lparr>sg_id = suggestion_id pb ev, sg_playbook = pb_id pb, sg_finding = ge_node ev, sg_node = ge_node ev,
      sg_validation = action, sg_reason = ''Endpoint returned '' @ status @ '' after anonymous request'',
      sg_confidence = 85, sg_trigger = ge_id ev, sg_refs = [ge_id ev], sg_state = ''SUGGESTED''\<rparr>"

definition trigger_matches :: "graph_event \<Rightarrow> trigger_rule \<Rightarrow> bool" where
  "trigger_matches ev tr \<longleftrightarrow> tr_event tr = ge_type ev \<and> gm_get (tr_condition tr) ''status'' = Some ''403''"

definition existing :: "(string, bool) gomap \<Rightarrow> string \<Rightarrow> bool" where
  "existing m k \<longleftrightarrow> gm_get m k = Some True"

definition Evaluate :: "playbook list \<Rightarrow> graph_event \<Rightarrow> (string, bool) gomap \<Rightarrow> suggestion list" where
  "Evaluate pbs ev known =
     concat (map (\<lambda>pb. if \<not> pb_enabled pb then []
       else concat (map (\<lambda>tr. if \<not> trigger_matches ev tr then []
         else concat (map (\<lambda>action. if existing known (suggestion_id pb ev) then [] else [suggest pb ev ''403'' action])
                (pb_actions pb))) (pb_triggers pb))) pbs)"

lemma Evaluate_elements:
  "s \<in> set (Evaluate pbs ev known) \<longleftrightarrow>
   (\<exists>pb \<in> set pbs. \<exists>action \<in> set (pb_actions pb). pb_enabled pb \<and> (\<exists>tr \<in> set (pb_triggers pb). trigger_matches ev tr) \<and>
      \<not> existing known (suggestion_id pb ev) \<and> s = suggest pb ev ''403'' action)"
  by (auto simp: Evaluate_def split: if_splits)

text \<open>Two actions of a playbook, or two of its triggers that match, give two suggestions with one id.\<close>

lemma Evaluate_duplicates:
  "map sg_id (Evaluate [\<lparr>pb_id = ''p'', pb_triggers = [\<lparr>tr_event = ''E'', tr_condition = Some [(''status'', ''403'')]\<rparr>],
      pb_actions = [''AUTH_BOUNDARY'', ''METHOD''], pb_enabled = True\<rparr>]
      \<lparr>ge_id = ''e'', ge_type = ''E'', ge_node = ''n''\<rparr> None) = [''sg-p-e'', ''sg-p-e'']"
  by code_simp

definition policy_check :: "int \<Rightarrow> suggestion \<Rightarrow> suggestion list \<Rightarrow> bool" where
  "policy_check maxPerFinding s history \<longleftrightarrow>
     \<not> int (length (filter (\<lambda>h. sg_finding h = sg_finding s \<and> sg_playbook h = sg_playbook s) history)) \<ge> maxPerFinding"

section \<open>Validations\<close>

text \<open>\<open>Allow\<close> records the key of a request; it returns no error for a repeated one either.\<close>

definition Allow :: "string \<Rightarrow> (string, bool) gomap \<Rightarrow> (string, bool) gomap option" where
  "Allow key dedup = (if existing dedup key then Some dedup else gm_put dedup key True)"

record validation_request =
  vr_id :: string
  vr_finding :: string
  vr_node :: string
  vr_type :: string
  vr_reason :: string
  vr_status :: string
  vr_key :: string

definition planner_suggest :: "(string \<Rightarrow> nat list) \<Rightarrow> string \<Rightarrow> string \<Rightarrow> validation_request list" where
  "planner_suggest sha title findingID =
     (if title = ''IDOR'' \<or> title = ''403 without authentication'' then
        [\<lparr>vr_id = ''val-'' @ findingID, vr_finding = findingID, vr_node = ''node-'' @ findingID,
          vr_type = ''AUTH_BOUNDARY'', vr_reason = ''Test ownership boundary across different roles'',
          vr_status = ''PENDING'',
          vr_key = sha_hex sha (findingID @ ''|'' @ (''node-'' @ findingID) @ ''|'' @ ''AUTH_BOUNDARY'')\<rparr>]
      else [])"

section \<open>Reports\<close>

record evidence_item =
  ei_id :: string
  ei_summary :: string
  ei_hash :: string
  ei_source :: string

record report_step =
  rs_order :: int
  rs_description :: string
  rs_action :: string

record report_artifact =
  ra_id :: string
  ra_finding :: string
  ra_title :: string
  ra_severity :: string
  ra_summary :: string
  ra_impact :: string
  ra_steps :: "report_step list"
  ra_evidence :: "evidence_item list"
  ra_target :: string
  ra_created :: gotime
  ra_status :: int
  ra_hash :: string
  ra_version :: int

record finding_view =
  fv_id :: string
  fv_title :: string
  fv_severity :: string
  fv_ready :: bool
  fv_summary :: string
  fv_timeline :: "(string \<times> string) list"

definition ComputeHash :: "(string \<Rightarrow> nat list) \<Rightarrow> (report_artifact \<Rightarrow> string) \<Rightarrow> report_artifact \<Rightarrow> string" where
  "ComputeHash sha marshal a = sha_hex sha (marshal (a\<lparr>ra_hash := '''', ra_version := 0, ra_created := 0\<rparr>))"

text \<open>\<open>ArtifactDraft\<close>, \<open>ArtifactReady\<close>, \<open>ArtifactFrozen\<close>, \<open>ArtifactExported\<close> are 0 to 3.\<close>

definition artifact_transition :: "report_artifact \<Rightarrow> int \<Rightarrow> report_artifact result" where
  "artifact_transition a next =
     (if next \<le> ra_status a then Inl (''invalid transition from '' @ itoa (ra_status a) @ '' to '' @ itoa next)
      else Inr (a\<lparr>ra_status := next\<rparr>))"

fun evidence_items :: "string \<Rightarrow> nat \<Rightarrow> (string \<times> string) list \<Rightarrow> evidence_item list" where
  "evidence_items fid i [] = []"
| "evidence_items fid i ((title, source) # items) =
     \<lparr>ei_id = fid @ ''-ev-'' @ itoa (int i), ei_summary = title, ei_hash = ''mock-hash-'' @ itoa (int i), ei_source = source\<rparr>
     # evidence_items fid (Suc i) items"

definition report_build :: "(string \<Rightarrow> nat list) \<Rightarrow> (report_artifact \<Rightarrow> string) \<Rightarrow> gotime \<Rightarrow> finding_view \<Rightarrow> report_artifact result" where
  "report_build sha marshal now f =
     (if \<not> fv_ready f then Inl ''finding not exportable: missing readiness prerequisites''
      else let art = \<lparr>ra_id = ''report-'' @ fv_id f, ra_finding = fv_id f, ra_title = fv_title f,
                      ra_severity = fv_severity f, ra_summary = fv_summary f,
                      ra_impact = ''Requires explicit impact definition in real usage'',
                      ra_steps = [\<lparr>rs_order = 1, rs_description = ''Navigate to target'', rs_action = ''GET /''\<rparr>],
                      ra_evidence = evidence_items (fv_id f) 0 (fv_timeline f), ra_target = ''target.com'',
                      ra_created = now, ra_status = 0, ra_hash = '''', ra_version = 1\<rparr>
           in Inr (art\<lparr>ra_hash := ComputeHash sha marshal art\<rparr>))"

definition markdown_export :: "report_artifact \<Rightarrow> string" where
  "markdown_export a =
     ''# '' @ ra_title a @ [CHR 0x0A] @ ''**Severity**: '' @ ra_severity a @ [CHR 0x0A]
     @ ''**Target**: '' @ ra_target a @ [CHR 0x0A] @ ''**Finding ID**: '' @ ra_finding a @ [CHR 0x0A, CHR 0x0A]
     @ ''## Summary'' @ [CHR 0x0A] @ ra_summary a @ [CHR 0x0A, CHR 0x0A]
     @ ''## Impact'' @ [CHR 0x0A] @ ra_impact a @ [CHR 0x0A, CHR 0x0A] @ ''## Evidence'' @ [CHR 0x0A]
     @ concat (map (\<lambda>ev. ''- '' @ ei_summary ev @ '' (Hash: '' @ ei_hash ev @ '')'' @ [CHR 0x0A]) (ra_evidence a))"

text \<open>Building the same finding at two times gives the same hash: the hash leaves out the time, the version and
  itself. It does not leave out the status, so a transition makes the stored hash stale.\<close>

lemma report_build_deterministic:
  "map_sum id ra_hash (report_build sha marshal t1 f) = map_sum id ra_hash (report_build sha marshal t2 f)"
  by (simp add: report_build_def Let_def ComputeHash_def)

lemma report_hash_own:
  "report_build sha marshal t f = Inr a \<Longrightarrow> ra_hash a = ComputeHash sha marshal a"
  by (auto simp: report_build_def Let_def ComputeHash_def split: if_splits)

lemma artifact_transitions_grow:
  "artifact_transition a n = Inr b \<Longrightarrow> ra_status a < ra_status b \<and> b = a\<lparr>ra_status := n\<rparr>"
  by (auto simp: artifact_transition_def split: if_splits)

end
