(* ===== verification/ConcurrentMap.thy ===== *)
theory ConcurrentMap
  imports Prelude
begin

text \<open>
  The mutex-protected map of \<open>pkg/engine/concurrent_map.go\<close> under any interleaving of the goroutines that use
  it. Every critical section is one step; \<open>LoadOrStore\<close> has two, the first under the read lock and the second,
  after a miss, under the write lock. A call is recorded, with its result, in the step in which it ends.
  \<open>Range\<close> is a read of the items in one step (its callback must not write to the map).
\<close>

section \<open>Operations\<close>

datatype ('k, 'v) cm_op = CmLoad 'k | CmStore 'k 'v | CmLoadOrStore 'k 'v | CmDelete 'k | CmClear

datatype 'v cm_result = RValue "'v option" | RDone | RLoaded 'v bool

datatype ('k, 'v) cm_thread = CmIdle | CmCalled "('k, 'v) cm_op" | CmSecond 'k 'v

record ('k, 'v) cmap =
  cm_map :: "('k, 'v) gomap"
  cm_threads :: "('k, 'v) cm_thread list"
  cm_log :: "(nat \<times> ('k, 'v) cm_op \<times> 'v cm_result) list"

definition cm_Load :: "'k \<Rightarrow> ('k, 'v) gomap \<Rightarrow> 'v option" where
  "cm_Load key m = gm_get m key"

definition cm_Store :: "'k \<Rightarrow> 'v \<Rightarrow> ('k, 'v) gomap \<Rightarrow> ('k, 'v) gomap option" where
  "cm_Store key v m = gm_put m key v"

text \<open>The two critical sections of \<open>LoadOrStore\<close>: the first returns the value if there is one; the second looks
  again before it stores.\<close>

definition cm_LoadOrStore_read :: "'k \<Rightarrow> ('k, 'v) gomap \<Rightarrow> ('v \<times> bool) option" where
  "cm_LoadOrStore_read key m = map_option (\<lambda>val. (val, True)) (gm_get m key)"

definition cm_LoadOrStore_write :: "'k \<Rightarrow> 'v \<Rightarrow> ('k, 'v) gomap \<Rightarrow> (('v \<times> bool) \<times> ('k, 'v) gomap) option" where
  "cm_LoadOrStore_write key v m = (case gm_get m key of
     Some val \<Rightarrow> Some ((val, True), m)
   | None \<Rightarrow> map_option (\<lambda>m'. ((v, False), m')) (gm_put m key v))"

definition cm_Delete :: "'k \<Rightarrow> ('k, 'v) gomap \<Rightarrow> ('k, 'v) gomap" where
  "cm_Delete key m = gm_delete m key"

definition cm_Clear :: "('k, 'v) gomap" where
  "cm_Clear = gm_make"

definition NewConcurrentMap :: "nat \<Rightarrow> ('k, 'v) cmap" where
  "NewConcurrentMap n = \<lparr>cm_map = gm_make, cm_threads = replicate n CmIdle, cm_log = []\<rparr>"

definition cm_finish ::
  "nat \<Rightarrow> ('k, 'v) cm_op \<Rightarrow> 'v cm_result \<Rightarrow> ('k, 'v) gomap \<Rightarrow> ('k, 'v) cmap \<Rightarrow> ('k, 'v) cmap" where
  "cm_finish i oper r m s = s\<lparr>cm_map := m, cm_threads := (cm_threads s)[i := CmIdle], cm_log := cm_log s @ [(i, oper, r)]\<rparr>"

text \<open>One critical section of thread \<open>i\<close>.\<close>

definition cm_run :: "nat \<Rightarrow> ('k, 'v) cmap \<Rightarrow> ('k, 'v) cmap option" where
  "cm_run i s =
     (let m = cm_map s in
      if length (cm_threads s) \<le> i then None
      else case cm_threads s ! i of
        CmIdle \<Rightarrow> None
      | CmCalled oper \<Rightarrow> (case oper of
          CmLoad k \<Rightarrow> Some (cm_finish i oper (RValue (cm_Load k m)) m s)
        | CmStore k v \<Rightarrow> map_option (\<lambda>m'. cm_finish i oper RDone m' s) (cm_Store k v m)
        | CmLoadOrStore k v \<Rightarrow> (case cm_LoadOrStore_read k m of
              Some (val, ld) \<Rightarrow> Some (cm_finish i oper (RLoaded val ld) m s)
            | None \<Rightarrow> Some (s\<lparr>cm_threads := (cm_threads s)[i := CmSecond k v]\<rparr>))
        | CmDelete k \<Rightarrow> Some (cm_finish i oper RDone (cm_Delete k m) s)
        | CmClear \<Rightarrow> Some (cm_finish i oper RDone cm_Clear s))
      | CmSecond k v \<Rightarrow>
          map_option (\<lambda>((val, ld), m'). cm_finish i (CmLoadOrStore k v) (RLoaded val ld) m' s) (cm_LoadOrStore_write k v m))"

definition cm_call :: "nat \<Rightarrow> ('k, 'v) cm_op \<Rightarrow> ('k, 'v) cmap \<Rightarrow> ('k, 'v) cmap option" where
  "cm_call i oper s =
     (if i < length (cm_threads s) \<and> cm_threads s ! i = CmIdle then Some (s\<lparr>cm_threads := (cm_threads s)[i := CmCalled oper]\<rparr>)
      else None)"

inductive cm_reach :: "('k, 'v) cmap \<Rightarrow> bool" where
  start: "cm_reach (NewConcurrentMap n)"
| call: "cm_reach s \<Longrightarrow> cm_call i oper s = Some s' \<Longrightarrow> cm_reach s'"
| run: "cm_reach s \<Longrightarrow> cm_run i s = Some s' \<Longrightarrow> cm_reach s'"

section \<open>The sequential specification\<close>

text \<open>What an atomic map does: the new contents and the result.\<close>

definition spec_apply :: "('k, 'v) cm_op \<Rightarrow> ('k \<Rightarrow> 'v option) \<Rightarrow> ('k \<Rightarrow> 'v option) \<times> 'v cm_result" where
  "spec_apply oper f = (case oper of
     CmLoad k \<Rightarrow> (f, RValue (f k))
   | CmStore k v \<Rightarrow> (f(k \<mapsto> v), RDone)
   | CmLoadOrStore k v \<Rightarrow> (case f k of Some val \<Rightarrow> (f, RLoaded val True) | None \<Rightarrow> (f(k \<mapsto> v), RLoaded v False))
   | CmDelete k \<Rightarrow> (f(k := None), RDone)
   | CmClear \<Rightarrow> (\<lambda>_. None, RDone))"

text \<open>The contents after a history, if every call in it had the result of the atomic map.\<close>

fun spec_run :: "(nat \<times> ('k, 'v) cm_op \<times> 'v cm_result) list \<Rightarrow> ('k \<Rightarrow> 'v option) \<Rightarrow> ('k \<Rightarrow> 'v option) option" where
  "spec_run [] f = Some f"
| "spec_run ((i, oper, r) # h) f = (let (f', r') = spec_apply oper f in if r = r' then spec_run h f' else None)"

lemma spec_run_append:
  "spec_run (h @ [(i, oper, r)]) f =
   (case spec_run h f of None \<Rightarrow> None | Some g \<Rightarrow> (let (g', r') = spec_apply oper g in if r = r' then Some g' else None))"
  by (induction h f rule: spec_run.induct) (auto split: prod.split)

definition cm_inv :: "('k, 'v) cmap \<Rightarrow> bool" where
  "cm_inv s \<longleftrightarrow> cm_map s \<noteq> None \<and> spec_run (cm_log s) (\<lambda>_. None) = Some (gm_get (cm_map s))"

lemma gm_get_ext:
  "gm_put m k v = Some m' \<Longrightarrow> gm_get m' = (gm_get m)(k \<mapsto> v)"
  "gm_get (gm_delete m k) = (gm_get m)(k := None)"
  "gm_get gm_make = (\<lambda>_. None)"
  "gm_delete m k = None \<longleftrightarrow> m = None"
  "gm_make \<noteq> None"
  by (auto simp: gm_get_put gm_get_delete fun_eq_iff) (auto simp: gm_delete_def gm_make_def)

lemma gm_delete_made: "\<exists>m. gm_delete (Some al) k = Some m"
  by (simp add: gm_delete_def)

lemma cm_inv_finish:
  "cm_inv s \<Longrightarrow> m' \<noteq> None \<Longrightarrow> spec_apply oper (gm_get (cm_map s)) = (gm_get m', r) \<Longrightarrow> cm_inv (cm_finish i oper r m' s)"
  by (simp add: cm_inv_def cm_finish_def spec_run_append)

lemma cm_inv_threads: "cm_inv s \<Longrightarrow> cm_inv (s\<lparr>cm_threads := th\<rparr>)"
  by (simp add: cm_inv_def)

lemma cm_inv_run:
  assumes "cm_inv s" "cm_run i s = Some s'"
  shows "cm_inv s'"
proof -
  have m: "cm_map s \<noteq> None" using assms(1) by (simp add: cm_inv_def)
  have i: "i < length (cm_threads s)" using assms(2) by (auto simp: cm_run_def Let_def split: if_splits)
  note fin = cm_inv_finish [OF assms(1)]
  show ?thesis
  proof (cases "cm_threads s ! i")
    case CmIdle
    then show ?thesis using assms(2) i by (simp add: cm_run_def)
  next
    case (CmCalled oper)
    note r = assms(2) [unfolded cm_run_def Let_def CmCalled]
    show ?thesis
    proof (cases oper)
      case (CmLoad k)
      then show ?thesis using r i m by (auto intro!: fin simp: spec_apply_def cm_Load_def)
    next
      case (CmStore k v)
      then show ?thesis using r i by (auto intro!: fin simp: spec_apply_def cm_Store_def gm_get_ext dest: gm_put_not_nil)
    next
      case (CmLoadOrStore k v)
      then show ?thesis using r i m
        by (cases "gm_get (cm_map s) k")
          (auto intro!: fin cm_inv_threads assms(1) simp: spec_apply_def cm_LoadOrStore_read_def)
    next
      case (CmDelete k)
      then show ?thesis using r i m by (auto intro!: fin simp: spec_apply_def cm_Delete_def gm_get_ext gm_delete_made)
    next
      case CmClear
      then show ?thesis using r i
        by (auto intro!: fin simp: spec_apply_def cm_Clear_def gm_get_ext) (simp add: gm_make_def)
    qed
  next
    case (CmSecond k v)
    note r = assms(2) [unfolded cm_run_def Let_def CmSecond]
    show ?thesis
      using r i m
      by (cases "gm_get (cm_map s) k")
        (auto intro!: fin simp: spec_apply_def cm_LoadOrStore_write_def gm_get_ext dest: gm_put_not_nil)
  qed
qed

text \<open>C34: in every state reached by any interleaving of the calls of any number of goroutines, the calls that have
  ended, in the order in which they ended, are a history of an atomic map: every one returned what the atomic map
  returns, and the contents agree. So a \<open>LoadOrStore\<close> stores only when the key is absent at that moment, and the
  goroutines that race for a key all get the value of the one that stored.\<close>

theorem map_linearizable:
  assumes "cm_reach s"
  shows "spec_run (cm_log s) (\<lambda>_. None) = Some (gm_get (cm_map s))"
proof -
  from assms have "cm_inv s"
  proof induction
    case (start n)
    then show ?case by (simp add: cm_inv_def NewConcurrentMap_def gm_get_ext)
  next
    case (call s i oper s')
    then show ?case by (auto simp: cm_call_def cm_inv_def split: if_splits)
  next
    case (run s i s')
    then show ?case using cm_inv_run by blast
  qed
  then show ?thesis by (simp add: cm_inv_def)
qed

text \<open>Two goroutines that race: both miss, the one that gets the write lock first stores, the other gets its value.\<close>

definition race_start :: "(string, int) cmap option" where
  "race_start = cm_call 0 (CmLoadOrStore ''k'' 1) (NewConcurrentMap 2) \<bind> cm_call 1 (CmLoadOrStore ''k'' 2)
     \<bind> cm_run 0 \<bind> cm_run 1 \<bind> cm_run 1"

lemma race_reach: "race_start = Some s1 \<Longrightarrow> cm_reach s1"
  unfolding race_start_def bind_eq_Some_conv
  by (elim exE conjE) (rule cm_reach.run, rule cm_reach.run, rule cm_reach.run, rule cm_reach.call, rule cm_reach.call,
      rule cm_reach.start, assumption+)

theorem map_linearizable_witness:
  "\<exists>s1 s2. race_start = Some s1 \<and> cm_run 0 s1 = Some s2 \<and>
     map (\<lambda>(i, _, r). (i, r)) (cm_log s2) = [(1, RLoaded 2 False), (0, RLoaded 2 True)] \<and>
     spec_run (cm_log s2) (\<lambda>_. None) = Some (gm_get (cm_map s2))"
proof -
  have e: "map_option (\<lambda>s. map (\<lambda>(i, _, r). (i, r)) (cm_log s)) (race_start \<bind> cm_run 0)
      = Some [(1, RLoaded 2 False), (0, RLoaded 2 True)]" by code_simp
  then obtain s1 s2 where s: "race_start = Some s1" "cm_run 0 s1 = Some s2"
    by (cases race_start; cases "race_start \<bind> cm_run 0") (auto simp: bind_eq_Some_conv)
  then have "cm_reach s2" using race_reach cm_reach.run by blast
  then have l: "spec_run (cm_log s2) (\<lambda>_. None) = Some (gm_get (cm_map s2))" by (rule map_linearizable)
  have "race_start \<bind> cm_run 0 = Some s2" unfolding s(1) using s(2) by simp
  then have "map (\<lambda>(i, _, r). (i, r)) (cm_log s2) = [(1, RLoaded 2 False), (0, RLoaded 2 True)]"
    using e by simp
  with s l show ?thesis by (metis (no_types, lifting))
qed

end
