(* ===== verification/WorkerPool.thy ===== *)
theory WorkerPool
  imports Prelude Complex_Main
begin

text \<open>
  The pool of workers and the rate limiters: \<open>Start\<close>, \<open>SetWorkerCount\<close> and \<open>autoThrottleCheck\<close> of
  \<open>pkg/engine/engine.go\<close>, the deferred end of \<open>worker\<close> in \<open>worker.go\<close>, and \<open>engine_ratelimit.go\<close>.
  \<open>SetWorkerCount\<close> sets the configured number under one lock and resizes the pool under another, so these are
  two steps, and the calls of several goroutines interleave. A worker may end at any time. A control (the cancel
  function of a worker) is a number, the address of the struct. A rate limiter of the library is the limit and the
  burst the code last gave it; limits are \<open>float64\<close> in the code and real numbers here.
\<close>

section \<open>The pool\<close>

record pool_worker =
  pw_id :: int
  pw_control :: nat
  pw_cancelled :: bool

record pool =
  po_max :: int
  po_num :: int
  po_controls :: "int \<rightharpoonup> nat"
  po_running :: "pool_worker list"
  po_active :: int
  po_fresh :: nat

definition start_worker :: "int \<Rightarrow> pool \<Rightarrow> pool" where
  "start_worker wid s = s\<lparr>
     po_controls := (po_controls s)(wid \<mapsto> po_fresh s),
     po_running := po_running s @ [\<lparr>pw_id = wid, pw_control = po_fresh s, pw_cancelled = False\<rparr>],
     po_active := po_active s + 1,
     po_fresh := Suc (po_fresh s)\<rparr>"

text \<open>The workers with the numbers from \<open>k\<close> on, \<open>n\<close> of them.\<close>

fun start_workers :: "int \<Rightarrow> nat \<Rightarrow> pool \<Rightarrow> pool" where
  "start_workers k 0 s = s"
| "start_workers k (Suc n) s = start_workers (k + 1) n (start_worker k s)"

definition cancel_control :: "nat \<Rightarrow> pool \<Rightarrow> pool" where
  "cancel_control c s = s\<lparr>po_running := map (\<lambda>w. if pw_control w = c then w\<lparr>pw_cancelled := True\<rparr> else w) (po_running s)\<rparr>"

definition cancel_worker :: "int \<Rightarrow> pool \<Rightarrow> pool" where
  "cancel_worker wid s = (case po_controls s wid of None \<Rightarrow> s | Some c \<Rightarrow> cancel_control c s)"

fun cancel_workers :: "int \<Rightarrow> nat \<Rightarrow> pool \<Rightarrow> pool" where
  "cancel_workers k 0 s = s"
| "cancel_workers k (Suc n) s = cancel_workers (k + 1) n (cancel_worker k s)"

definition clamp_workers :: "int \<Rightarrow> int" where
  "clamp_workers n = (if n < 1 then 1 else n)"

definition set_max_workers :: "int \<Rightarrow> pool \<Rightarrow> pool" where
  "set_max_workers n s = s\<lparr>po_max := clamp_workers n\<rparr>"

definition resize_pool :: "int \<Rightarrow> pool \<Rightarrow> pool" where
  "resize_pool n s =
     (let m = clamp_workers n;
          s' = (if m > po_num s then start_workers (po_num s) (nat (m - po_num s)) s
                else if m < po_num s then cancel_workers m (nat (po_num s - m)) s
                else s)
      in s'\<lparr>po_num := m\<rparr>)"

text \<open>The deferred end of a worker: it gives up its entry only if the entry is its own.\<close>

definition end_worker :: "nat \<Rightarrow> pool \<Rightarrow> pool option" where
  "end_worker j s =
     (if j < length (po_running s) then
        let w = po_running s ! j in
        Some (s\<lparr>po_controls := (if po_controls s (pw_id w) = Some (pw_control w) then (po_controls s)(pw_id w := None)
                                else po_controls s),
                po_running := take j (po_running s) @ drop (Suc j) (po_running s),
                po_active := po_active s - 1\<rparr>)
      else None)"

text \<open>The engine before and after \<open>Start\<close>.\<close>

definition new_pool :: "int \<Rightarrow> pool" where
  "new_pool n = \<lparr>po_max = n, po_num = n, po_controls = (\<lambda>_. None), po_running = [], po_active = 0, po_fresh = 0\<rparr>"

definition start_pool :: "pool \<Rightarrow> pool" where
  "start_pool s = start_workers 0 (nat (po_num s)) s"

datatype pool_event = SetMax int | Resize int | EndWorker nat

definition pool_step :: "pool_event \<Rightarrow> pool \<Rightarrow> pool option" where
  "pool_step ev s = (case ev of
     SetMax n \<Rightarrow> Some (set_max_workers n s)
   | Resize n \<Rightarrow> Some (resize_pool n s)
   | EndWorker j \<Rightarrow> end_worker j s)"

inductive pool_reach :: "pool \<Rightarrow> bool" where
  start: "0 \<le> n \<Longrightarrow> pool_reach (start_pool (new_pool n))"
| step: "pool_reach s \<Longrightarrow> pool_step ev s = Some s' \<Longrightarrow> pool_reach s'"

definition live_ids :: "pool \<Rightarrow> int list" where
  "live_ids s = map pw_id (filter (\<lambda>w. \<not> pw_cancelled w) (po_running s))"

section \<open>The invariant of the pool\<close>

definition owned :: "pool \<Rightarrow> int \<Rightarrow> bool" where
  "owned s m \<longleftrightarrow>
     distinct (map pw_control (po_running s)) \<and>
     (\<forall>w \<in> set (po_running s). pw_control w < po_fresh s) \<and>
     (\<forall>w \<in> set (po_running s). \<not> pw_cancelled w \<longrightarrow>
        0 \<le> pw_id w \<and> pw_id w < m \<and> po_controls s (pw_id w) = Some (pw_control w)) \<and>
     po_active s = int (length (po_running s))"

lemma owned_start: "owned s m \<Longrightarrow> 0 \<le> m \<Longrightarrow> owned (start_worker m s) (m + 1)"
  by (force simp: owned_def start_worker_def)

lemma owned_starts: "owned s m \<Longrightarrow> 0 \<le> m \<Longrightarrow> owned (start_workers m n s) (m + int n)"
proof (induction n arbitrary: m s)
  case (Suc n)
  from Suc.IH [OF owned_start [OF Suc.prems]] Suc.prems(2) show ?case by (simp add: algebra_simps)
qed simp

lemma cancel_worker_controls [simp]:
  "po_controls (cancel_worker k s) = po_controls s" "po_num (cancel_worker k s) = po_num s"
  by (simp_all add: cancel_worker_def cancel_control_def split: option.split)

lemma cancel_keeps_controls:
  "map pw_control (map (\<lambda>w. if pw_control w = c then w\<lparr>pw_cancelled := True\<rparr> else w) ws) = map pw_control ws"
  by (induction ws) simp_all

lemma owned_cancel_worker: "owned s m \<Longrightarrow> owned (cancel_worker k s) m"
  by (auto simp: owned_def cancel_worker_def cancel_control_def cancel_keeps_controls simp del: map_map split: option.split)

lemma cancel_worker_gone:
  "owned s m \<Longrightarrow> w \<in> set (po_running (cancel_worker k s)) \<Longrightarrow> \<not> pw_cancelled w \<Longrightarrow> pw_id w \<noteq> k \<and> w \<in> set (po_running s)"
  by (auto simp: owned_def cancel_worker_def cancel_control_def split: option.splits if_splits)

lemma owned_cancels:
  "owned s m \<Longrightarrow> owned (cancel_workers k n s) m \<and>
   (\<forall>w \<in> set (po_running (cancel_workers k n s)). \<not> pw_cancelled w \<longrightarrow>
      w \<in> set (po_running s) \<and> \<not> (k \<le> pw_id w \<and> pw_id w < k + int n))"
proof (induction n arbitrary: k s)
  case (Suc n)
  note ih = Suc.IH [OF owned_cancel_worker [OF Suc.prems, of k], where k = "k + 1"]
  have "\<not> (k \<le> pw_id w \<and> pw_id w < k + int (Suc n)) \<and> w \<in> set (po_running s)"
    if "w \<in> set (po_running (cancel_workers (k + 1) n (cancel_worker k s)))" "\<not> pw_cancelled w" for w
  proof -
    from ih that have "w \<in> set (po_running (cancel_worker k s))" "\<not> (k + 1 \<le> pw_id w \<and> pw_id w < k + 1 + int n)" by auto
    with cancel_worker_gone [OF Suc.prems this(1) that(2)] show ?thesis by auto
  qed
  with ih show ?case by simp
qed simp

lemma start_workers_num [simp]: "po_num (start_workers k n s) = po_num s"
  by (induction n arbitrary: k s) (simp_all add: start_worker_def)

lemma owned_narrow:
  "owned s m \<Longrightarrow> \<forall>w \<in> set (po_running s). \<not> pw_cancelled w \<longrightarrow> pw_id w < m' \<Longrightarrow> owned s m'"
  by (auto simp: owned_def)

lemma owned_frame: "owned (s\<lparr>po_num := a\<rparr>) m = owned s m" "owned (s\<lparr>po_max := a\<rparr>) m = owned s m"
  by (simp_all add: owned_def)

lemma owned_resize:
  assumes "owned s (po_num s)" "0 \<le> po_num s"
  shows "owned (resize_pool n s) (clamp_workers n)"
proof -
  define m where "m = clamp_workers n"
  have pos: "0 \<le> m" by (simp add: m_def clamp_workers_def)
  consider "m > po_num s" | "m < po_num s" | "m = po_num s" by linarith
  then show ?thesis
  proof cases
    case 1
    then show ?thesis
      using owned_starts [OF assms, of "nat (m - po_num s)"] by (simp add: resize_pool_def owned_frame flip: m_def)
  next
    case 2
    note c = owned_cancels [OF assms(1), of m "nat (po_num s - m)"]
    have "pw_id w < m" if "w \<in> set (po_running (cancel_workers m (nat (po_num s - m)) s))" "\<not> pw_cancelled w" for w
      using c that 2 assms(1) by (force simp: owned_def)
    then show ?thesis
      using 2 c owned_narrow [of "cancel_workers m (nat (po_num s - m)) s" "po_num s" m]
      by (simp add: resize_pool_def owned_frame flip: m_def)
  next
    case 3
    then show ?thesis using assms by (simp add: resize_pool_def owned_frame flip: m_def)
  qed
qed

lemma mem_take_drop: "w \<in> set (take j xs @ drop (Suc j) xs) \<Longrightarrow> w \<in> set xs"
  by (auto dest: in_set_takeD in_set_dropD)

lemma owned_end:
  assumes "owned s m" "end_worker j s = Some s'"
  shows "owned s' m"
proof -
  define w where "w = po_running s ! j"
  define rest where "rest = take j (po_running s) @ drop (Suc j) (po_running s)"
  have j: "j < length (po_running s)" using assms(2) by (auto simp: end_worker_def split: if_splits)
  have sp: "po_running s = take j (po_running s) @ w # drop (Suc j) (po_running s)"
    unfolding w_def by (rule id_take_nth_drop [OF j])
  have d: "distinct (map pw_control (take j (po_running s) @ w # drop (Suc j) (po_running s)))"
    using assms(1) unfolding owned_def by (subst sp [symmetric]) simp
  then have d1: "distinct (map pw_control rest)" and d2: "pw_control w \<notin> pw_control ` set rest"
    unfolding rest_def by auto
  then have d': "distinct (map pw_control rest)" "\<And>v. v \<in> set rest \<Longrightarrow> pw_control v \<noteq> pw_control w"
    by (metis imageI)+
  have sub: "v \<in> set rest \<Longrightarrow> v \<in> set (po_running s)" for v unfolding rest_def by (rule mem_take_drop)
  have keep: "po_controls s (pw_id v) = Some (pw_control v) \<Longrightarrow> v \<in> set rest \<Longrightarrow>
      (if po_controls s (pw_id w) = Some (pw_control w) then (po_controls s)(pw_id w := None) else po_controls s) (pw_id v)
        = Some (pw_control v)" for v
    using d'(2) [of v] by fastforce
  have len: "int (length rest) = int (length (po_running s)) - 1" using j unfolding rest_def by simp
  have "end_worker j s = Some (s\<lparr>po_controls := (if po_controls s (pw_id w) = Some (pw_control w) then (po_controls s)(pw_id w := None)
      else po_controls s), po_running := rest, po_active := po_active s - 1\<rparr>)"
    unfolding end_worker_def Let_def w_def rest_def by (rule if_P [OF j])
  note s' = trans [OF assms(2) [symmetric] this, unfolded option.inject]
  show ?thesis
    unfolding s' owned_def using assms(1) d'(1) sub keep len by (simp add: owned_def)
qed

lemma reach_owned: "pool_reach s \<Longrightarrow> owned s (po_num s) \<and> 0 \<le> po_num s"
proof (induction rule: pool_reach.induct)
  case (start n)
  have "owned (new_pool n) 0" by (simp add: owned_def new_pool_def)
  from owned_starts [OF this, of "nat n"] start show ?case by (simp add: start_pool_def new_pool_def)
next
  case (step s ev s')
  show ?case
  proof (cases ev)
    case (SetMax n)
    then show ?thesis using step by (auto simp: pool_step_def set_max_workers_def owned_frame)
  next
    case (Resize n)
    then show ?thesis using step owned_resize [of s n]
      by (auto simp: pool_step_def resize_pool_def Let_def clamp_workers_def)
  next
    case (EndWorker j)
    then have e: "end_worker j s = Some s'" using step.hyps by (simp add: pool_step_def)
    then have "po_num s' = po_num s" by (auto simp: end_worker_def Let_def split: if_splits)
    then show ?thesis using owned_end [OF _ e] step.IH by simp
  qed
qed

text \<open>C19: in every state of a started pool, whatever calls of \<open>SetWorkerCount\<close> interleave and whenever workers end,
  the workers that are not cancelled have different numbers below the configured number of workers, so there are
  never more of them than that; each of them can be cancelled through the entry of its number; and the counter of
  active workers is the number of running ones.\<close>

theorem pool_bounded:
  assumes "pool_reach s"
  shows "distinct (live_ids s) \<and> set (live_ids s) \<subseteq> {0..<po_num s} \<and> int (length (live_ids s)) \<le> po_num s \<and>
    (\<forall>w \<in> set (po_running s). pw_cancelled w \<or> po_controls s (pw_id w) = Some (pw_control w)) \<and>
    po_active s = int (length (po_running s))"
proof -
  have o: "owned s (po_num s)" "0 \<le> po_num s" using reach_owned [OF assms] by auto
  define L where "L = filter (\<lambda>w. \<not> pw_cancelled w) (po_running s)"
  have c: "\<forall>w \<in> set L. po_controls s (pw_id w) = Some (pw_control w)" using o by (auto simp: owned_def L_def)
  have "distinct (map pw_control L)" using o(1) by (simp add: owned_def L_def distinct_map_filter)
  moreover have "map (\<lambda>w. the (po_controls s (pw_id w))) L = map pw_control L" using c by simp
  ultimately have "distinct (map (\<lambda>i. the (po_controls s i)) (map pw_id L))" by (simp only: map_map o_def)
  then have d: "distinct (live_ids s)" unfolding live_ids_def L_def by (simp only: distinct_map)
  moreover have sub: "set (live_ids s) \<subseteq> {0..<po_num s}" using o by (auto simp: owned_def live_ids_def)
  moreover have "int (length (live_ids s)) \<le> po_num s"
    using card_mono [OF _ sub] distinct_card [OF d] o(2) by simp
  ultimately show ?thesis using o(1) by (auto simp: owned_def)
qed

text \<open>Shrinking from three workers to one and growing back before the cancelled workers end: five run, three of them
  live; then one of the cancelled ends.\<close>

definition regrown :: pool where
  "regrown = resize_pool 3 (resize_pool 1 (set_max_workers 1 (start_pool (new_pool 3))))"

theorem pool_bounded_witness:
  "\<exists>s. end_worker 1 regrown = Some s \<and> live_ids s = [0, 1, 2] \<and> length (po_running s) = 4 \<and>
    (distinct (live_ids s) \<and> set (live_ids s) \<subseteq> {0..<po_num s} \<and> int (length (live_ids s)) \<le> po_num s \<and>
     (\<forall>w \<in> set (po_running s). pw_cancelled w \<or> po_controls s (pw_id w) = Some (pw_control w)) \<and>
     po_active s = int (length (po_running s)))"
proof -
  have "pool_reach (set_max_workers 1 (start_pool (new_pool 3)))"
    by (rule pool_reach.step [OF pool_reach.start [of 3], of "SetMax 1"]) (simp_all add: pool_step_def)
  then have "pool_reach (resize_pool 1 (set_max_workers 1 (start_pool (new_pool 3))))"
    by (rule pool_reach.step [of _ "Resize 1"]) (simp add: pool_step_def)
  then have "pool_reach regrown" unfolding regrown_def by (rule pool_reach.step [of _ "Resize 3"]) (simp add: pool_step_def)
  moreover have e: "map_option (\<lambda>s. (live_ids s, length (po_running s))) (end_worker 1 regrown) = Some ([0, 1, 2], 4)"
    by code_simp
  then obtain s where s: "end_worker 1 regrown = Some s" "live_ids s = [0, 1, 2]" "length (po_running s) = 4" by auto
  moreover have "pool_step (EndWorker 1) regrown = Some s" using s(1) by (simp add: pool_step_def)
  ultimately have "pool_reach s" by (blast intro: pool_reach.step)
  from pool_bounded [OF this] s show ?thesis by blast
qed

section \<open>Rate limiters\<close>

datatype rate_limit = RateInf | RateLimit real

record limits =
  li_limit :: rate_limit
  li_burst :: int
  li_hosts :: "(string, rate_limit \<times> int) gomap"

definition MinRateLimitBurst :: int where "MinRateLimitBurst = 10"

definition set_limits :: "rate_limit \<Rightarrow> int \<Rightarrow> limits \<Rightarrow> limits" where
  "set_limits limit burst s = s\<lparr>li_limit := limit, li_burst := burst,
     li_hosts := map_option (map (\<lambda>(h, _). (h, (limit, burst)))) (li_hosts s)\<rparr>"

definition SetRPS :: "int \<Rightarrow> limits \<Rightarrow> limits" where
  "SetRPS rps s =
     (if rps \<le> 0 then set_limits RateInf (max (li_burst s) MinRateLimitBurst) s
      else set_limits (RateLimit (real_of_int rps)) (max rps MinRateLimitBurst) s)"

definition UpdateRateLimiterFromDelay :: "duration \<Rightarrow> int \<Rightarrow> limits \<Rightarrow> limits" where
  "UpdateRateLimiterFromDelay d workers s =
     (if d \<le> 0 then set_limits RateInf (if workers < 10 then 10 else workers) s
      else let rps = real_of_int workers / (real_of_int d / real_of_int second)
           in set_limits (RateLimit (if rps < 1 then 1 else rps)) workers s)"

text \<open>The limiter of a host: found under the read lock, found again under the write lock, or made.\<close>

definition getLimiter :: "string \<Rightarrow> limits \<Rightarrow> ((rate_limit \<times> int) \<times> limits) option" where
  "getLimiter host s = (case gm_get (li_hosts s) host of
     Some l \<Rightarrow> Some (l, s)
   | None \<Rightarrow> map_option (\<lambda>m. ((li_limit s, li_burst s), s\<lparr>li_hosts := m\<rparr>))
               (gm_put (li_hosts s) host (li_limit s, li_burst s)))"

definition new_limits :: "int \<Rightarrow> limits" where
  "new_limits burst = \<lparr>li_limit = RateInf, li_burst = burst, li_hosts = gm_make\<rparr>"

datatype limit_event = LimitRPS int | LimitDelay duration int | LimitHost string

definition limit_step :: "limit_event \<Rightarrow> limits \<Rightarrow> limits option" where
  "limit_step ev s = (case ev of
     LimitRPS r \<Rightarrow> Some (SetRPS r s)
   | LimitDelay d w \<Rightarrow> Some (UpdateRateLimiterFromDelay d w s)
   | LimitHost h \<Rightarrow> map_option snd (getLimiter h s))"

fun limit_run :: "limit_event list \<Rightarrow> limits \<Rightarrow> limits option" where
  "limit_run [] s = Some s"
| "limit_run (ev # evs) s = (case limit_step ev s of None \<Rightarrow> None | Some s' \<Rightarrow> limit_run evs s')"

definition limits_agree :: "limits \<Rightarrow> bool" where
  "limits_agree s \<longleftrightarrow> li_hosts s \<noteq> None \<and> (\<forall>h l. gm_get (li_hosts s) h = Some l \<longrightarrow> l = (li_limit s, li_burst s))"

lemma gm_get_all: "gm_get (map_option (map (\<lambda>(h, _). (h, c))) m) h = map_option (\<lambda>_. c) (gm_get m h)"
proof -
  have "map_of (map (\<lambda>(h, _). (h, c)) al) h = map_option (\<lambda>_. c) (map_of al h)" for al
    by (induction al) auto
  then show ?thesis by (cases m) (simp_all add: gm_get_def)
qed

lemma limits_agree_set: "li_hosts s \<noteq> None \<Longrightarrow> limits_agree (set_limits l b s)"
  by (auto simp: limits_agree_def set_limits_def gm_get_all)

lemma limits_agree_get:
  assumes "limits_agree s"
  obtains s' where "getLimiter h s = Some ((li_limit s, li_burst s), s')" "limits_agree s'"
proof (cases "gm_get (li_hosts s) h")
  case None
  obtain m where m: "gm_put (li_hosts s) h (li_limit s, li_burst s) = Some m" "m \<noteq> None"
    using gm_putE [of "li_hosts s" h "(li_limit s, li_burst s)"] assms unfolding limits_agree_def by blast
  then have "limits_agree (s\<lparr>li_hosts := m\<rparr>)" using assms by (auto simp: limits_agree_def gm_get_put split: if_splits)
  with m None show thesis by (intro that [of "s\<lparr>li_hosts := m\<rparr>"]) (simp_all add: getLimiter_def)
next
  case (Some l)
  moreover from Some have "l = (li_limit s, li_burst s)" using assms unfolding limits_agree_def by blast
  ultimately show thesis using that [of s] assms by (simp add: getLimiter_def)
qed

lemma limit_step_agree:
  assumes "limits_agree s" obtains s' where "limit_step ev s = Some s'" "limits_agree s'"
proof -
  have n: "li_hosts s \<noteq> None" using assms by (simp add: limits_agree_def)
  have "limits_agree (SetRPS r s)" "limits_agree (UpdateRateLimiterFromDelay d w s)" for r d w
    using limits_agree_set [OF n] by (simp_all add: SetRPS_def UpdateRateLimiterFromDelay_def Let_def)
  then show thesis using that limits_agree_get [OF assms]
    by (cases ev) (auto simp: limit_step_def, metis option.map(2) snd_conv)
qed

lemma limit_run_agree: "limits_agree s \<Longrightarrow> \<exists>s'. limit_run evs s = Some s' \<and> limits_agree s'"
proof (induction evs arbitrary: s)
  case (Cons ev evs)
  obtain s1 where "limit_step ev s = Some s1" "limits_agree s1" using limit_step_agree [OF Cons.prems] by blast
  with Cons.IH show ?case by simp
qed simp

lemma limits_agree_new: "limits_agree (new_limits b)"
  by (simp add: limits_agree_def new_limits_def gm_get_def gm_make_def)

text \<open>Whatever settings of rate and delay and requests for limiters came before, the limiter of every host, found
  or made now, has the current limit and burst; and a change of the number of workers or of the delay while there is
  no delay leaves every host without a limit, also when a rate had been set just before.\<close>

theorem limiters_follow:
  "\<exists>s s0. limit_run evs (new_limits b) = Some s \<and>
    (\<forall>h. map_option fst (getLimiter h s) = Some (li_limit s, li_burst s)) \<and>
    limit_run (evs @ [LimitRPS r, LimitDelay 0 w]) (new_limits b) = Some s0 \<and>
    (\<forall>h. map_option fst (getLimiter h s0) = Some (RateInf, max w 10))"
proof -
  obtain s where s: "limit_run evs (new_limits b) = Some s" "limits_agree s"
    using limit_run_agree [OF limits_agree_new] by blast
  define s0 where "s0 = UpdateRateLimiterFromDelay 0 w (SetRPS r s)"
  have app: "limit_run (xs @ ys) t = Option.bind (limit_run xs t) (limit_run ys)" for xs ys t
    by (induction xs arbitrary: t) (auto split: option.split)
  have r0: "limit_run (evs @ [LimitRPS r, LimitDelay 0 w]) (new_limits b) = Some s0"
    unfolding app s(1) by (simp add: limit_step_def s0_def)
  have a0: "limits_agree s0" using limit_run_agree [OF limits_agree_new] r0 by (metis option.inject)
  have v0: "li_limit s0 = RateInf" "li_burst s0 = max w 10"
    by (simp_all add: s0_def UpdateRateLimiterFromDelay_def set_limits_def max_def)
  have g: "map_option fst (getLimiter h t) = Some (li_limit t, li_burst t)" if "limits_agree t" for h t
    using limits_agree_get [OF that, of h] by auto
  show ?thesis using s r0 g [OF s(2)] g [OF a0] v0 by auto
qed

section \<open>Throttling\<close>

text \<open>The numbers \<open>autoThrottleCheck\<close> sets when it fires.\<close>

definition throttle_workers :: "int \<Rightarrow> int" where
  "throttle_workers workers = (let n = go_div (workers * 50) 100 in if n < 5 then 5 else n)"

definition throttle_delay :: "duration \<Rightarrow> duration" where
  "throttle_delay d = (let n = d + 200000000 in if n > 5 * second then 5 * second else n)"

text \<open>Whether it fires, and the flag that blocks it afterwards.\<close>

definition throttle_fires :: "bool \<Rightarrow> int \<Rightarrow> bool \<Rightarrow> bool \<times> bool" where
  "throttle_fires enabled count429 already =
     (if \<not> enabled then (False, already)
      else if count429 > 0 \<and> count429 mod 10 = 0 then (if already then (False, True) else (True, True))
      else (False, already))"

lemma throttle_slows: "5 \<le> w \<Longrightarrow> throttle_workers w \<le> w" "d \<le> 5 * second \<Longrightarrow> d \<le> throttle_delay d"
  by (auto simp: throttle_workers_def throttle_delay_def go_div_def duration_defs Let_def)

text \<open>Below five workers, and above five seconds, the throttle speeds the scan up.\<close>

lemma throttle_speeds: "w < 5 \<Longrightarrow> w < throttle_workers w" "5 * second < d \<Longrightarrow> throttle_delay d < d"
  by (auto simp: throttle_workers_def throttle_delay_def duration_defs Let_def)

end
