(* ===== verification/WorkerRequest.thy ===== *)
theory WorkerRequest
  imports Request SortedMap
begin

text \<open>
  How a worker makes the raw request of a job: the headers of the configuration and of its snapshot
  (\<open>pkg/engine/engine_config.go\<close>), and the request planning of \<open>worker\<close> in \<open>pkg/engine/worker.go\<close>: the merge
  of the headers of the job, the verb tampering headers, the payload, the choice of the method and the length of the
  body. A local Go map is a list of pairs with its insertions in order; where the code walks a map, the model walks
  the list, and every property holds for every list, so for every order.
\<close>

section \<open>Headers of the configuration\<close>

record header_config =
  hc_ua :: string
  hc_headers :: "(string \<times> string) list"

definition isGeneratedRequestHeader :: "string \<Rightarrow> bool" where
  "isGeneratedRequestHeader key \<longleftrightarrow> to_lower (trim_space key) \<in> {''host'', ''content-length''}"

definition normalizeUserAgent :: "string \<Rightarrow> string" where
  "normalizeUserAgent ua =
     (let u = trim_space ua in
      if 11 \<le> length u \<and> equal_fold (take 11 u) ''User-Agent:'' then trim_space (drop 11 u) else u)"

definition or_default_ua :: "string \<Rightarrow> string" where
  "or_default_ua u = (if u = '''' then ''DirFuzz/2.0'' else u)"

definition UpdateUserAgent :: "string \<Rightarrow> header_config \<Rightarrow> header_config" where
  "UpdateUserAgent ua c = c\<lparr>hc_ua := or_default_ua (normalizeUserAgent ua)\<rparr>"

definition AddHeader :: "string \<Rightarrow> string \<Rightarrow> header_config \<Rightarrow> header_config" where
  "AddHeader key val c =
     (let k = sanitizeHeaderToken (trim_space key); v = sanitizeHeaderToken val in
      if k = '''' \<or> isGeneratedRequestHeader k then c
      else if equal_fold k ''User-Agent'' then
        c\<lparr>hc_ua := or_default_ua (normalizeUserAgent v),
          hc_headers := filter (\<lambda>(hk, _). \<not> equal_fold hk ''User-Agent'') (hc_headers c)\<rparr>
      else c\<lparr>hc_headers := AList.update k v (hc_headers c)\<rparr>)"

definition RemoveHeader :: "string \<Rightarrow> header_config \<Rightarrow> header_config" where
  "RemoveHeader key c = c\<lparr>hc_headers := AList.delete key (hc_headers c)\<rparr>"

text \<open>One header of the configuration on its way into the snapshot.\<close>

definition snapshot_header :: "string \<times> (string \<times> string) list \<Rightarrow> string \<times> string \<Rightarrow> string \<times> (string \<times> string) list" where
  "snapshot_header = (\<lambda>(ua, hs) (k, v).
     if equal_fold k ''User-Agent'' then (sanitizeHeaderToken (normalizeUserAgent v), hs)
     else if isGeneratedRequestHeader k then (ua, hs)
     else let safeK = sanitizeHeaderToken (trim_space k) in
          if safeK = '''' then (ua, hs) else (ua, AList.update safeK (sanitizeHeaderToken v) hs))"

definition snapshot_headers :: "header_config \<Rightarrow> string \<times> (string \<times> string) list" where
  "snapshot_headers c = foldl snapshot_header (hc_ua c, []) (hc_headers c)"

definition wire_line :: "string \<times> string \<Rightarrow> string" where
  "wire_line = (\<lambda>(k, v). k @ '': '' @ v @ crlf)"

definition headers_template :: "(string \<times> string) list \<Rightarrow> string" where
  "headers_template hs = concat (map wire_line (sorted_items (Some hs)))"

section \<open>Headers of a request\<close>

definition verbTamperHeaders :: "string \<Rightarrow> (string \<times> string) list" where
  "verbTamperHeaders meth =
     (if to_upper meth \<in> {''GET'', ''HEAD''} then []
      else [(''X-HTTP-Method-Override'', meth), (''X-Forwarded-Method'', meth), (''X-Method-Override'', meth)])"

definition merge_extra :: "(string \<times> string) list \<Rightarrow> string \<times> string \<Rightarrow> (string \<times> string) list" where
  "merge_extra hs = (\<lambda>(k, v).
     if isGeneratedRequestHeader k then hs
     else let safeK = sanitizeHeaderToken (trim_space k) in
          if safeK = '''' then hs else AList.update safeK (sanitizeHeaderToken v) hs)"

definition add_missing :: "(string \<times> string) list \<Rightarrow> string \<times> string \<Rightarrow> (string \<times> string) list" where
  "add_missing hs = (\<lambda>(k, v). if map_of hs k = None then AList.update k v hs else hs)"

definition request_headers ::
  "(string \<times> string) list \<Rightarrow> (string \<times> string) list \<Rightarrow> bool \<Rightarrow> string \<Rightarrow> string \<Rightarrow> (string \<times> string) list \<times> string" where
  "request_headers headers extra verbTamper meth payload =
     (if extra = [] \<and> \<not> verbTamper \<and> \<not> contains_str (headers_template headers) ''{PAYLOAD}'' then
        (headers, headers_template headers)
      else
        let merged = foldl merge_extra headers extra;
            tampered = (if verbTamper then foldl add_missing merged (verbTamperHeaders meth) else merged);
            filled = map (\<lambda>(k, v). (k, replace_str ''{PAYLOAD}'' (sanitizeHeaderToken payload) v)) tampered
        in (filled, concat (map (\<lambda>(k, v). wire_line (sanitizeHeaderToken k, sanitizeHeaderToken v))
                             (sorted_items (Some filled)))))"

definition request_ua :: "string \<Rightarrow> string \<Rightarrow> string" where
  "request_ua ua payload = or_default_ua (normalizeUserAgent (replace_str ''{PAYLOAD}'' payload ua))"

definition request_path :: "url \<Rightarrow> string" where
  "request_path u = (let p = (if u_query u \<noteq> '''' then u_path u @ ''?'' @ u_query u else u_path u)
     in if p = '''' then ''/'' else p)"

section \<open>Method and body\<close>

record method_settings =
  mt_body_filter :: bool
  mt_head_rejected :: bool
  mt_follow :: bool
  mt_oracle :: bool

text \<open>The method of a job that has none.\<close>

definition first_method :: "method_settings \<Rightarrow> string" where
  "first_method m = (if mt_body_filter m \<or> mt_head_rejected m \<or> mt_follow m \<or> mt_oracle m then ''GET'' else ''HEAD'')"

definition method_headers :: "string \<Rightarrow> (string \<times> string) list \<Rightarrow> string \<Rightarrow> string \<Rightarrow> string" where
  "method_headers meth headers headersStr body =
     (if body \<noteq> '''' \<and> meth \<in> {''POST'', ''PUT'', ''PATCH''} then
        headersStr @ ''Content-Length: '' @ itoa (int (length body)) @ crlf
        @ (if \<exists>k\<in>set (map fst headers). equal_fold k ''Content-Type'' then ''''
           else ''Content-Type: application/x-www-form-urlencoded'' @ crlf)
      else if meth \<in> {''POST'', ''PUT'', ''PATCH'', ''DELETE''} then headersStr @ ''Content-Length: 0'' @ crlf
      else headersStr)"

text \<open>The raw request of a job with a method: the body template filled in, whatever the method.\<close>

definition worker_request ::
  "header_config \<Rightarrow> (string \<times> string) list \<Rightarrow> bool \<Rightarrow> string \<Rightarrow> string \<Rightarrow> string \<Rightarrow> string \<Rightarrow> string \<Rightarrow> string" where
  "worker_request cfg extra verbTamper meth payload reqPath reqHost requestBody =
     (let (ua, headers) = snapshot_headers cfg;
          (hs, hstr) = request_headers headers extra verbTamper meth payload;
          body = (if requestBody \<noteq> '''' then replace_str ''{PAYLOAD}'' payload requestBody else '''')
      in buildRequest meth reqPath reqHost (request_ua ua payload) (method_headers meth hs hstr body) body)"

text \<open>A job without a method: a HEAD request that is answered 405 or 501 is repeated with GET and the host marked;
  when the repetition fails, the first answer stays. \<open>exec\<close> sends a request.\<close>

definition unmethod_request ::
  "(string \<Rightarrow> 's \<Rightarrow> raw_response result \<times> 's) \<Rightarrow> (string \<Rightarrow> string) \<Rightarrow> method_settings \<Rightarrow> 's
   \<Rightarrow> (raw_response result \<times> string \<times> bool) \<times> 's" where
  "unmethod_request exec build m s =
     (let meth = first_method m; (r, s1) = exec (build meth) s in
      case r of
        Inl e \<Rightarrow> ((Inl e, meth, False), s1)
      | Inr resp \<Rightarrow>
          if meth = ''HEAD'' \<and> (rr_status resp = 405 \<or> rr_status resp = 501) then
            let (r2, s2) = exec (build ''GET'') s1 in
            (case r2 of Inl _ \<Rightarrow> ((Inr resp, ''HEAD'', True), s2) | Inr resp2 \<Rightarrow> ((Inr resp2, ''GET'', True), s2))
          else ((Inr resp, meth, False), s1))"

section \<open>No line of a request is forged\<close>

definition one_line :: "string \<Rightarrow> bool" where
  "one_line s \<longleftrightarrow> CR \<notin> set s \<and> LF \<notin> set s"

definition good_line :: "string \<times> string \<Rightarrow> bool" where
  "good_line = (\<lambda>(k, v). k \<noteq> '''' \<and> one_line k \<and> one_line v)"

lemma one_line_sanitize [simp]: "one_line (sanitizeHeaderToken s)"
  by (simp add: one_line_def sanitizeHeaderToken_def)

lemma sanitize_one_line: "one_line s \<Longrightarrow> sanitizeHeaderToken s = s"
  unfolding one_line_def sanitizeHeaderToken_def by (rule filter_True) auto

lemma update_subset: "set (AList.update k v al) \<subseteq> insert (k, v) (set al)"
  by (induction al) auto

lemma update_all: "(\<forall>x\<in>set al. P x) \<Longrightarrow> P (k, v) \<Longrightarrow> \<forall>x\<in>set (AList.update k v al). P x"
  using update_subset [of k v al] by blast

lemma good_update:
  "y \<in> set (AList.update k v hs) \<Longrightarrow> \<forall>x\<in>set hs. good_line x \<Longrightarrow> good_line (k, v) \<Longrightarrow> good_line y"
  using update_subset [of k v hs] by blast

lemma good_sanitized:
  "good_line (sanitizeHeaderToken k, sanitizeHeaderToken v) \<longleftrightarrow> sanitizeHeaderToken k \<noteq> ''''"
  by (simp add: good_line_def)

lemma foldl_invariant: "P a \<Longrightarrow> (\<And>a x. P a \<Longrightarrow> P (f a x)) \<Longrightarrow> P (foldl f a xs)"
  by (induction xs arbitrary: a) auto

lemma snapshot_good: "\<forall>x \<in> set (snd (snapshot_headers c)). good_line x"
  unfolding snapshot_headers_def
proof (rule foldl_invariant [where P = "\<lambda>s. \<forall>x \<in> set (snd s). good_line x"])
  fix s :: "string \<times> (string \<times> string) list" and x
  assume "\<forall>x \<in> set (snd s). good_line x"
  then show "\<forall>x \<in> set (snd (snapshot_header s x)). good_line x"
    by (cases s; cases x) (auto simp: snapshot_header_def Let_def good_sanitized intro: good_update)
qed simp

lemma sorted_items_mem: "set (sorted_items (Some hs)) = set hs"
  by (simp add: sorted_items_def gm_items_def)

text \<open>Only the key of a header of the request needs to be a good one: the value is sanitized when it is written.\<close>

definition good_key :: "string \<times> string \<Rightarrow> bool" where
  "good_key = (\<lambda>(k, v). k \<noteq> '''' \<and> one_line k)"

lemma tamper_keys: "\<forall>x \<in> set (verbTamperHeaders meth). good_key x"
  by (auto simp: verbTamperHeaders_def good_key_def one_line_def CR_def LF_def)

lemma merged_keys:
  assumes "\<forall>x \<in> set headers. good_line x"
  shows "\<forall>x \<in> set (foldl merge_extra headers extra). good_key x"
proof (rule foldl_invariant)
  show "\<forall>x \<in> set headers. good_key x" using assms by (auto simp: good_line_def good_key_def)
  show "\<forall>x \<in> set (merge_extra hs e). good_key x" if "\<forall>x \<in> set hs. good_key x" for hs e
    using that by (auto simp: merge_extra_def good_key_def Let_def dest!: subsetD [OF update_subset] split: prod.splits if_splits)
qed

lemma missing_keys: "\<forall>x \<in> set hs. good_key x \<Longrightarrow> \<forall>x \<in> set os. good_key x \<Longrightarrow> \<forall>x \<in> set (foldl add_missing hs os). good_key x"
proof (induction os arbitrary: hs)
  case (Cons x os)
  have "\<forall>y \<in> set (add_missing hs x). good_key y"
    using Cons.prems by (auto simp: add_missing_def dest!: subsetD [OF update_subset] split: prod.splits if_splits)
  with Cons show ?case by simp
qed simp

lemma request_headers_lines:
  assumes "\<forall>x \<in> set headers. good_line x"
  shows "\<exists>ls. snd (request_headers headers extra verbTamper meth payload) = concat (map wire_line ls) \<and> (\<forall>x \<in> set ls. good_line x)"
proof (cases "extra = [] \<and> \<not> verbTamper \<and> \<not> contains_str (headers_template headers) ''{PAYLOAD}''")
  case True
  then show ?thesis
    using assms by (intro exI [of _ "sorted_items (Some headers)"]) (simp add: request_headers_def headers_template_def sorted_items_mem)
next
  case False
  define tampered where "tampered = (if verbTamper then foldl add_missing (foldl merge_extra headers extra) (verbTamperHeaders meth)
    else foldl merge_extra headers extra)"
  define filled where "filled = map (\<lambda>(k, v). (k, replace_str ''{PAYLOAD}'' (sanitizeHeaderToken payload) v)) tampered"
  have "\<forall>x \<in> set tampered. good_key x"
    using merged_keys [OF assms] missing_keys [OF merged_keys [OF assms] tamper_keys] by (simp add: tampered_def)
  then have f: "\<forall>x \<in> set filled. good_key x" by (auto simp: filled_def good_key_def)
  have "snd (request_headers headers extra verbTamper meth payload)
      = concat (map (\<lambda>(k, v). wire_line (sanitizeHeaderToken k, sanitizeHeaderToken v)) (sorted_items (Some filled)))"
    unfolding request_headers_def if_not_P [OF False] Let_def filled_def tampered_def by simp
  also have "\<dots> = concat (map wire_line (map (\<lambda>(k, v). (sanitizeHeaderToken k, sanitizeHeaderToken v)) (sorted_items (Some filled))))"
    by (simp add: o_def case_prod_unfold)
  finally show ?thesis
    using f
    by (intro exI [of _ "map (\<lambda>(k, v). (sanitizeHeaderToken k, sanitizeHeaderToken v)) (sorted_items (Some filled))"])
      (auto simp: sorted_items_mem good_key_def good_line_def sanitize_one_line)
qed

lemma itoa_one_line: "one_line (itoa n)"
proof -
  have d: "c \<in> set (nat_dec k) \<Longrightarrow> c \<noteq> CR \<and> c \<noteq> LF" for c k
  proof (induction k rule: nat_dec.induct)
    case (1 n)
    have "char_of (48 + m) \<noteq> CR \<and> char_of (48 + m) \<noteq> LF" if "m < 10" for m :: nat
    proof -
      have "byte (char_of (48 + m)) = 48 + m" using that by (simp add: byte_def)
      moreover have "byte CR = 13" "byte LF = 10" by code_simp+
      ultimately have "byte (char_of (48 + m)) \<noteq> byte CR" "byte (char_of (48 + m)) \<noteq> byte LF" by linarith+
      then show ?thesis by metis
    qed
    with 1 show ?case by (auto simp: nat_dec.simps [of n] split: if_splits)
  qed
  then show ?thesis by (auto simp: one_line_def itoa_def CR_def LF_def)
qed

lemma method_headers_lines:
  assumes "hstr = concat (map wire_line ls)" "\<forall>x \<in> set ls. good_line x"
  shows "\<exists>ls'. method_headers meth hs hstr body = concat (map wire_line ls') \<and> (\<forall>x \<in> set ls'. good_line x) \<and>
    (meth \<in> {''POST'', ''PUT'', ''PATCH''} \<longrightarrow> (''Content-Length'', itoa (int (length body))) \<in> set ls')"
proof -
  define cl where "cl = (''Content-Length'', itoa (int (length body)))"
  define c0 where "c0 = (''Content-Length'', ''0'')"
  define ct where "ct = (''Content-Type'', ''application/x-www-form-urlencoded'')"
  have z: "itoa 0 = ''0''" by code_simp
  have g: "good_line cl" "good_line c0" "good_line ct"
    using itoa_one_line by (auto simp: cl_def c0_def ct_def good_line_def one_line_def CR_def LF_def)
  consider (body) "body \<noteq> ''''" "meth \<in> {''POST'', ''PUT'', ''PATCH''}"
    | (empty) "\<not> (body \<noteq> '''' \<and> meth \<in> {''POST'', ''PUT'', ''PATCH''})" "meth \<in> {''POST'', ''PUT'', ''PATCH'', ''DELETE''}"
    | (other) "meth \<notin> {''POST'', ''PUT'', ''PATCH'', ''DELETE''}" by blast
  then show ?thesis
  proof cases
    case body
    then show ?thesis
      using assms g
      by (intro exI [of _ "ls @ [cl] @ (if \<exists>k\<in>set (map fst hs). equal_fold k ''Content-Type'' then [] else [ct])"])
        (simp add: method_headers_def wire_line_def cl_def ct_def)
  next
    case empty
    then have "method_headers meth hs hstr body = hstr @ wire_line c0"
      by (auto simp: method_headers_def wire_line_def c0_def)
    then show ?thesis
      using assms g empty z by (intro exI [of _ "ls @ [c0]"]) (auto simp: c0_def)
  next
    case other
    then show ?thesis using assms by (intro exI [of _ ls]) (auto simp: method_headers_def)
  qed
qed

lemma lines_block:
  assumes "\<forall>x \<in> set ls. good_line x"
  shows "concat (map wire_line ls) = '''' \<or> has_suffix (concat (map wire_line ls)) crlf"
    "\<not> has_prefix (concat (map wire_line ls)) crlf"
proof -
  show "concat (map wire_line ls) = '''' \<or> has_suffix (concat (map wire_line ls)) crlf"
    by (cases ls rule: rev_cases) (auto simp: wire_line_def has_suffix_iff)
  show "\<not> has_prefix (concat (map wire_line ls)) crlf"
  proof (cases ls)
    case Nil
    then show ?thesis by (simp add: has_prefix_def crlf_def)
  next
    case (Cons x xs)
    obtain c k v where x: "x = (c # k, v)" "c \<noteq> CR"
      using assms Cons by (cases x; cases "fst x") (auto simp: good_line_def one_line_def)
    then show ?thesis using Cons by (simp add: wire_line_def has_prefix_def crlf_def)
  qed
qed



text \<open>The body is sent whatever the method is, but for GET no length is announced and for DELETE the length 0.\<close>

lemma body_not_announced:
  "body \<noteq> '''' \<Longrightarrow> method_headers ''GET'' hs hstr body = hstr"
  "body \<noteq> '''' \<Longrightarrow> method_headers ''DELETE'' hs hstr body = hstr @ ''Content-Length: 0'' @ crlf"
  by (simp_all add: method_headers_def)

text \<open>A name with a line break in it passes the test for generated names and becomes one of them; the names
  \<open>AddHeader\<close> stores have none, since it sanitizes first.\<close>

lemma generated_name_forged:
  "snapshot_headers \<lparr>hc_ua = ''u'', hc_headers = [(''Ho'' @ [CR] @ ''st'', ''evil'')]\<rparr> = (''u'', [(''Host'', ''evil'')])"
  by code_simp

lemma AddHeader_names:
  "\<forall>x \<in> set (hc_headers c). good_line x \<and> \<not> isGeneratedRequestHeader (fst x) \<Longrightarrow>
   \<forall>x \<in> set (hc_headers (AddHeader k v c)). good_line x \<and> \<not> isGeneratedRequestHeader (fst x)"
  by (auto simp: AddHeader_def Let_def good_sanitized dest!: subsetD [OF update_subset])

text \<open>A job without a method whose HEAD request is refused ends with the answer to GET, if there is one.\<close>

lemma head_refused:
  assumes "first_method m = ''HEAD''" "exec (build ''HEAD'') s = (Inr r, s1)" "rr_status r = 405 \<or> rr_status r = 501"
    "exec (build ''GET'') s1 = (Inr r2, s2)"
  shows "unmethod_request exec build m s = ((Inr r2, ''GET'', True), s2)"
  using assms by (auto simp: unmethod_request_def)

end
