(* ===== verification/AuthMatrix.thy ===== *)
theory AuthMatrix
  imports Request Simhash SortedMap "HOL-Library.AList"
begin

text \<open>
  The authorization matrix, \<open>pkg/engine/authmatrix.go\<close>: a request is replayed under several roles and the answers
  are compared. A Go map of roles is the list of its items in the order in which it is iterated, which may be any. Sending
  a request is a parameter that takes the parsed target and the request; the goroutines of one path write to different
  slots, so their answers are a list in the order of the roles. Times are left out.
\<close>

section \<open>Roles\<close>

record auth_role =
  ar_role :: string
  ar_level :: int
  ar_headers :: "string list"

definition contains_any :: "string \<Rightarrow> string list \<Rightarrow> bool" where
  "contains_any s ws \<longleftrightarrow> (\<exists>w\<in>set ws. contains_str s w)"

definition authRoleLevel :: "string \<Rightarrow> int" where
  "authRoleLevel role =
     (let lower = to_lower (trim_space role) in
      if contains_any lower [''unauth'', ''anon'', ''guest'', ''public''] then 0
      else if contains_any lower [''admin'', ''root'', ''superuser'', ''priv''] then 2
      else 1)"

definition role_entry :: "string \<times> string list \<Rightarrow> auth_role option" where
  "role_entry = (\<lambda>(role, headers).
     let r = trim_space role; hs = filter (\<lambda>h. h \<noteq> '''') (map trim_space headers)
     in if r = '''' \<or> hs = [] then None else Some \<lparr>ar_role = r, ar_level = authRoleLevel r, ar_headers = hs\<rparr>)"

text \<open>The stable sort by level and, within a level, by the lower-case name.\<close>

definition sort_roles :: "auth_role list \<Rightarrow> auth_role list" where
  "sort_roles rs = sort_key ar_level (sort_key (\<lambda>r. to_lower (ar_role r)) rs)"

definition normalizeAuthRoles :: "(string \<times> string list) list \<Rightarrow> auth_role list" where
  "normalizeAuthRoles authMatrix = sort_roles (List.map_filter role_entry authMatrix)"

definition auth_header :: "(string \<times> string) list \<Rightarrow> string \<Rightarrow> (string \<times> string) list" where
  "auth_header out hdr = (case index_byte (\<lambda>c. c = CHR '':'') hdr of
     None \<Rightarrow> out
   | Some i \<Rightarrow>
       let key = trim_space (take i hdr); val = trim_space (drop (i + 1) hdr)
       in if key = '''' then out else AList.update key val out)"

definition mergeAuthHeaders :: "(string \<times> string) list \<Rightarrow> string list \<Rightarrow> (string \<times> string) list" where
  "mergeAuthHeaders base extra = foldl auth_header base extra"

definition renderHeaderBlock :: "(string, string) gomap \<Rightarrow> string" where
  "renderHeaderBlock headers =
     concat (map (\<lambda>(k, v). sanitizeHeaderToken k @ '': '' @ sanitizeHeaderToken v @ crlf) (sorted_items headers))"

section \<open>Comparing the answers\<close>

record role_response =
  rp_role :: string
  rp_level :: int
  rp_raw :: string
  rp_resp :: "raw_response option"
  rp_err :: "goerror option"

record auth_finding =
  af_labels :: "string list"
  af_confidence :: string
  af_summary :: string
  af_role :: string

definition sort_responses :: "role_response list \<Rightarrow> role_response list" where
  "sort_responses rs = sort_key rp_level (sort_key (\<lambda>r. to_lower (rp_role r)) rs)"

text \<open>The first response of the level, with a substitute when there is none.\<close>

definition pickAuthRoleResponse :: "role_response list \<Rightarrow> int \<Rightarrow> role_response option" where
  "pickAuthRoleResponse rs level =
     (case find (\<lambda>r. rp_level r = level) rs of
        Some r \<Rightarrow> Some r
      | None \<Rightarrow>
          if level = 1 \<and> length rs \<ge> 2 then Some (rs ! 1)
          else if level = 2 \<and> length rs > 0 then Some (List.last rs)
          else if level = 0 \<and> length rs > 0 then Some (rs ! 0)
          else None)"

definition sameAuthResponse :: "raw_response option \<Rightarrow> raw_response option \<Rightarrow> bool" where
  "sameAuthResponse a b = (case (a, b) of
     (Some x, Some y) \<Rightarrow> rr_status x = rr_status y \<and> length (rr_body x) = length (rr_body y) \<and>
       simhashBody (rr_body x) = simhashBody (rr_body y)
   | _ \<Rightarrow> False)"

definition summary_part :: "role_response option \<Rightarrow> string list" where
  "summary_part r = (case r of
     Some x \<Rightarrow> (case rp_resp x of
        Some p \<Rightarrow> [rp_role x @ ''='' @ itoa (rr_status p) @ ''/'' @ itoa (int (length (rr_body p)))]
      | None \<Rightarrow> [])
   | None \<Rightarrow> [])"

definition authMatrixSummary :: "role_response option \<Rightarrow> role_response option \<Rightarrow> role_response option \<Rightarrow> string" where
  "authMatrixSummary p u a = join '' | '' (summary_part p @ summary_part u @ summary_part a)"

definition isAdminishPath :: "string \<Rightarrow> bool" where
  "isAdminishPath path = contains_any (to_lower path)
     [''/admin'', ''/administrator'', ''/manage'', ''/management'', ''/panel'', ''/dashboard'', ''/internal'', ''/control'',
      ''/staff'', ''/settings'']"

text \<open>The selected answer and the finding; the list of answers is not empty.\<close>

definition evaluateAuthMatrixResponses :: "string \<Rightarrow> role_response list \<Rightarrow> role_response \<times> auth_finding option" where
  "evaluateAuthMatrixResponses path responses =
     (let rs = sort_responses responses; selected = rs ! 0;
          publicRole = pickAuthRoleResponse rs 0;
          userRole = pickAuthRoleResponse rs 1;
          adminRole = pickAuthRoleResponse rs 2
      in case (userRole, adminRole) of
           (Some u, Some a) \<Rightarrow>
             let summary = authMatrixSummary publicRole userRole adminRole in
             (case (rp_resp u, rp_resp a) of
                (Some ur, Some ar) \<Rightarrow>
                  if rr_status ur = 403 \<and> rr_status ar = 200 then
                    (a, Some \<lparr>af_labels = [''AUTH-MATRIX'', ''BAC'', ''PRIVILEGE-ESCALATION''],
                              af_confidence = rp_role u @ ''=403;'' @ rp_role a @ ''=200'', af_summary = summary,
                              af_role = rp_role a\<rparr>)
                  else if isAdminishPath (to_lower path) \<and> sameAuthResponse (rp_resp u) (rp_resp a) then
                    (a, Some \<lparr>af_labels = [''AUTH-MATRIX'', ''IDOR'', ''BAC''],
                              af_confidence = ''simhash-match:'' @ rp_role u @ ''='' @ rp_role a, af_summary = summary,
                              af_role = rp_role a\<rparr>)
                  else (selected, None)
              | _ \<Rightarrow> (selected, None))
         | _ \<Rightarrow> (selected, None))"

section \<open>The replay\<close>

definition auth_request ::
  "(string \<Rightarrow> raw_response result) \<Rightarrow> (string \<Rightarrow> string) \<Rightarrow> (string \<times> string) list \<Rightarrow> auth_role \<Rightarrow> role_response" where
  "auth_request exec build baseHeaders r =
     (let rawReq = build (renderHeaderBlock (Some (mergeAuthHeaders baseHeaders (ar_headers r)))); ans = exec rawReq in
      \<lparr>rp_role = ar_role r, rp_level = ar_level r, rp_raw = rawReq,
       rp_resp = (case ans of Inr resp \<Rightarrow> Some resp | Inl _ \<Rightarrow> None),
       rp_err = (case ans of Inr _ \<Rightarrow> None | Inl e \<Rightarrow> Some e)\<rparr>)"

definition auth_success :: "role_response \<Rightarrow> bool" where
  "auth_success r \<longleftrightarrow> rp_err r = None \<and> rp_resp r \<noteq> None"

type_synonym auth_outcome = "(raw_response option \<times> string \<times> string \<times> auth_finding option \<times> role_response list) option"

text \<open>Nothing without roles; the first error when no answer came; else the selected answer and the finding.\<close>

definition executeAuthMatrixRequests ::
  "(url \<Rightarrow> string \<Rightarrow> raw_response result) \<Rightarrow> string \<Rightarrow> string \<Rightarrow> string \<Rightarrow> string \<Rightarrow> string \<Rightarrow> (string \<times> string) list
   \<Rightarrow> (string \<times> string list) list \<Rightarrow> auth_outcome result" where
  "executeAuthMatrixRequests exec targetURL reqPath0 reqHost ua meth baseHeaders authMatrix =
     (let roles = normalizeAuthRoles authMatrix in
      if roles = [] then Inr None
      else case url_parse targetURL of
        None \<Rightarrow> Inl ''invalid auth-matrix target URL''
      | Some parsed \<Rightarrow>
        let reqPath = (if reqPath0 = '''' then ''/'' else reqPath0);
            results = map (auth_request (exec parsed) (\<lambda>h. buildRequest meth reqPath reqHost ua h '''') baseHeaders) roles;
            successes = filter auth_success results
        in if successes = [] then
             (case rp_err (results ! 0) of
                Some e \<Rightarrow> Inl e
              | None \<Rightarrow> Inl (''auth matrix requests failed for '' @ targetURL))
           else case evaluateAuthMatrixResponses reqPath successes of
             (selected, fnd) \<Rightarrow> Inr (Some (rp_resp selected, rp_raw selected, meth, fnd, sort_responses successes)))"

section \<open>The report over many paths\<close>

definition type_line :: "string \<Rightarrow> string option" where
  "type_line line = (case index_byte (\<lambda>c. c = CHR '':'') line of
     None \<Rightarrow> None
   | Some idx \<Rightarrow> if equal_fold (trim_space (take idx line)) ''Content-Type'' then Some (trim_space (drop (idx + 1) line))
                 else None)"

definition responseContentType :: "raw_response option \<Rightarrow> string" where
  "responseContentType resp = (case resp of
     None \<Rightarrow> ''''
   | Some r \<Rightarrow>
       let v = trim_space (case gm_get (rr_map r) ''Content-Type'' of Some t \<Rightarrow> t | None \<Rightarrow> '''') in
       if rr_map r \<noteq> None \<and> v \<noteq> '''' then v
       else case List.map_filter type_line (split_on LF (replace_byte CR [LF] (replace_str crlf [LF] (rr_headers r)))) of
              t # _ \<Rightarrow> t | [] \<Rightarrow> '''')"

record auth_replay =
  ay_role :: string
  ay_level :: int
  ay_status :: int
  ay_size :: int
  ay_type :: string
  ay_error :: string

record auth_path_report =
  pr_path :: string
  pr_method :: string
  pr_selected :: string
  pr_finding :: "auth_finding option"
  pr_responses :: "auth_replay list"

definition is_absolute :: "string \<Rightarrow> bool" where
  "is_absolute path \<longleftrightarrow> has_prefix path ''http://'' \<or> has_prefix path ''https://''"

text \<open>The target of one entry of the list and the path of its request line: a path of its own is put behind the path
  of the target, an absolute one replaces the target.\<close>

definition auth_target :: "string \<Rightarrow> string \<Rightarrow> (url \<times> string) option" where
  "auth_target targetURL path =
     (case url_parse (if is_absolute path then path else targetURL) of
        None \<Rightarrow> None
      | Some t \<Rightarrow>
          if is_absolute path then
            Some (t, (if u_path t = '''' then ''/'' else u_path t) @ (if u_query t \<noteq> '''' then ''?'' @ u_query t else ''''))
          else
            let reqPath = (if \<not> has_prefix path ''/'' then ''/'' @ path else path) in
            Some (t, if u_path t \<noteq> '''' \<and> u_path t \<noteq> ''/'' then trim_right (\<lambda>c. c = CHR ''/'') (u_path t) @ reqPath
                     else reqPath))"

definition replay_item :: "role_response \<Rightarrow> auth_replay" where
  "replay_item res =
     (let item = \<lparr>ay_role = rp_role res, ay_level = rp_level res, ay_status = 0, ay_size = 0, ay_type = '''', ay_error = ''''\<rparr>
      in case (rp_err res, rp_resp res) of
           (Some e, _) \<Rightarrow> item\<lparr>ay_error := e\<rparr>
         | (None, Some r) \<Rightarrow> item\<lparr>ay_status := rr_status r, ay_size := int (length (rr_body r)),
                                ay_type := responseContentType (rp_resp res)\<rparr>
         | (None, None) \<Rightarrow> item)"

definition auth_path ::
  "(url \<Rightarrow> string \<Rightarrow> raw_response result) \<Rightarrow> string \<Rightarrow> string \<Rightarrow> (string \<times> string) list \<Rightarrow> auth_role list
   \<Rightarrow> url \<times> string \<Rightarrow> auth_path_report" where
  "auth_path exec ua headersTemplate baseHeaders roles = (\<lambda>(target, reqPath).
     let responses = map (auth_request (exec target)
                            (\<lambda>h. buildRequest ''GET'' reqPath (u_host target) ua (headersTemplate @ h) '''') baseHeaders) roles
     in case evaluateAuthMatrixResponses reqPath responses of
          (selected, fnd) \<Rightarrow>
            \<lparr>pr_path = reqPath, pr_method = ''GET'', pr_selected = rp_role selected, pr_finding = fnd,
             pr_responses = map replay_item (sort_responses responses)\<rparr>)"

text \<open>The first address that does not parse ends the report, with what was done before it.\<close>

fun auth_paths ::
  "(url \<times> string \<Rightarrow> auth_path_report) \<Rightarrow> string \<Rightarrow> string list \<Rightarrow> auth_path_report list \<times> goerror option" where
  "auth_paths run targetURL [] = ([], None)"
| "auth_paths run targetURL (p # ps) =
     (let path = trim_space p in
      if path = '''' then auth_paths run targetURL ps
      else case auth_target targetURL path of
        None \<Rightarrow> ([], Some ''parse error'')
      | Some t \<Rightarrow> (case auth_paths run targetURL ps of (rs, e) \<Rightarrow> (run t # rs, e)))"

definition testAuthMatrixReport ::
  "(url \<Rightarrow> string \<Rightarrow> raw_response result) \<Rightarrow> (string \<times> string) option \<Rightarrow> string \<Rightarrow> string list \<Rightarrow> (string \<times> string list) list
   \<Rightarrow> (string \<times> string) list \<Rightarrow> auth_path_report list \<times> goerror option" where
  "testAuthMatrixReport exec snap targetURL paths authMatrix baseHeaders =
     (if targetURL = '''' then ([], Some ''targetURL is required'')
      else let roles = normalizeAuthRoles authMatrix in
      if roles = [] then ([], Some ''auth_matrix is empty'')
      else
        let ua = (case snap of Some (u, _) \<Rightarrow> if u \<noteq> '''' then u else ''DirFuzz/2.0'' | None \<Rightarrow> ''DirFuzz/2.0'');
            tmpl = (case snap of Some (_, t) \<Rightarrow> t | None \<Rightarrow> '''');
            headersTemplate = (if baseHeaders \<noteq> [] then tmpl @ renderHeaderBlock (Some baseHeaders) else tmpl)
        in auth_paths (auth_path exec ua headersTemplate baseHeaders roles) targetURL paths)"

definition TestAuthMatrix ::
  "(url \<Rightarrow> string \<Rightarrow> raw_response result) \<Rightarrow> (string \<times> string) option \<Rightarrow> string \<Rightarrow> string list \<Rightarrow> (string \<times> string list) list
   \<Rightarrow> auth_finding list result" where
  "TestAuthMatrix exec snap baseURL paths roles =
     (if baseURL = '''' then Inl ''engine target is not configured''
      else case testAuthMatrixReport exec snap baseURL paths roles [] of
        (_, Some e) \<Rightarrow> Inl e
      | (rs, None) \<Rightarrow> Inr (List.map_filter pr_finding rs))"

section \<open>The order of the map does not matter\<close>

definition role_name :: "string \<times> string list \<Rightarrow> string" where
  "role_name e = to_lower (trim_space (fst e))"

lemma role_entry_name: "role_entry e = Some r \<Longrightarrow> to_lower (ar_role r) = role_name e"
  by (auto simp: role_entry_def role_name_def Let_def split: prod.splits if_splits)

lemma map_filter_mset: "mset xs = mset ys \<Longrightarrow> mset (List.map_filter f xs) = mset (List.map_filter f ys)"
  by (simp add: List.map_filter_def)

lemma map_filter_inj:
  assumes "distinct (map g xs)" and "\<And>x y. f x = Some y \<Longrightarrow> h y = g x"
  shows "inj_on h (set (List.map_filter f xs))"
  using assms by (auto simp: inj_on_def List.map_filter_def distinct_map)

lemma sort_roles_perm:
  assumes "mset xs = mset ys" and "inj_on (\<lambda>r. to_lower (ar_role r)) (set xs)"
  shows "sort_roles xs = sort_roles ys"
proof -
  have "sort_key (\<lambda>r. to_lower (ar_role r)) xs = sort_key (\<lambda>r. to_lower (ar_role r)) ys"
    by (rule sort_key_inj_key_eq) (simp_all add: assms)
  then show ?thesis by (simp add: sort_roles_def)
qed

lemma normalizeAuthRoles_perm:
  assumes "mset m = mset m'" and "distinct (map role_name m)"
  shows "normalizeAuthRoles m = normalizeAuthRoles m'"
  unfolding normalizeAuthRoles_def
  by (intro sort_roles_perm map_filter_mset map_filter_inj [OF assms(2)] assms(1) role_entry_name)

text \<open>The roles are kept in a Go map, whose order of iteration is random. When no two names of roles agree up to case and
  white space at their ends, the request that is selected, the finding and every answer of a replay, and the whole report
  over a list of paths, do not depend on that order.
\<close>

theorem auth_order_irrelevant:
  assumes "mset m = mset m'" and "distinct (map role_name m)"
  shows "executeAuthMatrixRequests exec t p h ua meth base m = executeAuthMatrixRequests exec t p h ua meth base m' \<and>
    testAuthMatrixReport exec snap t ps m base = testAuthMatrixReport exec snap t ps m' base \<and>
    TestAuthMatrix exec snap t ps m = TestAuthMatrix exec snap t ps m'"
  using normalizeAuthRoles_perm [OF assms]
  by (simp add: executeAuthMatrixRequests_def testAuthMatrixReport_def TestAuthMatrix_def)

definition demo_answer :: "int \<Rightarrow> string \<Rightarrow> raw_response" where
  "demo_answer status body = \<lparr>rr_status = status, rr_headers = '''', rr_map = None, rr_body = body, rr_raw = '''',
     rr_complete = True, rr_encoded = False\<rparr>"

lemma auth_order_irrelevant_witness:
  "TestAuthMatrix (\<lambda>_ _. Inr (demo_answer 200 ''ok'')) None ''http://h/'' [''/admin'']
     [(''guest'', [''A: 1'']), (''Admin'', [''A: 2''])] =
   TestAuthMatrix (\<lambda>_ _. Inr (demo_answer 200 ''ok'')) None ''http://h/'' [''/admin'']
     [(''Admin'', [''A: 2'']), (''guest'', [''A: 1''])]"
  by (rule auth_order_irrelevant [THEN conjunct2, THEN conjunct2]) (simp, code_simp)

section \<open>The verdict\<close>

lemma find_hd: "find P xs = (case filter P xs of [] \<Rightarrow> None | x # _ \<Rightarrow> Some x)"
  by (induction xs) auto

definition first_of_level :: "role_response \<Rightarrow> role_response list \<Rightarrow> bool" where
  "first_of_level u rs \<longleftrightarrow> u \<in> set rs \<and>
     (\<forall>r\<in>set rs. rp_level r = rp_level u \<longrightarrow> r = u \<or> to_lower (rp_role u) < to_lower (rp_role r))"

lemma sort_responses_level:
  "filter (\<lambda>r. rp_level r = l) (sort_responses rs) =
   sort_key (\<lambda>r. to_lower (rp_role r)) (filter (\<lambda>r. rp_level r = l) rs)"
  by (simp add: sort_responses_def sort_key_stable filter_sort)

lemma sort_key_least:
  assumes "u \<in> set xs" "\<And>x. x \<in> set xs \<Longrightarrow> x = u \<or> f u < f x"
  obtains ys where "sort_key f xs = u # ys"
proof (cases "sort_key f xs")
  case Nil
  then have "xs = []" by (metis length_0_conv length_sort)
  with assms show ?thesis by simp
next
  case (Cons y ys)
  have "u \<in> set (sort_key f xs)" "sorted (map f (sort_key f xs))" using assms(1) by simp_all
  then have "f y \<le> f u" unfolding Cons by auto
  moreover have "y \<in> set xs" using Cons by (metis list.set_intros(1) set_sort)
  ultimately show ?thesis using assms(2) [of y] Cons that by auto
qed

lemma pick_first_of_level:
  assumes "first_of_level u rs" "rp_level u = l"
  shows "pickAuthRoleResponse (sort_responses rs) l = Some u"
proof -
  obtain ys where "sort_key (\<lambda>r. to_lower (rp_role r)) (filter (\<lambda>r. rp_level r = l) rs) = u # ys"
    by (rule sort_key_least [of u "filter (\<lambda>r. rp_level r = l) rs" "\<lambda>r. to_lower (rp_role r)"])
       (use assms in \<open>auto simp: first_of_level_def\<close>)
  then show ?thesis by (simp add: pickAuthRoleResponse_def find_hd sort_responses_level)
qed

lemma sort_responses_head:
  assumes "rs \<noteq> []"
  shows "sort_responses rs ! 0 \<in> set rs \<and> (\<forall>r\<in>set rs. rp_level (sort_responses rs ! 0) \<le> rp_level r)"
proof -
  have s: "set (sort_responses rs) = set rs" "sorted (map rp_level (sort_responses rs))"
    by (simp_all add: sort_responses_def)
  then obtain x xs where "sort_responses rs = x # xs" using assms by (cases "sort_responses rs") auto
  with s show ?thesis by auto
qed

text \<open>C35: When there is an answer for an ordinary user and one for an administrator (the first by name of each level), a finding
  is reported exactly when the user got 403 and the administrator 200, or when the path looks administrative and the two
  answers agree in status, length and SimHash. A finding names the administrator's role and selects its answer; without
  one the selected answer is of the lowest level.
\<close>

theorem auth_verdict:
  assumes u: "first_of_level u rs" "rp_level u = 1" "rp_resp u = Some ur"
      and a: "first_of_level a rs" "rp_level a = 2" "rp_resp a = Some ar"
  shows "case evaluateAuthMatrixResponses path rs of (sel, fnd) \<Rightarrow>
    (fnd \<noteq> None \<longleftrightarrow> rr_status ur = 403 \<and> rr_status ar = 200 \<or>
       isAdminishPath path \<and> rr_status ur = rr_status ar \<and> length (rr_body ur) = length (rr_body ar) \<and>
       simhashBody (rr_body ur) = simhashBody (rr_body ar)) \<and>
    (case fnd of Some f \<Rightarrow> sel = a \<and> af_role f = rp_role a
               | None \<Rightarrow> sel \<in> set rs \<and> (\<forall>r\<in>set rs. rp_level sel \<le> rp_level r))"
proof -
  have "rs \<noteq> []" using u(1) by (auto simp: first_of_level_def)
  from sort_responses_head [OF this] show ?thesis
    using u(2,3) a(2,3)
    by (simp add: evaluateAuthMatrixResponses_def pick_first_of_level [OF u(1,2)] pick_first_of_level [OF a(1,2)] Let_def
        sameAuthResponse_def isAdminishPath_def)
qed

lemma auth_verdict_witness:
  "snd (evaluateAuthMatrixResponses ''/x''
     [\<lparr>rp_role = ''user'', rp_level = 1, rp_raw = '''', rp_resp = Some (demo_answer 403 ''''), rp_err = None\<rparr>,
      \<lparr>rp_role = ''admin'', rp_level = 2, rp_raw = '''', rp_resp = Some (demo_answer 200 ''k''), rp_err = None\<rparr>]) \<noteq> None"
  using auth_verdict [of "\<lparr>rp_role = ''user'', rp_level = 1, rp_raw = '''', rp_resp = Some (demo_answer 403 ''''), rp_err = None\<rparr>"
      "[\<lparr>rp_role = ''user'', rp_level = 1, rp_raw = '''', rp_resp = Some (demo_answer 403 ''''), rp_err = None\<rparr>,
        \<lparr>rp_role = ''admin'', rp_level = 2, rp_raw = '''', rp_resp = Some (demo_answer 200 ''k''), rp_err = None\<rparr>]"
      "demo_answer 403 ''''"
      "\<lparr>rp_role = ''admin'', rp_level = 2, rp_raw = '''', rp_resp = Some (demo_answer 200 ''k''), rp_err = None\<rparr>"
      "demo_answer 200 ''k''" "''/x''"]
  by (simp add: first_of_level_def demo_answer_def split: prod.splits)

text \<open>With one role above the lowest level and one at it, the substitutes of both missing levels are the same answer, so
  that every administrative path is reported, even when every role is refused.\<close>

lemma auth_compares_itself:
  assumes "rp_level g = 0" "0 < rp_level r" "rp_resp r = Some p"
  shows "snd (evaluateAuthMatrixResponses path [g, r]) \<noteq> None \<longleftrightarrow> isAdminishPath path"
  using assms
  by (auto simp: evaluateAuthMatrixResponses_def sort_responses_def pickAuthRoleResponse_def sameAuthResponse_def
      isAdminishPath_def Let_def)

end
