(* ===== verification/GoQuery.thy ===== *)
theory GoQuery
  imports GoText SortedMap "HOL-Library.AList"
begin

text \<open>
  Query strings as in Go's \<open>net/url\<close>: \<open>ParseQuery\<close>, \<open>Values.Set\<close> and \<open>Values.Encode\<close>. The values are a map from
  names to lists, here an association list with distinct names in the order of their first occurrence; the encoding
  sorts the names, and does not depend on that order.
\<close>

type_synonym query_values = "(string \<times> string list) list"

section \<open>Escaping\<close>

definition upper_hex :: "nat \<Rightarrow> char" where
  "upper_hex n = (if n < 10 then char_of (48 + n) else char_of (55 + n))"

definition query_plain :: "char \<Rightarrow> bool" where
  "query_plain c \<longleftrightarrow> is_alpha c \<or> is_digit c \<or> c \<in> set ''-_.~''"

definition escape_char :: "char \<Rightarrow> string" where
  "escape_char c =
     (if query_plain c then [c] else if c = CHR '' '' then ''+''
      else [CHR ''%'', upper_hex (byte c div 16), upper_hex (byte c mod 16)])"

definition QueryEscape :: "string \<Rightarrow> string" where
  "QueryEscape s = concat (map escape_char s)"

text \<open>The error of \<open>QueryUnescape\<close> is \<open>None\<close>.\<close>

fun QueryUnescape :: "string \<Rightarrow> string option" where
  "QueryUnescape [] = Some []"
| "QueryUnescape (c # s) =
     (if c = CHR ''%'' then
        (case s of
           h # l # r \<Rightarrow>
             if \<not> (is_hex h \<and> is_hex l) then None
             else map_option (\<lambda>t. char_of (hex_val h * 16 + hex_val l) # t) (QueryUnescape r)
         | _ \<Rightarrow> None)
      else map_option (\<lambda>t. (if c = CHR ''+'' then CHR '' '' else c) # t) (QueryUnescape s))"

section \<open>Values\<close>

definition values_get :: "query_values \<Rightarrow> string \<Rightarrow> string list" where
  "values_get m k = (case map_of m k of Some vs \<Rightarrow> vs | None \<Rightarrow> [])"

definition values_add :: "query_values \<Rightarrow> string \<Rightarrow> string \<Rightarrow> query_values" where
  "values_add m k v = AList.update k (values_get m k @ [v]) m"

definition values_set :: "query_values \<Rightarrow> string \<Rightarrow> string \<Rightarrow> query_values" where
  "values_set m k v = AList.update k [v] m"

text \<open>One part between ampersands: an empty one, one with a semicolon and one that cannot be decoded are dropped.\<close>

definition query_part :: "query_values \<Rightarrow> string \<Rightarrow> query_values" where
  "query_part m part =
     (if CHR '';'' \<in> set part \<or> part = '''' then m
      else case cut_at (\<lambda>c. c = CHR ''='') part of (k, v) \<Rightarrow>
        (case (QueryUnescape k, QueryUnescape (case v of Some w \<Rightarrow> w | None \<Rightarrow> '''')) of
           (Some k', Some v') \<Rightarrow> values_add m k' v'
         | _ \<Rightarrow> m))"

definition parse_query :: "string \<Rightarrow> query_values" where
  "parse_query q = foldl query_part [] (split_on (CHR ''&'') q)"

definition encode_pair :: "string \<Rightarrow> string \<Rightarrow> string" where
  "encode_pair k v = QueryEscape k @ ''='' @ QueryEscape v"

definition query_encode :: "query_values \<Rightarrow> string" where
  "query_encode m = join ''&'' (concat (map (\<lambda>(k, vs). map (encode_pair k) vs) (sorted_items (Some m))))"

section \<open>Lemmas\<close>

definition values_ok :: "query_values \<Rightarrow> bool" where
  "values_ok m \<longleftrightarrow> distinct (map fst m) \<and> (\<forall>(k, vs) \<in> set m. vs \<noteq> [])"

lemma upper_hex_facts: "n < 16 \<Longrightarrow> is_hex (upper_hex n) \<and> hex_val (upper_hex n) = n \<and> upper_hex n \<noteq> CHR ''%''"
proof -
  assume "n < 16"
  then have "is_hex (upper_hex n) \<and> hex_val (upper_hex n) = n"
    by (auto simp: upper_hex_def is_hex_def hex_val_def is_digit_def is_lower_def byte_char_of)
  moreover have "\<not> is_hex (CHR ''%'')" by (simp add: is_hex_def is_digit_def byte_def)
  ultimately show ?thesis by metis
qed

lemma char_of_byte [simp]: "char_of (byte c) = c"
  by (simp add: byte_def)

lemma byte_less: "byte c < 256"
  by (simp add: byte_def)

lemma byte_div: "byte c div 16 < 16"
  using byte_less [of c] by (simp add: less_mult_imp_div_less)

lemmas byte_hex = upper_hex_facts [OF byte_div] upper_hex_facts [of "byte c mod 16" for c, simplified]

lemma is_hex_plain: "is_hex c \<Longrightarrow> query_plain c"
  by (auto simp: is_hex_def query_plain_def is_alpha_def is_lower_def is_upper_def)

lemma unescape_escape_char:
  "QueryUnescape (escape_char c @ s) = map_option ((#) c) (QueryUnescape s)"
proof -
  have "\<not> query_plain (CHR ''%'')" "\<not> query_plain (CHR ''+'')"
    by (simp_all add: query_plain_def is_alpha_def is_lower_def is_upper_def is_digit_def byte_def)
  moreover have "hex_val (upper_hex (byte c div 16)) * 16 + hex_val (upper_hex (byte c mod 16)) = byte c"
    by (simp add: byte_hex)
  ultimately show ?thesis by (auto simp: escape_char_def byte_hex)
qed

lemma unescape_escape [simp]: "QueryUnescape (QueryEscape s) = Some s"
  by (induction s) (simp_all add: QueryEscape_def unescape_escape_char)

lemma escape_clean: "c \<in> set (QueryEscape s) \<Longrightarrow> query_plain c \<or> c = CHR ''%'' \<or> c = CHR ''+''"
proof -
  have "query_plain c \<or> c = CHR ''%'' \<or> c = CHR ''+''" if "c \<in> set (escape_char d)" for c d
    using that by (auto simp: escape_char_def is_hex_plain byte_hex split: if_splits)
  then show "c \<in> set (QueryEscape s) \<Longrightarrow> query_plain c \<or> c = CHR ''%'' \<or> c = CHR ''+''"
    by (auto simp: QueryEscape_def)
qed

lemma escape_free:
  "CHR ''&'' \<notin> set (QueryEscape s)" "CHR ''='' \<notin> set (QueryEscape s)" "CHR '';'' \<notin> set (QueryEscape s)"
  using escape_clean [of "CHR ''&''" s] escape_clean [of "CHR ''=''" s] escape_clean [of "CHR '';''" s]
  by (auto simp: query_plain_def is_alpha_def is_lower_def is_upper_def is_digit_def byte_def)

lemma index_byte_skip: "(\<And>c. c \<in> set s \<Longrightarrow> \<not> q c) \<Longrightarrow> q d \<Longrightarrow> index_byte q (s @ d # r) = Some (length s)"
  by (induction s) auto

lemma query_part_pair: "query_part m (encode_pair k v) = values_add m k v"
proof -
  have "index_byte (\<lambda>c. c = CHR ''='') (QueryEscape k @ CHR ''='' # QueryEscape v) = Some (length (QueryEscape k))"
    using escape_free(2) [of k] by (intro index_byte_skip) auto
  then show ?thesis by (simp add: query_part_def encode_pair_def escape_free)
qed

lemma values_add_new: "k \<notin> fst ` set m \<Longrightarrow> values_add m k v = m @ [(k, [v])]"
proof -
  assume k: "k \<notin> fst ` set m"
  then have "map_of m k = None" by (simp add: map_of_eq_None_iff)
  moreover have "AList.update k w m = m @ [(k, w)]" for w using k by (induction m) auto
  ultimately show ?thesis by (simp add: values_add_def values_get_def)
qed

lemma values_add_last: "k \<notin> fst ` set m \<Longrightarrow> values_add (m @ [(k, vs)]) k v = m @ [(k, vs @ [v])]"
proof -
  assume k: "k \<notin> fst ` set m"
  then have "map_of m k = None" by (simp add: map_of_eq_None_iff)
  then have "map_of (m @ [(k, vs)]) k = Some vs" by (simp add: map_add_def)
  moreover have "AList.update k w (m @ [(k, vs)]) = m @ [(k, w)]" for w using k by (induction m) auto
  ultimately show ?thesis by (simp add: values_add_def values_get_def)
qed

lemma add_values:
  assumes "k \<notin> fst ` set m"
  shows "foldl query_part (m @ [(k, us)]) (map (encode_pair k) vs) = m @ [(k, us @ vs)]"
  by (induction vs arbitrary: us) (simp_all add: query_part_pair values_add_last [OF assms])

lemma add_all_values:
  assumes "values_ok xs" "fst ` set m \<inter> fst ` set xs = {}"
  shows "foldl query_part m (concat (map (\<lambda>(k, vs). map (encode_pair k) vs) xs)) = m @ xs"
  using assms
proof (induction xs arbitrary: m)
  case (Cons x xs)
  obtain k v vs where x: "x = (k, v # vs)" using Cons.prems(1) by (cases x; cases "snd x") (auto simp: values_ok_def)
  have "foldl query_part (values_add m k v) (map (encode_pair k) vs) = m @ [(k, v # vs)]"
    using Cons.prems(2) add_values [of k m "[v]" vs] by (simp add: x values_add_new)
  then show ?case using Cons.IH [of "m @ [(k, v # vs)]"] Cons.prems by (auto simp: x values_ok_def query_part_pair)
qed simp

lemma parse_query_empty: "parse_query '''' = []"
  by (simp add: parse_query_def query_part_def)

text \<open>What is encoded is read back, in the order of the names.\<close>

lemma parse_query_encode:
  assumes "values_ok m" shows "parse_query (query_encode m) = sorted_items (Some m)"
proof (cases "sorted_items (Some m) = []")
  case True
  then show ?thesis by (simp add: query_encode_def parse_query_empty)
next
  case False
  let ?xs = "sorted_items (Some m)"
  let ?parts = "concat (map (\<lambda>(k, vs). map (encode_pair k) vs) ?xs)"
  have s: "set ?xs = set m" by (simp add: sorted_items_def gm_items_def)
  have ok: "values_ok ?xs"
    using assms sorted_items_distinct [of "Some m"] by (simp add: values_ok_def s gm_ok_def gm_keys_def gm_items_def)
  obtain x xs where "?xs = x # xs" using False by (cases ?xs) auto
  then have "?parts \<noteq> []" using ok by (cases x; cases "snd x") (auto simp: values_ok_def)
  moreover have "\<forall>w \<in> set ?parts. CHR ''&'' \<notin> set w" by (auto simp: encode_pair_def escape_free)
  ultimately have "split_on (CHR ''&'') (query_encode m) = ?parts" by (simp add: query_encode_def split_on_join)
  then show ?thesis using add_all_values [OF ok, of "[]"] by (simp add: parse_query_def)
qed

lemma values_ok_update: "values_ok m \<Longrightarrow> w \<noteq> [] \<Longrightarrow> values_ok (AList.update k w m)"
  by (induction m) (auto simp: values_ok_def dom_update)

lemma values_ok_set: "values_ok m \<Longrightarrow> values_ok (values_set m k v)"
  by (simp add: values_set_def values_ok_update)

lemma values_ok_add: "values_ok m \<Longrightarrow> values_ok (values_add m k v)"
  by (simp add: values_add_def values_ok_update)

lemma values_ok_parse: "values_ok (parse_query q)"
proof -
  have "values_ok m \<Longrightarrow> values_ok (query_part m part)" for m part
    by (simp add: query_part_def values_ok_add split: prod.split option.split)
  then have "values_ok m \<Longrightarrow> values_ok (foldl query_part m ps)" for m ps by (induction ps arbitrary: m) auto
  moreover have "values_ok []" by (simp add: values_ok_def)
  ultimately show ?thesis unfolding parse_query_def by blast
qed

end
