(* ===== verification/ParamFuzz.thy ===== *)
theory ParamFuzz
  imports GoQuery AuthMatrix Filters "HOL-Library.Sublist"
begin

text \<open>
  The search for hidden parameters, \<open>pkg/engine/paramfuzz.go\<close>: the hints and candidates, the probe request, the
  bisection that isolates the parameters that change the answer, and the bounded queue of tasks. The exchange with the
  target is a parameter that passes a state; \<open>EscapedPath\<close> and \<open>URL.String\<close> are those of \<open>net_ops\<close>; the matches of the
  hint patterns and the HTML parser, which is a library, are parameters as well. Durations of answers are left out.
\<close>

section \<open>Tasks, hits and names\<close>

record param_task =
  pt_url :: string
  pt_method :: string
  pt_headers :: "(string \<times> string) list"
  pt_hash :: "64 word"
  pt_status :: int
  pt_size :: int
  pt_type :: string
  pt_hints :: "string list"

record param_fingerprint =
  pf_status :: int
  pf_size :: int
  pf_hash :: "64 word"

record param_hit =
  ph_params :: "string list"
  ph_url :: string
  ph_status :: int
  ph_size :: int
  ph_words :: int
  ph_lines :: int
  ph_type :: string
  ph_headers :: "(string \<times> string) list"
  ph_request :: string
  ph_response :: string

record param_snap =
  ps_agent :: string
  ps_template :: string
  ps_headers :: "(string \<times> string) list"
  ps_wordlist :: "string list"
  ps_timeout :: duration
  ps_proxy :: string
  ps_save_raw :: bool

definition name_key :: "string \<Rightarrow> string" where
  "name_key s = to_lower (trim_space s)"

definition unique_step :: "string list \<times> string list \<Rightarrow> string \<Rightarrow> string list \<times> string list" where
  "unique_step = (\<lambda>(seen, out) value0.
     let value = trim_space value0 in
     if value = '''' then (seen, out)
     else let key = to_lower value in
          if key \<in> set seen then (seen, out) else (key # seen, out @ [value]))"

definition uniqueStrings :: "string list \<Rightarrow> string list" where
  "uniqueStrings vs = sort (snd (foldl unique_step ([], []) vs))"

definition paramHintStopwords :: "string list" where
  "paramHintStopwords = [''a'', ''an'', ''and'', ''auth'', ''authentication'', ''in'', ''is'', ''log'', ''login'',
     ''missing'', ''or'', ''parameter'', ''please'', ''provide'', ''required'', ''the'', ''to'', ''valid'', ''value'']"

definition isLikelyParamHint :: "string \<Rightarrow> bool" where
  "isLikelyParamHint v \<longleftrightarrow> name_key v \<noteq> '''' \<and> name_key v \<notin> set paramHintStopwords"

definition extractParamHintsFromURL :: "string \<Rightarrow> string list" where
  "extractParamHintsFromURL targetURL =
     (case url_parse (trim_space targetURL) of
        None \<Rightarrow> []
      | Some u \<Rightarrow> filter isLikelyParamHint (map fst (parse_query (u_query u))))"

text \<open>\<open>find_all\<close> gives the first groups of all matches of the five patterns, in their order.\<close>

definition extractParamHintsFromText :: "(string \<Rightarrow> string list) \<Rightarrow> string \<Rightarrow> string list" where
  "extractParamHintsFromText find_all txt =
     (if trim_space txt = '''' then [] else filter isLikelyParamHint (find_all txt))"

datatype html_node = HtmlNode (hn_element: bool) (hn_data: string) (hn_attrs: "(string \<times> string) list")
  (hn_children: "html_node list")

definition htmlAttr :: "html_node \<Rightarrow> string \<Rightarrow> string" where
  "htmlAttr n key = (case find (\<lambda>(k, _). equal_fold k key) (hn_attrs n) of Some (_, v) \<Rightarrow> trim_space v | None \<Rightarrow> '''')"

definition node_hints :: "html_node \<Rightarrow> string list" where
  "node_hints n =
     (if \<not> hn_element n then []
      else if to_lower (hn_data n) \<in> {''input'', ''select'', ''textarea'', ''button''} then
        (if isLikelyParamHint (htmlAttr n ''name'') then [htmlAttr n ''name''] else [])
      else if to_lower (hn_data n) \<in> {''form'', ''a'', ''link''} then
        extractParamHintsFromURL (htmlAttr n ''action'') @ extractParamHintsFromURL (htmlAttr n ''href'')
      else [])"

primrec walk_hints :: "html_node \<Rightarrow> string list" where
  "walk_hints (HtmlNode e d as cs) = node_hints (HtmlNode e d as cs) @ concat (map walk_hints cs)"

definition extractParamHintsFromHTML :: "(string \<Rightarrow> html_node option) \<Rightarrow> string \<Rightarrow> string list" where
  "extractParamHintsFromHTML parse_html body = (case parse_html body of None \<Rightarrow> [] | Some d \<Rightarrow> walk_hints d)"

record param_ops =
  po_net :: net_ops
  po_matches :: "string \<Rightarrow> string list"
  po_html :: "string \<Rightarrow> html_node option"
  po_payload :: string

definition extractParamHints :: "param_ops \<Rightarrow> string \<Rightarrow> string \<Rightarrow> string list" where
  "extractParamHints ops targetURL body =
     uniqueStrings (extractParamHintsFromURL targetURL @
       (if body \<noteq> '''' then extractParamHintsFromText (po_matches ops) body @ extractParamHintsFromHTML (po_html ops) body
        else []))"

definition paramCandidates :: "param_ops \<Rightarrow> string list \<Rightarrow> param_snap option \<Rightarrow> string list \<Rightarrow> string list" where
  "paramCandidates ops customWordlist snap hints =
     (let b0 = uniqueStrings customWordlist;
          b = (case snap of Some c \<Rightarrow> if b0 = [] then uniqueStrings (ps_wordlist c) else b0 | None \<Rightarrow> b0)
      in if b = [] then []
         else uniqueStrings (b @ hints @ (if po_payload ops \<noteq> '''' then [po_payload ops] else [])))"

section \<open>The probe request\<close>

definition looksIdentifierParam :: "string \<Rightarrow> bool" where
  "looksIdentifierParam param =
     (let p = name_key param in
      p \<noteq> '''' \<and> (p = ''id'' \<or> has_suffix p ''_id'' \<or> has_suffix p ''-id'' \<or> has_suffix p ''.id'' \<or> has_suffix p ''id''))"

definition paramProbeValues :: "string list" where
  "paramProbeValues = [''a'', ''b'', ''c'', ''d'', ''e'']"

definition numericParamProbeValues :: "string list" where
  "numericParamProbeValues = [''1'', ''2'', ''3'', ''4'', ''5'']"

definition paramProbeValue :: "string \<Rightarrow> nat \<Rightarrow> string" where
  "paramProbeValue param i =
     (if looksIdentifierParam param then numericParamProbeValues ! (i mod length numericParamProbeValues)
      else paramProbeValues ! (i mod length paramProbeValues))"

definition cloneHeadersMap :: "(string \<times> string) list \<Rightarrow> (string \<times> string) list" where
  "cloneHeadersMap h = h"

definition paramHeadersTemplate :: "param_snap option \<Rightarrow> (string \<times> string) list \<Rightarrow> string" where
  "paramHeadersTemplate snap headers =
     (case snap of
        None \<Rightarrow> renderHeaderBlock (Some headers)
      | Some c \<Rightarrow>
          if headers = [] then ps_template c
          else renderHeaderBlock (Some (foldl (\<lambda>m (k, v). AList.update k v m) (cloneHeadersMap (ps_headers c)) headers)))"

definition probe_query :: "query_values \<Rightarrow> string list \<Rightarrow> query_values" where
  "probe_query q params =
     foldl (\<lambda>m (i, p). if p = '''' then m else values_set m p (paramProbeValue p i)) q (enumerate 0 params)"

definition request_target :: "net_ops \<Rightarrow> url \<Rightarrow> string" where
  "request_target net u =
     (let p = no_escaped net u; r = (if p = '''' then ''/'' else p)
      in if u_query u \<noteq> '''' then r @ ''?'' @ u_query u else r)"

definition snap_agent :: "param_snap option \<Rightarrow> string" where
  "snap_agent snap = (case snap of Some c \<Rightarrow> if ps_agent c \<noteq> '''' then ps_agent c else ''DirFuzz/2.0'' | None \<Rightarrow> ''DirFuzz/2.0'')"

definition DefaultHTTPTimeout :: duration where
  "DefaultHTTPTimeout = 5 * second"

definition snap_timeout :: "param_snap option \<Rightarrow> duration" where
  "snap_timeout snap = (case snap of Some c \<Rightarrow> if ps_timeout c > 0 then ps_timeout c else DefaultHTTPTimeout
     | None \<Rightarrow> DefaultHTTPTimeout)"

definition snap_proxy :: "param_snap option \<Rightarrow> string" where
  "snap_proxy snap = (case snap of Some c \<Rightarrow> ps_proxy c | None \<Rightarrow> '''')"

definition buildParamProbeRequest ::
  "net_ops \<Rightarrow> string \<Rightarrow> string list \<Rightarrow> param_snap option \<Rightarrow> (string \<times> string) list \<Rightarrow> (string \<times> string) result" where
  "buildParamProbeRequest net taskURL params snap headers =
     (case url_parse taskURL of
        None \<Rightarrow> Inl ''invalid param fuzz target URL''
      | Some u0 \<Rightarrow>
          let u = u0\<lparr>u_query := query_encode (probe_query (parse_query (u_query u0)) params)\<rparr>
          in Inr (no_text net u,
                  buildRequest ''GET'' (request_target net u) (u_host u) (snap_agent snap) (paramHeadersTemplate snap headers) ''''))"

section \<open>Comparing answers and isolating parameters\<close>

definition responseDiffersFromBaseline :: "param_fingerprint \<Rightarrow> int \<Rightarrow> int \<Rightarrow> 64 word \<Rightarrow> bool" where
  "responseDiffersFromBaseline b statusCode sz h \<longleftrightarrow> statusCode \<noteq> pf_status b \<or> pf_size b \<noteq> sz \<or> h \<noteq> pf_hash b"

definition isUsefulParamProbeTransition :: "int \<Rightarrow> bool" where
  "isUsefulParamProbeTransition statusCode \<longleftrightarrow> statusCode \<noteq> 404"

definition responseMatchesParamControls :: "param_fingerprint list \<Rightarrow> int \<Rightarrow> int \<Rightarrow> 64 word \<Rightarrow> bool" where
  "responseMatchesParamControls controls statusCode sz h =
     list_ex (\<lambda>c. pf_status c = statusCode \<and> pf_size c = sz \<and> pf_hash c = h) controls"

definition capture_line :: "(string \<times> string) list \<Rightarrow> string \<Rightarrow> (string \<times> string) list" where
  "capture_line headers line =
     (case index_byte (\<lambda>c. c = CHR '':'') line of
        None \<Rightarrow> headers
      | Some i \<Rightarrow>
          let key = to_lower (trim_space (take i line)); val = trim_space (drop (i + 1) line) in
          if key = ''server'' then AList.update ''Server'' val headers
          else if key = ''x-powered-by'' then AList.update ''X-Powered-By'' val headers
          else if key = ''cf-ray'' then AList.update ''Cf-Ray'' val headers
          else if key = ''content-type'' then AList.update ''Content-Type'' val headers
          else headers)"

definition captureParamHeaders :: "string \<Rightarrow> (string \<times> string) list" where
  "captureParamHeaders rawHeaders = foldl capture_line [] (split_on LF (replace_str crlf [LF] rawHeaders))"

text \<open>One exchange: the address, the request, the time-out and the proxy; \<open>None\<close> when Go returns neither a response nor
  an error.\<close>

type_synonym 's exchange = "string \<Rightarrow> string \<Rightarrow> duration \<Rightarrow> string \<Rightarrow> 's \<Rightarrow> raw_response result option \<times> 's"

definition probeParamSubset ::
  "net_ops \<Rightarrow> 's exchange \<Rightarrow> param_task \<Rightarrow> param_fingerprint \<Rightarrow> param_fingerprint list \<Rightarrow> param_snap option
   \<Rightarrow> string list \<Rightarrow> 's \<Rightarrow> param_hit option \<times> 's" where
  "probeParamSubset net exec task baseline controls snap params s =
     (if params = [] then (None, s)
      else case buildParamProbeRequest net (pt_url task) params snap (pt_headers task) of
        Inl e \<Rightarrow> (None, s)
      | Inr (probeURL, rawReq) \<Rightarrow>
          (case exec probeURL rawReq (snap_timeout snap) (snap_proxy snap) s of
             (Some (Inr resp), s') \<Rightarrow>
               let m = computeResponseMetrics resp ''GET'' in
               if \<not> responseDiffersFromBaseline baseline (rr_status resp) (mt_size m) (mt_hash m) then (None, s')
               else if \<not> isUsefulParamProbeTransition (rr_status resp) then (None, s')
               else if responseMatchesParamControls controls (rr_status resp) (mt_size m) (mt_hash m) then (None, s')
               else
                 let raw = (case snap of Some c \<Rightarrow> ps_save_raw c | None \<Rightarrow> False) in
                 (Some \<lparr>ph_params = params, ph_url = probeURL, ph_status = rr_status resp, ph_size = mt_size m,
                    ph_words = mt_words m, ph_lines = mt_lines m, ph_type = mt_type m,
                    ph_headers = captureParamHeaders (rr_headers resp),
                    ph_request = (if raw then rawReq else ''''), ph_response = (if raw then rr_raw resp else '''')\<rparr>, s')
           | (_, s') \<Rightarrow> (None, s')))"

definition paramChunkSize :: nat where
  "paramChunkSize = 50"

text \<open>\<open>probe\<close> is \<open>probeParamSubset\<close> for the task at hand: an error and a missing match are both no hit.\<close>

function (sequential) discoverParamHits :: "(string list \<Rightarrow> 's \<Rightarrow> param_hit option \<times> 's) \<Rightarrow> string list \<Rightarrow> 's \<Rightarrow> param_hit list \<times> 's"
and discover_chunks :: "(string list \<Rightarrow> 's \<Rightarrow> param_hit option \<times> 's) \<Rightarrow> string list \<Rightarrow> 's \<Rightarrow> param_hit list \<times> 's" where
  "discoverParamHits probe candidates s =
     (if candidates = [] then ([], s)
      else if length candidates > paramChunkSize then discover_chunks probe candidates s
      else case probe candidates s of
        (None, s1) \<Rightarrow> ([], s1)
      | (Some hit, s1) \<Rightarrow>
          if length candidates = 1 then ([hit\<lparr>ph_params := candidates\<rparr>], s1)
          else
            let mid = length candidates div 2 in
            case discoverParamHits probe (take mid candidates) s1 of (l, s2) \<Rightarrow>
            case discoverParamHits probe (drop mid candidates) s2 of (r, s3) \<Rightarrow> (l @ r, s3))"
| "discover_chunks probe candidates s =
     (if candidates = [] then ([], s)
      else case discoverParamHits probe (take paramChunkSize candidates) s of (h, s1) \<Rightarrow>
           case discover_chunks probe (drop paramChunkSize candidates) s1 of (hs, s2) \<Rightarrow> (h @ hs, s2))"
  by pat_completeness auto
termination
  by (relation "measure (\<lambda>x. case x of
        Inl (_, cs, _) \<Rightarrow> (if length cs > paramChunkSize then 2 * length cs + 2 else 2 * length cs)
      | Inr (_, cs, _) \<Rightarrow> 2 * length cs + 1)")
     (auto simp: paramChunkSize_def min_def neq_Nil_conv)

declare discoverParamHits.simps [simp del] discover_chunks.simps [simp del]

section \<open>What the bisection finds\<close>

lemma subseq_take_drop: "subseq as (take n cs) \<Longrightarrow> subseq bs (drop n cs) \<Longrightarrow> subseq (as @ bs) cs"
  using list_emb_append_mono [of "(=)" as "take n cs" bs "drop n cs"] by simp

text \<open>A property of the candidates, the hits and the states that every step of the search keeps.\<close>

lemma discover_rule:
  assumes none: "\<And>s. P [] s [] s"
    and miss: "\<And>cs s s'. cs \<noteq> [] \<Longrightarrow> length cs \<le> paramChunkSize \<Longrightarrow> probe cs s = (None, s') \<Longrightarrow> P cs s [] s'"
    and single: "\<And>c s h s'. probe [c] s = (Some h, s') \<Longrightarrow> P [c] s [h\<lparr>ph_params := [c]\<rparr>] s'"
    and split: "\<And>as bs s h s1 l s2 r s3. probe (as @ bs) s = (Some h, s1) \<Longrightarrow> as \<noteq> [] \<Longrightarrow> bs \<noteq> [] \<Longrightarrow>
      length (as @ bs) \<le> paramChunkSize \<Longrightarrow> P as s1 l s2 \<Longrightarrow> P bs s2 r s3 \<Longrightarrow> P (as @ bs) s (l @ r) s3"
    and chunk: "\<And>as bs s l s2 r s3. as \<noteq> [] \<Longrightarrow> P as s l s2 \<Longrightarrow> P bs s2 r s3 \<Longrightarrow> P (as @ bs) s (l @ r) s3"
  shows "discoverParamHits probe cs s = (fs, s') \<Longrightarrow> P cs s fs s'"
    and "discover_chunks probe cs s = (fs, s') \<Longrightarrow> P cs s fs s'"
proof (induction probe\<equiv>probe cs s and probe\<equiv>probe cs s arbitrary: fs s' and fs s' rule: discoverParamHits_discover_chunks.induct)
  case (1 cs s)
  note eq = discoverParamHits.simps [of probe cs s] and prem = "1.prems"
  consider "cs = []" | "cs \<noteq> []" "length cs > paramChunkSize" | h s1 where "cs \<noteq> []" "\<not> length cs > paramChunkSize" "probe cs s = (h, s1)"
    by fastforce
  then show ?case
  proof cases
    case 1
    with prem none show ?thesis by (simp add: discoverParamHits.simps [of probe "[]" s])
  next
    case 2
    with prem "1.hyps"(1) show ?thesis by (simp add: eq)
  next
    case 3
    show ?thesis
    proof (cases h)
      case None
      with prem 3 miss [of cs s s1] show ?thesis by (simp add: eq)
    next
      case (Some hit)
      show ?thesis
      proof (cases "length cs = 1")
        case True
        then obtain c where "cs = [c]" by (auto simp: length_Suc_conv)
        with prem 3 Some single [of c s hit s1] show ?thesis by (simp add: discoverParamHits.simps [of probe "[c]" s])
      next
        case False
        let ?mid = "length cs div 2"
        obtain l s2 where l: "discoverParamHits probe (take ?mid cs) s1 = (l, s2)" by fastforce
        obtain r s3 where r: "discoverParamHits probe (drop ?mid cs) s2 = (r, s3)" by fastforce
        have "fs = l @ r" "s' = s3" using prem 3 Some False l r by (simp_all add: eq Let_def)
        moreover have "P (take ?mid cs) s1 l s2" using "1.hyps"(2) 3 Some False l by simp
        moreover have "P (drop ?mid cs) s2 r s3" using "1.hyps"(3) 3 Some False l r by simp
        moreover have "0 < ?mid" "?mid < length cs" using False 3(1) by (cases cs; cases "tl cs"; auto)+
        ultimately show ?thesis using split [of "take ?mid cs" "drop ?mid cs" s hit s1 l s2 r s3] 3 Some by simp
      qed
    qed
  qed
next
  case (2 cs s)
  note eq = discover_chunks.simps [of probe cs s] and prem = "2.prems"
  show ?case
  proof (cases "cs = []")
    case True
    with prem none show ?thesis by (simp add: discover_chunks.simps [of probe "[]" s])
  next
    case False
    obtain h s1 where h: "discoverParamHits probe (take paramChunkSize cs) s = (h, s1)" by fastforce
    obtain t s2 where t: "discover_chunks probe (drop paramChunkSize cs) s1 = (t, s2)" by fastforce
    have "fs = h @ t" "s' = s2" using prem False h t by (simp_all add: eq)
    moreover have "P (take paramChunkSize cs) s h s1" using "2.hyps"(1) False h by simp
    moreover have "P (drop paramChunkSize cs) s1 t s2" using "2.hyps"(2) False h t by simp
    moreover have "take paramChunkSize cs \<noteq> []" using False by (simp add: paramChunkSize_def)
    ultimately show ?thesis using chunk [of "take paramChunkSize cs" s h s1 "drop paramChunkSize cs" t s2] by simp
  qed
qed

section \<open>Controls and whole searches\<close>

definition paramControlNames :: "string list" where
  "paramControlNames = [''__dirfuzz_control'', ''__dirfuzz_probe'']"

definition chooseParamControlNames :: "string \<Rightarrow> string list \<Rightarrow> string list" where
  "chooseParamControlNames taskURL candidates =
     (let used = map name_key candidates @
            (case url_parse taskURL of Some u \<Rightarrow> map (\<lambda>(k, _). name_key k) (parse_query (u_query u)) | None \<Rightarrow> [])
      in filter (\<lambda>n. to_lower n \<notin> set used) paramControlNames)"

primrec run_controls ::
  "net_ops \<Rightarrow> 's exchange \<Rightarrow> param_task \<Rightarrow> param_snap option \<Rightarrow> string list \<Rightarrow> 's \<Rightarrow> param_fingerprint list \<times> 's" where
  "run_controls net exec task snap [] s = ([], s)"
| "run_controls net exec task snap (c # cs) s =
     (case buildParamProbeRequest net (pt_url task) [c] snap (pt_headers task) of
        Inl e \<Rightarrow> run_controls net exec task snap cs s
      | Inr (probeURL, rawReq) \<Rightarrow>
          (case exec probeURL rawReq (snap_timeout snap) (snap_proxy snap) s of
             (Some (Inr resp), s1) \<Rightarrow>
               (case run_controls net exec task snap cs s1 of
                  (fps, s2) \<Rightarrow> (\<lparr>pf_status = rr_status resp, pf_size = mt_size (computeResponseMetrics resp ''GET''),
                                  pf_hash = mt_hash (computeResponseMetrics resp ''GET'')\<rparr> # fps, s2))
           | (_, s1) \<Rightarrow> run_controls net exec task snap cs s1))"

definition paramNoiseControls ::
  "net_ops \<Rightarrow> 's exchange \<Rightarrow> param_task \<Rightarrow> string list \<Rightarrow> param_snap option \<Rightarrow> 's \<Rightarrow> param_fingerprint list \<times> 's" where
  "paramNoiseControls net exec task candidates snap s =
     (if pt_url task = '''' then ([], s)
      else run_controls net exec task snap (chooseParamControlNames (pt_url task) candidates) s)"

definition task_baseline :: "param_task \<Rightarrow> param_fingerprint" where
  "task_baseline t = \<lparr>pf_status = pt_status t, pf_size = pt_size t, pf_hash = pt_hash t\<rparr>"

text \<open>A task without a baseline gets it from one request with its own method.\<close>

definition measure_baseline ::
  "param_ops \<Rightarrow> 's exchange \<Rightarrow> param_task \<Rightarrow> param_snap option \<Rightarrow> 's \<Rightarrow> param_task option result \<times> 's" where
  "measure_baseline ops exec task snap s =
     (case url_parse (pt_url task) of
        None \<Rightarrow> (Inl ''invalid param fuzz target URL'', s)
      | Some u \<Rightarrow>
          (case exec (no_text (po_net ops) u)
               (buildRequest (pt_method task) (request_target (po_net ops) u) (u_host u) (snap_agent snap)
                  (paramHeadersTemplate snap (pt_headers task)) '''') (snap_timeout snap) (snap_proxy snap) s of
             (None, s') \<Rightarrow> (Inr None, s')
           | (Some (Inl e), s') \<Rightarrow> (Inl e, s')
           | (Some (Inr resp), s') \<Rightarrow>
               let m = computeResponseMetrics resp (pt_method task) in
               (Inr (Some (task\<lparr>pt_status := rr_status resp, pt_size := mt_size m, pt_hash := mt_hash m, pt_type := mt_type m,
                  pt_hints := (if pt_hints task = [] then extractParamHints ops (pt_url task) (rr_body resp)
                               else pt_hints task)\<rparr>)), s')))"

definition search_params ::
  "param_ops \<Rightarrow> 's exchange \<Rightarrow> param_task \<Rightarrow> string list \<Rightarrow> param_snap option \<Rightarrow> 's \<Rightarrow> param_hit list \<times> 's" where
  "search_params ops exec task candidates snap s =
     (if candidates = [] then ([], s)
      else case paramNoiseControls (po_net ops) exec task candidates snap s of
        (controls, s1) \<Rightarrow>
          discoverParamHits (probeParamSubset (po_net ops) exec task (task_baseline task) controls snap) candidates s1)"

definition FuzzParams ::
  "param_ops \<Rightarrow> 's exchange \<Rightarrow> param_snap option \<Rightarrow> param_task \<Rightarrow> string list \<Rightarrow> 's \<Rightarrow> param_hit list result \<times> 's" where
  "FuzzParams ops exec snap task0 customWordlist s =
     (if pt_url task0 = '''' then (Inl ''task.URL is required'', s)
      else
        let task = (if pt_method task0 = '''' then task0\<lparr>pt_method := ''GET''\<rparr> else task0);
            measured = (if pt_status task = 0 \<and> pt_size task = 0 \<and> pt_hash task = 0
                        then measure_baseline ops exec task snap s else (Inr (Some task), s))
        in case measured of
          (Inl e, s1) \<Rightarrow> (Inl e, s1)
        | (Inr None, s1) \<Rightarrow> (Inr [], s1)
        | (Inr (Some t), s1) \<Rightarrow>
            (case search_params ops exec t (paramCandidates ops customWordlist snap (pt_hints t)) snap s1 of
               (hs, s2) \<Rightarrow> (Inr hs, s2)))"

record param_report =
  pp_path :: string
  pp_method :: string
  pp_status :: int
  pp_size :: int
  pp_hash :: "64 word"
  pp_findings :: "param_hit list"

definition report_path :: "string \<Rightarrow> url \<Rightarrow> string" where
  "report_path rawPath u =
     (if is_absolute rawPath then (if u_path u \<noteq> '''' then u_path u else rawPath) @ (if u_query u \<noteq> '''' then ''?'' @ u_query u else '''')
      else rawPath)"

text \<open>\<open>ProbeHiddenParams\<close>; the request of the baseline has the template of the configuration and then the given headers.\<close>

definition ProbeHiddenParams ::
  "param_ops \<Rightarrow> 's exchange \<Rightarrow> param_snap option \<Rightarrow> string \<Rightarrow> string \<Rightarrow> string \<Rightarrow> (string \<times> string) list \<Rightarrow> 's
   \<Rightarrow> (param_report \<times> goerror option) \<times> 's" where
  "ProbeHiddenParams ops exec snap targetURL rawPath meth0 headers s =
     (let rep0 = \<lparr>pp_path = rawPath, pp_method = meth0, pp_status = 0, pp_size = 0, pp_hash = 0, pp_findings = []\<rparr> in
      if targetURL = '''' then ((rep0, Some ''targetURL is required''), s)
      else
        let meth = (if meth0 = '''' then ''GET'' else meth0); rep1 = rep0\<lparr>pp_method := meth\<rparr>;
            taskURL = (if rawPath = '''' then targetURL else if is_absolute rawPath then rawPath
                       else trim_right (\<lambda>c. c = CHR ''/'') targetURL @ ''/'' @ trim_left (\<lambda>c. c = CHR ''/'') rawPath)
        in case url_parse taskURL of
          None \<Rightarrow> ((rep1, Some ''parse error''), s)
        | Some u \<Rightarrow>
            let rep2 = rep1\<lparr>pp_path := report_path rawPath u\<rparr>;
                tmpl = (case snap of Some c \<Rightarrow> ps_template c | None \<Rightarrow> '''') @ (if headers \<noteq> [] then renderHeaderBlock (Some headers) else '''')
            in case exec (no_text (po_net ops) u)
                 (buildRequest meth (request_target (po_net ops) u) (u_host u) (snap_agent snap) tmpl '''')
                 (snap_timeout snap) (snap_proxy snap) s of
              (None, s1) \<Rightarrow> ((rep2, None), s1)
            | (Some (Inl e), s1) \<Rightarrow> ((rep2, Some e), s1)
            | (Some (Inr resp), s1) \<Rightarrow>
                let m = computeResponseMetrics resp meth;
                    url1 = no_text (po_net ops) u;
                    task = \<lparr>pt_url = url1, pt_method = meth, pt_headers = cloneHeadersMap headers, pt_hash = mt_hash m,
                            pt_status = rr_status resp, pt_size = mt_size m, pt_type = mt_type m,
                            pt_hints = extractParamHints ops url1 (rr_body resp)\<rparr>
                in case search_params ops exec task (paramCandidates ops [] snap (pt_hints task)) snap s1 of
                     (hs, s2) \<Rightarrow> ((rep2\<lparr>pp_status := rr_status resp, pp_size := mt_size m, pp_hash := mt_hash m,
                                       pp_findings := hs\<rparr>, None), s2))"

section \<open>What the search finds\<close>

lemma subseq_append: "subseq as cs \<Longrightarrow> subseq bs ds \<Longrightarrow> subseq (as @ bs) (cs @ ds)"
  by (rule list_emb_append_mono)

lemma probe_params: "probeParamSubset net exec task b controls snap ps s = (Some h, s') \<Longrightarrow> ph_params h = ps"
  by (auto simp: probeParamSubset_def Let_def split: if_splits sum.splits prod.splits option.splits)

definition shown_alone :: "(string list \<Rightarrow> 's \<Rightarrow> param_hit option \<times> 's) \<Rightarrow> string \<Rightarrow> param_hit \<Rightarrow> bool" where
  "shown_alone probe p h \<longleftrightarrow> ph_params h = [p] \<and> (\<exists>s s'. probe [p] s = (Some h, s'))"

lemma discover_alone:
  assumes "discoverParamHits (probeParamSubset net exec task b controls snap) cs s = (fs, s')"
  shows "\<exists>ps. subseq ps cs \<and> list_all2 (shown_alone (probeParamSubset net exec task b controls snap)) ps fs"
proof (rule discover_rule(1) [OF _ _ _ _ _ assms, of "\<lambda>cs s fs s'. \<exists>ps. subseq ps cs \<and>
    list_all2 (shown_alone (probeParamSubset net exec task b controls snap)) ps fs"])
  fix c :: string and s s' h assume p: "probeParamSubset net exec task b controls snap [c] s = (Some h, s')"
  then have "h\<lparr>ph_params := [c]\<rparr> = h" using probe_params by fastforce
  with p show "\<exists>ps. subseq ps [c] \<and> list_all2 (shown_alone (probeParamSubset net exec task b controls snap)) ps [h\<lparr>ph_params := [c]\<rparr>]"
    by (intro exI [of _ "[c]"]) (auto simp: shown_alone_def dest: probe_params)
qed (blast intro: subseq_append list_all2_appendI | auto)+

definition answer_fingerprint :: "raw_response \<Rightarrow> param_fingerprint" where
  "answer_fingerprint resp = \<lparr>pf_status = rr_status resp, pf_size = mt_size (computeResponseMetrics resp ''GET''),
     pf_hash = mt_hash (computeResponseMetrics resp ''GET'')\<rparr>"

definition evidence :: "net_ops \<Rightarrow> 's exchange \<Rightarrow> param_task \<Rightarrow> param_snap option \<Rightarrow> string \<Rightarrow> param_hit \<Rightarrow> bool" where
  "evidence net exec task snap p h \<longleftrightarrow> ph_params h = [p] \<and>
     (\<exists>raw resp s s'. buildParamProbeRequest net (pt_url task) [p] snap (pt_headers task) = Inr (ph_url h, raw) \<and>
        exec (ph_url h) raw (snap_timeout snap) (snap_proxy snap) s = (Some (Inr resp), s') \<and>
        rr_status resp \<noteq> 404 \<and> answer_fingerprint resp \<noteq> task_baseline task \<and>
        ph_status h = rr_status resp \<and> ph_size h = mt_size (computeResponseMetrics resp ''GET''))"

lemma shown_evidence:
  assumes "shown_alone (probeParamSubset net exec task (task_baseline task) controls snap) p h"
  shows "evidence net exec task snap p h"
proof -
  from assms obtain s s' where p:
    "probeParamSubset net exec task (task_baseline task) controls snap [p] s = (Some h, s')" "ph_params h = [p]"
    by (auto simp: shown_alone_def)
  obtain u raw where b: "buildParamProbeRequest net (pt_url task) [p] snap (pt_headers task) = Inr (u, raw)"
    using p by (auto simp: probeParamSubset_def split: sum.splits)
  obtain resp s1 where e: "exec u raw (snap_timeout snap) (snap_proxy snap) s = (Some (Inr resp), s1)"
    using p by (auto simp: probeParamSubset_def b split: sum.splits prod.splits option.splits)
  have "rr_status resp \<noteq> 404 \<and> answer_fingerprint resp \<noteq> task_baseline task \<and> ph_url h = u \<and>
      ph_status h = rr_status resp \<and> ph_size h = mt_size (computeResponseMetrics resp ''GET'')"
    using p(1) by (auto simp: probeParamSubset_def b e answer_fingerprint_def task_baseline_def Let_def
        responseDiffersFromBaseline_def isUsefulParamProbeTransition_def split: if_splits)
  with b e p(2) show ?thesis unfolding evidence_def by blast
qed

text \<open>C26: Whatever the target answers, a search reports each parameter on its own, in the order of the candidates and none
  twice, and for each there was an answer to a probe with that parameter alone which is not 404 and differs from the
  baseline in status, size or SimHash.\<close>

theorem params_found_alone:
  assumes "search_params ops exec task cs snap s = (fs, s')"
  shows "\<exists>ps. subseq ps cs \<and> list_all2 (evidence (po_net ops) exec task snap) ps fs"
proof (cases "cs = []")
  case True
  with assms show ?thesis by (simp add: search_params_def)
next
  case False
  with assms obtain controls s1 where
    "discoverParamHits (probeParamSubset (po_net ops) exec task (task_baseline task) controls snap) cs s1 = (fs, s')"
    by (auto simp: search_params_def split: prod.splits)
  from discover_alone [OF this] show ?thesis by (blast intro: list_all2_mono shown_evidence)
qed

text \<open>C28: When a set of parameters shows a difference as soon as one of its members does on its own, the bisection finds
  exactly the parameters that do on their own: it is equivalent to probing each candidate.\<close>

theorem discover_linear:
  assumes f: "\<And>ps s. fst (probe ps s) = f ps"
    and mono: "\<And>ps p. p \<in> set ps \<Longrightarrow> f [p] \<noteq> None \<Longrightarrow> f ps \<noteq> None"
  shows "map ph_params (fst (discoverParamHits probe cs s)) = map (\<lambda>p. [p]) (filter (\<lambda>p. f [p] \<noteq> None) cs)"
proof -
  have f': "f ps = h" if "probe ps s = (h, s')" for ps s h s' using f [of ps s] that by simp
  obtain fs s' where d: "discoverParamHits probe cs s = (fs, s')" by fastforce
  have "map ph_params fs = map (\<lambda>p. [p]) (filter (\<lambda>p. f [p] \<noteq> None) cs)"
  proof (rule discover_rule(1) [OF _ _ _ _ _ d, of "\<lambda>cs s fs s'. map ph_params fs = map (\<lambda>p. [p]) (filter (\<lambda>p. f [p] \<noteq> None) cs)"])
    fix cs s s' assume "probe cs s = (None, s')"
    then have "f cs = None" by (rule f')
    then show "map ph_params [] = map (\<lambda>p. [p]) (filter (\<lambda>p. f [p] \<noteq> None) cs)"
      using mono [of _ cs] by (simp add: filter_empty_conv del: not_None_eq) blast
  next
    fix c s h s' assume "probe [c] s = (Some h, s')"
    then have "f [c] = Some h" by (rule f')
    then show "map ph_params [h\<lparr>ph_params := [c]\<rparr>] = map (\<lambda>p. [p]) (filter (\<lambda>p. f [p] \<noteq> None) [c])" by simp
  qed auto
  with d show ?thesis by simp
qed

definition demo_hit :: param_hit where
  "demo_hit = \<lparr>ph_params = [], ph_url = '''', ph_status = 200, ph_size = 1, ph_words = 1, ph_lines = 1, ph_type = '''',
     ph_headers = [], ph_request = '''', ph_response = ''''\<rparr>"

lemma discover_linear_witness:
  "map ph_params (fst (discoverParamHits (\<lambda>ps n. (if ''id'' \<in> set ps \<or> ''q'' \<in> set ps then Some demo_hit else None, n + 1 :: nat))
     [''a'', ''id'', ''b'', ''q''] 0)) = [[''id''], [''q'']]"
proof -
  have "p \<in> set ps \<Longrightarrow> (if ''id'' \<in> set [p] \<or> ''q'' \<in> set [p] then Some demo_hit else None) \<noteq> None \<Longrightarrow>
      (if ''id'' \<in> set ps \<or> ''q'' \<in> set ps then Some demo_hit else None) \<noteq> None" for p ps
    by (auto split: if_splits)
  from discover_linear [where f = "\<lambda>ps. if ''id'' \<in> set ps \<or> ''q'' \<in> set ps then Some demo_hit else None" and s = 0
      and probe = "\<lambda>ps n. (if ''id'' \<in> set ps \<or> ''q'' \<in> set ps then Some demo_hit else None, n + 1 :: nat)"
      and cs = "[''a'', ''id'', ''b'', ''q'']", OF _ this]
  show ?thesis by simp
qed

text \<open>Two parameters that change the answer only together are not found.\<close>

lemma pairs_not_found:
  "fst (discoverParamHits (\<lambda>ps u. (if ''a'' \<in> set ps \<and> ''b'' \<in> set ps then Some demo_hit else None, u)) [''a'', ''b''] ()) = []"
  by (simp add: discoverParamHits.simps paramChunkSize_def)

section \<open>The number of probes\<close>

definition counted :: "(string list \<Rightarrow> 's \<Rightarrow> param_hit option \<times> 's) \<Rightarrow> string list \<Rightarrow> nat \<times> 's \<Rightarrow> param_hit option \<times> (nat \<times> 's)" where
  "counted probe ps = (\<lambda>(n, s). case probe ps s of (h, s') \<Rightarrow> (h, (n + 1, s')))"

text \<open>A search sends fewer than two probes per candidate.\<close>

theorem probes_bounded:
  assumes "discoverParamHits (counted probe) cs (0, s) = (fs, n, s')"
  shows "n \<le> 2 * length cs - 1"
proof -
  have "fst t \<le> fst z + (2 * length cs - 1)" if "discoverParamHits (counted probe) cs z = (fs, t)" for t z
    by (rule discover_rule(1) [OF _ _ _ _ _ that, of "\<lambda>cs z fs t. fst t \<le> fst z + (2 * length cs - 1)"])
       (auto simp: counted_def neq_Nil_conv split: prod.splits)
  from this [OF assms] show ?thesis by simp
qed

section \<open>The query of a probe\<close>

lemma probe_query_step:
  "foldl (\<lambda>m (i, p). if p = '''' then m else values_set m p (paramProbeValue p i)) q (enumerate n (ps @ [p])) =
   (let m = foldl (\<lambda>m (i, p). if p = '''' then m else values_set m p (paramProbeValue p i)) q (enumerate n ps)
    in if p = '''' then m else values_set m p (paramProbeValue p (n + length ps)))"
  by (simp add: enumerate_append_eq)

lemma probe_query_snoc:
  "probe_query q (ps @ [p]) = (if p = '''' then probe_query q ps else values_set (probe_query q ps) p (paramProbeValue p (length ps)))"
  by (simp add: probe_query_def probe_query_step)

lemma probe_query_ok: "values_ok q \<Longrightarrow> values_ok (probe_query q ps)"
  by (induction ps rule: rev_induct) (simp_all add: probe_query_snoc values_ok_set, simp add: probe_query_def)

lemma map_of_values_set: "map_of (values_set m k v) = (map_of m)(k \<mapsto> [v])"
  by (simp add: values_set_def update_conv')

lemma probe_query_other: "k \<notin> set ps \<Longrightarrow> map_of (probe_query q ps) k = map_of q k"
  by (induction ps rule: rev_induct) (simp_all add: probe_query_snoc map_of_values_set, simp add: probe_query_def)

lemma probe_query_value:
  assumes "distinct ps" "i < length ps" "ps ! i \<noteq> ''''"
  shows "map_of (probe_query q ps) (ps ! i) = Some [paramProbeValue (ps ! i) i]"
  using assms
proof (induction ps rule: rev_induct)
  case (snoc p ps)
  show ?case
  proof (cases "i < length ps")
    case True
    then have "ps ! i \<in> set ps" by simp
    then have "ps ! i \<noteq> p" using snoc.prems(1) by auto
    with True snoc show ?thesis by (simp add: nth_append probe_query_snoc map_of_values_set)
  next
    case False
    with snoc.prems show ?thesis by (simp add: nth_append probe_query_snoc map_of_values_set less_Suc_eq)
  qed
qed simp

lemma map_of_sorted_items: "distinct (map fst m) \<Longrightarrow> map_of (sorted_items (Some m)) = map_of m"
  using sorted_items_distinct [of "Some m"]
  by (intro map_of_inject_set [THEN iffD2]) (simp_all add: gm_ok_def gm_keys_def gm_items_def sorted_items_def)

text \<open>Decoding the query of a probe gives every candidate once, with the probe value of its position, and leaves the
  other parameters of the address as they were.\<close>

theorem probe_query_exact:
  fixes q :: string
  assumes "distinct ps"
  defines "sent \<equiv> map_of (parse_query (query_encode (probe_query (parse_query q) ps)))"
  shows "(\<forall>i < length ps. ps ! i \<noteq> '''' \<longrightarrow> sent (ps ! i) = Some [paramProbeValue (ps ! i) i]) \<and>
    (\<forall>k. k \<notin> set ps \<longrightarrow> sent k = map_of (parse_query q) k)"
proof -
  have ok: "values_ok (probe_query (parse_query q) ps)" by (intro probe_query_ok values_ok_parse)
  then have "sent = map_of (probe_query (parse_query q) ps)"
    by (simp add: sent_def parse_query_encode map_of_sorted_items values_ok_def)
  with assms(1) show ?thesis by (simp add: probe_query_value probe_query_other)
qed

definition demo_task :: param_task where
  "demo_task = \<lparr>pt_url = ''/'', pt_method = ''GET'', pt_headers = [], pt_hash = 0, pt_status = 200, pt_size = 0,
     pt_type = '''', pt_hints = []\<rparr>"

definition demo_param_ops :: param_ops where
  "demo_param_ops = \<lparr>po_net = \<lparr>no_read = (\<lambda>_. Inl ''''), no_escaped = u_path, no_text = u_query,
     no_resolve = (\<lambda>_ u. u), no_lookup = (\<lambda>_. Inl '''')\<rparr>, po_matches = (\<lambda>_. []), po_html = (\<lambda>_. None), po_payload = ''''\<rparr>"

definition demo_target :: "nat exchange" where
  "demo_target = (\<lambda>u _ _ _ n. (Some (Inr (demo_answer (if contains_str u ''id='' then 500 else 200) '''')), n + 1))"

lemma demo_search: "map ph_params (fst (search_params demo_param_ops demo_target demo_task [''id''] None 0)) = [[''id'']]"
  by code_simp

lemma params_found_alone_witness:
  "\<exists>fs s'. search_params demo_param_ops demo_target demo_task [''id''] None 0 = (fs, s') \<and> map ph_params fs = [[''id'']] \<and>
     (\<exists>ps. subseq ps [''id''] \<and> list_all2 (evidence (po_net demo_param_ops) demo_target demo_task None) ps fs)"
proof -
  obtain fs s' where s: "search_params demo_param_ops demo_target demo_task [''id''] None 0 = (fs, s')" by fastforce
  from params_found_alone [OF s] s demo_search show ?thesis by auto
qed

lemma probes_bounded_witness:
  "\<exists>fs n s'. discoverParamHits (counted (\<lambda>_ u. (Some demo_hit, u))) [''a'', ''b''] (0, ()) = (fs, n, s') \<and> n = 3 \<and>
     n \<le> 2 * length [''a'', ''b''] - 1"
proof -
  obtain fs n s' where s: "discoverParamHits (counted (\<lambda>_ u. (Some demo_hit, u))) [''a'', ''b''] (0, ()) = (fs, n, s')"
    by (metis prod_cases3)
  moreover have "n = 3" using s by (simp add: discoverParamHits.simps paramChunkSize_def counted_def)
  ultimately show ?thesis using probes_bounded [OF s] by blast
qed

lemma probe_query_exact_witness:
  "map_of (parse_query (query_encode (probe_query (parse_query ''a=1&user_id=x'') [''q w'', ''user_id'']))) ''user_id'' = Some [''2'']"
proof -
  have "paramProbeValue ''user_id'' 1 = ''2''" by code_simp
  moreover have "distinct [''q w'', ''user_id'']" by simp
  ultimately show ?thesis using probe_query_exact [of "[''q w'', ''user_id'']" "''a=1&user_id=x''"] by (auto simp: All_less_Suc)
qed

section \<open>Names\<close>

lemma unique_fold:
  assumes "foldl unique_step ([], []) vs = (seen, out)"
  shows "set seen = to_lower ` set out \<and> distinct (map to_lower out) \<and> to_lower ` set out = name_key ` set vs - {''''} \<and>
    (\<forall>w \<in> set out. w \<noteq> '''' \<and> (\<exists>v \<in> set vs. w = trim_space v))"
  using assms
proof (induction vs arbitrary: seen out rule: rev_induct)
  case (snoc v vs)
  obtain seen' out' where f: "foldl unique_step ([], []) vs = (seen', out')" by fastforce
  have low: "to_lower w = '''' \<longleftrightarrow> w = ''''" for w by (simp add: to_lower_def)
  have "(seen, out) = (if trim_space v = '''' \<or> name_key v \<in> set seen' then (seen', out')
      else (name_key v # seen', out' @ [trim_space v]))"
  proof -
    have "(seen, out) = unique_step (seen', out') v" using snoc.prems by (simp add: f)
    then show ?thesis by (simp add: unique_step_def name_key_def Let_def)
  qed
  moreover have "trim_space v = '''' \<longleftrightarrow> name_key v = ''''" by (simp add: name_key_def low)
  moreover have k: "to_lower (trim_space v) = name_key v" by (simp add: name_key_def)
  ultimately have step: "(seen, out) = (if name_key v = '''' \<or> name_key v \<in> set seen' then (seen', out')
      else (name_key v # seen', out' @ [trim_space v]))" "trim_space v = '''' \<longleftrightarrow> name_key v = ''''"
    by auto
  from snoc.IH [OF f] have ih: "set seen' = to_lower ` set out'" "distinct (map to_lower out')"
      "to_lower ` set out' = name_key ` set vs - {''''}" "\<forall>w \<in> set out'. w \<noteq> '''' \<and> (\<exists>v \<in> set vs. w = trim_space v)"
    by simp_all
  show ?case
  proof (cases "name_key v = '''' \<or> name_key v \<in> set seen'")
    case True
    then have "name_key v \<in> insert '''' (name_key ` set vs)" unfolding ih(1) ih(3) by blast
    then have e: "name_key ` set (vs @ [v]) - {''''} = name_key ` set vs - {''''}" by auto
    have "seen = seen'" "out = out'" using True step(1) by simp_all
    moreover have "\<forall>w \<in> set out'. w \<noteq> '''' \<and> (\<exists>x \<in> set (vs @ [v]). w = trim_space x)" using ih(4) by (simp add: ball_conj_distrib)
    ultimately show ?thesis unfolding e by (simp only: ih(1,2,3) simp_thms)
  next
    case False
    then have so: "seen = name_key v # seen'" "out = out' @ [trim_space v]" "trim_space v \<noteq> ''''" using step by simp_all
    have e: "name_key ` set (vs @ [v]) - {''''} = insert (name_key v) (name_key ` set vs - {''''})" using False by auto
    have "name_key v \<notin> to_lower ` set out'" using False unfolding ih(1) by blast
    then have "distinct (map to_lower out)" using ih(2) by (simp add: so k)
    moreover have "to_lower ` set out = insert (name_key v) (name_key ` set vs - {''''})"
      unfolding so set_append image_Un ih(3) by (simp add: k)
    moreover have "set seen = insert (name_key v) (name_key ` set vs - {''''})" unfolding so ih(1) [symmetric] ih(3) [symmetric] by simp
    moreover have "\<forall>w \<in> set out. w \<noteq> '''' \<and> (\<exists>x \<in> set (vs @ [v]). w = trim_space x)"
      using ih(4) so(3) unfolding so(2) by (simp add: ball_Un)
    ultimately show ?thesis unfolding e by simp
  qed
qed auto

lemma uniqueStrings_spec:
  "sorted (uniqueStrings vs)" "distinct (map to_lower (uniqueStrings vs))"
  "to_lower ` set (uniqueStrings vs) = name_key ` set vs - {''''}"
  "w \<in> set (uniqueStrings vs) \<Longrightarrow> w \<noteq> '''' \<and> (\<exists>v \<in> set vs. w = trim_space v)"
proof -
  obtain seen out where f: "foldl unique_step ([], []) vs = (seen, out)" by fastforce
  note u = unique_fold [OF f]
  show "sorted (uniqueStrings vs)" by (simp add: uniqueStrings_def)
  have "mset (map to_lower (sort out)) = mset (map to_lower out)" by simp
  with u show "distinct (map to_lower (uniqueStrings vs))"
    by (metis f mset_eq_imp_distinct_iff snd_conv uniqueStrings_def)
  show "to_lower ` set (uniqueStrings vs) = name_key ` set vs - {''''}" using u f by (simp add: uniqueStrings_def)
  show "w \<in> set (uniqueStrings vs) \<Longrightarrow> w \<noteq> '''' \<and> (\<exists>v \<in> set vs. w = trim_space v)" using u f by (simp add: uniqueStrings_def)
qed

lemma controls_fresh:
  assumes "n \<in> set (chooseParamControlNames taskURL candidates)"
  shows "n \<notin> set candidates \<and> (\<forall>u. url_parse taskURL = Some u \<longrightarrow> n \<notin> fst ` set (parse_query (u_query u)))"
proof -
  have "\<forall>n \<in> set paramControlNames. name_key n = to_lower n" by code_simp
  then have "name_key n = to_lower n" using assms by (auto simp: chooseParamControlNames_def)
  with assms show ?thesis by (force simp: chooseParamControlNames_def Let_def)
qed

end
