(* ===== verification/ParamQueue.thy ===== *)
theory ParamQueue
  imports ParamFuzz
begin

text \<open>
  The tasks of the parameter search, \<open>pkg/engine/paramfuzz.go\<close>: the identities that keep a task or a hit from being
  handled twice, the bounded channel of tasks, and the hints and PHP targets that are remembered over the scan. The
  concurrent maps are a set or a list of items, in any order of iteration; the workers run one task at a time here.
\<close>

section \<open>Identities\<close>

definition escaped_or_root :: "net_ops \<Rightarrow> url \<Rightarrow> string" where
  "escaped_or_root net u = (if no_escaped net u = '''' then ''/'' else no_escaped net u)"

definition paramTaskIdentity :: "net_ops \<Rightarrow> param_task \<Rightarrow> string" where
  "paramTaskIdentity net t =
     (let rawURL = trim_space (pt_url t) in
      if rawURL = '''' then ''''
      else case url_parse rawURL of
        None \<Rightarrow> name_key (pt_method t) @ ''|'' @ to_lower rawURL
      | Some u \<Rightarrow>
          name_key (pt_method t) @ ''|'' @ to_lower (u_scheme u) @ ''|'' @ to_lower (u_host u) @ ''|'' @
          to_lower (escaped_or_root net u) @ ''|'' @
          join '','' (sort (filter (\<lambda>k. k \<noteq> '''') (map (\<lambda>(k, _). name_key k) (parse_query (u_query u))))))"

definition paramTaskQueueIdentity :: "net_ops \<Rightarrow> param_task \<Rightarrow> string" where
  "paramTaskQueueIdentity net t =
     (let base = paramTaskIdentity net t in
      if base = '''' then ''''
      else base @ ''|'' @ join '','' (uniqueStrings (sort (filter (\<lambda>h. h \<noteq> '''') (map name_key (pt_hints t))))))"

definition phpParamTargetIdentity :: "net_ops \<Rightarrow> string \<Rightarrow> string \<Rightarrow> string" where
  "phpParamTargetIdentity net rawURL meth =
     (case url_parse (trim_space rawURL) of
        None \<Rightarrow> name_key meth @ ''|'' @ name_key rawURL
      | Some u \<Rightarrow> name_key meth @ ''|'' @ to_lower (u_scheme u) @ ''|'' @ to_lower (u_host u) @ ''|'' @
          to_lower (escaped_or_root net u))"

definition isPHPParamTarget :: "net_ops \<Rightarrow> string \<Rightarrow> bool" where
  "isPHPParamTarget net rawURL =
     (case url_parse (trim_space rawURL) of
        None \<Rightarrow> False
      | Some u \<Rightarrow> has_suffix (to_lower (no_escaped net u)) ''.php'')"

definition paramHitIdentity :: "net_ops \<Rightarrow> param_hit \<Rightarrow> string" where
  "paramHitIdentity net h =
     (let rawURL = trim_space (ph_url h); names = to_lower (join '','' (uniqueStrings (ph_params h))) in
      if rawURL = '''' then ''''
      else case url_parse rawURL of
        None \<Rightarrow> ''get|'' @ to_lower rawURL @ ''|'' @ names
      | Some u0 \<Rightarrow>
          let u = u0\<lparr>u_query := query_encode (parse_query (u_query u0)), u_fragment := ''''\<rparr>
          in ''get|'' @ to_lower (u_scheme u) @ ''|'' @ to_lower (u_host u) @ ''|'' @ no_escaped net u @ ''|'' @ u_query u @
             ''|'' @ names)"

section \<open>The state and the queue\<close>

record param_state =
  pm_seen :: "string set"
  pm_chan :: "param_task list"
  pm_cap :: nat
  pm_wg :: int
  pm_hints :: "(string \<times> string) list"
  pm_php :: "(string \<times> param_task) list"
  pm_hits :: "string set"
  pm_closed :: bool
  pm_running :: "param_hit list list"

definition new_param_state :: "nat \<Rightarrow> param_state" where
  "new_param_state cap = \<lparr>pm_seen = {}, pm_chan = [], pm_cap = cap, pm_wg = 0, pm_hints = [], pm_php = [], pm_hits = {},
     pm_closed = False, pm_running = []\<rparr>"

definition queue_key :: "net_ops \<Rightarrow> param_task \<Rightarrow> string" where
  "queue_key net t = (if paramTaskQueueIdentity net t = '''' then name_key (pt_url t) else paramTaskQueueIdentity net t)"

text \<open>A send on a closed channel panics, also in a \<open>select\<close> with a default: there is no result.\<close>

definition enqueueParamTask :: "net_ops \<Rightarrow> param_task \<Rightarrow> param_state \<Rightarrow> (bool \<times> param_state) option" where
  "enqueueParamTask net t s =
     (if pt_url t = '''' then Some (False, s)
      else
        let key = queue_key net t; baseKey = paramTaskIdentity net t; other = baseKey \<noteq> '''' \<and> baseKey \<noteq> key in
        if key \<in> pm_seen s then Some (False, s)
        else
          let seen1 = insert key (pm_seen s); seen2 = (if other then insert baseKey seen1 else seen1) in
          if pm_closed s then None
          else if length (pm_chan s) < pm_cap s then
            Some (True, s\<lparr>pm_seen := seen2, pm_wg := pm_wg s + 1, pm_chan := pm_chan s @ [t]\<rparr>)
          else
            let seen3 = seen2 - {key} in
            Some (False, s\<lparr>pm_seen := (if other then seen3 - {baseKey} else seen3)\<rparr>))"

primrec each_state :: "('a \<Rightarrow> 's \<Rightarrow> 's option) \<Rightarrow> 'a list \<Rightarrow> 's \<Rightarrow> 's option" where
  "each_state f [] s = Some s"
| "each_state f (x # xs) s = Option.bind (f x s) (each_state f xs)"

definition shouldQueueParamFuzz :: "int \<Rightarrow> string \<Rightarrow> int \<Rightarrow> bool" where
  "shouldQueueParamFuzz statusCode meth bodySize \<longleftrightarrow>
     \<not> equal_fold meth ''HEAD'' \<and> bodySize > 0 \<and> statusCode \<in> {200, 201, 202, 203, 204, 206, 401, 403}"

definition globalParamHints :: "param_state \<Rightarrow> string list" where
  "globalParamHints s = uniqueStrings (map snd (pm_hints s))"

definition remember_hint :: "string list \<times> param_state \<Rightarrow> string \<Rightarrow> string list \<times> param_state" where
  "remember_hint = (\<lambda>(added, s) param.
     if \<not> isLikelyParamHint param \<or> name_key param \<in> fst ` set (pm_hints s) then (added, s)
     else (added @ [param], s\<lparr>pm_hints := pm_hints s @ [(name_key param, param)]\<rparr>))"

definition rememberGlobalParamHints :: "string list \<Rightarrow> param_state \<Rightarrow> string list \<times> param_state" where
  "rememberGlobalParamHints params s = foldl remember_hint ([], s) (uniqueStrings params)"

definition rememberPHPParamTarget :: "net_ops \<Rightarrow> param_task \<Rightarrow> param_state \<Rightarrow> param_state" where
  "rememberPHPParamTarget net t s =
     (if pt_url t = '''' \<or> \<not> isPHPParamTarget net (pt_url t) then s
      else let key = phpParamTargetIdentity net (pt_url t) (pt_method t)
           in if key = '''' then s else s\<lparr>pm_php := AList.update key t (pm_php s)\<rparr>)"

definition queueKnownPHPTargetsForParams :: "net_ops \<Rightarrow> string list \<Rightarrow> param_state \<Rightarrow> param_state option" where
  "queueKnownPHPTargetsForParams net params0 s =
     (if params0 = [] then Some s
      else let params = uniqueStrings params0 in
        each_state (\<lambda>(_, t) s. if pt_url t = '''' then Some s
            else map_option snd (enqueueParamTask net (t\<lparr>pt_hints := uniqueStrings (pt_hints t @ params)\<rparr>) s)) (pm_php s) s)"

text \<open>An answer of the scan: its address, method, status and whether it is a message of the filter.\<close>

definition queueParamFuzzFromResult ::
  "param_ops \<Rightarrow> param_snap option \<Rightarrow> string \<times> string \<times> int \<times> bool \<Rightarrow> string \<Rightarrow> int \<Rightarrow> 64 word \<Rightarrow> string \<Rightarrow> string
   \<Rightarrow> param_state \<Rightarrow> param_state option" where
  "queueParamFuzzFromResult ops snap res effectiveURL0 bodySize bodyHash contentType body s =
     (case res of (resURL, meth, statusCode, isAutoFilter) \<Rightarrow>
      if resURL = '''' \<or> isAutoFilter then Some s
      else
        let effectiveURL = (if trim_space effectiveURL0 = '''' then resURL else effectiveURL0);
            hints = extractParamHints ops effectiveURL body @
              (if isPHPParamTarget (po_net ops) effectiveURL then globalParamHints s else [])
        in if paramCandidates ops [] snap hints = [] then Some s
           else if \<not> shouldQueueParamFuzz statusCode meth bodySize then Some s
           else
             let task = \<lparr>pt_url = effectiveURL, pt_method = (if meth = '''' then ''GET'' else meth), pt_headers = [],
                         pt_hash = bodyHash, pt_status = statusCode, pt_size = bodySize, pt_type = contentType, pt_hints = hints\<rparr>
             in map_option snd (enqueueParamTask (po_net ops) task (rememberPHPParamTarget (po_net ops) task s)))"

section \<open>Running a task\<close>

record param_result =
  pn_path :: string
  pn_status :: int
  pn_size :: int
  pn_words :: int
  pn_lines :: int
  pn_type :: string
  pn_headers :: "(string \<times> string) list"
  pn_params :: "string list"
  pn_confidence :: string
  pn_request :: string
  pn_response :: string

definition markParamHitSeen :: "net_ops \<Rightarrow> param_hit \<Rightarrow> param_state \<Rightarrow> bool \<times> param_state" where
  "markParamHitSeen net h s =
     (let key = paramHitIdentity net h in
      if key = '''' then (True, s) else (key \<notin> pm_hits s, s\<lparr>pm_hits := insert key (pm_hits s)\<rparr>))"

definition hit_result :: "param_hit \<Rightarrow> param_result" where
  "hit_result h =
     \<lparr>pn_path = ph_url h, pn_status = ph_status h, pn_size = ph_size h, pn_words = ph_words h, pn_lines = ph_lines h,
      pn_type = ph_type h,
      pn_headers = AList.update ''Msg'' (''hidden parameters discovered: '' @ join '','' (ph_params h)) (ph_headers h),
      pn_params = ph_params h,
      pn_confidence = (if length (ph_params h) = 1 then ''single-param'' else itoa (int (length (ph_params h))) @ '' params''),
      pn_request = ph_request h, pn_response = ph_response h\<rparr>"

definition handle_hit :: "net_ops \<Rightarrow> param_hit \<Rightarrow> param_result list \<times> param_state \<Rightarrow> (param_result list \<times> param_state) option" where
  "handle_hit net h = (\<lambda>(out, s).
     if ph_params h = [] then Some (out, s)
     else case rememberGlobalParamHints (ph_params h) s of (newParams, s1) \<Rightarrow>
       Option.bind (if newParams \<noteq> [] then queueKnownPHPTargetsForParams net newParams s1 else Some s1) (\<lambda>s2.
         case markParamHitSeen net h s2 of
           (False, s3) \<Rightarrow> Some (out, s3)
         | (True, s3) \<Rightarrow> Some (out @ [hit_result h], s3)))"

text \<open>A worker takes a task and searches; an error and no hits are the same. The hits wait until it goes on.\<close>

definition take_task ::
  "param_ops \<Rightarrow> 's exchange \<Rightarrow> param_snap option \<Rightarrow> param_state \<times> 's \<Rightarrow> param_state \<times> 's" where
  "take_task ops exec snap = (\<lambda>(s, net).
     case pm_chan s of
       [] \<Rightarrow> (s, net)
     | t # ts \<Rightarrow>
         let (fs, net') = (if pt_url t = '''' then ([], net)
                           else case FuzzParams ops exec snap t [] net of
                             (Inl e, net') \<Rightarrow> ([], net') | (Inr fs, net') \<Rightarrow> (fs, net'))
         in (s\<lparr>pm_chan := ts, pm_running := pm_running s @ [fs]\<rparr>, net'))"

definition finish_task :: "net_ops \<Rightarrow> nat \<Rightarrow> param_state \<Rightarrow> (param_result list \<times> param_state) option" where
  "finish_task net i s =
     (if i < length (pm_running s) then
        map_option (\<lambda>(out, s'). (out, s'\<lparr>pm_wg := pm_wg s' - 1,
            pm_running := take i (pm_running s') @ drop (Suc i) (pm_running s')\<rparr>))
          (each_state (handle_hit net) (pm_running s ! i) ([], s))
      else Some ([], s))"

text \<open>What happens to the state: an answer of the scan while scan workers run, a worker that takes or finishes a task,
  and the closing of the channel by \<open>Shutdown\<close>, after which the scan workers are gone.\<close>

datatype param_event =
    Found "string \<times> string \<times> int \<times> bool" string int "64 word" string string
  | Take
  | Finish nat
  | CloseTasks

definition param_step ::
  "param_ops \<Rightarrow> 's exchange \<Rightarrow> param_snap option \<Rightarrow> param_event \<Rightarrow> param_state \<times> 's \<Rightarrow> (param_state \<times> 's) option" where
  "param_step ops exec snap ev = (\<lambda>(s, net).
     case ev of
       Found res u sz h ct body \<Rightarrow>
         if pm_closed s then Some (s, net)
         else map_option (\<lambda>s'. (s', net)) (queueParamFuzzFromResult ops snap res u sz h ct body s)
     | Take \<Rightarrow> Some (take_task ops exec snap (s, net))
     | Finish i \<Rightarrow> map_option (\<lambda>(out, s'). (s', net)) (finish_task (po_net ops) i s)
     | CloseTasks \<Rightarrow> Some (s\<lparr>pm_closed := True\<rparr>, net))"

definition param_run ::
  "param_ops \<Rightarrow> 's exchange \<Rightarrow> param_snap option \<Rightarrow> param_event list \<Rightarrow> param_state \<times> 's \<Rightarrow> (param_state \<times> 's) option" where
  "param_run ops exec snap = each_state (param_step ops exec snap)"

section \<open>The counter of tasks\<close>

definition tasks_counted :: "param_state \<Rightarrow> bool" where
  "tasks_counted s \<longleftrightarrow> pm_wg s = int (length (pm_chan s) + length (pm_running s)) \<and> length (pm_chan s) \<le> pm_cap s"

lemma each_state_keeps:
  "each_state f xs s = Some s' \<Longrightarrow> I s \<Longrightarrow> (\<And>x s s'. f x s = Some s' \<Longrightarrow> I s \<Longrightarrow> I s') \<Longrightarrow> I s'"
  by (induction xs arbitrary: s) (auto split: bind_splits)

lemma enqueue_counted:
  "enqueueParamTask net t s = Some (ok, s') \<Longrightarrow> tasks_counted s \<Longrightarrow> tasks_counted s' \<and> pm_running s' = pm_running s"
  by (auto simp: enqueueParamTask_def tasks_counted_def Let_def split: if_splits)

lemma known_counted:
  assumes "queueKnownPHPTargetsForParams net ps s = Some s'" "tasks_counted s"
  shows "tasks_counted s' \<and> pm_running s' = pm_running s"
proof (cases "ps = []")
  case False
  with assms(1) have "each_state (\<lambda>(_, t) s. if pt_url t = '''' then Some s
            else map_option snd (enqueueParamTask net (t\<lparr>pt_hints := uniqueStrings (pt_hints t @ uniqueStrings ps)\<rparr>) s)) (pm_php s) s = Some s'"
    by (simp add: queueKnownPHPTargetsForParams_def Let_def)
  from each_state_keeps [OF this, of "\<lambda>z. tasks_counted z \<and> pm_running z = pm_running s"] assms(2) show ?thesis
    by (fastforce split: if_splits prod.splits dest: enqueue_counted)
qed (use assms in \<open>simp add: queueKnownPHPTargetsForParams_def\<close>)

lemma remember_hints_frame:
  "rememberGlobalParamHints ps s = (new, s') \<Longrightarrow> \<exists>hs. s' = s\<lparr>pm_hints := hs\<rparr>"
proof -
  have one: "\<exists>hs. snd (remember_hint a p) = snd a\<lparr>pm_hints := hs\<rparr>" for a p
    by (cases a) (auto simp: remember_hint_def intro: exI [of _ "pm_hints (snd a)"])
  have "\<exists>hs. snd (foldl remember_hint a ps) = snd a\<lparr>pm_hints := hs\<rparr>" for a ps
  proof (induction ps arbitrary: a)
    case Nil
    then show ?case by (auto intro: exI [of _ "pm_hints (snd a)"])
  next
    case (Cons p ps)
    obtain hs where "snd (remember_hint a p) = snd a\<lparr>pm_hints := hs\<rparr>" using one by blast
    with Cons [of "remember_hint a p"] show ?case by auto
  qed
  from this [of "([], s)" "uniqueStrings ps"] show "rememberGlobalParamHints ps s = (new, s') \<Longrightarrow> \<exists>hs. s' = s\<lparr>pm_hints := hs\<rparr>"
    by (simp add: rememberGlobalParamHints_def)
qed

lemma mark_frame: "markParamHitSeen net h s = (b, s') \<Longrightarrow> \<exists>hs. s' = s\<lparr>pm_hits := hs\<rparr>"
  by (auto simp: markParamHitSeen_def Let_def split: if_splits) (metis param_state.surjective param_state.update_convs(7))

lemma handle_counted:
  assumes "handle_hit net h z = Some z'" "tasks_counted (snd z)"
  shows "tasks_counted (snd z') \<and> pm_running (snd z') = pm_running (snd z)"
proof (cases "ph_params h = []")
  case True
  with assms show ?thesis by (auto simp: handle_hit_def)
next
  case False
  obtain new s1 where r: "rememberGlobalParamHints (ph_params h) (snd z) = (new, s1)" by fastforce
  then have s1: "tasks_counted s1 \<and> pm_running s1 = pm_running (snd z)"
    using remember_hints_frame [OF r] assms(2) by (auto simp: tasks_counted_def)
  obtain s2 where s2: "(if new \<noteq> [] then queueKnownPHPTargetsForParams net new s1 else Some s1) = Some s2"
    using assms(1) False r by (auto simp: handle_hit_def split: prod.splits bind_splits)
  then have c2: "tasks_counted s2 \<and> pm_running s2 = pm_running (snd z)"
    using s1 known_counted by (fastforce split: if_splits)
  obtain b s3 where m: "markParamHitSeen net h s2 = (b, s3)" by fastforce
  then have "snd z' = s3" using assms(1) False r s2 by (auto simp: handle_hit_def split: prod.splits bool.splits)
  with mark_frame [OF m] c2 show ?thesis by (auto simp: tasks_counted_def)
qed

lemma remember_php_counted: "tasks_counted (rememberPHPParamTarget net t s) = tasks_counted s"
  by (simp add: rememberPHPParamTarget_def tasks_counted_def Let_def)

lemma found_counted:
  assumes "queueParamFuzzFromResult ops snap res u sz h ct body s = Some s'" "tasks_counted s"
  shows "tasks_counted s'"
proof (cases "s' = s")
  case False
  with assms(1) obtain t ok where "enqueueParamTask (po_net ops) t (rememberPHPParamTarget (po_net ops) t s) = Some (ok, s')"
    by (cases res) (auto simp: queueParamFuzzFromResult_def Let_def split: if_splits)
  with assms(2) remember_php_counted show ?thesis by (blast dest: enqueue_counted)
qed (use assms in simp)

lemma finish_counted:
  assumes "finish_task net i s = Some (out, s')" "tasks_counted s"
  shows "tasks_counted s'"
proof (cases "i < length (pm_running s)")
  case True
  with assms(1) obtain z where z: "each_state (handle_hit net) (pm_running s ! i) ([], s) = Some z"
      "s' = (snd z)\<lparr>pm_wg := pm_wg (snd z) - 1, pm_running := take i (pm_running (snd z)) @ drop (Suc i) (pm_running (snd z))\<rparr>"
    by (auto simp: finish_task_def)
  from each_state_keeps [OF z(1), of "\<lambda>z. tasks_counted (snd z) \<and> pm_running (snd z) = pm_running s"] assms(2)
  have "tasks_counted (snd z) \<and> pm_running (snd z) = pm_running s" by (fastforce dest: handle_counted)
  with True z(2) show ?thesis by (auto simp: tasks_counted_def)
qed (use assms in \<open>simp add: finish_task_def\<close>)

lemma step_counted:
  assumes "param_step ops exec snap ev z = Some z'" "tasks_counted (fst z)"
  shows "tasks_counted (fst z')"
proof (cases ev)
  case (Found res u sz h ct body)
  with assms show ?thesis by (auto simp: param_step_def split: if_splits prod.splits dest: found_counted)
next
  case Take
  with assms show ?thesis
    by (auto simp: param_step_def take_task_def tasks_counted_def Let_def split: list.splits prod.splits)
next
  case (Finish i)
  with assms show ?thesis by (auto simp: param_step_def split: prod.splits dest: finish_counted)
next
  case CloseTasks
  with assms show ?thesis by (auto simp: param_step_def tasks_counted_def split: prod.splits)
qed

lemma run_counted: "param_run ops exec snap evs (new_param_state cap, net) = Some z \<Longrightarrow> tasks_counted (fst z)"
  unfolding param_run_def
  by (erule each_state_keeps [where I = "\<lambda>z. tasks_counted (fst z)"])
     (auto simp: new_param_state_def tasks_counted_def dest: step_counted)

lemma closed_idle_steps:
  assumes "pm_closed (fst z)" "pm_chan (fst z) = []" "pm_running (fst z) = []"
  shows "\<exists>z'. param_run ops exec snap evs z = Some z'"
proof -
  have "param_step ops exec snap ev z = Some z" if "pm_closed (fst z)" "pm_chan (fst z) = []" "pm_running (fst z) = []" for ev z
    using that by (cases z; cases ev) (auto simp: param_step_def take_task_def finish_task_def)
  with assms show ?thesis unfolding param_run_def by (induction evs) auto
qed

text \<open>The counter that \<open>Wait\<close> waits for is the number of tasks that wait in the channel or are worked on, and the
  channel keeps its bound. When \<open>Wait\<close> has returned before \<open>Shutdown\<close> closes the channel, no later step panics.\<close>

theorem wait_before_close:
  assumes "param_run ops exec snap evs (new_param_state cap, net) = Some (s, net')"
  shows "pm_wg s = int (length (pm_chan s) + length (pm_running s)) \<and> length (pm_chan s) \<le> pm_cap s \<and>
    (pm_wg s = 0 \<longrightarrow> (\<exists>z. param_run ops exec snap (CloseTasks # later) (s, net') = Some z))"
proof -
  have c: "tasks_counted s" using run_counted [OF assms] by simp
  have "\<exists>z. param_run ops exec snap (CloseTasks # later) (s, net') = Some z" if w: "pm_wg s = 0"
  proof -
    have "pm_chan s = []" "pm_running s = []" using w c by (auto simp: tasks_counted_def simp flip: of_nat_add)
    then show ?thesis using closed_idle_steps [of "(s\<lparr>pm_closed := True\<rparr>, net')" ops exec snap later]
      by (simp add: param_run_def param_step_def)
  qed
  with c show ?thesis by (simp add: tasks_counted_def)
qed

definition demo_snap :: param_snap where
  "demo_snap = \<lparr>ps_agent = '''', ps_template = '''', ps_headers = [], ps_wordlist = [''id''], ps_timeout = 0, ps_proxy = '''',
     ps_save_raw = False\<rparr>"

definition demo_found :: param_event where
  "demo_found = Found (''/a.php'', ''GET'', 200, False) '''' 1 0 '''' ''''"

lemma demo_quiet:
  "map_option (\<lambda>z. pm_wg (fst z)) (param_run demo_param_ops demo_target (Some demo_snap)
     [demo_found, Take, Finish 0, Take, Finish 0] (new_param_state 8, 0)) = Some 0"
  by code_simp

lemma wait_before_close_witness:
  "\<exists>s n. param_run demo_param_ops demo_target (Some demo_snap) [demo_found, Take, Finish 0, Take, Finish 0]
     (new_param_state 8, 0) = Some (s, n) \<and> pm_wg s = 0 \<and>
     (\<exists>z. param_run demo_param_ops demo_target (Some demo_snap) [CloseTasks, Take, Finish 0] (s, n) = Some z)"
proof -
  from demo_quiet obtain s n where r: "param_run demo_param_ops demo_target (Some demo_snap)
      [demo_found, Take, Finish 0, Take, Finish 0] (new_param_state 8, 0) = Some (s, n)" "pm_wg s = 0"
    by auto
  from wait_before_close [OF r(1), of "[Take, Finish 0]"] r show ?thesis by blast
qed

text \<open>A shutdown that does not wait: the worker that still handles a new parameter queues the known PHP targets again, and
  sends on the closed channel.\<close>

lemma close_panics:
  "param_run demo_param_ops demo_target (Some demo_snap) [demo_found, Take, CloseTasks, Finish 0] (new_param_state 8, 0) = None"
  by code_simp

section \<open>No task is queued twice\<close>

text \<open>The tasks that the channel accepts while tasks are offered (\<open>Some t\<close>) and workers take them (\<open>None\<close>).\<close>

fun accept_run :: "net_ops \<Rightarrow> param_task option list \<Rightarrow> param_state \<Rightarrow> param_task list option" where
  "accept_run net [] s = Some []"
| "accept_run net (None # evs) s = accept_run net evs (s\<lparr>pm_chan := drop 1 (pm_chan s)\<rparr>)"
| "accept_run net (Some t # evs) s =
     (case enqueueParamTask net t s of
        None \<Rightarrow> None
      | Some (ok, s') \<Rightarrow> map_option (\<lambda>acc. if ok then t # acc else acc) (accept_run net evs s'))"

lemma enqueue_seen:
  assumes "enqueueParamTask net t s = Some (ok, s')"
  shows "(ok \<longrightarrow> queue_key net t \<notin> pm_seen s \<and> insert (queue_key net t) (pm_seen s) \<subseteq> pm_seen s') \<and>
    pm_seen s - {paramTaskIdentity net t} \<subseteq> pm_seen s'"
  using assms by (auto simp: enqueueParamTask_def Let_def split: if_splits)

lemma accept_fresh:
  assumes "accept_run net evs s = Some acc"
    and "\<forall>t t'. Some t \<in> set evs \<longrightarrow> Some t' \<in> set evs \<longrightarrow> paramTaskIdentity net t \<noteq> queue_key net t'"
  shows "distinct (map (queue_key net) acc) \<and> (\<forall>t \<in> set acc. Some t \<in> set evs \<and> queue_key net t \<notin> pm_seen s)"
  using assms
proof (induction net evs s arbitrary: acc rule: accept_run.induct)
  case (2 net evs s)
  then show ?case by fastforce
next
  case (3 net t evs s)
  obtain ok s' where e: "enqueueParamTask net t s = Some (ok, s')" using "3.prems"(1) by (auto split: option.splits)
  then obtain acc' where a: "accept_run net evs s' = Some acc'" "acc = (if ok then t # acc' else acc')"
    using "3.prems"(1) by auto
  have ih: "distinct (map (queue_key net) acc') \<and> (\<forall>t \<in> set acc'. Some t \<in> set evs \<and> queue_key net t \<notin> pm_seen s')"
    using "3.IH" [OF e refl a(1)] "3.prems"(2) by simp
  have "queue_key net u \<notin> pm_seen s" if "u \<in> set acc'" for u
  proof
    assume "queue_key net u \<in> pm_seen s"
    moreover have "queue_key net u \<noteq> paramTaskIdentity net t" using ih that "3.prems"(2) by (metis list.set_intros)
    ultimately show False using enqueue_seen [OF e] ih that by blast
  qed
  with ih a(2) enqueue_seen [OF e] show ?case by (cases ok) force+
qed simp

text \<open>However tasks are offered and taken, and even when a full channel refuses some, no two accepted tasks have the
  same identity (method, scheme, host, path, names of the query and hints), unless an identity without hints is the one
  of another task with hints.\<close>

theorem queue_once:
  assumes "accept_run net evs (new_param_state cap) = Some acc"
    and "\<forall>t t'. Some t \<in> set evs \<longrightarrow> Some t' \<in> set evs \<longrightarrow> paramTaskIdentity net t \<noteq> queue_key net t'"
  shows "distinct (map (queue_key net) acc)"
  using accept_fresh [OF assms] by blast

lemma queue_once_witness:
  "\<exists>acc. accept_run (po_net demo_param_ops) [Some demo_task, Some demo_task, None] (new_param_state 1) = Some acc \<and>
     length acc = 1 \<and> distinct (map (queue_key (po_net demo_param_ops)) acc)"
proof -
  have "map_option length (accept_run (po_net demo_param_ops) [Some demo_task, Some demo_task, None] (new_param_state 1)) = Some 1"
    by code_simp
  then obtain acc where a: "accept_run (po_net demo_param_ops) [Some demo_task, Some demo_task, None] (new_param_state 1) = Some acc"
      "length acc = 1" by auto
  have "paramTaskIdentity (po_net demo_param_ops) demo_task \<noteq> queue_key (po_net demo_param_ops) demo_task" by code_simp
  with queue_once [OF a(1)] a show ?thesis by auto
qed

end
