(* ===== verification/Swarm.thy ===== *)
theory Swarm
  imports Complex_Main GoText SortedMap Simhash "HOL-Library.Sublist"
begin

text \<open>
  The distribution of a scan, \<open>pkg/engine/distribute.go\<close> and the first half of \<open>cmd/dirfuzz/swarm.go\<close>: the defaults of
  a worker's configuration, the chunks of the wordlist, and the aggregation of the results of all workers. Of a result
  only the fields that the aggregation reads are kept. How the chunks travel is SwarmRun.thy.
\<close>

section \<open>Chunks of the wordlist\<close>

type_synonym swarm_chunk = "nat \<times> string list"

text \<open>The loop over the lines: the number of the line, the lines collected and the number of the next chunk; the lines are
  those without an error of the scanner.\<close>

fun chunk_scan :: "nat \<Rightarrow> int \<Rightarrow> int \<Rightarrow> string list \<Rightarrow> nat \<Rightarrow> string list \<Rightarrow> swarm_chunk list \<times> string list \<times> nat" where
  "chunk_scan sz startLine lineNum current ix [] = ([], current, ix)"
| "chunk_scan sz startLine lineNum current ix (raw # lines) =
     (let line = trim_space raw in
      if line = '''' then chunk_scan sz startLine lineNum current ix lines
      else if lineNum + 1 \<le> startLine then chunk_scan sz startLine (lineNum + 1) current ix lines
      else if length (current @ [line]) \<ge> sz then
        (case chunk_scan sz startLine (lineNum + 1) [] (ix + 1) lines of
           (cs, rest) \<Rightarrow> ((ix, current @ [line]) # cs, rest))
      else chunk_scan sz startLine (lineNum + 1) (current @ [line]) ix lines)"

definition swarm_chunks :: "nat \<Rightarrow> int \<Rightarrow> bool \<Rightarrow> string list \<Rightarrow> swarm_chunk list" where
  "swarm_chunks chunkSize startLine scan_ok lines =
     (case chunk_scan (max 1 chunkSize) startLine 0 [] 0 lines of
        (cs, current, ix) \<Rightarrow> if scan_ok \<and> current \<noteq> [] then cs @ [(ix, current)] else cs)"

definition scanned_lines :: "string list \<Rightarrow> string list" where
  "scanned_lines lines = filter (\<lambda>l. l \<noteq> '''') (map trim_space lines)"

lemma chunk_scan_lines:
  assumes "chunk_scan sz startLine n current ix lines = (cs, rest, ix')" "0 \<le> n"
  shows "concat (map snd cs) @ rest = current @ drop (nat (startLine - n)) (scanned_lines lines)"
  using assms
proof (induction sz startLine n current ix lines arbitrary: cs rest ix' rule: chunk_scan.induct)
  case (2 sz startLine n current ix raw lines)
  let ?l = "trim_space raw"
  consider (blank) "?l = ''''" | (skip) "?l \<noteq> ''''" "n + 1 \<le> startLine"
    | (full) "?l \<noteq> ''''" "\<not> n + 1 \<le> startLine" "length (current @ [?l]) \<ge> sz"
    | (more) "?l \<noteq> ''''" "\<not> n + 1 \<le> startLine" "\<not> length (current @ [?l]) \<ge> sz" by blast
  then show ?case
  proof cases
    case blank
    with 2 show ?thesis by (simp add: scanned_lines_def)
  next
    case skip
    then have "nat (startLine - n) = Suc (nat (startLine - (n + 1)))" by simp
    with skip 2 show ?thesis by (simp add: scanned_lines_def Let_def)
  next
    case full
    obtain cs' where "chunk_scan sz startLine (n + 1) [] (ix + 1) lines = (cs', rest, ix')" "cs = (ix, current @ [?l]) # cs'"
      using full 2(5) by (auto simp: Let_def split: prod.splits)
    with full 2(3) [OF refl full(1,2)] 2(6) show ?thesis by (simp add: scanned_lines_def)
  next
    case more
    with 2 show ?thesis by (simp add: scanned_lines_def Let_def)
  qed
qed (simp add: scanned_lines_def)

lemma chunk_scan_sizes:
  assumes "chunk_scan sz startLine n current ix lines = (cs, rest, ix')" "length current < sz"
  shows "map fst cs = [ix..<ix + length cs] \<and> ix' = ix + length cs \<and> length rest < sz \<and> (\<forall>c \<in> set cs. length (snd c) = sz)"
  using assms
proof (induction sz startLine n current ix lines arbitrary: cs rest ix' rule: chunk_scan.induct)
  case (2 sz startLine n current ix raw lines)
  let ?l = "trim_space raw"
  show ?case
  proof (cases "?l \<noteq> '''' \<and> \<not> n + 1 \<le> startLine \<and> length (current @ [?l]) \<ge> sz")
    case True
    then obtain cs' where c: "chunk_scan sz startLine (n + 1) [] (ix + 1) lines = (cs', rest, ix')" "cs = (ix, current @ [?l]) # cs'"
      using 2(5) by (auto simp: Let_def split: prod.splits)
    with True 2(3) [OF refl _ _ _ c(1)] 2(6) show ?thesis by (auto simp: upt_conv_Cons simp del: upt_Suc)
  next
    case False
    with 2 show ?thesis by (auto simp: Let_def split: if_splits)
  qed
qed auto

lemma swarm_chunks_lines:
  "concat (map snd (swarm_chunks k startLine True lines)) = drop (nat startLine) (scanned_lines lines)"
proof -
  obtain cs rest ix where c: "chunk_scan (max 1 k) startLine 0 [] 0 lines = (cs, rest, ix)" by (metis prod_cases3)
  have "swarm_chunks k startLine True lines = (if rest \<noteq> [] then cs @ [(ix, rest)] else cs)"
    by (simp only: swarm_chunks_def c prod.case simp_thms)
  with chunk_scan_lines [OF c] show ?thesis by (cases "rest = []") simp_all
qed

lemma swarm_chunks_sizes:
  "map fst (swarm_chunks k startLine ok lines) = [0..<length (swarm_chunks k startLine ok lines)] \<and>
   (\<forall>c \<in> set (swarm_chunks k startLine ok lines). snd c \<noteq> [] \<and> length (snd c) \<le> max 1 k)"
proof -
  obtain cs rest ix where c: "chunk_scan (max 1 k) startLine 0 [] 0 lines = (cs, rest, ix)" by (metis prod_cases3)
  have "length ([] :: string list) < max 1 k" by simp
  note z = chunk_scan_sizes [OF c this]
  have "\<forall>c \<in> set cs. snd c \<noteq> [] \<and> length (snd c) \<le> max 1 k" using z by force
  moreover have "swarm_chunks k startLine ok lines = (if ok \<and> rest \<noteq> [] then cs @ [(ix, rest)] else cs)"
    by (simp only: swarm_chunks_def c prod.case)
  ultimately show ?thesis using z by simp
qed

section \<open>The configuration of a worker\<close>

record swarm_limits =
  sc_threads :: int
  sc_max_redirects :: int
  sc_streams :: int
  sc_auto_filter :: int
  sc_simhash_threshold :: int
  sc_cluster_limit :: int
  sc_evasion_limit :: int
  sc_oracle_k :: real
  sc_oracle_n :: int
  sc_timeout :: duration

definition at_least_one :: "int \<Rightarrow> int \<Rightarrow> int" where
  "at_least_one v d = (if v \<le> 0 then d else v)"

definition swarm_normalize :: "swarm_limits \<Rightarrow> swarm_limits" where
  "swarm_normalize c =
     \<lparr>sc_threads = (if sc_threads c < 1 then 1 else sc_threads c),
      sc_max_redirects = at_least_one (sc_max_redirects c) 5,
      sc_streams = at_least_one (sc_streams c) 100,
      sc_auto_filter = at_least_one (sc_auto_filter c) 15,
      sc_simhash_threshold = (if sc_simhash_threshold c < 0 then 3 else sc_simhash_threshold c),
      sc_cluster_limit = at_least_one (sc_cluster_limit c) 5,
      sc_evasion_limit = at_least_one (sc_evasion_limit c) 4,
      sc_oracle_k = (if sc_oracle_k c \<le> 0 then 5 / 2 else sc_oracle_k c),
      sc_oracle_n = at_least_one (sc_oracle_n c) 5,
      sc_timeout = at_least_one (sc_timeout c) (5 * second)\<rparr>"

lemma swarm_normalize_idem: "swarm_normalize (swarm_normalize c) = swarm_normalize c"
  by (simp add: swarm_normalize_def at_least_one_def second_def)

text \<open>A negative threshold, which switches clustering off in the engine and in the aggregation, becomes 3 at a worker.\<close>

lemma normalize_enables_simhash: "sc_simhash_threshold c < 0 \<Longrightarrow> sc_simhash_threshold (swarm_normalize c) = 3"
  by (simp add: swarm_normalize_def)

section \<open>Aggregation of the results\<close>

record swarm_result =
  sr_url :: string
  sr_path :: string
  sr_status :: int
  sr_method :: string
  sr_size :: int
  sr_words :: int
  sr_lines :: int
  sr_type :: string
  sr_redirect :: string
  sr_confidence :: string
  sr_labels :: "string list"
  sr_params :: "string list"
  sr_headers :: "(string \<times> string) list"

definition result_tail :: "swarm_result \<Rightarrow> string" where
  "result_tail r =
     itoa (sr_size r) @ ''|'' @ itoa (sr_words r) @ ''|'' @ itoa (sr_lines r) @ ''|'' @ sr_type r @ ''|'' @ sr_redirect r @ ''|'' @
     sr_confidence r @ ''|'' @ join '','' (sort (sr_labels r)) @ ''|'' @ join '','' (sort (sr_params r)) @ ''|'' @
     concat (map (\<lambda>(k, v). k @ ''='' @ v @ '';'') (sorted_items (Some (sr_headers r))))"

definition resultIdentityKey :: "swarm_result \<Rightarrow> string" where
  "resultIdentityKey r =
     trim_space (sr_url r) @ ''|'' @ trim_space (sr_path r) @ ''|'' @ itoa (sr_status r) @ ''|'' @ sr_method r @ ''|'' @ result_tail r"

definition resultSimilarityFingerprint :: "swarm_result \<Rightarrow> 64 word" where
  "resultSimilarityFingerprint r = simhashBody (itoa (sr_status r) @ ''|'' @ result_tail r)"

type_synonym result_cluster = "64 word \<times> int"

fun findResultCluster :: "nat \<Rightarrow> result_cluster list \<Rightarrow> 64 word \<Rightarrow> int \<Rightarrow> nat option" where
  "findResultCluster i [] fp threshold = None"
| "findResultCluster i (c # cs) fp threshold =
     (if int (hammingDistance fp (fst c)) \<le> threshold then Some i else findResultCluster (i + 1) cs fp threshold)"

text \<open>One result: the keys seen, the clusters and what is kept.\<close>

definition aggregate_step ::
  "int \<Rightarrow> int \<Rightarrow> string set \<times> result_cluster list \<times> swarm_result list \<Rightarrow> swarm_result
   \<Rightarrow> string set \<times> result_cluster list \<times> swarm_result list" where
  "aggregate_step threshold limit = (\<lambda>(seen, clusters, out) r.
     if resultIdentityKey r \<in> seen then (seen, clusters, out)
     else
       let seen' = insert (resultIdentityKey r) seen in
       if threshold \<ge> 0 \<and> limit > 0 then
         (case findResultCluster 0 clusters (resultSimilarityFingerprint r) threshold of
            Some i \<Rightarrow>
              if snd (clusters ! i) \<ge> limit then (seen', clusters, out)
              else (seen', clusters[i := (fst (clusters ! i), snd (clusters ! i) + 1)], out @ [r])
          | None \<Rightarrow> (seen', clusters @ [(resultSimilarityFingerprint r, 1)], out @ [r]))
       else (seen', clusters, out @ [r]))"

definition AggregateSwarmResults :: "swarm_result list \<Rightarrow> int \<Rightarrow> int \<Rightarrow> swarm_result list" where
  "AggregateSwarmResults results simhashThreshold clusterLimit =
     snd (snd (foldl (aggregate_step simhashThreshold clusterLimit)
       ({}, [], []) results))"

definition sortResults :: "swarm_result list \<Rightarrow> swarm_result list" where
  "sortResults rs = sort_key sr_status (sort_key sr_path rs)"

lemma find_result_cluster:
  "findResultCluster i cs fp t = Some j \<Longrightarrow> i \<le> j \<and> j - i < length cs \<and> int (hammingDistance fp (fst (cs ! (j - i)))) \<le> t"
proof (induction i cs fp t rule: findResultCluster.induct)
  case (2 i c cs fp t)
  show ?case
  proof (cases "int (hammingDistance fp (fst c)) \<le> t")
    case False
    with 2 have "i + 1 \<le> j \<and> j - (i + 1) < length cs \<and> int (hammingDistance fp (fst (cs ! (j - (i + 1))))) \<le> t" by simp
    moreover from this have "j - i = Suc (j - (i + 1))" by linarith
    ultimately show ?thesis by simp
  qed (use 2 in simp)
qed simp

definition near :: "int \<Rightarrow> 64 word \<Rightarrow> swarm_result list \<Rightarrow> swarm_result list" where
  "near t c rs = filter (\<lambda>r. int (hammingDistance (resultSimilarityFingerprint r) c) \<le> t) rs"

text \<open>A result is dropped for its cluster when already as many results as the limit are kept near one fingerprint that is
  near its own.\<close>

definition crowded :: "int \<Rightarrow> int \<Rightarrow> swarm_result list \<Rightarrow> swarm_result \<Rightarrow> bool" where
  "crowded t limit out r \<longleftrightarrow> 0 \<le> t \<and> 0 < limit \<and>
     (\<exists>c. int (hammingDistance (resultSimilarityFingerprint r) c) \<le> t \<and> limit \<le> int (length (near t c out)))"

lemma near_append: "near t c (as @ bs) = near t c as @ near t c bs"
  by (simp add: near_def)

lemma crowded_append: "crowded t limit out r \<Longrightarrow> crowded t limit (out @ rs) r"
  by (force simp: crowded_def near_append)

definition aggregated :: "int \<Rightarrow> int \<Rightarrow> swarm_result list \<Rightarrow> string set \<times> result_cluster list \<times> swarm_result list \<Rightarrow> bool" where
  "aggregated t limit done st \<longleftrightarrow> (case st of (seen, clusters, out) \<Rightarrow>
     seen = resultIdentityKey ` set done \<and> subseq out done \<and> distinct (map resultIdentityKey out) \<and>
     (\<forall>(c, n) \<in> set clusters. n \<le> int (length (near t c out))) \<and>
     (\<forall>k \<in> seen. \<exists>r \<in> set done. resultIdentityKey r = k \<and> (r \<in> set out \<or> crowded t limit out r)))"

lemma aggregated_dup:
  "aggregated t limit done (seen, cl, out) \<Longrightarrow> resultIdentityKey r \<in> seen \<Longrightarrow> aggregated t limit (done @ [r]) (seen, cl, out)"
  by (auto simp: aggregated_def insert_absorb intro: list_emb_prefix)

lemma aggregated_drop:
  "aggregated t limit done (seen, cl, out) \<Longrightarrow> crowded t limit out r \<Longrightarrow>
   aggregated t limit (done @ [r]) (insert (resultIdentityKey r) seen, cl, out)"
  by (auto simp: aggregated_def intro: list_emb_prefix)

lemma aggregated_keep:
  assumes "aggregated t limit done (seen, cl, out)" "resultIdentityKey r \<notin> seen"
    and "\<forall>(c, n) \<in> set cl'. n \<le> int (length (near t c (out @ [r])))"
  shows "aggregated t limit (done @ [r]) (insert (resultIdentityKey r) seen, cl', out @ [r])"
proof -
  have "set out \<subseteq> set done" using assms(1) by (auto simp: aggregated_def dest: list_emb_set)
  moreover have "subseq (out @ [r]) (done @ [r])" using assms(1) by (simp add: aggregated_def)
  ultimately show ?thesis using assms unfolding aggregated_def prod.case
    by (intro conjI ballI) (auto, meson crowded_append)
qed

lemma aggregate_step_keeps:
  assumes "aggregated t limit done st"
  shows "aggregated t limit (done @ [r]) (aggregate_step t limit st r)"
proof -
  obtain seen clusters out where st: "st = (seen, clusters, out)" by (metis prod_cases3)
  have near: "\<forall>(c, n) \<in> set clusters. n \<le> int (length (near t c out))" using assms by (simp add: st aggregated_def)
  then have later: "\<forall>(c, n) \<in> set clusters. n \<le> int (length (near t c (out @ [r])))" by (force simp: near_append)
  let ?k = "resultIdentityKey r" and ?f = "resultSimilarityFingerprint r"
  note a = assms [unfolded st]
  consider (dup) "?k \<in> seen" | (off) "?k \<notin> seen" "\<not> (t \<ge> 0 \<and> limit > 0)"
    | (new) "?k \<notin> seen" "t \<ge> 0" "limit > 0" "findResultCluster 0 clusters ?f t = None"
    | (found) i where "?k \<notin> seen" "t \<ge> 0" "limit > 0" "findResultCluster 0 clusters ?f t = Some i"
    by fastforce
  then show ?thesis
  proof cases
    case dup
    with a aggregated_dup [OF a] show ?thesis by (simp add: st aggregate_step_def)
  next
    case off
    with aggregated_keep [OF a off(1) later] show ?thesis by (auto simp: st aggregate_step_def)
  next
    case new
    have "\<forall>(c, n) \<in> set (clusters @ [(?f, 1)]). n \<le> int (length (near t c (out @ [r])))"
      using later new(2) by (auto simp: near_def)
    from aggregated_keep [OF a new(1) this] new show ?thesis by (simp add: st aggregate_step_def)
  next
    case found
    obtain c n where cn: "clusters ! i = (c, n)" by fastforce
    from find_result_cluster [OF found(4)] have i: "i < length clusters" "int (hammingDistance ?f c) \<le> t" by (simp_all add: cn)
    then have n: "n \<le> int (length (near t c out))" using near cn by (metis (no_types, lifting) case_prodD nth_mem)
    show ?thesis
    proof (cases "n \<ge> limit")
      case True
      with n i found have "crowded t limit out r" by (auto simp: crowded_def intro!: exI [of _ c])
      from aggregated_drop [OF a this] True found cn show ?thesis by (simp add: st aggregate_step_def)
    next
      case False
      have "n + 1 \<le> int (length (near t c (out @ [r])))" using n i(2) by (simp add: near_def)
      then have "\<forall>(c', n') \<in> set (clusters[i := (c, n + 1)]). n' \<le> int (length (near t c' (out @ [r])))"
        using later by (auto dest!: subsetD [OF set_update_subset_insert])
      from aggregated_keep [OF a found(1) this] False found cn show ?thesis by (simp add: st aggregate_step_def)
    qed
  qed
qed

lemma aggregate_all: "aggregated t limit rs (foldl (aggregate_step t limit) ({}, [], []) rs)"
  by (induction rs rule: rev_induct) (simp add: aggregated_def, simp add: aggregate_step_keeps)

lemma find_no_cluster:
  "findResultCluster i cs fp t = None \<Longrightarrow> c \<in> set cs \<Longrightarrow> int (hammingDistance fp (fst c)) > t"
  by (induction i cs fp t rule: findResultCluster.induct) (auto split: if_splits)

text \<open>The founders of the clusters, and how many results each cluster has.\<close>

definition grouped :: "int \<Rightarrow> int \<Rightarrow> swarm_result list \<Rightarrow> swarm_result list \<Rightarrow> result_cluster list \<Rightarrow> bool" where
  "grouped t limit fs out cl \<longleftrightarrow> subseq fs out \<and> map fst cl = map resultSimilarityFingerprint fs \<and>
     sorted_wrt (\<lambda>a b. t < int (hammingDistance (resultSimilarityFingerprint b) (resultSimilarityFingerprint a))) fs \<and>
     (\<forall>n \<in> snd ` set cl. n \<le> limit) \<and> int (length out) = sum_list (map snd cl)"

lemma sum_list_upd: "i < length ns \<Longrightarrow> sum_list (ns[i := m]) = sum_list ns - ns ! i + m" for m :: int
  by (induction ns arbitrary: i) (auto split: nat.split)

lemma aggregate_step_groups:
  assumes "t \<ge> 0" "limit > 0" "grouped t limit fs out cl"
  shows "\<exists>fs'. case aggregate_step t limit (seen, cl, out) r of (_, cl', out') \<Rightarrow> grouped t limit fs' out' cl'"
proof (cases "resultIdentityKey r \<in> seen")
  case True
  with assms show ?thesis by (auto simp: aggregate_step_def)
next
  case False
  let ?f = "resultSimilarityFingerprint r"
  show ?thesis
  proof (cases "findResultCluster 0 cl ?f t")
    case None
    have "t < int (hammingDistance ?f (resultSimilarityFingerprint a))" if "a \<in> set fs" for a
    proof -
      have "resultSimilarityFingerprint a \<in> set (map fst cl)" using that assms(3) by (simp add: grouped_def)
      then obtain c where "c \<in> set cl" "fst c = resultSimilarityFingerprint a" by auto
      with find_no_cluster [OF None] show ?thesis by metis
    qed
    with assms have "grouped t limit (fs @ [r]) (out @ [r]) (cl @ [(?f, 1)])" by (auto simp: grouped_def sorted_wrt_append)
    with False None assms show ?thesis by (auto simp: aggregate_step_def)
  next
    case (Some i)
    obtain c n where cn: "cl ! i = (c, n)" by fastforce
    from find_result_cluster [OF Some] have i: "i < length cl" by simp
    show ?thesis
    proof (cases "n \<ge> limit")
      case True
      with False Some cn assms show ?thesis by (auto simp: aggregate_step_def)
    next
      case less: False
      have "subseq fs (out @ [r])" using assms(3) by (auto simp: grouped_def intro: list_emb_prefix)
      moreover have "map fst (cl[i := (c, n + 1)]) = map fst cl" using cn i by (metis fst_conv list_update_id map_update nth_map)
      moreover have "sum_list (map snd (cl[i := (c, n + 1)])) = sum_list (map snd cl) + 1"
        using cn i by (simp add: map_update sum_list_upd)
      moreover have "\<forall>m \<in> snd ` set (cl[i := (c, n + 1)]). m \<le> limit"
        using less assms(3) by (auto simp: grouped_def dest!: subsetD [OF set_update_subset_insert])
      ultimately have "grouped t limit fs (out @ [r]) (cl[i := (c, n + 1)])" using assms(3) by (simp add: grouped_def)
      with False Some cn less assms show ?thesis by (auto simp: aggregate_step_def)
    qed
  qed
qed

lemma aggregate_groups:
  assumes "t \<ge> 0" "limit > 0"
  shows "\<exists>fs. case foldl (aggregate_step t limit) ({}, [], []) rs of (_, cl, out) \<Rightarrow> grouped t limit fs out cl"
proof (induction rs rule: rev_induct)
  case Nil
  show ?case by (intro exI [of _ "[]"]) (simp add: grouped_def)
next
  case (snoc r rs)
  obtain seen cl out where f: "foldl (aggregate_step t limit) ({}, [], []) rs = (seen, cl, out)" by (metis prod_cases3)
  with snoc obtain fs where "grouped t limit fs out cl" by auto
  from aggregate_step_groups [OF assms this, of seen r] show ?case by (simp add: f)
qed

lemma sum_list_bound: "(\<forall>n \<in> set ns. n \<le> (k :: int)) \<Longrightarrow> sum_list ns \<le> k * int (length ns)"
  by (induction ns) (auto simp: algebra_simps)

lemma grouped_bound:
  assumes "grouped t limit fs out cl"
  shows "int (length out) \<le> limit * int (length fs)"
proof -
  have "length cl = length fs" using assms by (metis grouped_def length_map)
  with sum_list_bound [of "map snd cl" limit] assms show ?thesis by (simp add: grouped_def)
qed

text \<open>The aggregation keeps results in their order and no two with the same identity, and drops none without a reason:
  for every result one of the same identity is kept, or the clustering is on and as many results as its limit are kept
  that lie, like that one, within the threshold of one fingerprint. When the clustering is on, it keeps at most the limit
  times the number of kept results that are pairwise farther apart than the threshold.\<close>

theorem aggregate_complete:
  fixes results :: "swarm_result list" and t limit :: int
  defines "out \<equiv> AggregateSwarmResults results t limit"
  shows "subseq out results \<and> distinct (map resultIdentityKey out) \<and>
    (\<forall>r \<in> set results. \<exists>r' \<in> set results. resultIdentityKey r' = resultIdentityKey r \<and> (r' \<in> set out \<or> crowded t limit out r')) \<and>
    (0 \<le> t \<and> 0 < limit \<longrightarrow> (\<exists>fs. subseq fs out \<and> int (length out) \<le> limit * int (length fs) \<and>
       sorted_wrt (\<lambda>a b. t < int (hammingDistance (resultSimilarityFingerprint b) (resultSimilarityFingerprint a))) fs))"
proof -
  obtain seen cl o' where f: "foldl (aggregate_step t limit) ({}, [], []) results = (seen, cl, o')" by (metis prod_cases3)
  then have o': "out = o'" by (simp add: out_def AggregateSwarmResults_def)
  have "\<exists>fs. subseq fs out \<and> int (length out) \<le> limit * int (length fs) \<and>
       sorted_wrt (\<lambda>a b. t < int (hammingDistance (resultSimilarityFingerprint b) (resultSimilarityFingerprint a))) fs"
    if "0 \<le> t \<and> 0 < limit"
  proof -
    from aggregate_groups [of t limit results] that obtain fs where g: "grouped t limit fs out cl" by (auto simp: f o')
    with grouped_bound [OF g] show ?thesis by (auto simp: grouped_def)
  qed
  moreover have a: "aggregated t limit results (seen, cl, out)" using aggregate_all [of t limit results] by (simp add: f o')
  then have "\<forall>r \<in> set results. \<exists>r' \<in> set results. resultIdentityKey r' = resultIdentityKey r \<and> (r' \<in> set out \<or> crowded t limit out r')"
    by (simp add: aggregated_def)
  moreover have "subseq out results \<and> distinct (map resultIdentityKey out)" using a by (simp add: aggregated_def)
  ultimately show ?thesis by blast
qed

definition demo_result :: swarm_result where
  "demo_result = \<lparr>sr_url = ''http://h/a'', sr_path = ''/a'', sr_status = 200, sr_method = ''GET'', sr_size = 1, sr_words = 1, sr_lines = 1,
     sr_type = ''x|y'', sr_redirect = '''', sr_confidence = '''', sr_labels = [], sr_params = [], sr_headers = []\<rparr>"

lemma aggregate_complete_witness:
  "AggregateSwarmResults [demo_result, demo_result] (- 1) 0 = [demo_result] \<and>
   subseq (AggregateSwarmResults [demo_result, demo_result] (- 1) 0) [demo_result, demo_result]"
proof -
  have "AggregateSwarmResults [demo_result, demo_result] (- 1) 0 = [demo_result]"
    by (simp add: AggregateSwarmResults_def aggregate_step_def)
  with aggregate_complete [of "[demo_result, demo_result]" "- 1" 0] show ?thesis by blast
qed

text \<open>The parts of an identity are joined without quoting: different answers can have the same, and one is lost.\<close>

lemma identities_collide:
  "\<exists>r r'. r \<noteq> r' \<and> sr_type r \<noteq> sr_type r' \<and> AggregateSwarmResults [r, r'] (- 1) 0 = [r]"
proof -
  let ?r = "demo_result\<lparr>sr_type := ''x'', sr_redirect := ''y||''\<rparr>" and ?s = "demo_result\<lparr>sr_type := ''x|y'', sr_redirect := ''|''\<rparr>"
  have "resultIdentityKey ?r = resultIdentityKey ?s" by (simp add: resultIdentityKey_def result_tail_def demo_result_def)
  then have "AggregateSwarmResults [?r, ?s] (- 1) 0 = [?r]" by (simp add: AggregateSwarmResults_def aggregate_step_def)
  then show ?thesis by (intro exI [of _ ?r] exI [of _ ?s]) (simp add: demo_result_def)
qed

end
