(* ===== verification/SwarmRun.thy ===== *)
theory SwarmRun
  imports Swarm "HOL-Library.Multiset"
begin

text \<open>
  The run of a swarm, \<open>executeSwarm\<close> of \<open>cmd/dirfuzz/swarm.go\<close>, as steps of its goroutines: the producer sends the chunks
  of the wordlist to a bounded channel, the workers take chunks, invoke the provider and send what it answers to a second
  bounded channel, one more goroutine closes that channel when all workers are gone, and the caller collects. An error
  goes to a channel for one error, and is dropped when it is full. A \<open>select\<close> with several ready cases takes any of them.
  The provider is a parameter: a function of the chunk, that may also fail once the run is cancelled.
\<close>

type_synonym swarm_response = "swarm_result list \<times> string list"

datatype swarm_worker = WorkerIdle | WorkerInvoking swarm_chunk | WorkerSending swarm_response | WorkerGone

datatype swarm_outcome = SwarmDone "swarm_result list" "string list" | SwarmFailed goerror
  | SwarmCancelled "swarm_result list" "string list"

record swarm_run =
  wr_todo :: "swarm_chunk list"
  wr_scan_ok :: bool
  wr_ended :: bool
  wr_chunks :: "swarm_chunk list"
  wr_workers :: "swarm_worker list"
  wr_results :: "swarm_response list"
  wr_err :: "goerror option"
  wr_cancelled :: bool
  wr_closed :: bool
  wr_collected :: swarm_response
  wr_ret :: "swarm_outcome option"

definition swarm_start :: "swarm_chunk list \<Rightarrow> bool \<Rightarrow> nat \<Rightarrow> swarm_run" where
  "swarm_start plan scan_ok nodes =
     \<lparr>wr_todo = plan, wr_scan_ok = scan_ok, wr_ended = False, wr_chunks = [], wr_workers = replicate (max 1 nodes) WorkerIdle,
      wr_results = [], wr_err = None, wr_cancelled = False, wr_closed = False, wr_collected = ([], []), wr_ret = None\<rparr>"

definition put_err :: "goerror \<Rightarrow> swarm_run \<Rightarrow> swarm_run" where
  "put_err e s = (case wr_err s of None \<Rightarrow> s\<lparr>wr_err := Some e\<rparr> | Some _ \<Rightarrow> s)"

definition set_worker :: "nat \<Rightarrow> swarm_worker \<Rightarrow> swarm_run \<Rightarrow> swarm_run" where
  "set_worker i w s = s\<lparr>wr_workers := (wr_workers s)[i := w]\<rparr>"

datatype swarm_event =
    Produce | StopProduce | EndProduce
  | TakeChunk nat | Answer nat | Abort nat | SendResult nat | DropResult nat
  | CloseResults
  | CollectError | CollectResult | CollectDone | CollectCancel
  | Interrupt

definition worker_of :: "swarm_run \<Rightarrow> nat \<Rightarrow> swarm_worker option" where
  "worker_of s i = (if i < length (wr_workers s) then Some (wr_workers s ! i) else None)"

definition take_chunk :: "nat \<Rightarrow> swarm_run \<Rightarrow> swarm_run option" where
  "take_chunk i s =
     (case wr_chunks s of
        c # cs \<Rightarrow> Some (set_worker i (WorkerInvoking c) (s\<lparr>wr_chunks := cs\<rparr>))
      | [] \<Rightarrow> if wr_ended s then Some (set_worker i WorkerGone s) else None)"

definition answer_chunk :: "(swarm_chunk \<Rightarrow> swarm_response result) \<Rightarrow> nat \<Rightarrow> swarm_chunk \<Rightarrow> swarm_run \<Rightarrow> swarm_run" where
  "answer_chunk invoke i c s =
     (case invoke c of
        Inr r \<Rightarrow> set_worker i (WorkerSending r) s
      | Inl e \<Rightarrow> put_err (''worker chunk '' @ nat_dec (fst c) @ '': '' @ e) (set_worker i WorkerGone s))"

text \<open>One event, when it can happen; the channels for chunks and results have \<open>cap\<close> places.\<close>

fun swarm_next :: "(swarm_chunk \<Rightarrow> swarm_response result) \<Rightarrow> nat \<Rightarrow> swarm_event \<Rightarrow> swarm_run \<Rightarrow> swarm_run option" where
  "swarm_next invoke cap Produce s =
     (case wr_todo s of
        c # cs \<Rightarrow> if \<not> wr_ended s \<and> length (wr_chunks s) < cap
          then Some (s\<lparr>wr_todo := cs, wr_chunks := wr_chunks s @ [c]\<rparr>) else None
      | [] \<Rightarrow> None)"
| "swarm_next invoke cap StopProduce s =
     (if wr_cancelled s \<and> \<not> wr_ended s then Some (s\<lparr>wr_todo := [], wr_ended := True\<rparr>) else None)"
| "swarm_next invoke cap EndProduce s =
     (if wr_todo s = [] \<and> \<not> wr_ended s
      then Some ((if wr_scan_ok s then s else put_err ''scanner'' s)\<lparr>wr_ended := True\<rparr>) else None)"
| "swarm_next invoke cap (TakeChunk i) s = (if worker_of s i = Some WorkerIdle then take_chunk i s else None)"
| "swarm_next invoke cap (Answer i) s =
     (case worker_of s i of Some (WorkerInvoking c) \<Rightarrow> Some (answer_chunk invoke i c s) | _ \<Rightarrow> None)"
| "swarm_next invoke cap (Abort i) s =
     (case worker_of s i of
        Some (WorkerInvoking c) \<Rightarrow>
          if wr_cancelled s then Some (put_err ''context canceled'' (set_worker i WorkerGone s)) else None
      | _ \<Rightarrow> None)"
| "swarm_next invoke cap (SendResult i) s =
     (case worker_of s i of
        Some (WorkerSending r) \<Rightarrow>
          if length (wr_results s) < cap then Some (set_worker i WorkerIdle (s\<lparr>wr_results := wr_results s @ [r]\<rparr>)) else None
      | _ \<Rightarrow> None)"
| "swarm_next invoke cap (DropResult i) s =
     (case worker_of s i of
        Some (WorkerSending r) \<Rightarrow> if wr_cancelled s then Some (set_worker i WorkerGone s) else None
      | _ \<Rightarrow> None)"
| "swarm_next invoke cap CloseResults s =
     (if list_all (\<lambda>w. w = WorkerGone) (wr_workers s) \<and> \<not> wr_closed s then Some (s\<lparr>wr_closed := True\<rparr>) else None)"
| "swarm_next invoke cap CollectError s =
     (case (wr_ret s, wr_err s) of
        (None, Some e) \<Rightarrow> Some (s\<lparr>wr_err := None, wr_cancelled := True, wr_ret := Some (SwarmFailed e)\<rparr>)
      | _ \<Rightarrow> None)"
| "swarm_next invoke cap CollectResult s =
     (case (wr_ret s, wr_results s) of
        (None, (rs, ws) # more_results) \<Rightarrow>
          Some (s\<lparr>wr_results := more_results, wr_collected := (fst (wr_collected s) @ rs, snd (wr_collected s) @ ws)\<rparr>)
      | _ \<Rightarrow> None)"
| "swarm_next invoke cap CollectDone s =
     (if wr_ret s = None \<and> wr_results s = [] \<and> wr_closed s
      then Some (s\<lparr>wr_ret := Some (SwarmDone (fst (wr_collected s)) (snd (wr_collected s)))\<rparr>) else None)"
| "swarm_next invoke cap CollectCancel s =
     (if wr_ret s = None \<and> wr_cancelled s
      then Some (s\<lparr>wr_ret := Some (SwarmCancelled (fst (wr_collected s)) (snd (wr_collected s)))\<rparr>) else None)"
| "swarm_next invoke cap Interrupt s = (if \<not> wr_cancelled s then Some (s\<lparr>wr_cancelled := True\<rparr>) else None)"

inductive swarm_reach :: "(swarm_chunk \<Rightarrow> swarm_response result) \<Rightarrow> swarm_chunk list \<Rightarrow> bool \<Rightarrow> nat \<Rightarrow> swarm_run \<Rightarrow> bool"
  for invoke plan scan_ok nodes where
  start: "swarm_reach invoke plan scan_ok nodes (swarm_start plan scan_ok nodes)"
| step: "swarm_reach invoke plan scan_ok nodes s \<Longrightarrow> swarm_next invoke (max 1 nodes) ev s = Some s' \<Longrightarrow>
    swarm_reach invoke plan scan_ok nodes s'"

section \<open>Results are neither lost nor invented\<close>

definition chunk_results :: "(swarm_chunk \<Rightarrow> swarm_response result) \<Rightarrow> swarm_chunk \<Rightarrow> swarm_result multiset" where
  "chunk_results invoke c = (case invoke c of Inr (rs, _) \<Rightarrow> mset rs | Inl _ \<Rightarrow> {#})"

fun worker_results :: "(swarm_chunk \<Rightarrow> swarm_response result) \<Rightarrow> swarm_worker \<Rightarrow> swarm_result multiset" where
  "worker_results invoke (WorkerInvoking c) = chunk_results invoke c"
| "worker_results invoke (WorkerSending r) = mset (fst r)"
| "worker_results invoke _ = {#}"

definition swarm_total :: "(swarm_chunk \<Rightarrow> swarm_response result) \<Rightarrow> swarm_chunk list \<Rightarrow> swarm_result multiset" where
  "swarm_total invoke plan = sum_list (map (chunk_results invoke) plan)"

definition held_results :: "(swarm_chunk \<Rightarrow> swarm_response result) \<Rightarrow> swarm_run \<Rightarrow> swarm_result multiset" where
  "held_results invoke s =
     swarm_total invoke (wr_todo s) + swarm_total invoke (wr_chunks s) + sum_list (map (worker_results invoke) (wr_workers s)) +
     sum_list (map (\<lambda>r. mset (fst r)) (wr_results s)) + mset (fst (wr_collected s))"

lemma sum_list_set_nth:
  "i < length ws \<Longrightarrow> sum_list (map f (ws[i := w])) + f (ws ! i) = sum_list (map f ws) + (f w :: 'a :: cancel_comm_monoid_add)"
  by (induction ws arbitrary: i) (auto split: nat.split simp: add_ac)

lemma worker_update:
  assumes "worker_of s i = Some w"
  shows "sum_list (map f ((wr_workers s)[i := v])) + f w = sum_list (map f (wr_workers s)) + (f v :: 'a :: cancel_comm_monoid_add)"
  using assms sum_list_set_nth [of i "wr_workers s" f v] by (auto simp: worker_of_def split: if_splits)

lemma put_err_frame [simp]:
  "wr_todo (put_err e s) = wr_todo s" "wr_chunks (put_err e s) = wr_chunks s" "wr_workers (put_err e s) = wr_workers s"
  "wr_results (put_err e s) = wr_results s" "wr_collected (put_err e s) = wr_collected s" "wr_ret (put_err e s) = wr_ret s"
  "wr_closed (put_err e s) = wr_closed s" "wr_ended (put_err e s) = wr_ended s" "wr_cancelled (put_err e s) = wr_cancelled s"
  "wr_scan_ok (put_err e s) = wr_scan_ok s"
  by (simp_all add: put_err_def split: option.splits)

lemma set_worker_frame [simp]:
  "wr_todo (set_worker i w s) = wr_todo s" "wr_chunks (set_worker i w s) = wr_chunks s"
  "wr_workers (set_worker i w s) = (wr_workers s)[i := w]" "wr_results (set_worker i w s) = wr_results s"
  "wr_collected (set_worker i w s) = wr_collected s" "wr_ret (set_worker i w s) = wr_ret s"
  "wr_closed (set_worker i w s) = wr_closed s" "wr_ended (set_worker i w s) = wr_ended s"
  "wr_cancelled (set_worker i w s) = wr_cancelled s" "wr_scan_ok (set_worker i w s) = wr_scan_ok s" "wr_err (set_worker i w s) = wr_err s"
  by (simp_all add: set_worker_def)

lemma swarm_total_simps [simp]:
  "swarm_total invoke [] = {#}" "swarm_total invoke (c # cs) = chunk_results invoke c + swarm_total invoke cs"
  "swarm_total invoke (cs @ ds) = swarm_total invoke cs + swarm_total invoke ds"
  by (simp_all add: swarm_total_def)

text \<open>Only a cancelled run loses results.\<close>

lemma held_step:
  assumes "swarm_next invoke cap ev s = Some s'"
  shows "held_results invoke s' \<subseteq># held_results invoke s \<and> (\<not> wr_cancelled s' \<longrightarrow> held_results invoke s' = held_results invoke s)"
proof (cases ev)
  case (TakeChunk i)
  with assms have w: "worker_of s i = Some WorkerIdle" by (auto split: if_splits)
  from worker_update [OF w, of "worker_results invoke"] assms TakeChunk show ?thesis
    by (cases "wr_chunks s") (auto simp: take_chunk_def held_results_def add_ac split: if_splits)
next
  case (Answer i)
  with assms obtain c where w: "worker_of s i = Some (WorkerInvoking c)" "s' = answer_chunk invoke i c s"
    by (auto split: option.splits swarm_worker.splits)
  show ?thesis
  proof (cases "invoke c")
    case (Inl e)
    with worker_update [OF w(1), of "worker_results invoke" WorkerGone] w(2) show ?thesis
      by (simp add: answer_chunk_def held_results_def chunk_results_def)
  next
    case (Inr r)
    with worker_update [OF w(1), of "worker_results invoke" "WorkerSending r"] w(2) show ?thesis
      by (cases r) (simp add: answer_chunk_def held_results_def chunk_results_def)
  qed
next
  case (Abort i)
  with assms obtain c where w: "worker_of s i = Some (WorkerInvoking c)" "wr_cancelled s"
      "s' = put_err ''context canceled'' (set_worker i WorkerGone s)"
    by (auto split: option.splits swarm_worker.splits if_splits)
  have "sum_list (map (worker_results invoke) (wr_workers s)) =
      sum_list (map (worker_results invoke) ((wr_workers s)[i := WorkerGone])) + chunk_results invoke c"
    using worker_update [OF w(1), of "worker_results invoke" WorkerGone] by simp
  with w show ?thesis by (simp add: held_results_def)
next
  case (SendResult i)
  with assms obtain r where w: "worker_of s i = Some (WorkerSending r)"
      "s' = set_worker i WorkerIdle (s\<lparr>wr_results := wr_results s @ [r]\<rparr>)"
    by (auto split: option.splits swarm_worker.splits if_splits)
  from worker_update [OF w(1), of "worker_results invoke" WorkerIdle] w(2) show ?thesis
    by (simp add: held_results_def add_ac)
next
  case (DropResult i)
  with assms obtain r where w: "worker_of s i = Some (WorkerSending r)" "wr_cancelled s" "s' = set_worker i WorkerGone s"
    by (auto split: option.splits swarm_worker.splits if_splits)
  have "sum_list (map (worker_results invoke) (wr_workers s)) =
      sum_list (map (worker_results invoke) ((wr_workers s)[i := WorkerGone])) + mset (fst r)"
    using worker_update [OF w(1), of "worker_results invoke" WorkerGone] by simp
  with w show ?thesis by (simp add: held_results_def)
qed (use assms in \<open>auto simp: held_results_def add_ac split: list.splits if_splits option.splits\<close>)

text \<open>The chunks still to be answered.\<close>

fun worker_chunks :: "swarm_worker \<Rightarrow> swarm_chunk list" where
  "worker_chunks (WorkerInvoking c) = [c]"
| "worker_chunks _ = []"

definition open_chunks :: "swarm_run \<Rightarrow> swarm_chunk set" where
  "open_chunks s = set (wr_todo s) \<union> set (wr_chunks s) \<union> (\<Union>w \<in> set (wr_workers s). set (worker_chunks w))"

lemma open_chunks_worker:
  assumes "worker_of s i = Some w" "worker_chunks v = []"
  shows "open_chunks (set_worker i v s) \<subseteq> open_chunks s"
  using assms set_update_subset_insert [of "wr_workers s" i v] by (fastforce simp: open_chunks_def)

lemma open_chunks_put_err [simp]: "open_chunks (put_err e s) = open_chunks s"
  by (simp add: open_chunks_def)

lemma open_chunks_frame [simp]:
  "open_chunks (s\<lparr>wr_closed := b\<rparr>) = open_chunks s" "open_chunks (s\<lparr>wr_ret := r\<rparr>) = open_chunks s"
  "open_chunks (s\<lparr>wr_cancelled := b\<rparr>) = open_chunks s" "open_chunks (s\<lparr>wr_err := e\<rparr>) = open_chunks s"
  "open_chunks (s\<lparr>wr_results := rs\<rparr>) = open_chunks s" "open_chunks (s\<lparr>wr_collected := x\<rparr>) = open_chunks s"
  by (simp_all add: open_chunks_def)

lemma worker_of_mem: "worker_of s i = Some w \<Longrightarrow> i < length (wr_workers s) \<and> wr_workers s ! i = w \<and> w \<in> set (wr_workers s)"
  by (auto simp: worker_of_def split: if_splits)

lemma gone_update: "WorkerGone \<in> set (ws[i := w]) \<Longrightarrow> w \<noteq> WorkerGone \<Longrightarrow> WorkerGone \<in> set ws"
  using set_update_subset_insert [of ws i w] by auto

lemma not_all_gone: "worker_of s i = Some w \<Longrightarrow> w \<noteq> WorkerGone \<Longrightarrow> \<not> list_all (\<lambda>w. w = WorkerGone) (wr_workers s)"
  using worker_of_mem [of s i w] by (auto simp: list_all_iff)

lemma all_gone_iff: "list_all (\<lambda>w. w = WorkerGone) ws \<Longrightarrow> list_all (\<lambda>w. w = WorkerGone) (ws[i := WorkerGone])"
  using set_update_subset_insert [of ws i WorkerGone] by (auto simp: list_all_iff)

text \<open>The part of the invariant that is not about the results.\<close>

definition swarm_shape :: "(swarm_chunk \<Rightarrow> swarm_response result) \<Rightarrow> swarm_chunk list \<Rightarrow> nat \<Rightarrow> swarm_run \<Rightarrow> bool" where
  "swarm_shape invoke plan nodes s \<longleftrightarrow>
     open_chunks s \<subseteq> set plan \<and> length (wr_workers s) = max 1 nodes \<and>
     (wr_ended s \<longrightarrow> wr_todo s = []) \<and>
     (wr_closed s \<longrightarrow> list_all (\<lambda>w. w = WorkerGone) (wr_workers s)) \<and>
     (\<not> wr_cancelled s \<and> (\<forall>c \<in> set plan. is_ok (invoke c)) \<and> WorkerGone \<in> set (wr_workers s) \<longrightarrow> wr_ended s \<and> wr_chunks s = []) \<and>
     (\<forall>rs ws. wr_ret s = Some (SwarmDone rs ws) \<longrightarrow> wr_closed s \<and> wr_results s = [] \<and> fst (wr_collected s) = rs)"

lemma shape_step:
  assumes "swarm_next invoke cap ev s = Some s'" "swarm_shape invoke plan nodes s"
  shows "swarm_shape invoke plan nodes s'"
proof (cases ev)
  case (TakeChunk i)
  with assms(1) have w: "worker_of s i = Some WorkerIdle" by (auto split: if_splits)
  note m = worker_of_mem [OF w] and n = not_all_gone [OF w]
  show ?thesis
  proof (cases "wr_chunks s")
    case Nil
    then have s': "s' = set_worker i WorkerGone s" "wr_ended s"
      using assms(1) TakeChunk w by (auto simp: take_chunk_def split: if_splits)
    with open_chunks_worker [OF w, of WorkerGone] assms(2) n Nil show ?thesis
      by (auto simp: swarm_shape_def)
  next
    case (Cons c cs)
    then have s': "s' = set_worker i (WorkerInvoking c) (s\<lparr>wr_chunks := cs\<rparr>)"
      using assms(1) TakeChunk w by (simp add: take_chunk_def)
    have "open_chunks s' \<subseteq> open_chunks s"
      using Cons set_update_subset_insert [of "wr_workers s" i "WorkerInvoking c"] by (fastforce simp: s' open_chunks_def)
    with assms(2) n Cons show ?thesis by (auto simp: swarm_shape_def s' dest: gone_update)
  qed
next
  case (Answer i)
  with assms(1) obtain c where w: "worker_of s i = Some (WorkerInvoking c)" "s' = answer_chunk invoke i c s"
    by (auto split: option.splits swarm_worker.splits)
  note m = worker_of_mem [OF w(1)] and n = not_all_gone [OF w(1)]
  have c: "c \<in> set plan" using m assms(2) by (fastforce simp: swarm_shape_def open_chunks_def)
  show ?thesis
  proof (cases "invoke c")
    case (Inl e)
    then have "\<not> (\<forall>c \<in> set plan. is_ok (invoke c))" using c by force
    with open_chunks_worker [OF w(1), of WorkerGone] assms(2) n w(2) Inl show ?thesis
      by (auto simp: swarm_shape_def answer_chunk_def)
  next
    case (Inr r)
    with open_chunks_worker [OF w(1), of "WorkerSending r"] assms(2) n w(2) show ?thesis
      by (auto simp: swarm_shape_def answer_chunk_def dest: gone_update)
  qed
next
  case (Abort i)
  with assms(1) obtain c where w: "worker_of s i = Some (WorkerInvoking c)" "wr_cancelled s"
      "s' = put_err ''context canceled'' (set_worker i WorkerGone s)"
    by (auto split: option.splits swarm_worker.splits if_splits)
  from open_chunks_worker [OF w(1), of WorkerGone] not_all_gone [OF w(1)] assms(2) w(2,3) show ?thesis
    by (auto simp: swarm_shape_def)
next
  case (SendResult i)
  with assms(1) obtain r where w: "worker_of s i = Some (WorkerSending r)"
      "s' = set_worker i WorkerIdle (s\<lparr>wr_results := wr_results s @ [r]\<rparr>)"
    by (auto split: option.splits swarm_worker.splits if_splits)
  have "open_chunks s' \<subseteq> open_chunks s"
    using set_update_subset_insert [of "wr_workers s" i WorkerIdle] by (fastforce simp: w(2) open_chunks_def)
  with not_all_gone [OF w(1)] assms(2) show ?thesis by (auto simp: swarm_shape_def w(2) dest: gone_update)
next
  case (DropResult i)
  with assms(1) obtain r where w: "worker_of s i = Some (WorkerSending r)" "wr_cancelled s" "s' = set_worker i WorkerGone s"
    by (auto split: option.splits swarm_worker.splits if_splits)
  from open_chunks_worker [OF w(1), of WorkerGone] not_all_gone [OF w(1)] assms(2) w(2,3) show ?thesis
    by (auto simp: swarm_shape_def)
next
  case Produce
  with assms(1) obtain c cs where p: "wr_todo s = c # cs" "\<not> wr_ended s" "s' = s\<lparr>wr_todo := cs, wr_chunks := wr_chunks s @ [c]\<rparr>"
    by (auto split: list.splits if_splits)
  then have "open_chunks s' = open_chunks s" by (auto simp: open_chunks_def)
  with p assms(2) show ?thesis by (auto simp: swarm_shape_def)
next
  case StopProduce
  with assms(1) have p: "wr_cancelled s" "s' = s\<lparr>wr_todo := [], wr_ended := True\<rparr>" by (auto split: if_splits)
  then have "open_chunks s' \<subseteq> open_chunks s" by (auto simp: open_chunks_def)
  with p assms(2) show ?thesis by (auto simp: swarm_shape_def)
next
  case EndProduce
  with assms(1) have p: "wr_todo s = []" "\<not> wr_ended s" "s' = (if wr_scan_ok s then s else put_err ''scanner'' s)\<lparr>wr_ended := True\<rparr>"
    by (auto split: if_splits)
  then have "open_chunks s' = open_chunks s" by (simp add: open_chunks_def)
  with p assms(2) show ?thesis by (auto simp: swarm_shape_def)
next
  case CloseResults
  with assms(1) have p: "list_all (\<lambda>w. w = WorkerGone) (wr_workers s)" "s' = s\<lparr>wr_closed := True\<rparr>" by (auto split: if_splits)
  with assms(2) show ?thesis by (simp add: swarm_shape_def)
next
  case CollectError
  with assms(1) obtain e where p: "s' = s\<lparr>wr_err := None, wr_cancelled := True, wr_ret := Some (SwarmFailed e)\<rparr>"
    by (auto split: option.splits)
  with assms(2) show ?thesis by (simp add: swarm_shape_def)
next
  case CollectResult
  with assms(1) obtain rs rest x where p: "wr_ret s = None" "s' = s\<lparr>wr_results := rest, wr_collected := x\<rparr>"
    by (auto split: option.splits list.splits)
  with assms(2) show ?thesis by (simp add: swarm_shape_def)
next
  case CollectDone
  with assms(1) have p: "wr_results s = []" "wr_closed s"
      "s' = s\<lparr>wr_ret := Some (SwarmDone (fst (wr_collected s)) (snd (wr_collected s)))\<rparr>"
    by (auto split: if_splits)
  with assms(2) show ?thesis by (simp add: swarm_shape_def)
next
  case CollectCancel
  with assms(1) have p: "s' = s\<lparr>wr_ret := Some (SwarmCancelled (fst (wr_collected s)) (snd (wr_collected s)))\<rparr>"
    by (auto split: if_splits)
  with assms(2) show ?thesis by (simp add: swarm_shape_def)
next
  case Interrupt
  with assms(1) have "s' = s\<lparr>wr_cancelled := True\<rparr>" by (auto split: if_splits)
  with assms(2) show ?thesis by (simp add: swarm_shape_def)
qed

lemma shape_start: "swarm_shape invoke plan nodes (swarm_start plan scan_ok nodes)"
  by (auto simp: swarm_shape_def swarm_start_def open_chunks_def)

lemma swarm_reach_inv:
  assumes "swarm_reach invoke plan scan_ok nodes s"
  shows "swarm_shape invoke plan nodes s \<and> held_results invoke s \<subseteq># swarm_total invoke plan \<and>
    (\<not> wr_cancelled s \<longrightarrow> held_results invoke s = swarm_total invoke plan)"
  using assms
proof (induction rule: swarm_reach.induct)
  case start
  have "sum_list (replicate k {#}) = {#}" for k :: nat by (induction k) simp_all
  then show ?case by (simp add: shape_start held_results_def) (simp add: swarm_start_def)
next
  case (step s ev s')
  have "wr_cancelled s \<longrightarrow> wr_cancelled s'" if "swarm_next invoke (max 1 nodes) ev s = Some s'"
    using that by (cases ev) (auto simp: take_chunk_def answer_chunk_def split: list.splits if_splits option.splits swarm_worker.splits sum.splits)
  with step held_step [OF step(2)] shape_step [OF step(2)] show ?case by (auto intro: subset_mset.trans)
qed

text \<open>C4: Whatever the order in which the goroutines run, a swarm that returns without an error reports no result that its
  chunks did not give, and none more often; and when it was not cancelled and the provider answers every chunk, it reports
  exactly the results of all chunks.\<close>

theorem swarm_results:
  assumes "swarm_reach invoke plan scan_ok nodes s" "wr_ret s = Some (SwarmDone rs ws)"
  shows "mset rs \<subseteq># swarm_total invoke plan \<and>
    (\<not> wr_cancelled s \<and> (\<forall>c \<in> set plan. is_ok (invoke c)) \<longrightarrow> mset rs = swarm_total invoke plan)"
proof -
  from swarm_reach_inv [OF assms(1)] have sh: "swarm_shape invoke plan nodes s" and h: "held_results invoke s \<subseteq># swarm_total invoke plan"
    "\<not> wr_cancelled s \<Longrightarrow> held_results invoke s = swarm_total invoke plan" by simp_all
  have c: "wr_results s = []" "fst (wr_collected s) = rs" "list_all (\<lambda>w. w = WorkerGone) (wr_workers s)"
    using sh assms(2) by (auto simp: swarm_shape_def)
  have "mset rs \<subseteq># held_results invoke s" using c(2) by (simp add: held_results_def)
  moreover have "mset rs = held_results invoke s" if "\<not> wr_cancelled s" "\<forall>c \<in> set plan. is_ok (invoke c)"
  proof -
    have "sum_list (map (worker_results invoke) ws) = {#}" if "list_all (\<lambda>w. w = WorkerGone) ws" for ws
      using that by (induction ws) auto
    moreover have "WorkerGone \<in> set (wr_workers s)"
      using c(3) sh by (cases "wr_workers s") (auto simp: swarm_shape_def)
    ultimately show ?thesis using that sh c by (auto simp: swarm_shape_def held_results_def)
  qed
  ultimately show ?thesis using h by (auto intro: subset_mset.trans)
qed

section \<open>A swarm returns\<close>

fun worker_work :: "swarm_worker \<Rightarrow> nat" where
  "worker_work WorkerIdle = 1"
| "worker_work (WorkerInvoking c) = 5"
| "worker_work (WorkerSending r) = 4"
| "worker_work WorkerGone = 0"

definition swarm_work :: "swarm_run \<Rightarrow> nat" where
  "swarm_work s =
     6 * length (wr_todo s) + 5 * length (wr_chunks s) + sum_list (map worker_work (wr_workers s)) + 2 * length (wr_results s) +
     of_bool (\<not> wr_ended s) + of_bool (\<not> wr_closed s) + of_bool (wr_ret s = None) + of_bool (\<not> wr_cancelled s)"

lemma work_step:
  assumes "swarm_next invoke cap ev s = Some s'"
  shows "swarm_work s' < swarm_work s"
proof (cases ev)
  case (TakeChunk i)
  with assms have w: "worker_of s i = Some WorkerIdle" by (auto split: if_splits)
  have "sum_list (map worker_work ((wr_workers s)[i := WorkerInvoking c])) = sum_list (map worker_work (wr_workers s)) + 4" for c
    using worker_update [OF w, of worker_work "WorkerInvoking c"] by simp
  moreover have "sum_list (map worker_work ((wr_workers s)[i := WorkerGone])) < sum_list (map worker_work (wr_workers s))"
    using worker_update [OF w, of worker_work WorkerGone] by simp
  ultimately show ?thesis using assms TakeChunk w
    by (cases "wr_chunks s") (auto simp: take_chunk_def swarm_work_def split: if_splits)
next
  case (Answer i)
  with assms obtain c where w: "worker_of s i = Some (WorkerInvoking c)" "s' = answer_chunk invoke i c s"
    by (auto split: option.splits swarm_worker.splits)
  have "sum_list (map worker_work ((wr_workers s)[i := WorkerSending r])) < sum_list (map worker_work (wr_workers s))" for r
    using worker_update [OF w(1), of worker_work "WorkerSending r"] by simp
  moreover have "sum_list (map worker_work ((wr_workers s)[i := WorkerGone])) < sum_list (map worker_work (wr_workers s))"
    using worker_update [OF w(1), of worker_work WorkerGone] by simp
  ultimately show ?thesis using w(2) by (cases "invoke c") (simp_all add: answer_chunk_def swarm_work_def)
next
  case (Abort i)
  with assms obtain c where w: "worker_of s i = Some (WorkerInvoking c)"
      "s' = put_err ''context canceled'' (set_worker i WorkerGone s)"
    by (auto split: option.splits swarm_worker.splits if_splits)
  from worker_update [OF w(1), of worker_work WorkerGone] w(2) show ?thesis by (simp add: swarm_work_def)
next
  case (SendResult i)
  with assms obtain r where w: "worker_of s i = Some (WorkerSending r)"
      "s' = set_worker i WorkerIdle (s\<lparr>wr_results := wr_results s @ [r]\<rparr>)"
    by (auto split: option.splits swarm_worker.splits if_splits)
  from worker_update [OF w(1), of worker_work WorkerIdle] w(2) show ?thesis by (simp add: swarm_work_def)
next
  case (DropResult i)
  with assms obtain r where w: "worker_of s i = Some (WorkerSending r)" "s' = set_worker i WorkerGone s"
    by (auto split: option.splits swarm_worker.splits if_splits)
  from worker_update [OF w(1), of worker_work WorkerGone] w(2) show ?thesis by (simp add: swarm_work_def)
next
  case Produce
  with assms obtain c cs where "wr_todo s = c # cs" "s' = s\<lparr>wr_todo := cs, wr_chunks := wr_chunks s @ [c]\<rparr>"
    by (auto split: list.splits if_splits)
  then show ?thesis by (simp add: swarm_work_def)
next
  case StopProduce
  with assms have "\<not> wr_ended s" "s' = s\<lparr>wr_todo := [], wr_ended := True\<rparr>" by (auto split: if_splits)
  then show ?thesis by (simp add: swarm_work_def)
next
  case EndProduce
  with assms have "\<not> wr_ended s" "s' = (if wr_scan_ok s then s else put_err ''scanner'' s)\<lparr>wr_ended := True\<rparr>"
    by (auto split: if_splits)
  then show ?thesis by (simp add: swarm_work_def)
next
  case CloseResults
  with assms have "\<not> wr_closed s" "s' = s\<lparr>wr_closed := True\<rparr>" by (auto split: if_splits)
  then show ?thesis by (simp add: swarm_work_def)
next
  case CollectError
  with assms obtain e where "wr_ret s = None" "s' = s\<lparr>wr_err := None, wr_cancelled := True, wr_ret := Some (SwarmFailed e)\<rparr>"
    by (auto split: option.splits)
  then show ?thesis by (simp add: swarm_work_def)
next
  case CollectResult
  with assms obtain r rest x where "wr_results s = r # rest" "s' = s\<lparr>wr_results := rest, wr_collected := x\<rparr>"
    by (auto split: option.splits list.splits)
  then show ?thesis by (simp add: swarm_work_def)
next
  case CollectDone
  with assms have "wr_ret s = None" "s' = s\<lparr>wr_ret := Some (SwarmDone (fst (wr_collected s)) (snd (wr_collected s)))\<rparr>"
    by (auto split: if_splits)
  then show ?thesis by (simp add: swarm_work_def)
next
  case CollectCancel
  with assms have "wr_ret s = None" "s' = s\<lparr>wr_ret := Some (SwarmCancelled (fst (wr_collected s)) (snd (wr_collected s)))\<rparr>"
    by (auto split: if_splits)
  then show ?thesis by (simp add: swarm_work_def)
next
  case Interrupt
  with assms have "\<not> wr_cancelled s" "s' = s\<lparr>wr_cancelled := True\<rparr>" by (auto split: if_splits)
  then show ?thesis by (simp add: swarm_work_def)
qed

lemma worker_progress:
  assumes "i < length (wr_workers s)" "wr_workers s ! i \<noteq> WorkerGone" "0 < cap" "wr_ret s = None"
  shows "\<exists>ev s'. ev \<noteq> Interrupt \<and> swarm_next invoke cap ev s = Some s'"
proof (cases "wr_workers s ! i")
  case WorkerIdle
  then have w: "worker_of s i = Some WorkerIdle" using assms(1) by (simp add: worker_of_def)
  show ?thesis
  proof (cases "wr_chunks s = [] \<and> \<not> wr_ended s")
    case True
    then have "swarm_next invoke cap Produce s \<noteq> None \<or> swarm_next invoke cap EndProduce s \<noteq> None"
      using assms(3) by (cases "wr_todo s") auto
    then show ?thesis by (elim disjE) blast+
  next
    case False
    then have "swarm_next invoke cap (TakeChunk i) s \<noteq> None" using w by (cases "wr_chunks s") (auto simp: take_chunk_def)
    then show ?thesis by blast
  qed
next
  case (WorkerInvoking c)
  then have "swarm_next invoke cap (Answer i) s \<noteq> None" using assms(1) by (simp add: worker_of_def)
  then show ?thesis by blast
next
  case (WorkerSending r)
  then have w: "worker_of s i = Some (WorkerSending r)" using assms(1) by (simp add: worker_of_def)
  show ?thesis
  proof (cases "length (wr_results s) < cap")
    case True
    then have "swarm_next invoke cap (SendResult i) s \<noteq> None" using w by simp
    then show ?thesis by blast
  next
    case False
    then have "swarm_next invoke cap CollectResult s \<noteq> None" using assms(3,4) by (cases "wr_results s") auto
    then show ?thesis by blast
  qed
qed (use assms in simp)

text \<open>C20: A swarm never blocks before it returns, and every step, an interrupt included, brings it closer to the end: it
  returns after a bounded number of steps, in every order of the goroutines.\<close>

theorem swarm_returns:
  assumes "swarm_reach invoke plan scan_ok nodes s"
  shows "(\<forall>ev s'. swarm_next invoke (max 1 nodes) ev s = Some s' \<longrightarrow> swarm_work s' < swarm_work s) \<and>
    (wr_ret s = None \<longrightarrow> (\<exists>ev s'. ev \<noteq> Interrupt \<and> swarm_next invoke (max 1 nodes) ev s = Some s'))"
proof -
  have "\<exists>ev s'. ev \<noteq> Interrupt \<and> swarm_next invoke (max 1 nodes) ev s = Some s'" if r: "wr_ret s = None"
  proof (cases "list_all (\<lambda>w. w = WorkerGone) (wr_workers s)")
    case True
    have "swarm_next invoke (max 1 nodes) CloseResults s \<noteq> None \<or> swarm_next invoke (max 1 nodes) CollectResult s \<noteq> None \<or>
        swarm_next invoke (max 1 nodes) CollectDone s \<noteq> None"
      using True r by (cases "wr_closed s"; cases "wr_results s") auto
    then show ?thesis by blast
  next
    case False
    then obtain i where "i < length (wr_workers s)" "wr_workers s ! i \<noteq> WorkerGone" by (auto simp: list_all_length)
    from worker_progress [OF this _ r, of "max 1 nodes"] show ?thesis by simp
  qed
  with work_step show ?thesis by blast
qed

section \<open>Runs\<close>

fun swarm_events :: "(swarm_chunk \<Rightarrow> swarm_response result) \<Rightarrow> nat \<Rightarrow> swarm_event list \<Rightarrow> swarm_run \<Rightarrow> swarm_run option" where
  "swarm_events invoke cap [] s = Some s"
| "swarm_events invoke cap (ev # evs) s = Option.bind (swarm_next invoke cap ev s) (swarm_events invoke cap evs)"

lemma swarm_events_reach:
  "swarm_reach invoke plan scan_ok nodes s \<Longrightarrow> swarm_events invoke (max 1 nodes) evs s = Some s' \<Longrightarrow>
   swarm_reach invoke plan scan_ok nodes s'"
  by (induction evs arbitrary: s) (auto split: bind_splits intro: swarm_reach.step simp del: One_nat_def)

definition demo_invoke :: "swarm_chunk \<Rightarrow> swarm_response result" where
  "demo_invoke c = (if fst c = 0 then Inr ([demo_result], []) else Inl ''refused'')"

definition demo_swarm_events :: "swarm_event list" where
  "demo_swarm_events = [Produce, TakeChunk 0, Answer 0, SendResult 0, EndProduce, TakeChunk 0, CloseResults, CollectResult, CollectDone]"

lemma demo_swarm_done:
  "map_option (\<lambda>s. (wr_ret s, wr_cancelled s)) (swarm_events demo_invoke 1 demo_swarm_events (swarm_start [(0, [''a''])] True 1)) =
   Some (Some (SwarmDone [demo_result] []), False)"
  by (simp add: demo_swarm_events_def swarm_start_def demo_invoke_def worker_of_def take_chunk_def answer_chunk_def set_worker_def)

lemma swarm_results_witness:
  "\<exists>s. swarm_reach demo_invoke [(0, [''a''])] True 1 s \<and> wr_ret s = Some (SwarmDone [demo_result] []) \<and>
     mset [demo_result] = swarm_total demo_invoke [(0, [''a''])]"
proof -
  from demo_swarm_done obtain s where s: "swarm_events demo_invoke 1 demo_swarm_events (swarm_start [(0, [''a''])] True 1) = Some s"
      "wr_ret s = Some (SwarmDone [demo_result] [])" "\<not> wr_cancelled s" by auto
  then have r: "swarm_reach demo_invoke [(0, [''a''])] True 1 s"
    by (intro swarm_events_reach [OF swarm_reach.start]) simp
  from swarm_results [OF r s(2)] s(3) have "mset [demo_result] = swarm_total demo_invoke [(0, [''a''])]"
    by (simp add: demo_invoke_def)
  with r s(2) show ?thesis by blast
qed

lemma swarm_returns_witness:
  "\<exists>ev s'. ev \<noteq> Interrupt \<and> swarm_next demo_invoke 1 ev (swarm_start [(0, [''a''])] True 1) = Some s' \<and>
     swarm_work s' < swarm_work (swarm_start [(0, [''a''])] True 1)"
proof -
  have "wr_ret (swarm_start [(0, [''a''])] True 1) = None" by (simp add: swarm_start_def)
  with swarm_returns [OF swarm_reach.start [of demo_invoke "[(0, [''a''])]" True 1]] show ?thesis by force
qed

text \<open>A failed chunk: the only worker leaves its error and ends, the channel of results is closed, and the collector may look
  at that channel first. The swarm returns without an error, and the lines of the chunk were never tried.\<close>

lemma swarm_loses_error:
  "map_option wr_ret (swarm_events demo_invoke 1 [Produce, TakeChunk 0, Answer 0, EndProduce, CloseResults, CollectDone]
     (swarm_start [(1, [''a''])] True 1)) = Some (Some (SwarmDone [] []))"
  by (simp add: swarm_start_def demo_invoke_def worker_of_def take_chunk_def answer_chunk_def set_worker_def put_err_def)

text \<open>So does an error of the scanner: the rest of the wordlist is skipped in silence.\<close>

lemma swarm_loses_scan_error:
  "map_option wr_ret (swarm_events demo_invoke 1 [EndProduce, TakeChunk 0, CloseResults, CollectDone]
     (swarm_start [] False 1)) = Some (Some (SwarmDone [] []))"
  by (simp add: swarm_start_def worker_of_def take_chunk_def set_worker_def put_err_def)

end
