(* ===== verification/Calibration.thy ===== *)
theory Calibration
  imports Request Simhash
begin

text \<open>
  The calibration of a scan, \<open>pkg/engine/engine_calibrate.go\<close>: the detection of wildcard answers, the probe before a
  recursive scan, and the seeding of the soft-404 clusters. The random words, the exchange with the target and SHA-256
  are parameters; the exchange passes a state.
\<close>

section \<open>Wildcard answers\<close>

definition calibration_url :: "string \<Rightarrow> string \<Rightarrow> string" where
  "calibration_url baseURL word =
     (case index_str baseURL ''{PAYLOAD}'' of
        Some i \<Rightarrow> take i baseURL @ word @ drop (i + 9) baseURL
      | None \<Rightarrow> trim_right (\<lambda>c. c = CHR ''/'') baseURL @ ''/'' @ word)"

definition calibration_path :: "url \<Rightarrow> string" where
  "calibration_path u =
     (let p = u_path u @ (if u_query u \<noteq> '''' then ''?'' @ u_query u else '''') in if p = '''' then ''/'' else p)"

definition calibration_request :: "string \<Rightarrow> string \<Rightarrow> url \<Rightarrow> string" where
  "calibration_request ua tail_headers u =
     ''GET '' @ calibration_path u @ '' HTTP/1.1'' @ crlf @ ''Host: '' @ u_host u @ crlf @ ''Connection: keep-alive'' @ crlf @
     ''User-Agent: '' @ ua @ crlf @ ''Accept: */*'' @ crlf @ tail_headers @ crlf"

record wildcard_sample =
  ws_status :: int
  ws_hash :: string
  ws_size :: int

definition wildcard_sample_of :: "(string \<Rightarrow> string) \<Rightarrow> string \<Rightarrow> raw_response \<Rightarrow> wildcard_sample" where
  "wildcard_sample_of sha word resp =
     (let normBody = replace_str word ''FUZZ'' (rr_body resp)
      in \<lparr>ws_status = rr_status resp, ws_hash = sha normBody, ws_size = int (length normBody)\<rparr>)"

text \<open>One probe; \<open>exec\<close> takes the address and the request. Without a context of the scanner there is an error.\<close>

definition wildcard_probe ::
  "(string \<Rightarrow> string \<Rightarrow> 's \<Rightarrow> raw_response result \<times> 's) \<Rightarrow> bool \<Rightarrow> string \<Rightarrow> string \<Rightarrow> string \<Rightarrow> 's \<Rightarrow> raw_response result \<times> 's" where
  "wildcard_probe exec has_ctx baseURL ua word s =
     (case url_parse (calibration_url baseURL word) of
        None \<Rightarrow> (Inl ''invalid calibration URL'', s)
      | Some u \<Rightarrow>
          if \<not> has_ctx then (Inl ''scanner context not available'', s)
          else (case exec (calibration_url baseURL word)
                  (calibration_request ua (''Accept-Encoding: identity'' @ crlf) u) s of
                  (Inl e, s') \<Rightarrow> (Inl (''calibration request failed: '' @ e), s')
                | (Inr resp, s') \<Rightarrow> (Inr resp, s')))"

text \<open>The loop: the first sample, and whether all were like it; it stops at the first difference.\<close>

fun calibrate_loop ::
  "(string \<Rightarrow> string) \<Rightarrow> (string \<Rightarrow> 's \<Rightarrow> raw_response result \<times> 's) \<Rightarrow> string list \<Rightarrow> wildcard_sample option \<Rightarrow> 's
   \<Rightarrow> (wildcard_sample option \<times> bool) result \<times> 's" where
  "calibrate_loop sha probe [] first s = (Inr (first, True), s)"
| "calibrate_loop sha probe (w # words) first s =
     (case probe w s of
        (Inl e, s') \<Rightarrow> (Inl e, s')
      | (Inr resp, s') \<Rightarrow>
          let x = wildcard_sample_of sha w resp in
          (case first of
             None \<Rightarrow> calibrate_loop sha probe words (Some x) s'
           | Some f \<Rightarrow> if ws_status x \<noteq> ws_status f \<or> ws_hash x \<noteq> ws_hash f then (Inr (first, False), s')
                       else calibrate_loop sha probe words first s'))"

text \<open>The size that is added to the filter, if any.\<close>

definition AutoCalibrate ::
  "(string \<Rightarrow> string) \<Rightarrow> (string \<Rightarrow> string \<Rightarrow> 's \<Rightarrow> raw_response result \<times> 's) \<Rightarrow> bool \<Rightarrow> string \<Rightarrow> string \<Rightarrow> string list \<Rightarrow> 's
   \<Rightarrow> int option result \<times> 's" where
  "AutoCalibrate sha exec has_ctx baseURL ua randoms s =
     (case calibrate_loop sha (wildcard_probe exec has_ctx baseURL ua) randoms None s of
        (Inl e, s') \<Rightarrow> (Inl e, s')
      | (Inr (first, consistent), s') \<Rightarrow>
          (Inr (case first of
                  Some f \<Rightarrow> if consistent \<and> ws_status f > 0 then Some (ws_size f) else None
                | None \<Rightarrow> None), s'))"

section \<open>The probe of a directory and the soft-404 baselines\<close>

definition wildcard_statuses :: "int list" where
  "wildcard_statuses = [200, 301, 302, 401, 403]"

text \<open>\<open>wait\<close> is the rate limiter of the host: whether it admits the request.\<close>

definition checkRecursiveWildcard ::
  "(string \<Rightarrow> string \<Rightarrow> 's \<Rightarrow> raw_response result \<times> 's) \<Rightarrow> (string \<Rightarrow> bool) \<Rightarrow> string \<Rightarrow> string \<Rightarrow> string \<Rightarrow> string \<Rightarrow> 's \<Rightarrow> bool \<times> 's" where
  "checkRecursiveWildcard exec wait baseURL ua dirPath random s =
     (let w0 = trim_suffix dirPath ''/'' @ ''/'' @ random;
          word = (if \<not> has_prefix w0 ''/'' then ''/'' @ w0 else w0);
          fullURL = (case index_str baseURL ''{PAYLOAD}'' of
                       Some i \<Rightarrow> take i baseURL @ word @ drop (i + 9) baseURL
                     | None \<Rightarrow> trim_right (\<lambda>c. c = CHR ''/'') baseURL @ word)
      in case url_parse fullURL of
           None \<Rightarrow> (True, s)
         | Some u \<Rightarrow>
             if \<not> wait (u_host u) then (True, s)
             else (case exec fullURL (calibration_request ua '''' u) s of
                     (Inl e, s') \<Rightarrow> (True, s')
                   | (Inr resp, s') \<Rightarrow> (rr_status resp \<in> set wildcard_statuses, s')))"

definition soft404_paths :: "string list" where
  "soft404_paths = [''/chaos-random-af93k-123'', ''/nonexistent-page-chaos-abc'', ''/error-baseline-test-xyz'']"

text \<open>\<open>fetch\<close> gives the status and the body of one GET, or nothing on any error.\<close>

definition seed_answer :: "simhash_tracker \<Rightarrow> (int \<times> string) option \<Rightarrow> simhash_tracker" where
  "seed_answer t ans = (case ans of
     None \<Rightarrow> t
   | Some (status, body) \<Rightarrow>
       if (status = 200 \<or> status = 204) \<and> simhashBody body \<noteq> 0 then seedBaseline t (simhashBody body) else t)"

definition CalibrateSoft404 ::
  "int \<Rightarrow> int \<Rightarrow> bool \<Rightarrow> string \<Rightarrow> bool \<Rightarrow> (string \<Rightarrow> (int \<times> string) option) \<Rightarrow> simhash_tracker \<Rightarrow> simhash_tracker" where
  "CalibrateSoft404 threshold limit disabled baseURL client_ok fetch t =
     (if disabled \<or> threshold < 0 \<or> limit \<le> 0 \<or> baseURL = '''' \<or> \<not> client_ok then t
      else foldl seed_answer t (map (\<lambda>p. fetch (trim_right (\<lambda>c. c = CHR ''/'') baseURL @ p)) soft404_paths))"

section \<open>What is calibrated\<close>

lemma calibrate_loop_samples:
  assumes "\<And>w s. w \<in> set words \<Longrightarrow> fst (probe w s) = Inr (ans w)"
  shows "\<exists>s'. calibrate_loop sha probe words (Some f) s =
    (Inr (Some f, \<forall>w \<in> set words. let x = wildcard_sample_of sha w (ans w) in ws_status x = ws_status f \<and> ws_hash x = ws_hash f), s')"
  using assms
proof (induction words arbitrary: s)
  case (Cons w words)
  obtain s1 where p: "probe w s = (Inr (ans w), s1)" using Cons.prems [of w s] by (metis list.set_intros(1) prod.collapse)
  obtain s2 where "calibrate_loop sha probe words (Some f) s1 = (Inr (Some f, \<forall>w \<in> set words.
      let x = wildcard_sample_of sha w (ans w) in ws_status x = ws_status f \<and> ws_hash x = ws_hash f), s2)"
    using Cons.IH [of s1] Cons.prems by auto
  then show ?case by (auto simp: p Let_def)
qed simp

text \<open>When every probe of the calibration is answered, a size is added to the filter exactly when all answers agree with
  the first in status and in the hash of the body in which the random word is replaced, and the status is positive; it is
  the size of that normalised body.\<close>

theorem AutoCalibrate_exact:
  assumes "\<And>w s. w \<in> set (word # words) \<Longrightarrow> fst (wildcard_probe exec has_ctx baseURL ua w s) = Inr (ans w)"
  defines "norm \<equiv> \<lambda>w. replace_str w ''FUZZ'' (rr_body (ans w))"
  shows "fst (AutoCalibrate sha exec has_ctx baseURL ua (word # words) s) =
    Inr (if rr_status (ans word) > 0 \<and> (\<forall>w \<in> set words. rr_status (ans w) = rr_status (ans word) \<and> sha (norm w) = sha (norm word))
         then Some (int (length (norm word))) else None)"
proof -
  let ?probe = "wildcard_probe exec has_ctx baseURL ua" and ?x = "wildcard_sample_of sha word (ans word)"
  obtain s1 where p: "?probe word s = (Inr (ans word), s1)" using assms(1) [of word s] by (metis list.set_intros(1) prod.collapse)
  obtain s2 where "calibrate_loop sha ?probe words (Some ?x) s1 = (Inr (Some ?x, \<forall>w \<in> set words.
      let x = wildcard_sample_of sha w (ans w) in ws_status x = ws_status ?x \<and> ws_hash x = ws_hash ?x), s2)"
    using calibrate_loop_samples [of words ?probe ans sha ?x s1] assms(1) by auto
  then show ?thesis
    by (auto simp: AutoCalibrate_def p wildcard_sample_of_def Let_def norm_def)
qed

definition demo_wildcard :: "string \<Rightarrow> string \<Rightarrow> nat \<Rightarrow> raw_response result \<times> nat" where
  "demo_wildcard u raw n = (Inr \<lparr>rr_status = 200, rr_headers = '''', rr_map = None, rr_body = ''no '' @ drop 9 u, rr_raw = '''',
     rr_complete = True, rr_encoded = False\<rparr>, n + 1)"

lemma AutoCalibrate_exact_witness:
  "fst (AutoCalibrate id demo_wildcard True ''http://h'' ''ua'' [''abcdefgh'', ''12345678''] 0) = Inr (Some 7)"
proof -
  let ?ans = "\<lambda>w. \<lparr>rr_status = 200, rr_headers = '''', rr_map = None, rr_body = ''no '' @ w, rr_raw = '''',
     rr_complete = True, rr_encoded = False\<rparr>"
  have "calibration_url ''http://h'' ''abcdefgh'' = ''http://h/abcdefgh''" "calibration_url ''http://h'' ''12345678'' = ''http://h/12345678''"
    by code_simp+
  moreover have "url_parse ''http://h/abcdefgh'' \<noteq> None" "url_parse ''http://h/12345678'' \<noteq> None" by code_simp+
  ultimately have a: "fst (wildcard_probe demo_wildcard True ''http://h'' ''ua'' w s) = Inr (?ans w)"
    if "w \<in> set [''abcdefgh'', ''12345678'']" for w s
    using that by (auto simp: wildcard_probe_def demo_wildcard_def)
  have n: "replace_str ''abcdefgh'' ''FUZZ'' ''no abcdefgh'' = ''no FUZZ''" "replace_str ''12345678'' ''FUZZ'' ''no 12345678'' = ''no FUZZ''"
    by code_simp+
  from AutoCalibrate_exact [where ans = ?ans and sha = id and s = 0 and word = "''abcdefgh''" and words = "[''12345678'']", OF a]
  show ?thesis by (simp add: n)
qed

text \<open>When the answers repeat the random word, which is longer than its replacement, the size that is added is the size of
  none of the answers: the filter does not remove the page that was detected.\<close>

lemma reflecting_size_lost:
  assumes "contains_str (rr_body (ans w)) w" "length w = 16"
  shows "int (length (replace_str w ''FUZZ'' (rr_body (ans w)))) \<noteq> int (length (rr_body (ans w)))"
  using length_replace_str_less [of "''FUZZ''" w "rr_body (ans w)"] assms by simp

lemma bubble_up_same:
  "bubble_up cs k = (cs', cur) \<Longrightarrow> k < length cs \<Longrightarrow> cs' ! cur = cs ! k"
proof (induction cs k rule: bubble_up.induct)
  case (2 cs k)
  then show ?case
    by (cases "hits (cs ! Suc k) > hits (cs ! k)") (auto simp: nth_list_swap)
qed simp

definition seeded :: "simhash_tracker \<Rightarrow> simhash_tracker \<Rightarrow> bool" where
  "seeded t t' \<longleftrightarrow> st_threshold t' = st_threshold t \<and> st_limit t' = st_limit t \<and>
     (\<forall>c \<in> set (st_clusters t'). hits c = st_limit t)"

lemma seed_fold:
  "seeded t0 t \<Longrightarrow> seeded t0 (foldl seed_answer t as) \<and>
   (\<forall>c \<in> set (st_clusters t). c \<in> set (st_clusters (foldl seed_answer t as))) \<and>
   (\<forall>status body. Some (status, body) \<in> set as \<and> (status = 200 \<or> status = 204) \<and> simhashBody body \<noteq> 0 \<longrightarrow>
     simhashBody body \<in> centroid ` set (st_clusters (foldl seed_answer t as)))"
proof (induction as arbitrary: t)
  case (Cons a as)
  have s: "seeded t0 (seed_answer t a)" "\<forall>c \<in> set (st_clusters t). c \<in> set (st_clusters (seed_answer t a))"
    using Cons.prems by (auto simp: seeded_def seed_answer_def seedBaseline_def split: option.splits)
  have new: "simhashBody body \<in> centroid ` set (st_clusters (seed_answer t a))"
    if "a = Some (status, body)" "status = 200 \<or> status = 204" "simhashBody body \<noteq> 0" for status body
    using that by (auto simp: seed_answer_def seedBaseline_def)
  from Cons.IH [OF s(1)] s(2) new show ?case by (auto simp: image_iff) metis+
qed simp

text \<open>After a calibration from scratch, a page whose SimHash is within the threshold of an answer to one of the made-up
  paths (with status 200 or 204) is reported as a soft 404 the first time it is seen.\<close>

theorem calibrated_suppressed:
  assumes t: "st_clusters t = []" "0 \<le> st_threshold t" "0 < st_limit t"
    and seed: "0 \<le> threshold" "0 < limit" "baseURL \<noteq> ''''" "p \<in> set soft404_paths"
    and ans: "fetch (trim_right (\<lambda>c. c = CHR ''/'') baseURL @ p) = Some (status, body)" "status = 200 \<or> status = 204"
      "simhashBody body \<noteq> 0"
    and near: "int (hammingDistance (simhashBody body) h) \<le> st_threshold t"
  shows "fst (isSoftFour (CalibrateSoft404 threshold limit False baseURL True fetch t) h)"
proof -
  let ?as = "map (\<lambda>p. fetch (trim_right (\<lambda>c. c = CHR ''/'') baseURL @ p)) soft404_paths"
  let ?t = "foldl seed_answer t ?as"
  have e: "CalibrateSoft404 threshold limit False baseURL True fetch t = ?t" using seed by (simp add: CalibrateSoft404_def)
  have "seeded t t" using t by (simp add: seeded_def)
  note f = seed_fold [OF this, of ?as]
  have "Some (status, body) \<in> set ?as" using ans(1) seed(4) by force
  with f ans(2,3) have "simhashBody body \<in> centroid ` set (st_clusters ?t)" by blast
  with near f have "find_cluster (st_threshold ?t) h (st_clusters ?t) \<noteq> None"
    by (auto simp: find_cluster_None seeded_def)
  then obtain i where i: "find_cluster (st_threshold ?t) h (st_clusters ?t) = Some i" by blast
  then have l: "i < length (st_clusters ?t)" using find_cluster_Some by blast
  obtain cs cur where b: "bubble_up ((st_clusters ?t)[i := (st_clusters ?t ! i)\<lparr>hits := hits (st_clusters ?t ! i) + 1\<rparr>]) i = (cs, cur)"
    by fastforce
  have "hits (st_clusters ?t ! i) = st_limit t" using f l by (auto simp: seeded_def)
  with bubble_up_same [OF b] l have "st_limit t \<le> hits (cs ! cur)" by simp
  moreover have "st_threshold ?t = st_threshold t" "st_limit ?t = st_limit t" using f by (auto simp: seeded_def)
  ultimately show ?thesis using t b i by (simp add: e isSoftFour_def Let_def)
qed

lemma calibrated_suppressed_witness:
  "fst (isSoftFour (CalibrateSoft404 3 5 False ''http://h'' True (\<lambda>_. Some (200, ''not found'')) (newSimhashTracker 3 5)) (simhashBody ''not found''))"
proof -
  have "simhashBody ''not found'' \<noteq> 0" by code_simp
  then show ?thesis
    by (intro calibrated_suppressed [where p = "''/chaos-random-af93k-123''" and body = "''not found''" and status = 200])
       (simp_all add: newSimhashTracker_def soft404_paths_def)
qed

end
