(* ===== verification/TimingOracle.thy ===== *)
theory TimingOracle
  imports Complex_Main Request "HOL-Library.Multiset"
begin

text \<open>
  The timing oracle, \<open>pkg/engine/timing_oracle.go\<close>: the median and the standard deviation of the times of a baseline, with
  or without the two extremes, the threshold for an anomaly, and the repeated requests. A time is a number of nanoseconds;
  a \<open>float64\<close> is a real number, and its positive infinity is \<open>None\<close>.
\<close>

record timing_oracle =
  to_samples :: "duration list"
  to_median :: duration
  to_stddev :: real
  to_k :: real
  to_repeat :: int
  to_trim :: bool
  to_threshold :: duration

definition TimingOracleMinDelta :: duration where
  "TimingOracleMinDelta = 50 * 1000000"

definition trimDurations :: "duration list \<Rightarrow> duration list" where
  "trimDurations samples = (if length samples < 3 then samples else butlast (drop 1 (sort samples)))"

definition medianDuration :: "duration list \<Rightarrow> bool \<Rightarrow> duration" where
  "medianDuration samples trim =
     (if samples = [] then 0
      else let work = (if trim then trimDurations samples else samples) in
        if work = [] then 0
        else let w = sort work; mid = length w div 2 in
          if length w mod 2 = 1 then w ! mid else go_div (w ! (mid - 1) + w ! mid) 2)"

text \<open>The loop over the samples: count, mean and sum of squares.\<close>

definition welford_step :: "real \<times> real \<times> real \<Rightarrow> duration \<Rightarrow> real \<times> real \<times> real" where
  "welford_step = (\<lambda>(mean, m2, n0) sample.
     let x = real_of_int sample; n = n0 + 1; delta = x - mean; mean' = mean + delta / n
     in (mean', m2 + delta * (x - mean'), n))"

definition stddevDuration :: "duration list \<Rightarrow> bool \<Rightarrow> real" where
  "stddevDuration samples trim =
     (let work = (if trim then trimDurations samples else samples) in
      if length work < 2 then 0
      else case foldl welford_step (0, 0, 0) work of (mean, m2, n) \<Rightarrow> sqrt (m2 / (n - 1)))"

definition recompute :: "timing_oracle \<Rightarrow> timing_oracle" where
  "recompute orc =
     (if to_samples orc = [] then orc\<lparr>to_median := 0, to_stddev := 0, to_threshold := TimingOracleMinDelta\<rparr>
      else
        let med = medianDuration (to_samples orc) (to_trim orc); sd = stddevDuration (to_samples orc) (to_trim orc);
            deltaNs = (if to_k orc * sd > real_of_int TimingOracleMinDelta then to_k orc * sd else real_of_int TimingOracleMinDelta)
        in orc\<lparr>to_median := med, to_stddev := sd, to_threshold := med + \<lfloor>deltaNs\<rfloor>\<rparr>)"

definition newTimingOracle :: "duration list \<Rightarrow> real \<Rightarrow> int \<Rightarrow> bool \<Rightarrow> timing_oracle result" where
  "newTimingOracle samples k repeatN trim =
     (if samples = [] then Inl ''timing oracle requires at least one baseline sample''
      else Inr (recompute \<lparr>to_samples = samples, to_median = 0, to_stddev = 0, to_k = (if k \<le> 0 then 5 / 2 else k),
                            to_repeat = (if repeatN < 1 then 5 else repeatN), to_trim = trim, to_threshold = 0\<rparr>))"

definition ZScore :: "timing_oracle \<Rightarrow> duration \<Rightarrow> real option" where
  "ZScore orc sample =
     (if to_stddev orc \<le> 0 then (if sample > to_threshold orc then None else Some 0)
      else Some (real_of_int (sample - to_median orc) / to_stddev orc))"

definition IsAnomaly :: "timing_oracle \<Rightarrow> duration \<Rightarrow> bool" where
  "IsAnomaly orc sample \<longleftrightarrow> sample > to_threshold orc"

text \<open>The repeated requests: the first response and all times; the first error ends them.\<close>

fun timing_requests :: "('s \<Rightarrow> (raw_response \<times> duration) result \<times> 's) \<Rightarrow> nat \<Rightarrow> raw_response option \<Rightarrow> duration list \<Rightarrow> 's
    \<Rightarrow> (raw_response option \<times> duration list) result \<times> 's" where
  "timing_requests exec 0 first samples s = (Inr (first, samples), s)"
| "timing_requests exec (Suc n) first samples s =
     (case exec s of
        (Inl e, s') \<Rightarrow> (Inl e, s')
      | (Inr (resp, d), s') \<Rightarrow>
          timing_requests exec n (case first of None \<Rightarrow> Some resp | Some f \<Rightarrow> Some f) (samples @ [d]) s')"

definition executeTimingOracleRequests ::
  "('s \<Rightarrow> (raw_response \<times> duration) result \<times> 's) \<Rightarrow> int \<Rightarrow> 's \<Rightarrow> (raw_response option \<times> duration list) result \<times> 's" where
  "executeTimingOracleRequests exec repeatN s = timing_requests exec (nat (if repeatN < 1 then 5 else repeatN)) None [] s"

section \<open>The standard deviation\<close>

definition mean_of :: "duration list \<Rightarrow> real" where
  "mean_of xs = (\<Sum>x\<leftarrow>xs. real_of_int x) / real (length xs)"

definition squares_of :: "duration list \<Rightarrow> real" where
  "squares_of xs = (\<Sum>x\<leftarrow>xs. (real_of_int x - mean_of xs)\<^sup>2)"

lemma sum_squares_about: "(\<Sum>x\<leftarrow>xs. (real_of_int x - c)\<^sup>2) =
    (\<Sum>x\<leftarrow>xs. (real_of_int x)\<^sup>2) - 2 * c * (\<Sum>x\<leftarrow>xs. real_of_int x) + real (length xs) * c\<^sup>2"
  by (induction xs) (simp_all add: power2_eq_square algebra_simps)

lemma squares_about:
  "xs \<noteq> [] \<Longrightarrow> squares_of xs = (\<Sum>x\<leftarrow>xs. (real_of_int x)\<^sup>2) - (\<Sum>x\<leftarrow>xs. real_of_int x)\<^sup>2 / real (length xs)"
proof -
  assume "xs \<noteq> []"
  then have n: "real (length xs) \<noteq> 0" by simp
  have "q - 2 * (s / n) * s + n * (s / n)\<^sup>2 = q - s\<^sup>2 / n" if "n \<noteq> 0" for q s n :: real
    using that by (simp add: power2_eq_square field_simps)
  from this [OF n] show ?thesis by (simp add: squares_of_def sum_squares_about mean_of_def)
qed

lemma welford_mean:
  "xs \<noteq> [] \<Longrightarrow> mean_of (xs @ [x]) = mean_of xs + (real_of_int x - mean_of xs) / (real (length xs) + 1)"
proof -
  assume "xs \<noteq> []"
  then have n: "real (length xs) > 0" by simp
  have "(s + y) / (n + 1) = s / n + (y - s / n) / (n + 1)" if "n > 0" for s y n :: real
  proof -
    have "n + 1 \<noteq> 0" "n \<noteq> 0" using that by auto
    then show ?thesis by (simp add: divide_simps) (simp add: algebra_simps)
  qed
  from this [OF n, of "\<Sum>x\<leftarrow>xs. real_of_int x" "real_of_int x"] show ?thesis
    by (simp add: mean_of_def add.commute [of 1])
qed

lemma welford_squares:
  assumes "xs \<noteq> []"
  shows "squares_of (xs @ [x]) = squares_of xs + (real_of_int x - mean_of xs) * (real_of_int x - mean_of (xs @ [x]))"
proof -
  let ?s = "\<Sum>x\<leftarrow>xs. real_of_int x" and ?n = "real (length xs)" and ?x = "real_of_int x"
  have n: "?n > 0" using assms by simp
  have "?x\<^sup>2 - (?s + ?x)\<^sup>2 / (?n + 1) + ?s\<^sup>2 / ?n = (?x - ?s / ?n) * (?x - (?s + ?x) / (?n + 1))"
  proof -
    have "y\<^sup>2 - (s + y)\<^sup>2 / (k + 1) + s\<^sup>2 / k = (y - s / k) * (y - (s + y) / (k + 1))" if "k > 0" for y s k :: real
    proof -
      have "k + 1 \<noteq> 0" "k \<noteq> 0" using that by auto
      then show ?thesis by (simp add: divide_simps power2_eq_square) (simp add: algebra_simps)
    qed
    from this [OF n] show ?thesis .
  qed
  moreover have "mean_of (xs @ [x]) = (?s + ?x) / (?n + 1)" "mean_of xs = ?s / ?n" by (simp_all add: mean_of_def add.commute)
  ultimately show ?thesis using assms by (simp add: squares_about add.commute)
qed

lemma welford_fold: "foldl welford_step (0, 0, 0) xs = (mean_of xs, squares_of xs, real (length xs))"
proof (induction xs rule: rev_induct)
  case Nil
  show ?case by (simp add: mean_of_def squares_of_def)
next
  case (snoc x xs)
  show ?case
  proof (cases "xs = []")
    case True
    then show ?thesis by (simp add: welford_step_def mean_of_def squares_of_def)
  next
    case False
    with snoc show ?thesis
      by (simp add: welford_step_def Let_def welford_mean welford_squares add.commute)
  qed
qed

text \<open>The one-pass loop computes the sample standard deviation: the root of the sum of the squared distances from the
  mean, divided by one less than the number of samples.\<close>

theorem stddev_two_pass:
  assumes "length (if trim then trimDurations samples else samples) \<ge> 2"
  shows "stddevDuration samples trim =
    (let work = (if trim then trimDurations samples else samples) in
     sqrt ((\<Sum>x\<leftarrow>work. (real_of_int x - mean_of work)\<^sup>2) / (real (length work) - 1)))"
  using assms by (simp add: stddevDuration_def Let_def welford_fold squares_of_def)

lemma stddev_two_pass_witness:
  "stddevDuration [1, 3] False = (let work = [1, 3] in
     sqrt ((\<Sum>x\<leftarrow>work. (real_of_int x - mean_of work)\<^sup>2) / (real (length work) - 1)))"
  using stddev_two_pass [of False "[1, 3]"] by simp

section \<open>The median and the threshold\<close>

definition below :: "duration list \<Rightarrow> duration \<Rightarrow> nat" where
  "below xs m = length (filter (\<lambda>x. x \<le> m) xs)"

definition above :: "duration list \<Rightarrow> duration \<Rightarrow> nat" where
  "above xs m = length (filter (\<lambda>x. m \<le> x) xs)"

lemma counts_sort: "below (sort xs) m = below xs m" "above (sort xs) m = above xs m"
proof -
  have "length (filter P (sort xs)) = length (filter P xs)" for P
    by (metis mset_filter mset_sort size_mset)
  then show "below (sort xs) m = below xs m" "above (sort xs) m = above xs m" by (simp_all add: below_def above_def)
qed

lemma below_nth:
  assumes "sorted w" "k < length w" "w ! k \<le> m" shows "Suc k \<le> below w m"
proof -
  have "\<forall>x \<in> set (take (Suc k) w). x \<le> m"
  proof
    fix x assume "x \<in> set (take (Suc k) w)"
    then obtain i where "i \<le> k" "x = w ! i" by (auto simp: in_set_conv_nth less_Suc_eq_le)
    with assms sorted_nth_mono [of w i k] show "x \<le> m" by simp
  qed
  then have "filter (\<lambda>x. x \<le> m) (take (Suc k) w) = take (Suc k) w" by simp
  then have "length (take (Suc k) w) \<le> length (filter (\<lambda>x. x \<le> m) (take (Suc k) w @ drop (Suc k) w))" by (metis filter_append le_add1 length_append)
  with assms(2) show ?thesis unfolding below_def append_take_drop_id by simp
qed

lemma above_nth:
  assumes "sorted w" "k < length w" "m \<le> w ! k" shows "length w - k \<le> above w m"
proof -
  have "\<forall>x \<in> set (drop k w). m \<le> x"
  proof
    fix x assume "x \<in> set (drop k w)"
    then obtain i where "k \<le> i" "i < length w" "x = w ! i" by (auto simp: in_set_conv_nth) (metis le_add1 less_diff_conv add.commute)
    with assms sorted_nth_mono [of w k i] show "m \<le> x" by simp
  qed
  then have "filter (\<lambda>x. m \<le> x) (drop k w) = drop k w" by simp
  then have "length (drop k w) \<le> length (filter (\<lambda>x. m \<le> x) (take k w @ drop k w))" by (metis filter_append le_add2 length_append)
  then show ?thesis unfolding above_def append_take_drop_id by simp
qed

lemma go_half_between: "a \<le> b \<Longrightarrow> a \<le> go_div (a + b) 2 \<and> go_div (a + b) 2 \<le> b"
  by (auto simp: go_div_def sgn_if abs_if)

text \<open>Dropping the two extremes leaves the median as it is: the setting changes the standard deviation only.\<close>

lemma median_ignores_trim: "medianDuration samples trim = medianDuration samples False"
proof (cases "trim \<and> length samples \<ge> 3")
  case True
  let ?w = "sort samples" and ?v = "butlast (drop 1 (sort samples))"
  have v: "sort ?v = ?v" by (intro sorted_sort_id) (simp add: butlast_conv_take sorted_wrt_take sorted_wrt_drop)
  have nth: "?v ! i = ?w ! Suc i" if "i < length samples - 2" for i
    using that by (simp add: nth_butlast)
  let ?L = "length samples" and ?mid = "length samples div 2"
  have L: "3 \<le> ?L" using True by simp
  have lv: "length ?v = ?L - 2" by simp
  have "length ?v \<noteq> 0" using lv L by linarith
  then have "?v \<noteq> []" by fastforce
  obtain m where m: "?L = Suc (Suc m)" "m \<ge> 1" using L by (metis Suc_le_D Suc_le_mono numeral_3_eq_3 One_nat_def)
  have half: "(?L - 2) div 2 = ?mid - 1" "(?L - 2) mod 2 = ?L mod 2" unfolding m(1) by simp_all
  have "medianDuration samples True = (if ?L mod 2 = 1 then ?v ! (?mid - 1) else go_div (?v ! (?mid - 1 - 1) + ?v ! (?mid - 1)) 2)"
  proof -
    have "trimDurations samples = ?v" "samples \<noteq> []" using L by (auto simp: trimDurations_def)
    then show ?thesis using \<open>?v \<noteq> []\<close> by (simp only: medianDuration_def Let_def v lv half if_True if_False refl)
  qed
  also have "\<dots> = (if ?L mod 2 = 1 then ?w ! ?mid else go_div (?w ! (?mid - 1) + ?w ! ?mid) 2)"
  proof -
    have "?mid - 1 < ?L - 2" "Suc (?mid - 1) = ?mid" unfolding m(1) using m(2) by auto
    then have "?v ! (?mid - 1) = ?w ! ?mid" using nth [of "?mid - 1"] by (simp only:)
    moreover have "?v ! (?mid - 1 - 1) = ?w ! (?mid - 1)" if "?L mod 2 \<noteq> 1"
    proof -
      have "m div 2 \<ge> 1" using that m by (cases "m = 1") auto
      then have "?mid - 1 - 1 < ?L - 2" "Suc (?mid - 1 - 1) = ?mid - 1" unfolding m(1) by auto
      then show ?thesis using nth [of "?mid - 1 - 1"] by (simp only:)
    qed
    ultimately show ?thesis by simp
  qed
  also have "\<dots> = medianDuration samples False" using L by (auto simp: medianDuration_def Let_def)
  finally show ?thesis using True by simp
qed (auto simp: medianDuration_def trimDurations_def)

lemma median_perm: "mset xs = mset ys \<Longrightarrow> medianDuration xs trim = medianDuration ys trim"
proof -
  assume m: "mset xs = mset ys"
  then have "sort xs = sort ys" by (metis properties_for_sort sorted_sort mset_sort)
  moreover have "length xs = length ys" "xs = [] \<longleftrightarrow> ys = []" using m by (auto dest: mset_eq_length)
  ultimately have "medianDuration xs False = medianDuration ys False" by (simp add: medianDuration_def Let_def)
  then show ?thesis using median_ignores_trim [of xs trim] median_ignores_trim [of ys trim] by simp
qed

lemma median_middle:
  assumes "samples \<noteq> []"
  shows "length samples \<le> 2 * below samples (medianDuration samples trim) \<and> length samples \<le> 2 * above samples (medianDuration samples trim)"
proof -
  let ?w = "sort samples" and ?L = "length samples" and ?mid = "length samples div 2"
  have len: "?mid < length ?w" "0 < ?L" using assms by auto
  have "?L \<le> 2 * below ?w (medianDuration samples False) \<and> ?L \<le> 2 * above ?w (medianDuration samples False)"
  proof (cases "?L mod 2 = 1")
    case True
    then have "medianDuration samples False = ?w ! ?mid" using assms by (simp add: medianDuration_def Let_def)
    then have "Suc ?mid \<le> below ?w (medianDuration samples False)" "length ?w - ?mid \<le> above ?w (medianDuration samples False)"
      using below_nth [of ?w ?mid] above_nth [of ?w ?mid] len by simp_all
    moreover have "?L = 2 * ?mid + 1" using True by (metis mult_div_mod_eq)
    ultimately show ?thesis unfolding length_sort by linarith
  next
    case False
    then have m: "medianDuration samples False = go_div (?w ! (?mid - 1) + ?w ! ?mid) 2"
      using assms by (simp add: medianDuration_def Let_def)
    have "?mid \<ge> 1" using False len(2) by presburger
    then have le: "?w ! (?mid - 1) \<le> ?w ! ?mid" using len(1) by (intro sorted_nth_mono) auto
    note b = go_half_between [OF le]
    have "Suc (?mid - 1) \<le> below ?w (medianDuration samples False)" using b len \<open>?mid \<ge> 1\<close> unfolding m by (intro below_nth) auto
    moreover have "length ?w - ?mid \<le> above ?w (medianDuration samples False)" using b len unfolding m by (intro above_nth) auto
    moreover have "?L = 2 * ?mid" using False by (metis add.right_neutral mult_div_mod_eq not_mod_2_eq_1_eq_0)
    ultimately show ?thesis using \<open>?mid \<ge> 1\<close> unfolding length_sort by linarith
  qed
  then show ?thesis using median_ignores_trim [of samples trim] by (simp add: counts_sort)
qed

text \<open>The median of the oracle does not depend on the order of the samples, at least half of them are not above it and at
  least half not below, whether the extremes are dropped or not; the threshold is at least 50 milliseconds above it, so
  at most half of the baseline itself is an anomaly.\<close>

theorem oracle_median:
  assumes "newTimingOracle samples k repeatN trim = Inr orc"
  shows "length samples \<le> 2 * below samples (to_median orc) \<and> length samples \<le> 2 * above samples (to_median orc) \<and>
    to_median orc + TimingOracleMinDelta \<le> to_threshold orc \<and>
    2 * length (filter (IsAnomaly orc) samples) \<le> length samples \<and>
    (\<forall>samples'. mset samples' = mset samples \<longrightarrow>
       (\<exists>orc'. newTimingOracle samples' k repeatN trim = Inr orc' \<and> to_median orc' = to_median orc))"
proof -
  have ne: "samples \<noteq> []" using assms by (auto simp: newTimingOracle_def)
  have m: "to_median orc = medianDuration samples trim" and t: "to_median orc + TimingOracleMinDelta \<le> to_threshold orc"
    using assms ne by (auto simp: newTimingOracle_def recompute_def Let_def le_floor_iff)
  have "length (filter (IsAnomaly orc) samples) + length (filter (\<lambda>x. \<not> IsAnomaly orc x) samples) = length samples"
    by (rule sum_length_filter_compl)
  moreover have "below samples (to_median orc) \<le> length (filter (\<lambda>x. \<not> IsAnomaly orc x) samples)"
    unfolding below_def using t
    by (induction samples) (auto simp: IsAnomaly_def TimingOracleMinDelta_def)
  moreover have "\<exists>orc'. newTimingOracle samples' k repeatN trim = Inr orc' \<and> to_median orc' = to_median orc"
    if "mset samples' = mset samples" for samples'
  proof -
    have "samples' \<noteq> []" using ne that by auto
    then show ?thesis using median_perm [OF that, of trim] m by (simp add: newTimingOracle_def recompute_def Let_def)
  qed
  ultimately show ?thesis using median_middle [OF ne, of trim] t m by auto
qed

lemma oracle_median_witness:
  "\<exists>orc. newTimingOracle [30, 10, 20] 1 5 True = Inr orc \<and> 3 \<le> 2 * below [30, 10, 20] (to_median orc)"
proof -
  obtain orc where o: "newTimingOracle [30, 10, 20] 1 5 True = Inr orc" by (simp add: newTimingOracle_def)
  from oracle_median [OF this] this show ?thesis by force
qed

text \<open>As many times are measured as requests are asked for.\<close>

lemma timing_requests_length:
  "timing_requests exec n first xs s = (Inr (r, ys), s') \<Longrightarrow> length ys = length xs + n"
  by (induction exec n first xs s rule: timing_requests.induct) (auto split: prod.splits sum.splits)

end
