(* ===== verification/StableSort.thy ===== *)
theory StableSort
  imports JobQueue
begin

text \<open>
  \<open>sort.SliceStable\<close> with a comparison function: insertion from the right, which keeps the order of elements that the
  comparison does not separate. The locale extends the strict weak orders of the heap; an order that separates all
  elements has one sorted list only, so that the result does not depend on the order of the input.
\<close>

fun insert_by :: "('a \<Rightarrow> 'a \<Rightarrow> bool) \<Rightarrow> 'a \<Rightarrow> 'a list \<Rightarrow> 'a list" where
  "insert_by lt x [] = [x]"
| "insert_by lt x (y # ys) = (if lt y x then y # insert_by lt x ys else x # y # ys)"

definition stable_sort :: "('a \<Rightarrow> 'a \<Rightarrow> bool) \<Rightarrow> 'a list \<Rightarrow> 'a list" where
  "stable_sort lt xs = foldr (insert_by lt) xs []"

lemma mset_insert_by [simp]: "mset (insert_by lt x ys) = add_mset x (mset ys)"
  by (induction ys) auto

lemma mset_stable_sort [simp]: "mset (stable_sort lt xs) = mset xs"
  unfolding stable_sort_def by (induction xs) auto

lemma set_stable_sort [simp]: "set (stable_sort lt xs) = set xs"
  by (metis mset_stable_sort set_mset_mset)

lemma length_stable_sort [simp]: "length (stable_sort lt xs) = length xs"
  by (metis mset_stable_sort size_mset)

lemma stable_sort_Cons: "stable_sort lt (x # xs) = insert_by lt x (stable_sort lt xs)"
  by (simp add: stable_sort_def)

lemma sorted_wrt_unique:
  assumes "mset xs = mset ys" "sorted_wrt R xs" "sorted_wrt R ys"
    and "\<And>a b. a \<in> set xs \<Longrightarrow> b \<in> set xs \<Longrightarrow> R a b \<Longrightarrow> R b a \<Longrightarrow> a = b"
  shows "xs = ys"
  using assms
proof (induction xs arbitrary: ys)
  case (Cons a xs)
  from Cons.prems(1) obtain b ys' where y: "ys = b # ys'" by (cases ys) auto
  have s: "set (b # ys') = set (a # xs)" using Cons.prems(1) y by (metis set_mset_mset)
  have "a = b"
  proof (rule ccontr)
    assume "a \<noteq> b"
    with s have "a \<in> set ys'" "b \<in> set xs" by auto
    with Cons.prems(2,3) y have "R b a" "R a b" by auto
    with Cons.prems(4) s \<open>a \<noteq> b\<close> \<open>b \<in> set xs\<close> show False by auto
  qed
  moreover have "xs = ys'" using Cons.prems y \<open>a = b\<close> by (intro Cons.IH) auto
  ultimately show ?case using y by simp
qed simp

locale stable_order = heap_order lt ok for lt :: "'a \<Rightarrow> 'a \<Rightarrow> bool" and ok :: "'a \<Rightarrow> bool"
begin

lemma insert_sorted:
  assumes "sorted_wrt (\<lambda>a b. \<not> lt b a) ys" "ok x" "\<forall>y \<in> set ys. ok y"
  shows "sorted_wrt (\<lambda>a b. \<not> lt b a) (insert_by lt x ys)"
  using assms
proof (induction ys)
  case (Cons y ys)
  have set_eq: "set (insert_by lt x zs) = insert x (set zs)" for zs by (metis mset_insert_by set_mset_mset set_mset_add_mset_insert)
  show ?case
  proof (cases "lt y x")
    case True
    with Cons lt_asym [of y x] show ?thesis by (auto simp: set_eq)
  next
    case False
    have "\<not> lt z x" if "z \<in> set ys" for z
      using that Cons.prems False lt_neg_trans [of x y z] by auto
    with False Cons show ?thesis by auto
  qed
qed simp

lemma sorted_stable_sort:
  "\<forall>x \<in> set xs. ok x \<Longrightarrow> sorted_wrt (\<lambda>a b. \<not> lt b a) (stable_sort lt xs)"
  by (induction xs) (simp_all add: stable_sort_def [of lt "[]"] stable_sort_Cons insert_sorted)

lemma stable_sort_perm:
  assumes "mset xs = mset ys" "\<forall>x \<in> set xs. ok x"
    and "\<And>a b. a \<in> set xs \<Longrightarrow> b \<in> set xs \<Longrightarrow> \<not> lt a b \<Longrightarrow> \<not> lt b a \<Longrightarrow> a = b"
  shows "stable_sort lt xs = stable_sort lt ys"
proof (rule sorted_wrt_unique)
  have "set xs = set ys" using assms(1) by (metis set_mset_mset)
  then show "sorted_wrt (\<lambda>a b. \<not> lt b a) (stable_sort lt xs)" "sorted_wrt (\<lambda>a b. \<not> lt b a) (stable_sort lt ys)"
    using assms(2) by (auto intro: sorted_stable_sort)
qed (use assms in auto)

lemma stable_sort_sorted:
  "sorted_wrt (\<lambda>a b. \<not> lt b a) xs \<Longrightarrow> stable_sort lt xs = xs"
proof (induction xs)
  case (Cons x xs)
  then show ?case by (cases xs) (auto simp: stable_sort_Cons)
qed (simp add: stable_sort_def)

end

end
