(* ===== verification/Evasion.thy ===== *)
theory Evasion
  imports Complex_Main AuthMatrix WorkerRequest StableSort
begin

text \<open>
  Evasion of a web application firewall, \<open>pkg/engine/waf_evasion.go\<close>: the techniques of a vendor, the recognition of the
  vendor, the scoreboard of the techniques with its summary and ranking, the memory of what was tried on a path, and the
  probe of a path. A technique takes the random number of its call, the path, the headers and the method. The headers are
  a list of pairs, copied and updated as the map of the code.
\<close>

type_synonym header_map = "(string \<times> string) list"

section \<open>The techniques\<close>

record evasion_technique =
  et_name :: string
  et_modify :: "int \<Rightarrow> string \<Rightarrow> header_map \<Rightarrow> string \<Rightarrow> string \<times> header_map"

definition mutatePathOnly :: "string \<Rightarrow> (string \<Rightarrow> string) \<Rightarrow> string" where
  "mutatePathOnly p mutate = (case index_byte (\<lambda>c. c = CHR ''?'') p of
     None \<Rightarrow> mutate p | Some i \<Rightarrow> mutate (take i p) @ drop i p)"

text \<open>A technique that changes the path only, and one that adds headers and may replace the path.\<close>

definition path_technique :: "string \<Rightarrow> (string \<Rightarrow> string) \<Rightarrow> evasion_technique" where
  "path_technique name f = \<lparr>et_name = name, et_modify = (\<lambda>rnd p h meth. (mutatePathOnly p f, h))\<rparr>"

definition header_technique :: "string \<Rightarrow> (string \<Rightarrow> string) \<Rightarrow> (string \<Rightarrow> (string \<times> string) list) \<Rightarrow> evasion_technique" where
  "header_technique name path add = \<lparr>et_name = name,
     et_modify = (\<lambda>rnd p h meth. (path p, foldl (\<lambda>m (k, v). AList.update k v m) h (add p)))\<rparr>"

definition chunked_header :: "string \<Rightarrow> header_map \<Rightarrow> header_map" where
  "chunked_header meth h = (if meth \<noteq> ''GET'' \<and> meth \<noteq> ''HEAD'' then AList.update ''Transfer-Encoding'' ''chunked'' h else h)"

text \<open>Letters at odd positions in upper case, on bytes of the ASCII range.\<close>

fun case_variation :: "bool \<Rightarrow> string \<Rightarrow> string" where
  "case_variation even_pos [] = []"
| "case_variation even_pos (c # p) = (if even_pos then c else upper_char c) # case_variation (\<not> even_pos) p"

definition modsecurity_techniques :: "evasion_technique list" where
  "modsecurity_techniques =
     [\<lparr>et_name = ''double-slash'', et_modify = (\<lambda>rnd p h meth. (''//'' @ trim_prefix p ''/'', chunked_header meth h))\<rparr>,
      \<lparr>et_name = ''null-byte'', et_modify = (\<lambda>rnd p h meth. (p @ ''%00'', h))\<rparr>,
      \<lparr>et_name = ''chunked-encoding'', et_modify = (\<lambda>rnd p h meth. (p, chunked_header meth h))\<rparr>]"

definition akamai_techniques :: "evasion_technique list" where
  "akamai_techniques =
     [\<lparr>et_name = ''case-variation'', et_modify = (\<lambda>rnd p h meth. (case_variation True p, h))\<rparr>,
      \<lparr>et_name = ''cache-buster'', et_modify = (\<lambda>rnd p h meth. (p @ ''?cb='' @ itoa rnd, h))\<rparr>]"

definition imperva_techniques :: "evasion_technique list" where
  "imperva_techniques =
     [header_technique ''xff-localhost'' (\<lambda>p. p)
        (\<lambda>p. [(''X-Forwarded-For'', ''127.0.0.1''), (''X-Remote-IP'', ''127.0.0.1''), (''X-Originating-IP'', ''127.0.0.1'')])]"

definition cloudflare_techniques :: "evasion_technique list" where
  "cloudflare_techniques =
     [header_technique ''cf-connecting-ip'' (\<lambda>p. p) (\<lambda>p. [(''CF-Connecting-IP'', ''127.0.0.1''), (''X-Forwarded-For'', ''127.0.0.1'')]),
      path_technique ''path-dotslash'' (\<lambda>path. ''/%2e'' @ path)]"

text \<open>\<open>strings.Replace\<close> with the count one.\<close>

definition replace_first_slash :: "string \<Rightarrow> string" where
  "replace_first_slash path = (case index_byte (\<lambda>c. c = CHR ''/'') path of
     None \<Rightarrow> path | Some i \<Rightarrow> take i path @ ''%2f'' @ drop (i + 1) path)"

definition Bypass403Techniques :: "evasion_technique list" where
  "Bypass403Techniques =
     [header_technique ''x-original-url'' (\<lambda>p. ''/'') (\<lambda>p. [(''X-Original-URL'', p)]),
      header_technique ''x-rewrite-url'' (\<lambda>p. ''/'') (\<lambda>p. [(''X-Rewrite-URL'', p)]),
      header_technique ''x-custom-ip-127'' (\<lambda>p. p) (\<lambda>p. [(''X-Custom-IP-Authorization'', ''127.0.0.1'')]),
      path_technique ''trailing-slash'' (\<lambda>path. trim_right (\<lambda>c. c = CHR ''/'') path @ ''/''),
      path_technique ''dot-slash'' (\<lambda>path. path @ ''/./''),
      path_technique ''url-encoded-slash'' replace_first_slash,
      path_technique ''double-slash-prefix'' (\<lambda>path. ''//'' @ trim_prefix path ''/''),
      header_technique ''x-forwarded-for-127'' (\<lambda>p. p) (\<lambda>p. [(''X-Forwarded-For'', ''127.0.0.1'')])]"

definition default_techniques :: "evasion_technique list" where
  "default_techniques = Bypass403Techniques @
     [header_technique ''head-method'' (\<lambda>p. p) (\<lambda>p. []),
      path_technique ''trailing-dot-slash'' (\<lambda>path. path @ ''/./''),
      path_technique ''unicode-first-char'' (\<lambda>path. if length path > 1 then ''/'' @ ''%C0%AF'' @ drop 1 path else path)]"

definition EvasionStrategiesFor :: "string \<Rightarrow> evasion_technique list" where
  "EvasionStrategiesFor vendor =
     (if vendor = ''modsecurity'' then modsecurity_techniques
      else if vendor = ''akamai'' then akamai_techniques
      else if vendor = ''imperva'' then imperva_techniques
      else if vendor = ''cloudflare'' then cloudflare_techniques
      else default_techniques)"

definition query_flag :: "string \<Rightarrow> string \<Rightarrow> string" where
  "query_flag flag p = (if contains_str p ''?'' then p @ ''&'' @ flag else p @ ''?'' @ flag)"

definition H2EvasionStrategies :: "evasion_technique list" where
  "H2EvasionStrategies =
     [\<lparr>et_name = ''h2-header-case'', et_modify = (\<lambda>rnd p h meth. (query_flag ''h2case=1'' p, h))\<rparr>,
      \<lparr>et_name = ''h2-priority-frame'', et_modify = (\<lambda>rnd p h meth. (query_flag ''h2prio=1'' p, h))\<rparr>]"

section \<open>The vendor\<close>

record waf_result =
  wf_detected :: bool
  wf_vendor :: string
  wf_confidence :: string
  wf_evidence :: "string list"

text \<open>The rules in their order: vendor, confidence, evidence and the marks in the headers and the body, in lower case.\<close>

definition waf_rules :: "string \<Rightarrow> string \<Rightarrow> int \<Rightarrow> (string \<times> string \<times> string \<times> bool) list" where
  "waf_rules hl bl status =
     (let inh = contains_str hl; inb = contains_str bl in
      [(''cloudflare'', ''high'', ''cf-ray header or cloudflare body markers'',
          inh ''cf-ray:'' \<or> inh ''server: cloudflare'' \<or> inb ''cf-error-details'' \<or> inh ''__cf_bm''),
       (''akamai'', ''high'', ''akamai header signatures'',
          inh ''x-check-cacheable:'' \<or> inh ''x-akamai-transformed:'' \<or> inh ''server: akamaighost'' \<or>
          inb ''reference #'' \<and> inb ''akamai''),
       (''aws_waf'', ''medium'', ''x-amzn-requestid with 403 or aws-waf body'',
          status = 403 \<and> (inh ''x-amzn-requestid:'' \<or> inb ''request blocked'' \<or> inb ''aws-waf'')),
       (''imperva'', ''high'', ''incapsula/imperva headers or body'',
          inh ''x-iinfo:'' \<or> inh ''x-cdn: incapsula'' \<or> inh ''visid_incap_'' \<or> inb ''incapsula incident id''),
       (''f5_bigip'', ''high'', ''f5 bigip signatures'',
          inh ''x-cnection:'' \<or> inh ''server: bigip'' \<or> inb ''the requested url was rejected'' \<and> inb ''support id''),
       (''sucuri'', ''high'', ''sucuri header or body marker'',
          inh ''x-sucuri-id:'' \<or> inh ''server: sucuri/cloudproxy'' \<or> inb ''sucuri website firewall''),
       (''barracuda'', ''high'', ''barracuda waf body or header'',
          inb ''barracuda web application firewall'' \<or> inh ''server: barracuda''),
       (''modsecurity'', ''high'', ''modsecurity header or body'',
          inh ''mod_security'' \<or> inh ''modsecurity'' \<or> inb ''modsecurity action'' \<or> inb ''mod_security''),
       (''nginx'', ''medium'', ''nginx default 403 body'', inb ''<center>nginx</center>'')])"

definition FingerprintWAF :: "string \<Rightarrow> string \<Rightarrow> int \<Rightarrow> waf_result" where
  "FingerprintWAF body headers statusCode =
     (case find (\<lambda>(_, _, _, b). b) (waf_rules (to_lower headers) (to_lower body) statusCode) of
        None \<Rightarrow> \<lparr>wf_detected = False, wf_vendor = ''unknown'', wf_confidence = '''', wf_evidence = []\<rparr>
      | Some (v, c, e, _) \<Rightarrow> \<lparr>wf_detected = True, wf_vendor = v, wf_confidence = c, wf_evidence = [e]\<rparr>)"

section \<open>The scoreboard\<close>

record scoreboard =
  sc_attempts :: "(string \<times> int) list"
  sc_hits :: "(string \<times> int) list"

record score_row =
  row_technique :: string
  row_attempts :: int
  row_bypasses :: int
  row_rate :: real

definition NewEvasionScoreboard :: scoreboard where
  "NewEvasionScoreboard = \<lparr>sc_attempts = [], sc_hits = []\<rparr>"

definition counted :: "(string \<times> int) list \<Rightarrow> string \<Rightarrow> int" where
  "counted m k = (case map_of m k of None \<Rightarrow> 0 | Some n \<Rightarrow> n)"

definition scoreboard_record :: "string \<Rightarrow> bool \<Rightarrow> scoreboard \<Rightarrow> scoreboard" where
  "scoreboard_record technique bypassed s =
     (if technique = '''' then s
      else let s1 = s\<lparr>sc_attempts := AList.update technique (counted (sc_attempts s) technique + 1) (sc_attempts s)\<rparr>
        in if bypassed then s1\<lparr>sc_hits := AList.update technique (counted (sc_hits s) technique + 1) (sc_hits s)\<rparr> else s1)"

definition attempted_row :: "scoreboard \<Rightarrow> string \<times> int \<Rightarrow> string \<times> score_row" where
  "attempted_row s = (\<lambda>(t, n). (t, \<lparr>row_technique = t, row_attempts = n, row_bypasses = counted (sc_hits s) t,
     row_rate = (if n > 0 then real_of_int (counted (sc_hits s) t) / real_of_int n else 0)\<rparr>))"

definition unattempted_row :: "string \<times> int \<Rightarrow> string \<times> score_row" where
  "unattempted_row = (\<lambda>(t, b). (t, \<lparr>row_technique = t, row_attempts = 0, row_bypasses = b, row_rate = 0\<rparr>))"

text \<open>The rows as a map, in some order.\<close>

definition scoreboard_rows :: "scoreboard \<Rightarrow> (string \<times> score_row) list" where
  "scoreboard_rows s = map (attempted_row s) (sc_attempts s) @
     map unattempted_row (filter (\<lambda>(t, _). map_of (sc_attempts s) t = None) (sc_hits s))"

definition summary_less :: "score_row \<Rightarrow> score_row \<Rightarrow> bool" where
  "summary_less a b =
     (if row_rate a \<noteq> row_rate b then row_rate a > row_rate b
      else if row_attempts a \<noteq> row_attempts b then row_attempts a > row_attempts b
      else row_technique a < row_technique b)"

definition scoreboard_summary :: "scoreboard \<Rightarrow> score_row list" where
  "scoreboard_summary s = stable_sort summary_less (map snd (scoreboard_rows s))"

definition TopTechniques :: "scoreboard \<Rightarrow> int \<Rightarrow> score_row list" where
  "TopTechniques s n = (if n \<le> 0 then [] else take (nat n) (scoreboard_summary s))"

definition evasionRankingFloor :: int where
  "evasionRankingFloor = 5"

record scored_technique =
  st_tech :: evasion_technique
  st_rate :: real
  st_attempts :: int
  st_idx :: nat

definition scored_of :: "(string \<times> score_row) list \<Rightarrow> nat \<times> evasion_technique \<Rightarrow> scored_technique" where
  "scored_of rows = (\<lambda>(i, tech). case map_of rows (et_name tech) of
       None \<Rightarrow> \<lparr>st_tech = tech, st_rate = - 1, st_attempts = 0, st_idx = i\<rparr>
     | Some row \<Rightarrow> if row_attempts row = 0 then \<lparr>st_tech = tech, st_rate = - 1, st_attempts = 0, st_idx = i\<rparr>
         else \<lparr>st_tech = tech, st_rate = row_rate row, st_attempts = row_attempts row, st_idx = i\<rparr>)"

definition ranked_less :: "scored_technique \<Rightarrow> scored_technique \<Rightarrow> bool" where
  "ranked_less li lj =
     (if st_rate li < 0 \<and> st_rate lj < 0 then st_idx li < st_idx lj
      else if st_rate li < 0 then False
      else if st_rate lj < 0 then True
      else if st_rate li \<noteq> st_rate lj then st_rate li > st_rate lj
      else if st_attempts li \<noteq> st_attempts lj then st_attempts li > st_attempts lj
      else st_idx li < st_idx lj)"

definition RankedTechniques :: "scoreboard \<Rightarrow> string \<Rightarrow> evasion_technique list" where
  "RankedTechniques s vendor =
     (let base = EvasionStrategiesFor vendor; rows = scoreboard_rows s;
          totalAttempts = sum_list (map (\<lambda>(_, row). row_attempts row) rows)
      in if base = [] \<or> totalAttempts < evasionRankingFloor then base
         else map st_tech (stable_sort ranked_less (map (scored_of rows) (List.enumerate 0 base))))"

section \<open>What was tried, and the probe of a path\<close>

type_synonym attempted = "(string \<times> string list) list"

definition evasionTechniqueSeen :: "attempted \<Rightarrow> string \<Rightarrow> string \<Rightarrow> bool" where
  "evasionTechniqueSeen m path technique \<longleftrightarrow> path \<noteq> '''' \<and> technique \<noteq> '''' \<and>
     (case map_of m path of None \<Rightarrow> False | Some names \<Rightarrow> technique \<in> set names)"

definition markEvasionTechnique :: "string \<Rightarrow> string \<Rightarrow> attempted \<Rightarrow> attempted" where
  "markEvasionTechnique path technique m =
     (if path = '''' \<or> technique = '''' \<or> evasionTechniqueSeen m path technique then m
      else AList.update path ((case map_of m path of None \<Rightarrow> [] | Some names \<Rightarrow> names) @ [technique]) m)"

record waf_attempt =
  wa_technique :: string
  wa_path :: string
  wa_status :: int
  wa_size :: int
  wa_type :: string
  wa_bypassed :: bool
  wa_error :: bool

record waf_report =
  wp_target :: string
  wp_path :: string
  wp_method :: string
  wp_waf :: waf_result
  wp_status :: int
  wp_size :: int
  wp_attempts :: "waf_attempt list"
  wp_scores :: "score_row list"

definition probe_path :: "string \<Rightarrow> string option" where
  "probe_path rawPath =
     (let absolute = has_prefix rawPath ''http://'' \<or> has_prefix rawPath ''https://'' in
      case (if absolute then map_option Some (url_parse rawPath) else Some None) of
        None \<Rightarrow> None
      | Some u \<Rightarrow>
          let p1 = (case u of None \<Rightarrow> rawPath
                    | Some v \<Rightarrow> (if u_path v \<noteq> '''' then u_path v else rawPath) @ (if u_query v \<noteq> '''' then ''?'' @ u_query v else ''''));
              p2 = (if p1 = '''' then ''/'' else p1)
          in Some (if \<not> has_prefix p2 ''/'' then ''/'' @ p2 else p2))"

definition probe_attempt ::
  "(string \<Rightarrow> 's \<Rightarrow> raw_response result \<times> 's) \<Rightarrow> (string \<Rightarrow> header_map \<Rightarrow> string) \<Rightarrow> int \<Rightarrow> string \<Rightarrow> header_map \<Rightarrow> string \<Rightarrow> int
   \<Rightarrow> evasion_technique \<Rightarrow> scoreboard \<Rightarrow> 's \<Rightarrow> waf_attempt \<times> scoreboard \<times> 's" where
  "probe_attempt exec build rnd reqPath headers meth baseline tech board s =
     (let (p, h) = et_modify tech rnd reqPath headers meth; path = (if p = '''' then reqPath else p);
          a = \<lparr>wa_technique = et_name tech, wa_path = path, wa_status = 0, wa_size = 0, wa_type = '''', wa_bypassed = False, wa_error = False\<rparr>
      in case exec (build path h) s of
           (Inl e, s') \<Rightarrow> (a\<lparr>wa_error := True\<rparr>, board, s')
         | (Inr resp, s') \<Rightarrow>
             let b = (rr_status resp \<noteq> baseline \<and> rr_status resp \<noteq> 403) in
             (a\<lparr>wa_status := rr_status resp, wa_size := int (length (rr_body resp)), wa_type := responseContentType (Some resp),
                wa_bypassed := b\<rparr>, scoreboard_record (et_name tech) b board, s'))"

text \<open>The attempts in order; \<open>rnds\<close> are the random numbers of the calls.\<close>

fun probe_attempts ::
  "(string \<Rightarrow> 's \<Rightarrow> raw_response result \<times> 's) \<Rightarrow> (string \<Rightarrow> header_map \<Rightarrow> string) \<Rightarrow> (nat \<Rightarrow> int) \<Rightarrow> string \<Rightarrow> header_map \<Rightarrow> string \<Rightarrow> int
   \<Rightarrow> evasion_technique list \<Rightarrow> nat \<Rightarrow> scoreboard \<Rightarrow> 's \<Rightarrow> waf_attempt list \<times> scoreboard \<times> 's" where
  "probe_attempts exec build rnds reqPath headers meth baseline [] i board s = ([], board, s)"
| "probe_attempts exec build rnds reqPath headers meth baseline (t # ts) i board s =
     (let (a, board1, s1) = probe_attempt exec build (rnds i) reqPath headers meth baseline t board s;
          (as, board2, s2) = probe_attempts exec build rnds reqPath headers meth baseline ts (i + 1) board1 s1
      in (a # as, board2, s2))"

text \<open>What the engine remembers of the firewall.\<close>

definition setWAFState :: "bool \<Rightarrow> string \<Rightarrow> bool \<times> string" where
  "setWAFState detected vendor = (detected, trim_space vendor)"

text \<open>\<open>exec\<close> takes the address as it is written after parsing, and the request; \<open>snap\<close> is the snapshot's agent and headers,
  \<open>w\<close> what is remembered of the firewall.\<close>

definition ProbeWAF ::
  "net_ops \<Rightarrow> (string \<Rightarrow> string \<Rightarrow> 's \<Rightarrow> raw_response result \<times> 's) \<Rightarrow> (nat \<Rightarrow> int) \<Rightarrow> (string \<times> header_map) option
   \<Rightarrow> string \<Rightarrow> string \<Rightarrow> string \<Rightarrow> header_map \<Rightarrow> bool \<times> string \<Rightarrow> scoreboard \<Rightarrow> 's
   \<Rightarrow> waf_report result \<times> (bool \<times> string) \<times> scoreboard \<times> 's" where
  "ProbeWAF ops exec rnds snap targetURL0 rawPath meth0 headers w board s =
     (let meth = (if meth0 = '''' then ''GET'' else meth0);
          absolute = has_prefix rawPath ''http://'' \<or> has_prefix rawPath ''https://'';
          targetURL = (if absolute then rawPath else targetURL0)
      in if targetURL0 = '''' then (Inl ''targetURL is required'', w, board, s)
      else case (url_parse targetURL, probe_path rawPath) of
        (Some parsed, Some reqPath) \<Rightarrow>
          let (ua, base0) = (case snap of None \<Rightarrow> (''DirFuzz/2.0'', [])
                             | Some (a, h) \<Rightarrow> ((if a \<noteq> '''' then a else ''DirFuzz/2.0''), h));
              base = foldl (\<lambda>m (k, v). AList.update k v m) base0 headers;
              build = (\<lambda>p h. buildRequest meth p (u_host parsed) ua (renderHeaderBlock (Some h)) '''');
              send = exec (no_text ops parsed)
          in (case send (build reqPath base) s of
                (Inl e, s1) \<Rightarrow> (Inl e, w, board, s1)
              | (Inr resp, s1) \<Rightarrow>
                  let waf = FingerprintWAF (rr_body resp) (rr_headers resp) (rr_status resp);
                      (as, board2, s2) = probe_attempts send build rnds reqPath base meth (rr_status resp)
                        (EvasionStrategiesFor (wf_vendor waf)) 0 board s1
                  in (Inr \<lparr>wp_target = targetURL0, wp_path = rawPath, wp_method = meth, wp_waf = waf, wp_status = rr_status resp,
                        wp_size = int (length (rr_body resp)), wp_attempts = as, wp_scores = scoreboard_summary board2\<rparr>,
                      setWAFState (wf_detected waf) (wf_vendor waf), board2, s2))
      | _ \<Rightarrow> (Inl ''parse error'', w, board, s))"

section \<open>The scoreboard counts, the summary and the ranking do not depend on an order\<close>

definition counts_ok :: "(string \<times> int) list \<Rightarrow> bool" where
  "counts_ok m \<longleftrightarrow> distinct (map fst m) \<and> (\<forall>x \<in> set m. 0 < snd x)"

definition board_wf :: "scoreboard \<Rightarrow> bool" where
  "board_wf s \<longleftrightarrow> counts_ok (sc_attempts s) \<and> counts_ok (sc_hits s) \<and>
     (\<forall>t. counted (sc_hits s) t \<le> counted (sc_attempts s) t)"

lemma counted_update [simp]: "counted (AList.update k n m) t = (if t = k then n else counted m t)"
  by (simp add: counted_def update_conv)

lemma counted_nonneg: "counts_ok m \<Longrightarrow> 0 \<le> counted m t"
  by (auto simp: counts_ok_def counted_def split: option.splits dest!: map_of_SomeD)

lemma counts_ok_bump: "counts_ok m \<Longrightarrow> counts_ok (AList.update t (counted m t + 1) m)"
proof -
  assume m: "counts_ok m"
  have "\<forall>x \<in> set (AList.update t (counted m t + 1) m). 0 < snd x"
    using m counted_nonneg [OF m, of t] by (intro ballI) (auto simp: counts_ok_def dest!: subsetD [OF update_subset])
  with m show ?thesis by (simp add: counts_ok_def distinct_update)
qed

lemma board_wf_record: "board_wf s \<Longrightarrow> board_wf (scoreboard_record t b s)"
proof -
  assume s: "board_wf s"
  have "counted (sc_hits s) u \<le> counted (sc_attempts s) u + 1" for u
  proof -
    have "counted (sc_hits s) u \<le> counted (sc_attempts s) u" using s by (simp add: board_wf_def)
    then show ?thesis by linarith
  qed
  with s show ?thesis
    by (simp add: board_wf_def scoreboard_record_def Let_def counts_ok_bump)
qed

definition run_board :: "(string \<times> bool) list \<Rightarrow> scoreboard" where
  "run_board rs = foldl (\<lambda>s (t, b). scoreboard_record t b s) NewEvasionScoreboard rs"

lemma run_board_snoc: "run_board (rs @ [r]) = scoreboard_record (fst r) (snd r) (run_board rs)"
  by (simp add: run_board_def case_prod_unfold)

lemma run_board_new: "run_board [] = NewEvasionScoreboard"
  by (simp add: run_board_def)

lemma run_board_wf: "board_wf (run_board rs)"
  by (induction rs rule: rev_induct)
     (simp add: run_board_new board_wf_def NewEvasionScoreboard_def counted_def counts_ok_def, simp add: run_board_snoc board_wf_record)

definition records_of :: "(string \<times> bool) list \<Rightarrow> string \<Rightarrow> int" where
  "records_of rs t = (if t = '''' then 0 else int (length (filter (\<lambda>r. fst r = t) rs)))"

definition bypasses_of :: "(string \<times> bool) list \<Rightarrow> string \<Rightarrow> int" where
  "bypasses_of rs t = (if t = '''' then 0 else int (length (filter (\<lambda>r. fst r = t \<and> snd r) rs)))"

lemma run_board_counts:
  "counted (sc_attempts (run_board rs)) t = records_of rs t \<and> counted (sc_hits (run_board rs)) t = bypasses_of rs t"
proof (induction rs rule: rev_induct)
  case Nil
  show ?case by (simp add: run_board_new NewEvasionScoreboard_def counted_def records_of_def bypasses_of_def)
next
  case (snoc r rs)
  then show ?case
    by (cases "fst r = ''''"; cases "snd r") (auto simp: run_board_snoc scoreboard_record_def Let_def records_of_def bypasses_of_def)
qed

lemma sum_bump: "distinct (map fst m) \<Longrightarrow> sum_list (map snd (AList.update t (counted m t + 1) m)) = sum_list (map snd m) + 1"
proof (induction m)
  case (Cons x m)
  then show ?case
    by (cases x; cases "fst x = t") (auto simp: counted_def)
qed (simp add: counted_def)

definition total_records :: "(string \<times> bool) list \<Rightarrow> int" where
  "total_records rs = int (length (filter (\<lambda>r. fst r \<noteq> '''') rs))"

lemma run_board_total: "sum_list (map snd (sc_attempts (run_board rs))) = total_records rs"
proof (induction rs rule: rev_induct)
  case Nil
  show ?case by (simp add: run_board_new NewEvasionScoreboard_def total_records_def)
next
  case (snoc r rs)
  moreover have "distinct (map fst (sc_attempts (run_board rs)))" using run_board_wf [of rs] by (simp add: board_wf_def counts_ok_def)
  ultimately show ?case
    by (auto simp: run_board_snoc scoreboard_record_def Let_def total_records_def sum_bump)
qed

lemma no_unattempted: "board_wf s \<Longrightarrow> filter (\<lambda>(t, _). map_of (sc_attempts s) t = None) (sc_hits s) = []"
proof -
  assume s: "board_wf s"
  have "map_of (sc_attempts s) t \<noteq> None" if "(t, n) \<in> set (sc_hits s)" for t n
  proof
    assume "map_of (sc_attempts s) t = None"
    then have "counted (sc_attempts s) t = 0" by (simp add: counted_def)
    moreover have "counted (sc_hits s) t = n" "0 < n" using s that by (auto simp: board_wf_def counts_ok_def counted_def)
    ultimately show False using s by (metis board_wf_def leD)
  qed
  then show ?thesis by (auto simp: filter_empty_conv)
qed

lemma scoreboard_rows_wf: "board_wf s \<Longrightarrow> scoreboard_rows s = map (attempted_row s) (sc_attempts s)"
  by (simp add: scoreboard_rows_def no_unattempted)

lemma map_of_rows: "board_wf s \<Longrightarrow> map_of (scoreboard_rows s) t = map_option (\<lambda>n. snd (attempted_row s (t, n))) (map_of (sc_attempts s) t)"
proof -
  have "map_of (map (attempted_row s) m) t = map_option (\<lambda>n. snd (attempted_row s (t, n))) (map_of m t)" for m
    by (induction m) (auto simp: attempted_row_def)
  then show "board_wf s \<Longrightarrow> ?thesis" by (simp add: scoreboard_rows_wf)
qed

lemma attempts_map: "board_wf s \<Longrightarrow> map_of (sc_attempts s) t = (if counted (sc_attempts s) t = 0 then None else Some (counted (sc_attempts s) t))"
  by (auto simp: board_wf_def counts_ok_def counted_def split: option.splits dest!: map_of_SomeD)

lemma rows_mset:
  assumes "mset rs = mset rs'"
  shows "mset (scoreboard_rows (run_board rs)) = mset (scoreboard_rows (run_board rs'))"
proof -
  have f: "length (filter P rs) = length (filter P rs')" for P by (metis assms mset_filter size_mset)
  have c: "counted (sc_attempts (run_board rs)) t = counted (sc_attempts (run_board rs')) t"
    "counted (sc_hits (run_board rs)) t = counted (sc_hits (run_board rs')) t" for t
    by (simp_all add: run_board_counts records_of_def bypasses_of_def f)
  then have "map_of (sc_attempts (run_board rs)) = map_of (sc_attempts (run_board rs'))"
    using run_board_wf by (intro ext) (simp add: attempts_map)
  moreover have d: "distinct (map fst (sc_attempts (run_board qs)))" for qs
    using run_board_wf [of qs] by (simp add: board_wf_def counts_ok_def)
  ultimately have "set (sc_attempts (run_board rs)) = set (sc_attempts (run_board rs'))" using map_of_inject_set [OF d d] by blast
  then have "mset (sc_attempts (run_board rs)) = mset (sc_attempts (run_board rs'))"
    using d by (metis set_eq_iff_mset_eq_distinct distinct_map)
  moreover have "attempted_row (run_board rs) = attempted_row (run_board rs')"
    unfolding attempted_row_def c(2) ..
  ultimately show ?thesis using run_board_wf by (simp add: scoreboard_rows_wf)
qed

interpretation summary_order: stable_order summary_less "\<lambda>_. True"
  by unfold_locales (auto simp: summary_less_def split: if_splits)

interpretation ranked_order: stable_order ranked_less "\<lambda>_. True"
  by unfold_locales (auto simp: ranked_less_def split: if_splits)

lemma scored_cong: "mset rows = mset rows' \<Longrightarrow> distinct (map fst rows) \<Longrightarrow> distinct (map fst rows') \<Longrightarrow> scored_of rows = scored_of rows'"
proof -
  assume "mset rows = mset rows'" "distinct (map fst rows)" "distinct (map fst rows')"
  then have "map_of rows = map_of rows'" by (metis map_of_inject_set set_mset_mset)
  then show ?thesis by (intro ext) (simp add: scored_of_def)
qed

lemma rows_distinct: "distinct (map fst (scoreboard_rows (run_board rs)))"
proof -
  have "fst \<circ> attempted_row s = fst" for s by (simp add: attempted_row_def case_prod_unfold o_def)
  then show ?thesis using run_board_wf [of rs]
    unfolding scoreboard_rows_wf [OF run_board_wf] board_wf_def counts_ok_def map_map by simp
qed

text \<open>The summary and the ranking depend on how often each technique was tried and succeeded, never on the order of the
  records, in which workers run against each other, nor on the order of a walk over the map.\<close>

theorem scoreboard_order_irrelevant:
  assumes "mset rs = mset rs'"
  shows "scoreboard_summary (run_board rs) = scoreboard_summary (run_board rs') \<and>
    RankedTechniques (run_board rs) vendor = RankedTechniques (run_board rs') vendor"
proof -
  note m = rows_mset [OF assms]
  have "scoreboard_summary (run_board rs) = scoreboard_summary (run_board rs')"
    unfolding scoreboard_summary_def
  proof (rule summary_order.stable_sort_perm)
    show "mset (map snd (scoreboard_rows (run_board rs))) = mset (map snd (scoreboard_rows (run_board rs')))"
      using m by (simp only: mset_map)
    show "a = b" if "a \<in> set (map snd (scoreboard_rows (run_board rs)))" "b \<in> set (map snd (scoreboard_rows (run_board rs)))"
        "\<not> summary_less a b" "\<not> summary_less b a" for a b
    proof -
      have "row_technique a = row_technique b" using that(3,4) by (auto simp: summary_less_def split: if_splits)
      with that(1,2) rows_distinct [of rs] show ?thesis
        using run_board_wf [of rs]
        by (auto simp: scoreboard_rows_wf attempted_row_def board_wf_def counts_ok_def dest: eq_key_imp_eq_value)
    qed
  qed simp
  moreover have "(\<Sum>(_, row)\<leftarrow>scoreboard_rows (run_board rs). row_attempts row) = (\<Sum>(_, row)\<leftarrow>scoreboard_rows (run_board rs'). row_attempts row)"
    using m by (metis mset_map sum_mset_sum_list)
  moreover have "scored_of (scoreboard_rows (run_board rs)) = scored_of (scoreboard_rows (run_board rs'))"
    by (intro scored_cong m rows_distinct)
  ultimately show ?thesis by (simp add: RankedTechniques_def Let_def)
qed

lemma scoreboard_order_irrelevant_witness:
  "scoreboard_summary (run_board [(''a'', True), (''b'', False)]) = scoreboard_summary (run_board [(''b'', False), (''a'', True)])"
  using scoreboard_order_irrelevant [of "[(''a'', True), (''b'', False)]" "[(''b'', False), (''a'', True)]"] by simp

definition success_rate :: "(string \<times> bool) list \<Rightarrow> evasion_technique \<Rightarrow> real" where
  "success_rate rs t = real_of_int (bypasses_of rs (et_name t)) / real_of_int (records_of rs (et_name t))"

lemma scored_run:
  "st_tech (scored_of (scoreboard_rows (run_board rs)) (i, t)) = t \<and> st_idx (scored_of (scoreboard_rows (run_board rs)) (i, t)) = i \<and>
   (st_rate (scored_of (scoreboard_rows (run_board rs)) (i, t)) < 0 \<longleftrightarrow> records_of rs (et_name t) = 0) \<and>
   (records_of rs (et_name t) \<noteq> 0 \<longrightarrow> st_rate (scored_of (scoreboard_rows (run_board rs)) (i, t)) = success_rate rs t \<and>
      st_attempts (scored_of (scoreboard_rows (run_board rs)) (i, t)) = records_of rs (et_name t))"
proof -
  have n: "0 \<le> records_of rs u" "0 \<le> bypasses_of rs u" for u by (simp_all add: records_of_def bypasses_of_def)
  have p: "records_of rs u \<noteq> 0 \<Longrightarrow> 0 < records_of rs u" for u using n [of u] by linarith
  show ?thesis
    using n p by (simp add: scored_of_def map_of_rows [OF run_board_wf] attempts_map [OF run_board_wf] run_board_counts attempted_row_def
      success_rate_def divide_nonneg_nonneg not_less)
qed

lemma total_attempts: "(\<Sum>(_, row)\<leftarrow>scoreboard_rows (run_board rs). row_attempts row) = total_records rs"
proof -
  have "(\<Sum>(_, row)\<leftarrow>map (attempted_row s) m. row_attempts row) = sum_list (map snd m)" for s m
    by (induction m) (auto simp: attempted_row_def)
  then show ?thesis by (simp add: scoreboard_rows_wf [OF run_board_wf] run_board_total)
qed

lemma scored_members:
  "x \<in> set (map (scored_of (scoreboard_rows (run_board rs))) (List.enumerate 0 base)) \<Longrightarrow>
   x = scored_of (scoreboard_rows (run_board rs)) (st_idx x, base ! st_idx x)"
  by (auto simp: in_set_enumerate_eq scored_run)

lemma untried_order:
  "filter (\<lambda>x. st_rate x < 0) (stable_sort ranked_less (map (scored_of (scoreboard_rows (run_board rs))) (List.enumerate 0 base)))
    = filter (\<lambda>x. st_rate x < 0) (map (scored_of (scoreboard_rows (run_board rs))) (List.enumerate 0 base))"
proof -
  let ?scored = "map (scored_of (scoreboard_rows (run_board rs))) (List.enumerate 0 base)"
  let ?R = "\<lambda>a b. st_idx a \<le> st_idx b"
  have "sorted_wrt (\<lambda>a b. \<not> ranked_less b a) (filter (\<lambda>x. st_rate x < 0) (stable_sort ranked_less ?scored))"
    using ranked_order.sorted_stable_sort [of ?scored] by (simp add: sorted_wrt_filter)
  then have "sorted_wrt ?R (filter (\<lambda>x. st_rate x < 0) (stable_sort ranked_less ?scored))"
    by (rule sorted_wrt_mono_rel [rotated]) (auto simp: ranked_less_def)
  moreover have "sorted_wrt ?R (filter (\<lambda>x. st_rate x < 0) ?scored)"
    by (intro sorted_wrt_filter) (auto simp: sorted_wrt_iff_nth_less nth_enumerate_eq scored_run)
  moreover have "a = b" if "a \<in> set ?scored" "b \<in> set ?scored" "st_idx a = st_idx b" for a b
    using scored_members [OF that(1)] scored_members [OF that(2)] that(3) by simp
  ultimately show ?thesis by (intro sorted_wrt_unique [where R = ?R]) auto
qed

text \<open>The ranking is a rearrangement of the techniques of the vendor, and their own order while fewer than five attempts are
  recorded. From then on the techniques that were tried come first, by their rate of success and then by the number of attempts,
  and the others keep the order of the table.\<close>

theorem ranking_order:
  assumes "r = RankedTechniques (run_board rs) vendor"
  defines "tried \<equiv> \<lambda>t. records_of rs (et_name t) \<noteq> 0"
  shows "mset r = mset (EvasionStrategiesFor vendor) \<and>
    (total_records rs < 5 \<longrightarrow> r = EvasionStrategiesFor vendor) \<and>
    (5 \<le> total_records rs \<longrightarrow>
       filter (\<lambda>t. \<not> tried t) r = filter (\<lambda>t. \<not> tried t) (EvasionStrategiesFor vendor) \<and>
       sorted_wrt (\<lambda>a b. tried b \<longrightarrow> tried a \<and> (success_rate rs a > success_rate rs b \<or>
         success_rate rs a = success_rate rs b \<and> records_of rs (et_name a) \<ge> records_of rs (et_name b))) r)"
proof (cases "total_records rs < 5 \<or> EvasionStrategiesFor vendor = []")
  case True
  then show ?thesis by (auto simp: assms(1) RankedTechniques_def Let_def total_attempts evasionRankingFloor_def)
next
  case False
  let ?base = "EvasionStrategiesFor vendor" and ?sc = "scored_of (scoreboard_rows (run_board rs))"
  let ?scored = "map ?sc (List.enumerate 0 ?base)" and ?L = "stable_sort ranked_less (map ?sc (List.enumerate 0 ?base))"
  have r: "r = map st_tech ?L"
    using False by (simp add: assms(1) RankedTechniques_def Let_def total_attempts evasionRankingFloor_def)
  have tech: "map st_tech ?scored = ?base" by (rule nth_equalityI) (simp_all add: nth_enumerate_eq scored_run)
  have "mset r = image_mset st_tech (mset ?scored)" unfolding r by (simp only: mset_map mset_stable_sort)
  also have "\<dots> = mset ?base" using tech by (metis mset_map)
  finally have m: "mset r = mset ?base" .
  have t: "(st_rate x < 0) = (\<not> tried (st_tech x))" "tried (st_tech x) \<Longrightarrow> st_rate x = success_rate rs (st_tech x)"
    "tried (st_tech x) \<Longrightarrow> st_attempts x = records_of rs (et_name (st_tech x))" if "x \<in> set ?scored" for x
    using scored_run [of rs "st_idx x" "?base ! st_idx x"] scored_members [OF that] unfolding tried_def by metis+
  have f: "filter (\<lambda>t. \<not> tried t) (map st_tech l) = map st_tech (filter (\<lambda>x. st_rate x < 0) l)" if "set l \<subseteq> set ?scored" for l
    using that by (induction l) (auto simp: t)
  have "filter (\<lambda>t. \<not> tried t) r = filter (\<lambda>t. \<not> tried t) ?base"
    using f [of ?L] f [of ?scored] untried_order [of rs ?base] tech unfolding r by simp
  moreover have "sorted_wrt (\<lambda>a b. tried b \<longrightarrow> tried a \<and> (success_rate rs a > success_rate rs b \<or>
      success_rate rs a = success_rate rs b \<and> records_of rs (et_name a) \<ge> records_of rs (et_name b))) r"
    unfolding r sorted_wrt_map
  proof (rule sorted_wrt_mono_rel)
    show "sorted_wrt (\<lambda>a b. \<not> ranked_less b a) ?L" by (rule ranked_order.sorted_stable_sort) simp
    fix a b assume ab: "a \<in> set ?L" "b \<in> set ?L" "\<not> ranked_less b a"
    then have s: "a \<in> set ?scored" "b \<in> set ?scored" by simp_all
    show "tried (st_tech b) \<longrightarrow> tried (st_tech a) \<and> (success_rate rs (st_tech b) < success_rate rs (st_tech a) \<or>
        success_rate rs (st_tech a) = success_rate rs (st_tech b) \<and>
        records_of rs (et_name (st_tech b)) \<le> records_of rs (et_name (st_tech a)))"
    proof
      assume b: "tried (st_tech b)"
      with ab(3) t(1) [OF s(1)] t(1) [OF s(2)] have "tried (st_tech a)" by (auto simp: ranked_less_def split: if_splits)
      with b ab(3) t(1) [OF s(1)] t(1) [OF s(2)] show "tried (st_tech a) \<and> (success_rate rs (st_tech b) < success_rate rs (st_tech a) \<or>
        success_rate rs (st_tech a) = success_rate rs (st_tech b) \<and>
        records_of rs (et_name (st_tech b)) \<le> records_of rs (et_name (st_tech a)))"
        using t(2,3) [OF s(1)] t(2,3) [OF s(2)] by (auto simp: ranked_less_def split: if_splits)
    qed
  qed
  ultimately show ?thesis using m False by simp
qed

lemma ranking_order_witness:
  "5 \<le> total_records [(''a'', True), (''b'', False), (''a'', True), (''path-dotslash'', True), (''b'', False)] \<and>
   mset (RankedTechniques (run_board [(''a'', True), (''b'', False), (''a'', True), (''path-dotslash'', True), (''b'', False)]) ''cloudflare'')
     = mset (EvasionStrategiesFor ''cloudflare'')"
  using ranking_order [OF refl, of "[(''a'', True), (''b'', False), (''a'', True), (''path-dotslash'', True), (''b'', False)]" "''cloudflare''"]
  by (simp add: total_records_def)

text \<open>A word of a wordlist need not begin with a slash: one technique then loses its first letter, others send a relative path.\<close>

lemma relative_word_mutated:
  "map (\<lambda>t. fst (et_modify t 0 ''admin'' [] ''GET'')) default_techniques =
     [''/'', ''/'', ''admin'', ''admin/'', ''admin/./'', ''admin'', ''//admin'', ''admin'', ''admin'', ''admin/./'', ''/%C0%AFdmin'']"
  by code_simp

text \<open>Two techniques of the default table send the same request, and \<open>head-method\<close> sends the request that was blocked.\<close>

lemma useless_techniques:
  "et_modify (default_techniques ! 4) = et_modify (default_techniques ! 9)"
  "et_modify (default_techniques ! 8) rnd p h meth = (p, h)"
  by (simp_all add: default_techniques_def Bypass403Techniques_def path_technique_def header_technique_def)

text \<open>The probe counts any other status but 403 as a bypass, also a page that does not exist.\<close>

lemma probe_counts_not_found:
  assumes "exec (build (case et_modify t rnd p h meth of (q, _) \<Rightarrow> if q = '''' then p else q) (snd (et_modify t rnd p h meth))) s = (Inr resp, s')"
    "rr_status resp = 404" "et_name t \<noteq> ''''"
  shows "counted (sc_hits (fst (snd (probe_attempt exec build rnd p h meth 403 t board s)))) (et_name t) =
    counted (sc_hits board) (et_name t) + 1"
  using assms by (auto simp: probe_attempt_def scoreboard_record_def Let_def split: prod.splits)

text \<open>The techniques of a vendor have names of their own, so that the scoreboard does not mix them.\<close>

lemma technique_names:
  "list_all (\<lambda>v. distinct (map et_name (EvasionStrategiesFor v)) \<and> [] \<notin> set (map et_name (EvasionStrategiesFor v)))
     [''modsecurity'', ''akamai'', ''imperva'', ''cloudflare'', ''nginx'', ''unknown'']"
  by code_simp

end
