(* ===== verification/Bypass403.thy ===== *)
theory Bypass403
  imports Evasion Filters
begin

text \<open>
  The bypass of a blocked answer, \<open>pkg/engine/bypass403.go\<close>: the list of techniques for a path, what counts as an improvement,
  the loop that sends them until one works, and the bounded number of such tasks. A request is sent by a parameter that
  threads its state; an answer that is missing is an error of it. \<open>String\<close> of an address is a parameter of \<open>net_ops\<close>.
\<close>

section \<open>The techniques of a path\<close>

record bypass_technique =
  bt_name :: string
  bt_path :: string
  bt_headers :: header_map

definition splitBypassPathQuery :: "string \<Rightarrow> string \<times> string" where
  "splitBypassPathQuery reqPath0 =
     (let reqPath = trim_space reqPath0 in
      if reqPath = '''' then ('''', '''')
      else let (p0, q) = (case index_byte (\<lambda>c. c = CHR ''?'') reqPath of None \<Rightarrow> (reqPath, '''') | Some i \<Rightarrow> (take i reqPath, drop i reqPath));
               p = (if p0 = '''' then ''/'' else p0)
        in (if has_prefix p ''/'' then p else ''/'' @ p, q))"

definition path_permutations :: "string \<Rightarrow> string \<Rightarrow> (string \<times> string) list" where
  "path_permutations basePath querySuffix =
     [(''path:%2e'', ''/%2e'' @ trim_prefix basePath ''/'' @ querySuffix),
      (''path:slash-trailing'', trim_suffix basePath ''/'' @ ''/'' @ querySuffix),
      (''path:double-slash'', ''//'' @ trim_prefix basePath ''/'' @ querySuffix),
      (''path:space-suffix'', basePath @ ''%20'' @ querySuffix),
      (''path:json-suffix'', basePath @ ''.json'' @ querySuffix),
      (''path:dotdot-semi'', trim_suffix basePath ''/'' @ ''..;/'' @ querySuffix),
      (''path:dotdot-semi-nested'', trim_suffix basePath ''/'' @ ''/..;/'' @ querySuffix)]"

definition header_spoofs :: "string \<Rightarrow> bypass_technique list" where
  "header_spoofs reqPath =
     [\<lparr>bt_name = ''xff-local'', bt_path = reqPath, bt_headers = [(''X-Forwarded-For'', ''127.0.0.1'')]\<rparr>,
      \<lparr>bt_name = ''custom-ip-auth'', bt_path = reqPath, bt_headers = [(''X-Custom-IP-Authorization'', ''127.0.0.1'')]\<rparr>,
      \<lparr>bt_name = ''originating-ip'', bt_path = reqPath, bt_headers = [(''X-Originating-IP'', ''127.0.0.1'')]\<rparr>,
      \<lparr>bt_name = ''original-url'', bt_path = reqPath, bt_headers = [(''X-Original-URL'', reqPath)]\<rparr>,
      \<lparr>bt_name = ''rewrite-url'', bt_path = reqPath, bt_headers = [(''X-Rewrite-URL'', reqPath)]\<rparr>,
      \<lparr>bt_name = ''root+original-url'', bt_path = ''/'', bt_headers = [(''X-Original-URL'', reqPath)]\<rparr>,
      \<lparr>bt_name = ''root+rewrite-url'', bt_path = ''/'', bt_headers = [(''X-Rewrite-URL'', reqPath)]\<rparr>]"

definition technique_key :: "bypass_technique \<Rightarrow> string" where
  "technique_key t = bt_name t @ ''|'' @ bt_path t @
     concat (map (\<lambda>(k, v). ''|'' @ k @ ''='' @ v) (sorted_items (Some (bt_headers t))))"

definition add_technique :: "string list \<times> bypass_technique list \<Rightarrow> bypass_technique \<Rightarrow> string list \<times> bypass_technique list" where
  "add_technique = (\<lambda>(seen, out) t. if technique_key t \<in> set seen then (seen, out) else (technique_key t # seen, out @ [t]))"

definition build403BypassTechniques :: "string \<Rightarrow> bypass_technique list" where
  "build403BypassTechniques reqPath0 =
     (let reqPath = trim_space reqPath0 in
      if reqPath = '''' then []
      else let (basePath, querySuffix) = splitBypassPathQuery reqPath in
        if basePath = '''' then []
        else
          let perms = map (\<lambda>(n, p). \<lparr>bt_name = n, bt_path = p, bt_headers = []\<rparr>)
                (filter (\<lambda>(n, p). p \<noteq> '''') (path_permutations basePath querySuffix))
          in snd (foldl add_technique (foldl add_technique ([], []) perms) (header_spoofs reqPath)))"

section \<open>An improvement\<close>

definition isMeaningfulAccessImprovement :: "int \<Rightarrow> int \<Rightarrow> bool" where
  "isMeaningfulAccessImprovement originalStatus candidateStatus \<longleftrightarrow>
     (originalStatus = 401 \<or> originalStatus = 403) \<and> 200 \<le> candidateStatus \<and> candidateStatus < 300"

definition isMeaningfulBypassResponse :: "raw_response option \<Rightarrow> raw_response option \<Rightarrow> bool" where
  "isMeaningfulBypassResponse original candidate =
     (case (original, candidate) of
        (Some o1, Some c1) \<Rightarrow>
          if \<not> isMeaningfulAccessImprovement (rr_status o1) (rr_status c1) then False
          else if rr_body o1 \<noteq> [] \<and> length (rr_body o1) = length (rr_body c1) then
            rr_body o1 \<noteq> rr_body c1 \<and> \<not> (simhashBody (rr_body o1) \<noteq> 0 \<and> simhashBody (rr_body o1) = simhashBody (rr_body c1))
          else True
      | _ \<Rightarrow> False)"

section \<open>The loop\<close>

definition formatHeaderBlock :: "header_map \<Rightarrow> string \<Rightarrow> string" where
  "formatHeaderBlock headers blockedPath =
     concat (map (\<lambda>(k, v). wire_line (sanitizeHeaderToken k, sanitizeHeaderToken (replace_str ''{PAYLOAD}'' blockedPath v)))
       (sorted_items (Some headers)))"

definition hostFromURL :: "string \<Rightarrow> string" where
  "hostFromURL raw = (case url_parse raw of None \<Rightarrow> '''' | Some u \<Rightarrow> u_host u)"

definition resolveBypassResultURL :: "net_ops \<Rightarrow> string \<Rightarrow> string \<Rightarrow> string" where
  "resolveBypassResultURL ops baseURL reqPath =
     (case url_parse baseURL of
        None \<Rightarrow> baseURL
      | Some u \<Rightarrow> (case index_byte (\<lambda>c. c = CHR ''?'') reqPath of
            Some i \<Rightarrow> no_text ops (u\<lparr>u_path := take i reqPath, u_query := drop (i + 1) reqPath\<rparr>)
          | None \<Rightarrow> no_text ops (u\<lparr>u_path := reqPath, u_query := ''''\<rparr>)))"

record bypass_snap =
  bs_ua :: string
  bs_body :: string
  bs_save_raw :: bool

record bypass_result =
  br_path :: string
  br_method :: string
  br_status :: int
  br_size :: int
  br_type :: string
  br_url :: string
  br_label :: string
  br_raw :: "(string \<times> string) option"

definition bypass_headers :: "header_map \<Rightarrow> bypass_technique \<Rightarrow> header_map" where
  "bypass_headers base t = foldl (\<lambda>m (k, v). AList.update k v m) base (bt_headers t)"

definition bypass_request :: "bypass_snap \<Rightarrow> string \<Rightarrow> string \<Rightarrow> string \<Rightarrow> header_map \<Rightarrow> bypass_technique \<Rightarrow> string" where
  "bypass_request snap targetURL reqPath meth base t =
     buildRequest meth (bt_path t) (hostFromURL targetURL) (bs_ua snap) (formatHeaderBlock (bypass_headers base t) reqPath) (bs_body snap)"

definition bypass_accepts :: "int \<Rightarrow> raw_response \<Rightarrow> bool" where
  "bypass_accepts baselineSize resp \<longleftrightarrow> isMeaningfulAccessImprovement 403 (rr_status resp) \<and>
     \<not> (0 \<le> baselineSize \<and> int (length (rr_body resp)) = baselineSize)"

definition bypass_result_of ::
  "net_ops \<Rightarrow> bypass_snap \<Rightarrow> string \<Rightarrow> string \<Rightarrow> bypass_technique \<Rightarrow> string \<Rightarrow> raw_response \<Rightarrow> bypass_result" where
  "bypass_result_of ops snap targetURL meth t rawReq resp =
     \<lparr>br_path = bt_path t, br_method = meth, br_status = rr_status resp, br_size = int (length (rr_body resp)),
      br_type = GetHeader resp ''Content-Type'', br_url = resolveBypassResultURL ops targetURL (bt_path t),
      br_label = ''BYPASS: '' @ bt_name t, br_raw = (if bs_save_raw snap then Some (rawReq, rr_raw resp) else None)\<rparr>"

text \<open>\<open>cancelled\<close> is the test of the context before each technique.\<close>

fun bypass_loop ::
  "('s \<Rightarrow> bool) \<Rightarrow> (string \<Rightarrow> 's \<Rightarrow> raw_response result \<times> 's) \<Rightarrow> (bypass_technique \<Rightarrow> string)
   \<Rightarrow> (bypass_technique \<Rightarrow> string \<Rightarrow> raw_response \<Rightarrow> bypass_result) \<Rightarrow> int \<Rightarrow> bypass_technique list \<Rightarrow> 's \<Rightarrow> bypass_result option \<times> 's" where
  "bypass_loop cancelled exec request report baselineSize [] s = (None, s)"
| "bypass_loop cancelled exec request report baselineSize (t # ts) s =
     (if cancelled s then (None, s)
      else case exec (request t) s of
        (Inl _, s') \<Rightarrow> bypass_loop cancelled exec request report baselineSize ts s'
      | (Inr resp, s') \<Rightarrow>
          if bypass_accepts baselineSize resp then (Some (report t (request t) resp), s')
          else bypass_loop cancelled exec request report baselineSize ts s')"

text \<open>The baseline is the value in the context, zero when there is none.\<close>

definition Run403Bypass ::
  "net_ops \<Rightarrow> ('s \<Rightarrow> bool) \<Rightarrow> (string \<Rightarrow> string \<Rightarrow> 's \<Rightarrow> raw_response result \<times> 's) \<Rightarrow> int option
   \<Rightarrow> string \<Rightarrow> string \<Rightarrow> string \<Rightarrow> header_map \<Rightarrow> bypass_snap \<Rightarrow> 's \<Rightarrow> bypass_result option \<times> 's" where
  "Run403Bypass ops cancelled exec baseline targetURL0 reqPath0 meth0 headers snap s =
     (let m = to_upper (trim_space meth0); meth = (if m = '''' then ''GET'' else m);
          targetURL = trim_space targetURL0; reqPath = trim_space reqPath0;
          baselineSize = (case baseline of Some n \<Rightarrow> n | None \<Rightarrow> 0)
      in if targetURL = '''' \<or> reqPath = '''' then (None, s)
         else bypass_loop cancelled (exec targetURL) (bypass_request snap targetURL reqPath meth headers)
                (bypass_result_of ops snap targetURL meth) baselineSize (build403BypassTechniques reqPath) s)"

section \<open>Scheduling\<close>

text \<open>The semaphore and the counter of jobs: a task takes a place of the semaphore or is dropped, and gives it back when it ends.\<close>

record bypass_tasks =
  bk_limit :: nat
  bk_busy :: nat
  bk_jobs :: int

definition schedule403BypassTask :: "bool \<Rightarrow> bypass_tasks \<Rightarrow> bool \<times> bypass_tasks" where
  "schedule403BypassTask enabled k =
     (if enabled \<and> bk_busy k < bk_limit k then (True, k\<lparr>bk_busy := bk_busy k + 1, bk_jobs := bk_jobs k + 1\<rparr>) else (False, k))"

definition bypass_task_done :: "bypass_tasks \<Rightarrow> bypass_tasks" where
  "bypass_task_done k = k\<lparr>bk_busy := bk_busy k - 1, bk_jobs := bk_jobs k - 1\<rparr>"

section \<open>Which techniques are sent\<close>

lemma takeWhile_until: "c \<notin> set n \<Longrightarrow> takeWhile (\<lambda>x. x \<noteq> c) (n @ c # r) = n"
  by (induction n) auto

lemma technique_key_name: "CHR ''|'' \<notin> set (bt_name t) \<Longrightarrow> takeWhile (\<lambda>c. c \<noteq> CHR ''|'') (technique_key t) = bt_name t"
  using takeWhile_until [of "CHR ''|''" "bt_name t"] by (simp add: technique_key_def)

lemma add_all_techniques:
  assumes "\<forall>t \<in> set ts. CHR ''|'' \<notin> set (bt_name t)" "distinct (map bt_name ts)"
    and "\<forall>t \<in> set ts. \<forall>k \<in> set seen. takeWhile (\<lambda>c. c \<noteq> CHR ''|'') k \<noteq> bt_name t"
  shows "foldl add_technique (seen, out) ts = (rev (map technique_key ts) @ seen, out @ ts)"
  using assms
proof (induction ts arbitrary: seen out)
  case (Cons t ts)
  then have "technique_key t \<notin> set seen" using technique_key_name [of t] by auto
  moreover have "foldl add_technique (technique_key t # seen, out @ [t]) ts = (rev (map technique_key ts) @ technique_key t # seen, (out @ [t]) @ ts)"
    using Cons.prems technique_key_name [of t] by (intro Cons.IH) auto
  ultimately show ?case by (simp add: add_technique_def)
qed simp

lemma drop_while_idem: "dropWhile P (dropWhile P xs) = dropWhile P xs"
  by (induction xs) auto

lemma trim_by_idem: "dropWhile P (rev (dropWhile P (rev (dropWhile P xs)))) = rev (dropWhile P (rev (dropWhile P xs)))"
proof -
  let ?d = "dropWhile P xs" and ?e = "rev (dropWhile P (rev (dropWhile P xs)))"
  obtain z where z: "?d = ?e @ z" using suffix_dropWhile [of P "rev ?d"] by (metis prefixE suffix_to_prefix rev_rev_ident)
  show ?thesis
  proof (cases ?e)
    case (Cons c ys)
    then have "\<not> P c" using z by (metis append_Cons hd_dropWhile list.sel(1) list.simps(3))
    then show ?thesis unfolding Cons by simp
  next
    case Nil
    show ?thesis unfolding Nil by simp
  qed
qed

lemma trim_space_idem: "trim_space (trim_space s) = trim_space s"
  by (simp only: trim_space_def trim_by_def trim_left_def trim_right_def trim_by_idem rev_rev_ident drop_while_idem)

definition bypass_names :: "string list" where
  "bypass_names = [''path:%2e'', ''path:slash-trailing'', ''path:double-slash'', ''path:space-suffix'', ''path:json-suffix'',
     ''path:dotdot-semi'', ''path:dotdot-semi-nested'', ''xff-local'', ''custom-ip-auth'', ''originating-ip'', ''original-url'',
     ''rewrite-url'', ''root+original-url'', ''root+rewrite-url'']"

lemma split_bypass_path:
  assumes "trim_space reqPath \<noteq> ''''" "splitBypassPathQuery (trim_space reqPath) = (b, q)"
  shows "b \<noteq> ''''"
proof (cases "index_byte (\<lambda>c. c = CHR ''?'') (trim_space reqPath)")
  case None
  with assms show ?thesis by (auto simp: splitBypassPathQuery_def Let_def trim_space_idem has_prefix_def split: if_splits)
next
  case (Some i)
  with assms show ?thesis by (auto simp: splitBypassPathQuery_def Let_def trim_space_idem has_prefix_def split: if_splits)
qed

lemma build403_techniques:
  assumes "trim_space reqPath \<noteq> ''''" "splitBypassPathQuery (trim_space reqPath) = (b, q)"
  shows "build403BypassTechniques reqPath =
    map (\<lambda>(n, p). \<lparr>bt_name = n, bt_path = p, bt_headers = []\<rparr>) (path_permutations b q) @ header_spoofs (trim_space reqPath)"
proof -
  define perms where "perms = map (\<lambda>(n, p). \<lparr>bt_name = n, bt_path = p, bt_headers = []\<rparr>) (path_permutations b q)"
  define ts where "ts = perms @ header_spoofs (trim_space reqPath)"
  have "b \<noteq> ''''" using split_bypass_path assms .
  then have f: "filter (\<lambda>(n, p). p \<noteq> '''') (path_permutations b q) = path_permutations b q"
    by (simp add: path_permutations_def)
  have n: "map bt_name ts = bypass_names"
    by (simp add: ts_def perms_def path_permutations_def header_spoofs_def bypass_names_def)
  have "distinct bypass_names" "list_all (\<lambda>x. CHR ''|'' \<notin> set x) bypass_names" by code_simp+
  then have "distinct (map bt_name ts)" "\<forall>t \<in> set ts. CHR ''|'' \<notin> set (bt_name t)"
    unfolding n [symmetric] by (simp_all add: list_all_iff)
  then have "foldl add_technique ([], []) ts = (rev (map technique_key ts), ts)"
    using add_all_techniques [of ts "[]" "[]"] by simp
  then have "snd (foldl add_technique (foldl add_technique ([], []) perms) (header_spoofs (trim_space reqPath))) = ts"
    by (simp add: ts_def)
  then show ?thesis
    using assms \<open>b \<noteq> ''''\<close> by (simp add: build403BypassTechniques_def Let_def f ts_def perms_def)
qed

text \<open>Seven paths and seven headers: the names are distinct, so that the test for duplicates never drops a technique.\<close>

lemma build403_names:
  assumes "trim_space reqPath \<noteq> ''''" shows "map bt_name (build403BypassTechniques reqPath) = bypass_names"
proof -
  obtain b q where s: "splitBypassPathQuery (trim_space reqPath) = (b, q)" by fastforce
  show ?thesis
    by (simp add: build403_techniques [OF assms s] path_permutations_def header_spoofs_def bypass_names_def)
qed

section \<open>The first technique that works\<close>

definition technique_works :: "(string \<Rightarrow> raw_response result) \<Rightarrow> (bypass_technique \<Rightarrow> string) \<Rightarrow> int \<Rightarrow> bypass_technique \<Rightarrow> bool" where
  "technique_works ans request b t = (case ans (request t) of Inl _ \<Rightarrow> False | Inr resp \<Rightarrow> bypass_accepts b resp)"

lemma bypass_loop_first:
  "bypass_loop (\<lambda>_. False) (\<lambda>raw sent. (ans raw, sent @ [raw])) request report b ts sent =
    (case dropWhile (\<lambda>t. \<not> technique_works ans request b t) ts of
       [] \<Rightarrow> (None, sent @ map request ts)
     | t # _ \<Rightarrow> (case ans (request t) of Inr resp \<Rightarrow> Some (report t (request t) resp) | Inl _ \<Rightarrow> None,
         sent @ map request (takeWhile (\<lambda>t. \<not> technique_works ans request b t) ts @ [t])))"
proof (induction ts arbitrary: sent)
  case (Cons t ts)
  show ?case
  proof (cases "technique_works ans request b t")
    case True
    then show ?thesis by (cases "ans (request t)") (simp_all add: technique_works_def)
  next
    case False
    then have "bypass_loop (\<lambda>_. False) (\<lambda>raw sent. (ans raw, sent @ [raw])) request report b (t # ts) sent =
        bypass_loop (\<lambda>_. False) (\<lambda>raw sent. (ans raw, sent @ [raw])) request report b ts (sent @ [request t])"
      by (cases "ans (request t)") (simp_all add: technique_works_def)
    then show ?thesis using False by (cases "dropWhile (\<lambda>t. \<not> technique_works ans request b t) ts") (simp_all del: bypass_loop.simps dropWhile_eq_Nil_conv add: Cons.IH)
  qed
qed simp

text \<open>C33: The bypass of a blocked path sends the requests of its fourteen techniques in their order and stops after the first
  whose answer has a status 2xx and a body of another size than the blocked one; that answer, and no other, is reported,
  with the path of the technique. Without such an answer every technique is sent once and nothing is reported.\<close>

theorem bypass_first_success:
  fixes snap :: bypass_snap and headers :: header_map and b :: int
  assumes exec: "\<And>u raw sent. exec u raw sent = (ans u raw, sent @ [raw])"
    and ne: "trim_space targetURL \<noteq> ''''" "trim_space reqPath \<noteq> ''''" "to_upper (trim_space meth) = m" "m \<noteq> ''''"
  defines "req \<equiv> bypass_request snap (trim_space targetURL) (trim_space reqPath) m headers"
    and "works \<equiv> \<lambda>t. \<exists>resp. ans (trim_space targetURL) (bypass_request snap (trim_space targetURL) (trim_space reqPath) m headers t) = Inr resp \<and>
      200 \<le> rr_status resp \<and> rr_status resp < 300 \<and> \<not> (0 \<le> b \<and> int (length (rr_body resp)) = b)"
    and "ts \<equiv> build403BypassTechniques (trim_space reqPath)"
  shows "map bt_name ts = bypass_names \<and>
    Run403Bypass ops (\<lambda>_. False) exec (Some b) targetURL reqPath meth headers snap [] =
    (case dropWhile (\<lambda>t. \<not> works t) ts of
       [] \<Rightarrow> (None, map req ts)
     | t # _ \<Rightarrow> (case ans (trim_space targetURL) (req t) of
           Inr resp \<Rightarrow> Some (bypass_result_of ops snap (trim_space targetURL) m t (req t) resp) | Inl _ \<Rightarrow> None,
         map req (takeWhile (\<lambda>t. \<not> works t) ts @ [t])))"
proof
  let ?u = "trim_space targetURL"
  show "map bt_name ts = bypass_names" unfolding ts_def using ne(2) by (intro build403_names) (simp add: trim_space_idem)
  have w: "works = technique_works (ans ?u) req b"
    by (intro ext) (auto simp: works_def req_def technique_works_def bypass_accepts_def isMeaningfulAccessImprovement_def split: sum.splits)
  have "Run403Bypass ops (\<lambda>_. False) exec (Some b) targetURL reqPath meth headers snap [] =
      bypass_loop (\<lambda>_. False) (exec ?u) req (bypass_result_of ops snap ?u m) b ts []"
    using ne by (simp add: Run403Bypass_def Let_def req_def ts_def)
  also have "\<dots> = (case dropWhile (\<lambda>t. \<not> works t) ts of
       [] \<Rightarrow> (None, map req ts)
     | t # _ \<Rightarrow> (case ans ?u (req t) of Inr resp \<Rightarrow> Some (bypass_result_of ops snap ?u m t (req t) resp) | Inl _ \<Rightarrow> None,
         map req (takeWhile (\<lambda>t. \<not> works t) ts @ [t])))"
  proof -
    have "exec ?u = (\<lambda>raw sent. (ans ?u raw, sent @ [raw]))" by (intro ext) (rule exec)
    then show ?thesis using bypass_loop_first [of "ans ?u" req "bypass_result_of ops snap ?u m" b ts "[]"] unfolding w append_Nil by (simp only:)
  qed
  finally show "Run403Bypass ops (\<lambda>_. False) exec (Some b) targetURL reqPath meth headers snap [] = \<dots>" .
qed

definition demo_granted :: raw_response where
  "demo_granted = \<lparr>rr_status = 200, rr_headers = '''', rr_map = None, rr_body = ''secret'', rr_raw = '''', rr_complete = True, rr_encoded = False\<rparr>"

definition demo_bypass_snap :: bypass_snap where
  "demo_bypass_snap = \<lparr>bs_ua = ''ua'', bs_body = '''', bs_save_raw = False\<rparr>"

lemma bypass_first_success_witness:
  "map_option br_label (fst (Run403Bypass demo_ops (\<lambda>_. False) (\<lambda>u raw sent. (Inr demo_granted, sent @ [raw])) (Some 4)
     ''http://h/admin'' ''/admin'' ''GET'' [] demo_bypass_snap [])) = Some ''BYPASS: path:%2e''"
proof -
  have t: "trim_space ''http://h/admin'' = ''http://h/admin''" "trim_space ''/admin'' = ''/admin''" "to_upper (trim_space ''GET'') = ''GET''"
    by code_simp+
  define ts where "ts = build403BypassTechniques ''/admin''"
  note f = bypass_first_success [where exec = "\<lambda>u raw sent. (Inr demo_granted, sent @ [raw])" and ans = "\<lambda>u raw. Inr demo_granted"
      and targetURL = "''http://h/admin''" and reqPath = "''/admin''" and meth = "''GET''" and m = "''GET''" and b = 4 and headers = "[]"
      and snap = demo_bypass_snap and ops = demo_ops, OF refl, unfolded t, folded ts_def]
  then obtain u us where u: "ts = u # us" "bt_name u = ''path:%2e''" by (cases ts) (auto simp: bypass_names_def)
  have "rr_status demo_granted = 200" "length (rr_body demo_granted) = 6" by (simp_all add: demo_granted_def)
  then show ?thesis using f unfolding u(1) by (simp add: bypass_result_of_def u(2))
qed

text \<open>An answer to HEAD has no body. When the blocked answer announced no length, the baseline is zero and every answer has its
  size: whatever the server grants, nothing is reported.\<close>

lemma head_bypass_hidden:
  assumes "\<And>raw resp s s'. exec (trim_space targetURL) raw s = (Inr resp, s') \<Longrightarrow> rr_body resp = []"
  shows "fst (Run403Bypass ops cancelled exec (Some 0) targetURL reqPath ''HEAD'' headers snap s) = None"
proof -
  have "fst (bypass_loop cancelled (exec (trim_space targetURL)) request report 0 ts s) = None" for request report ts s
    by (induction ts arbitrary: s) (auto simp: bypass_accepts_def dest: assms split: prod.split sum.split)
  then show ?thesis by (auto simp: Run403Bypass_def Let_def)
qed

text \<open>The dot segment is glued to the path: another resource is asked for.\<close>

lemma dot_segment_glued: "map bt_path (build403BypassTechniques ''/admin'') ! 0 = ''/%2eadmin''"
  by code_simp

text \<open>The template of the body is sent as it is, with the placeholder, and no header announces it.\<close>

lemma bypass_body_unfilled:
  "bs_body snap = ''id={PAYLOAD}'' \<Longrightarrow>
   bypass_request snap u p meth [] t = request_head meth (bt_path t) (hostFromURL u) (bs_ua snap) (formatHeaderBlock (bypass_headers [] t) p) @ ''id={PAYLOAD}''"
  by (simp add: bypass_request_def buildRequest_def)

lemma bypass_tasks_bounded:
  "bk_busy k \<le> bk_limit k \<Longrightarrow> bk_busy (snd (schedule403BypassTask e k)) \<le> bk_limit k \<and>
   bk_jobs (snd (schedule403BypassTask e k)) - int (bk_busy (snd (schedule403BypassTask e k))) = bk_jobs k - int (bk_busy k)"
  by (simp add: schedule403BypassTask_def)

end
