(* ===== verification/Eagle.thy ===== *)
theory Eagle
  imports GoText
begin

text \<open>
  The comparison with a previous scan, \<open>pkg/engine/engine_eagle.go\<close>: loading the lines of its report and the drift of a
  new result. SHA-256 of a body in hexadecimal and the decoding of a line are parameters. A row of the report embeds a
  result, whose own \<open>UnmarshalJSON\<close> is the method of the row: the hash that the row declares beside it is never decoded.
\<close>

record eagle_result =
  er_method :: string
  er_path :: string
  er_status :: int
  er_size :: int
  er_words :: int
  er_response :: string
  er_response_bytes :: string

record previous_row =
  pw_result :: eagle_result
  pw_hash :: string

record previous_entry =
  pe_status :: int
  pe_size :: int
  pe_words :: int
  pe_hash :: string
  pe_response :: string

type_synonym previous_state = "(string, previous_entry) gomap"

definition previousScanKey :: "string \<Rightarrow> string \<Rightarrow> string" where
  "previousScanKey meth path = (let m = to_upper (trim_space meth) in if m = '''' then path else m @ [CHR 0x00] @ path)"

definition extractStoredResponseBody :: "string \<Rightarrow> string" where
  "extractStoredResponseBody raw =
     (case index_str raw [CHR 0x0D, CHR 0x0A, CHR 0x0D, CHR 0x0A] of
        Some i \<Rightarrow> drop (i + 4) raw
      | None \<Rightarrow> (case index_str raw [CHR 0x0A, CHR 0x0A] of Some i \<Rightarrow> drop (i + 2) raw | None \<Rightarrow> raw))"

definition eagleBodyHash :: "(string \<Rightarrow> string) \<Rightarrow> string \<Rightarrow> string" where
  "eagleBodyHash sha body = (if body = '''' then '''' else sha body)"

definition previousBodyHashFromRow :: "(string \<Rightarrow> string) \<Rightarrow> previous_row \<Rightarrow> string" where
  "previousBodyHashFromRow sha row =
     (if pw_hash row \<noteq> '''' then pw_hash row
      else if er_response_bytes (pw_result row) \<noteq> '''' then eagleBodyHash sha (extractStoredResponseBody (er_response_bytes (pw_result row)))
      else if er_response (pw_result row) \<noteq> '''' then eagleBodyHash sha (extractStoredResponseBody (er_response (pw_result row)))
      else '''')"

definition previousResponseBytesFromRow :: "previous_row \<Rightarrow> string" where
  "previousResponseBytesFromRow row =
     (if er_response_bytes (pw_result row) \<noteq> '''' then er_response_bytes (pw_result row) else er_response (pw_result row))"

definition decode_row :: "(string \<Rightarrow> eagle_result option) \<Rightarrow> string \<Rightarrow> previous_row option" where
  "decode_row unmarshal line = map_option (\<lambda>r. \<lparr>pw_result = r, pw_hash = ''''\<rparr>) (unmarshal line)"

definition entry_of_row :: "(string \<Rightarrow> string) \<Rightarrow> previous_row \<Rightarrow> previous_entry" where
  "entry_of_row sha row =
     \<lparr>pe_status = er_status (pw_result row), pe_size = er_size (pw_result row), pe_words = er_words (pw_result row),
      pe_hash = previousBodyHashFromRow sha row, pe_response = previousResponseBytesFromRow row\<rparr>"

definition load_line :: "(string \<Rightarrow> string) \<Rightarrow> (string \<Rightarrow> eagle_result option) \<Rightarrow> (string \<times> previous_entry) list \<Rightarrow> string
    \<Rightarrow> (string \<times> previous_entry) list" where
  "load_line sha unmarshal m line =
     (case decode_row unmarshal line of
        None \<Rightarrow> m
      | Some row \<Rightarrow> AList.update (previousScanKey (er_method (pw_result row)) (er_path (pw_result row))) (entry_of_row sha row) m)"

text \<open>The lines the scanner delivers, and its error at the end, if any. A missing file is an error before anything is done.\<close>

definition LoadPreviousScan :: "(string \<Rightarrow> string) \<Rightarrow> (string \<Rightarrow> eagle_result option) \<Rightarrow> (string list \<times> string option) result
    \<Rightarrow> previous_state \<Rightarrow> string option \<times> previous_state" where
  "LoadPreviousScan sha unmarshal file st =
     (case file of
        Inl e \<Rightarrow> (Some e, st)
      | Inr (lines, err) \<Rightarrow> (err, Some (foldl (load_line sha unmarshal) (gm_items st) lines)))"

definition lookupPreviousScan :: "previous_state \<Rightarrow> string \<Rightarrow> string \<Rightarrow> previous_entry option" where
  "lookupPreviousScan st meth path =
     (case st of
        None \<Rightarrow> None
      | Some m \<Rightarrow> (case map_of m (previousScanKey meth path) of Some prev \<Rightarrow> Some prev | None \<Rightarrow> map_of m path))"

record drift =
  dr_alert :: bool
  dr_new :: bool
  dr_status :: bool
  dr_size :: bool
  dr_content :: bool
  dr_old_status :: int
  dr_old_size :: int
  dr_old_words :: int
  dr_delta :: int
  dr_previous :: string

definition no_drift :: drift where
  "no_drift = \<lparr>dr_alert = False, dr_new = False, dr_status = False, dr_size = False, dr_content = False, dr_old_status = 0,
     dr_old_size = 0, dr_old_words = 0, dr_delta = 0, dr_previous = ''''\<rparr>"

text \<open>The fields that \<open>applyEagleDrift\<close> sets in a fresh result.\<close>

definition applyEagleDrift :: "previous_state \<Rightarrow> string \<Rightarrow> string \<Rightarrow> int \<Rightarrow> int \<Rightarrow> string \<Rightarrow> drift" where
  "applyEagleDrift st meth path status bodySize bodyHash =
     (case lookupPreviousScan st meth path of
        None \<Rightarrow> no_drift\<lparr>dr_alert := True, dr_new := True\<rparr>
      | Some prev \<Rightarrow>
          let d1 = (if pe_status prev \<noteq> status
                    then no_drift\<lparr>dr_alert := True, dr_status := True, dr_old_status := pe_status prev\<rparr> else no_drift);
              d2 = (if pe_size prev \<ge> 0 \<and> bodySize \<ge> 0 \<and> pe_size prev \<noteq> bodySize
                    then d1\<lparr>dr_alert := True, dr_size := True, dr_old_size := pe_size prev, dr_delta := \<bar>bodySize - pe_size prev\<bar>\<rparr> else d1);
              d3 = (if pe_hash prev \<noteq> '''' \<and> bodyHash \<noteq> '''' \<and> pe_hash prev \<noteq> bodyHash
                    then (if dr_old_size d2 = 0 \<and> pe_size prev \<noteq> 0 then d2\<lparr>dr_old_size := pe_size prev\<rparr> else d2)
                         \<lparr>dr_alert := True, dr_content := True, dr_old_words := pe_words prev\<rparr>
                    else d2)
          in if dr_alert d3 \<and> pe_response prev \<noteq> '''' then d3\<lparr>dr_previous := pe_response prev\<rparr> else d3)"

section \<open>The comparison\<close>

definition loaded_rows :: "(string \<Rightarrow> eagle_result option) \<Rightarrow> string list \<Rightarrow> string \<Rightarrow> eagle_result list" where
  "loaded_rows unmarshal lines k = filter (\<lambda>r. previousScanKey (er_method r) (er_path r) = k) (List.map_filter unmarshal lines)"

definition matching_rows :: "(string \<Rightarrow> eagle_result option) \<Rightarrow> string list \<Rightarrow> string \<Rightarrow> string \<Rightarrow> eagle_result list" where
  "matching_rows unmarshal lines meth path =
     (let rs = loaded_rows unmarshal lines (previousScanKey meth path) in if rs \<noteq> [] then rs else loaded_rows unmarshal lines path)"

definition stored_hash :: "(string \<Rightarrow> string) \<Rightarrow> eagle_result \<Rightarrow> string" where
  "stored_hash sha r = (let raw = (if er_response_bytes r \<noteq> '''' then er_response_bytes r else er_response r) in
     if raw = '''' then '''' else eagleBodyHash sha (extractStoredResponseBody raw))"

lemma map_filter_append: "List.map_filter f (xs @ ys) = List.map_filter f xs @ List.map_filter f ys"
  by (simp add: List.map_filter_def)

lemma load_lines:
  "map_of (foldl (load_line sha unmarshal) [] lines) k =
    (if loaded_rows unmarshal lines k = [] then None
     else Some (entry_of_row sha \<lparr>pw_result = last (loaded_rows unmarshal lines k), pw_hash = ''''\<rparr>))"
proof (induction lines rule: rev_induct)
  case (snoc line lines)
  then show ?case
    by (cases "unmarshal line")
       (auto simp: load_line_def decode_row_def loaded_rows_def map_filter_append List.map_filter_simps update_conv)
qed (simp add: loaded_rows_def List.map_filter_simps)

text \<open>After a previous report was loaded into an empty state, a new result raises an alert exactly when the report has no row
  for its method and path (nor one without a method), or the last such row has another status, another known size, or
  a stored response whose body has another hash; the flags say which, and the previous values are those of that row.\<close>

theorem eagle_drift_exact:
  fixes unmarshal :: "string \<Rightarrow> eagle_result option" and meth path h :: string and status bodySize :: int
  assumes load: "LoadPreviousScan sha unmarshal (Inr (lines, err)) None = (err', st)"
  defines "rows \<equiv> matching_rows unmarshal lines meth path"
    and "old \<equiv> last (matching_rows unmarshal lines meth path)"
    and "d \<equiv> applyEagleDrift st meth path status bodySize h"
  shows "(dr_new d \<longleftrightarrow> rows = []) \<and>
    (rows \<noteq> [] \<longrightarrow>
      (dr_status d \<longleftrightarrow> er_status old \<noteq> status) \<and>
      (dr_size d \<longleftrightarrow> 0 \<le> er_size old \<and> 0 \<le> bodySize \<and> er_size old \<noteq> bodySize) \<and>
      (dr_content d \<longleftrightarrow> stored_hash sha old \<noteq> '''' \<and> h \<noteq> '''' \<and> stored_hash sha old \<noteq> h) \<and>
      (dr_size d \<longrightarrow> dr_old_size d = er_size old \<and> dr_delta d = \<bar>bodySize - er_size old\<bar>) \<and>
      (dr_status d \<longrightarrow> dr_old_status d = er_status old)) \<and>
    (dr_alert d \<longleftrightarrow> dr_new d \<or> dr_status d \<or> dr_size d \<or> dr_content d)"
proof -
  have st: "st = Some (foldl (load_line sha unmarshal) [] lines)" using load by (simp add: LoadPreviousScan_def gm_items_def)
  have l: "lookupPreviousScan st meth path = (if rows = [] then None else Some (entry_of_row sha \<lparr>pw_result = old, pw_hash = ''''\<rparr>))"
    by (simp add: lookupPreviousScan_def st load_lines rows_def old_def matching_rows_def Let_def)
  show ?thesis
  proof (cases "rows = []")
    case True
    then show ?thesis by (simp add: d_def applyEagleDrift_def l no_drift_def)
  next
    case False
    have e: "pe_status (entry_of_row sha \<lparr>pw_result = old, pw_hash = ''''\<rparr>) = er_status old"
      "pe_size (entry_of_row sha \<lparr>pw_result = old, pw_hash = ''''\<rparr>) = er_size old"
      "pe_hash (entry_of_row sha \<lparr>pw_result = old, pw_hash = ''''\<rparr>) = stored_hash sha old"
      by (simp_all add: entry_of_row_def previousBodyHashFromRow_def stored_hash_def Let_def)
    show ?thesis
      using False by (simp add: d_def applyEagleDrift_def l e no_drift_def Let_def)
  qed
qed

definition demo_eagle :: eagle_result where
  "demo_eagle = \<lparr>er_method = ''GET'', er_path = ''/a'', er_status = 200, er_size = 5, er_words = 1, er_response = '''', er_response_bytes = ''''\<rparr>"

lemma eagle_drift_exact_witness:
  "dr_alert (applyEagleDrift (snd (LoadPreviousScan id (\<lambda>_. Some demo_eagle) (Inr ([''line''], None)) None)) ''GET'' ''/a'' 200 7 ''h'')"
proof -
  have "matching_rows (\<lambda>_. Some demo_eagle) [''line''] ''GET'' ''/a'' = [demo_eagle]" by code_simp
  then show ?thesis
    using eagle_drift_exact [OF prod.collapse [symmetric], of id "\<lambda>_. Some demo_eagle" "[''line'']" None "''GET''" "''/a''" 200 7 "''h''"]
    by (simp add: demo_eagle_def)
qed

text \<open>Without stored responses no change of content is ever seen, also when the report has the hashes of the bodies.\<close>

lemma content_drift_needs_raw:
  assumes "\<forall>r \<in> set (matching_rows unmarshal lines meth path). er_response r = '''' \<and> er_response_bytes r = ''''"
    and "matching_rows unmarshal lines meth path \<noteq> []"
  shows "stored_hash sha (last (matching_rows unmarshal lines meth path)) = ''''"
  using assms last_in_set [OF assms(2)] by (simp add: stored_hash_def Let_def)

text \<open>Without a report every result is an alert.\<close>

lemma no_baseline_alerts: "dr_alert (applyEagleDrift None meth path status bodySize h)"
  by (simp add: applyEagleDrift_def lookupPreviousScan_def no_drift_def)

end
