(* ===== verification/HarvestText.thy ===== *)
theory HarvestText
  imports ParamFuzz Sanitizer
begin

text \<open>
  The texts of harvesting, \<open>pkg/engine/harvest.go\<close>: what is taken from a script, a page, a document of an interface and an
  introspection, and how a candidate becomes a path of the target. The regular expressions, the parsers of HTML, JSON, YAML and
  media types, and the writing and resolving of addresses (\<open>net_ops\<close>) are parameters.
\<close>

record harvest_ops =
  ho_net :: net_ops
  ho_paths :: "string \<Rightarrow> string list"
  ho_js :: "string \<Rightarrow> string list list"
  ho_hints :: "string \<Rightarrow> string list"
  ho_html :: "string \<Rightarrow> html_node option"
  ho_json :: "string \<Rightarrow> json option"
  ho_openapi_json :: "string \<Rightarrow> (string list \<times> string list) option"
  ho_openapi_yaml :: "string \<Rightarrow> (string list \<times> string list) option"
  ho_graphql :: "string \<Rightarrow> (string \<times> string list) list option"
  ho_media :: "string \<Rightarrow> string option"

section \<open>Names and duplicates\<close>

fun dedupe_from :: "string list \<Rightarrow> string list \<Rightarrow> string list" where
  "dedupe_from seen [] = []"
| "dedupe_from seen (s # ss) = (if s = '''' \<or> s \<in> set seen then dedupe_from seen ss else s # dedupe_from (s # seen) ss)"

definition dedupeHarvestVariants :: "string list \<Rightarrow> string list" where
  "dedupeHarvestVariants ss = dedupe_from [] ss"

text \<open>Every text but the empty one, once.\<close>

lemma dedupe_from_facts:
  "distinct (dedupe_from seen ss) \<and> set (dedupe_from seen ss) = {s \<in> set ss. s \<noteq> '''' \<and> s \<notin> set seen}"
  by (induction seen ss rule: dedupe_from.induct) auto

lemma dedupe_facts: "distinct (dedupeHarvestVariants ss) \<and> set (dedupeHarvestVariants ss) = {s \<in> set ss. s \<noteq> ''''}"
  using dedupe_from_facts [of "[]" ss] by (simp add: dedupeHarvestVariants_def)

lemma dropWhile_shorter: "dropWhile P xs = d # r \<Longrightarrow> length r < length xs"
  using length_dropWhile_le [of P xs] by simp

text \<open>The two regular expressions of \<open>toSnakeCase\<close>: an underscore before the last capital of a run that a small letter
  follows, and one between a small letter or digit and a capital.\<close>

function acronym_split :: "string \<Rightarrow> string" where
  "acronym_split [] = []"
| "acronym_split (c # s) =
     (if \<not> is_upper c then c # acronym_split s
      else let run = takeWhile is_upper (c # s) in
        case dropWhile is_upper (c # s) of
          [] \<Rightarrow> run
        | d # r \<Rightarrow> if length run \<ge> 2 \<and> is_lower d then butlast run @ ''_'' @ [last run, d] @ acronym_split r
                   else run @ [d] @ acronym_split r)"
  by pat_completeness auto

termination
  by (relation "measure length") (auto dest!: dropWhile_shorter)

fun camel_split :: "string \<Rightarrow> string" where
  "camel_split (c # d # r) =
     (if (is_lower c \<or> is_digit c) \<and> is_upper d then c # CHR ''_'' # d # camel_split r else c # camel_split (d # r))"
| "camel_split s = s"

definition toSnakeCase :: "string \<Rightarrow> string" where
  "toSnakeCase s =
     to_lower (trim_by (\<lambda>c. c = CHR ''_'')
       (replace_str ''__'' ''_'' (replace_byte (CHR '' '') ''_'' (replace_byte (CHR ''-'') ''_'' (camel_split (acronym_split s))))))"

definition keywordVariants :: "string \<Rightarrow> string list" where
  "keywordVariants raw0 =
     (let raw = trim_space raw0; snake = toSnakeCase raw; kebab = replace_byte (CHR ''_'') ''-'' snake in
      if raw = '''' then []
      else dedupeHarvestVariants ([raw] @ (if snake \<noteq> raw then [snake] else []) @ (if kebab \<noteq> raw \<and> kebab \<noteq> snake then [kebab] else [])))"

section \<open>Addresses\<close>

definition quote_mark :: "char \<Rightarrow> bool" where
  "quote_mark c \<longleftrightarrow> c \<in> {CHR 0x22, CHR 0x27, CHR 0x60}"

definition clean_ref :: "string \<Rightarrow> string" where
  "clean_ref s = trim_space (trim_by quote_mark s)"

definition path_and_query :: "url \<Rightarrow> string" where
  "path_and_query u = u_path u @ (if u_query u \<noteq> '''' then ''?'' @ u_query u else '''')"

definition sameHarvestOrigin :: "url option \<Rightarrow> url option \<Rightarrow> bool" where
  "sameHarvestOrigin base other =
     (case (base, other) of
        (Some b, Some p) \<Rightarrow> equal_fold (u_scheme b) (u_scheme p) \<and> equal_fold (u_host b) (u_host p)
      | _ \<Rightarrow> False)"

definition resolveHarvestURL :: "net_ops \<Rightarrow> url option \<Rightarrow> string \<Rightarrow> string" where
  "resolveHarvestURL ops base ref0 =
     (case base of
        None \<Rightarrow> ref0
      | Some b \<Rightarrow>
          let ref = clean_ref ref0 in
          if ref = '''' then ''''
          else case url_parse ref of
            None \<Rightarrow> ''''
          | Some p \<Rightarrow>
              if u_scheme p \<noteq> '''' then (if sameHarvestOrigin base (Some p) then no_text ops p else '''')
              else let resolved = no_resolve ops b p in
                if \<not> sameHarvestOrigin base (Some resolved) then ''''
                else if no_text ops resolved = '''' then ref else no_text ops resolved)"

text \<open>A reference as a path of the target, if it is one.\<close>

definition resolveHarvestRef :: "net_ops \<Rightarrow> url option \<Rightarrow> string \<Rightarrow> string option" where
  "resolveHarvestRef ops base ref0 =
     (let ref = clean_ref ref0;
          finish = (\<lambda>r. Some (trim_space (if base \<noteq> None \<and> \<not> has_prefix r ''/'' \<and> contains_str r ''/'' then ''/'' @ r else r)))
      in if ref = '''' \<or> has_prefix (to_lower ref) ''javascript:'' \<or> has_prefix (to_lower ref) ''data:'' then None
         else case url_parse ref of
           None \<Rightarrow> None
         | Some p \<Rightarrow>
             if u_scheme p \<noteq> '''' then
               (if base \<noteq> None \<and> \<not> sameHarvestOrigin base (Some p) then None else finish (path_and_query p))
             else if has_prefix ref ''//'' then
               (case base of
                  None \<Rightarrow> None
                | Some b \<Rightarrow> let q = no_resolve ops b p in
                    if \<not> sameHarvestOrigin base (Some q) then None else finish (path_and_query q))
             else finish ref)"

definition escaped_path :: "net_ops \<Rightarrow> url \<Rightarrow> string" where
  "escaped_path ops p = (if no_escaped ops p = '''' then ''/'' else no_escaped ops p)"

text \<open>The query of a candidate keeps its names and loses its values; the empty text when there is none.\<close>

definition normalizeHarvestQuery :: "net_ops \<Rightarrow> string \<Rightarrow> string" where
  "normalizeHarvestQuery ops candidate =
     (if snd (split_two (CHR ''?'') candidate) = None then ''''
      else case url_parse candidate of
        None \<Rightarrow> ''''
      | Some p \<Rightarrow>
          let query = parse_query (u_query p) in
          if query = [] then trim_suffix candidate ''?''
          else escaped_path ops p @ ''?'' @ query_encode (map (\<lambda>(k, _). (k, [''''])) query))"

definition canonical_tail :: "net_ops \<Rightarrow> string \<Rightarrow> string" where
  "canonical_tail ops c3 =
     (let c4 = (if normalizeHarvestQuery ops c3 \<noteq> '''' then normalizeHarvestQuery ops c3 else c3);
          c5 = (if contains_str c4 ''/'' \<and> \<not> has_prefix c4 ''/'' then ''/'' @ c4 else c4)
      in if c5 = ''/'' \<or> list_ex is_space c5 then '''' else c5)"

text \<open>The steps that the two canonical forms share; \<open>same\<close> is their test of the origin.\<close>

definition canonical_candidate :: "(url option \<Rightarrow> url option \<Rightarrow> bool) \<Rightarrow> net_ops \<Rightarrow> url option \<Rightarrow> string \<Rightarrow> string" where
  "canonical_candidate same ops base candidate =
     (let c0 = clean_ref candidate in
      if c0 = '''' then ''''
      else
        let c1 = (case resolveHarvestRef ops base c0 of Some r \<Rightarrow> r | None \<Rightarrow> c0);
            c2 = trim_space (filter (\<lambda>c. c \<noteq> CHR 0x0A) (filter (\<lambda>c. c \<noteq> CHR 0x0D) c1))
        in if c2 = '''' \<or> has_prefix c2 ''javascript:'' \<or> has_prefix c2 ''data:'' then ''''
           else case (if contains_str c2 ''://'' then url_parse c2 else None) of
             Some p \<Rightarrow> if base \<noteq> None \<and> \<not> same base (Some p) then '''' else canonical_tail ops (path_and_query p)
           | None \<Rightarrow> canonical_tail ops c2)"

definition canonicalHarvestCandidate :: "net_ops \<Rightarrow> url option \<Rightarrow> string \<Rightarrow> string" where
  "canonicalHarvestCandidate = canonical_candidate sameHarvestOrigin"

definition buildHarvestCandidateWithParams :: "net_ops \<Rightarrow> string \<Rightarrow> string list \<Rightarrow> string" where
  "buildHarvestCandidateWithParams ops targetURL hints =
     (case url_parse (trim_space targetURL) of
        None \<Rightarrow> ''''
      | Some p \<Rightarrow>
          let query = foldl (\<lambda>m h. if trim_space h = '''' then m else values_set m (trim_space h) '''') (parse_query (u_query p)) hints;
              encoded = query_encode query
          in if encoded = '''' then escaped_path ops p else escaped_path ops p @ ''?'' @ encoded)"

section \<open>What a document names\<close>

definition extractJSHarvestCandidates :: "harvest_ops \<Rightarrow> string \<Rightarrow> string list" where
  "extractJSHarvestCandidates ops body = List.map_filter (find (\<lambda>g. g \<noteq> '''')) (ho_js ops body)"

primrec walk_scripts :: "net_ops \<Rightarrow> url option \<Rightarrow> html_node \<Rightarrow> string list" where
  "walk_scripts ops base (HtmlNode e d as cs) =
     (if e \<and> equal_fold d ''script'' then
        filter (\<lambda>u. u \<noteq> '''') (map (\<lambda>(k, v). resolveHarvestURL ops base v) (filter (\<lambda>(k, v). equal_fold k ''src'') as))
      else []) @ concat (map (walk_scripts ops base) cs)"

definition collectScriptSrcs :: "harvest_ops \<Rightarrow> string \<Rightarrow> url option \<Rightarrow> string list" where
  "collectScriptSrcs ops rootBody base = (case ho_html ops rootBody of None \<Rightarrow> [] | Some d \<Rightarrow> walk_scripts (ho_net ops) base d)"

definition extractOpenAPIHarvestCandidates :: "harvest_ops \<Rightarrow> string \<Rightarrow> string list" where
  "extractOpenAPIHarvestCandidates ops body =
     (case (case ho_openapi_json ops body of Some spec \<Rightarrow> Some spec | None \<Rightarrow> ho_openapi_yaml ops body) of
        None \<Rightarrow> []
      | Some (paths, servers) \<Rightarrow>
          paths @ filter (\<lambda>p. p \<noteq> '''')
            (List.map_filter (\<lambda>s. if s = '''' then None else map_option u_path (url_parse s)) servers))"

definition extractGraphQLHarvestCandidates :: "harvest_ops \<Rightarrow> string \<Rightarrow> string list" where
  "extractGraphQLHarvestCandidates ops body =
     (case ho_graphql ops body of
        None \<Rightarrow> []
      | Some types \<Rightarrow> concat (map (\<lambda>(name, fields). concat (map (\<lambda>n. if n \<noteq> '''' then keywordVariants n else []) (name # fields))) types))"

fun json_paths :: "(string \<Rightarrow> string list) \<Rightarrow> json \<Rightarrow> string list" where
  "json_paths f (JObj kvs) = concat (map (\<lambda>kv. json_paths f (snd kv)) kvs)"
| "json_paths f (JArr xs) = concat (map (json_paths f) xs)"
| "json_paths f (JStr s) = f s"
| "json_paths f _ = []"

definition extractJSONHarvestCandidates :: "harvest_ops \<Rightarrow> string \<Rightarrow> string list" where
  "extractJSONHarvestCandidates ops body = (case ho_json ops body of None \<Rightarrow> [] | Some v \<Rightarrow> json_paths (ho_paths ops) v)"

definition looksLikeJSONContent :: "string \<Rightarrow> string \<Rightarrow> bool" where
  "looksLikeJSONContent contentType body \<longleftrightarrow>
     contains_str (to_lower (trim_space contentType)) ''json'' \<or>
     (case trim_space body of [] \<Rightarrow> False | c # _ \<Rightarrow> c = CHR ''{'' \<or> c = CHR ''['')"

definition extractResponseHarvestCandidates :: "harvest_ops \<Rightarrow> string \<Rightarrow> string \<Rightarrow> string list" where
  "extractResponseHarvestCandidates ops body contentType =
     (if body = '''' then []
      else let js = (if looksLikeJSONContent contentType body then extractJSONHarvestCandidates ops body else []) in
        dedupeHarvestVariants (if js \<noteq> [] then js else ho_paths ops body))"

definition static_suffixes :: "string list" where
  "static_suffixes = [''.js'', ''.css'', ''.gif'', ''.png'', ''.jpg'', ''.jpeg'', ''.svg'', ''.ico'', ''.woff'', ''.woff2'', ''.ttf'', ''.map'']"

definition isStaticHarvestAsset :: "net_ops \<Rightarrow> string \<Rightarrow> bool" where
  "isStaticHarvestAsset ops targetURL =
     (case url_parse (trim_space targetURL) of
        None \<Rightarrow> False
      | Some p \<Rightarrow> list_ex (has_suffix (to_lower (no_escaped ops p))) static_suffixes)"

definition shouldHarvestResponseParamHints :: "harvest_ops \<Rightarrow> string \<Rightarrow> string \<Rightarrow> string \<Rightarrow> bool" where
  "shouldHarvestResponseParamHints ops targetURL contentType body =
     (if isStaticHarvestAsset (ho_net ops) targetURL then False
      else if looksLikeJSONContent contentType body then True
      else to_lower (case ho_media ops (trim_space contentType) of Some m \<Rightarrow> m | None \<Rightarrow> trim_space contentType) = ''text/plain'')"

definition extractResponseParamHints :: "harvest_ops \<Rightarrow> string \<Rightarrow> string \<Rightarrow> string \<Rightarrow> string list" where
  "extractResponseParamHints ops targetURL contentType body =
     (if body = '''' \<or> \<not> shouldHarvestResponseParamHints ops targetURL contentType body then []
      else uniqueStrings (extractParamHintsFromText (ho_hints ops) body))"

definition responseHarvestCandidatesForTarget :: "harvest_ops \<Rightarrow> string \<Rightarrow> string \<Rightarrow> string \<Rightarrow> string list" where
  "responseHarvestCandidatesForTarget ops targetURL body contentType =
     (let candidates = extractResponseHarvestCandidates ops body contentType;
          hints = extractResponseParamHints ops targetURL contentType body;
          hinted = buildHarvestCandidateWithParams (ho_net ops) targetURL hints
      in if hints = [] then candidates
         else dedupeHarvestVariants (candidates @ (if hinted \<noteq> '''' then [hinted] else [])))"

definition shouldProcessHarvestResponseStatus :: "int \<Rightarrow> bool" where
  "shouldProcessHarvestResponseStatus st \<longleftrightarrow> 200 \<le> st \<and> st < 300 \<or> st \<in> {401, 403, 400}"

definition looksLikeResponseEndpoint :: "string \<Rightarrow> bool" where
  "looksLikeResponseEndpoint candidate =
     (let l = to_lower candidate in
      contains_str l ''/api/'' \<or> has_prefix l ''/api'' \<or> contains_str l ''/v1/'' \<or> contains_str l ''/v2/'' \<or>
      contains_str l ''/v3/'' \<or> contains_str l ''/rest/'' \<or> contains_str l ''/graphql'')"

definition harvestResponseTargetURL :: "net_ops \<Rightarrow> url option \<Rightarrow> string \<Rightarrow> string" where
  "harvestResponseTargetURL ops base candidate =
     (if base = None \<or> candidate = '''' \<or> \<not> has_prefix candidate ''/'' \<or> \<not> looksLikeResponseEndpoint candidate then ''''
      else resolveHarvestURL ops base candidate)"

definition openAPIHarvestPaths :: "net_ops \<Rightarrow> url option \<Rightarrow> string list" where
  "openAPIHarvestPaths ops base = map (resolveHarvestURL ops base)
     [''openapi.json'', ''openapi.yaml'', ''swagger.json'', ''swagger/v1/swagger.json'', ''api-docs'', ''v1/api-docs'',
      ''.well-known/openapi'']"

definition graphqlHarvestPaths :: "net_ops \<Rightarrow> url option \<Rightarrow> string list" where
  "graphqlHarvestPaths ops base = map (resolveHarvestURL ops base) [''graphql'', ''api/graphql'', ''v1/graphql'']"

end
