(* ===== verification/Harvest.thy ===== *)
theory Harvest
  imports HarvestText JobQueue
begin

text \<open>
  Active harvesting, \<open>pkg/engine/harvest.go\<close>: fetching a surface of the target, the queue of responses with its bounds on depth and
  number, the scripts, the documents of interfaces and the introspection, and what the worker hands over for an answer. A request is
  answered by a parameter that threads its state. The identifiers of the source nodes of the discovery graph are a parameter
  (\<open>AddSourceNode\<close> is in DiscoveryGraph), and the submission of a path, \<open>SubmitHarvestPath\<close> of Submission, is an event here.
\<close>

record harvest_options =
  op_js :: bool
  op_api :: bool
  op_response :: bool
  op_depth :: int
  op_fetches :: int

record harvest_request =
  hr_method :: string
  hr_url :: string
  hr_headers :: "(string \<times> string) list"
  hr_body :: "string option"

record fetched =
  ft_status :: int
  ft_type :: string
  ft_body :: string

record harvest_submission =
  hb_path :: string
  hb_run :: int
  hb_depth :: int
  hb_parent :: string
  hb_source :: string
  hb_evidence :: string
  hb_from :: string

datatype harvest_event =
    HarvestFound string
  | HarvestSubmitted harvest_submission
  | SourceNode string string
  | ScriptsAnalysed nat

text \<open>The engine is the number of its run and the identifiers of its source nodes; the package function has none.\<close>

record harvest_ctx =
  hc_ops :: harvest_ops
  hc_engine :: "int option"
  hc_node :: "string \<Rightarrow> string \<Rightarrow> string"
  hc_base :: url
  hc_resource :: url
  hc_opts :: harvest_options

record 's harvest_state =
  hs_discovered :: "string list"
  hs_targets :: "string list"
  hs_queue :: "(string \<times> int) list"
  hs_out :: "harvest_event list"
  hs_net :: 's

type_synonym 's sender = "harvest_request \<Rightarrow> 's \<Rightarrow> fetched result \<times> 's"

section \<open>Fetching\<close>

definition harvestBodyLimit :: int where "harvestBodyLimit = 2 * 1024 * 1024"

definition limit_body :: "string \<Rightarrow> string" where
  "limit_body b = (if int (length b) \<le> harvestBodyLimit then b else take (nat harvestBodyLimit) b)"

definition harvest_request_of :: "string \<Rightarrow> string option \<Rightarrow> harvest_request" where
  "harvest_request_of target body =
     \<lparr>hr_method = (if body \<noteq> None then ''POST'' else ''GET''), hr_url = target,
      hr_headers = (if body \<noteq> None then [(''Content-Type'', ''application/json'')] else []) @
        [(''User-Agent'', ''DirFuzz-Harvest/1.0''), (''Accept'', ''*/*'')],
      hr_body = body\<rparr>"

definition fetchHarvestBody :: "'s sender \<Rightarrow> string \<Rightarrow> string option \<Rightarrow> 's harvest_state \<Rightarrow> fetched result \<times> 's harvest_state" where
  "fetchHarvestBody send target body st =
     (case send (harvest_request_of target body) (hs_net st) of
        (Inl e, s) \<Rightarrow> (Inl e, st\<lparr>hs_net := s\<rparr>)
      | (Inr f, s) \<Rightarrow> (Inr (f\<lparr>ft_body := limit_body (ft_body f)\<rparr>), st\<lparr>hs_net := s\<rparr>))"

section \<open>What is discovered\<close>

text \<open>The closure \<open>add\<close>: a candidate that is new is announced and submitted, when there is an engine.\<close>

definition harvest_add :: "harvest_ctx \<Rightarrow> string \<Rightarrow> string \<Rightarrow> string \<Rightarrow> string \<Rightarrow> string \<Rightarrow> 's harvest_state \<Rightarrow> string \<times> 's harvest_state" where
  "harvest_add ctx parent source ev from candidate st =
     (let n = canonicalHarvestCandidate (ho_net (hc_ops ctx)) (Some (hc_base ctx)) candidate in
      if n = '''' then ('''', st)
      else if n \<in> set (hs_discovered st) then (n, st)
      else (n, st\<lparr>hs_discovered := hs_discovered st @ [n],
              hs_out := hs_out st @ (case hc_engine ctx of None \<Rightarrow> []
                | Some run \<Rightarrow> [HarvestFound n, HarvestSubmitted \<lparr>hb_path = n, hb_run = run, hb_depth = 1, hb_parent = parent,
                    hb_source = source, hb_evidence = ev, hb_from = from\<rparr>])\<rparr>))"

text \<open>The closure \<open>enqueueResponseTarget\<close>.\<close>

definition enqueue_target :: "harvest_ctx \<Rightarrow> string \<Rightarrow> int \<Rightarrow> 's harvest_state \<Rightarrow> 's harvest_state" where
  "enqueue_target ctx normalized depth st =
     (if \<not> op_response (hc_opts ctx) \<or> depth \<le> 0 \<or> depth > op_depth (hc_opts ctx) then st
      else let targetURL = harvestResponseTargetURL (ho_net (hc_ops ctx)) (Some (hc_resource ctx)) normalized in
        if targetURL = '''' \<or> targetURL \<in> set (hs_targets st) then st
        else st\<lparr>hs_targets := hs_targets st @ [targetURL], hs_queue := hs_queue st @ [(targetURL, depth)]\<rparr>)"

text \<open>The source node of an address, which is announced to the discovery graph, and its identifier.\<close>

definition node_of :: "harvest_ctx \<Rightarrow> string \<Rightarrow> string \<Rightarrow> string" where
  "node_of ctx u kind = (if hc_engine ctx = None then '''' else hc_node ctx u kind)"

definition source_node :: "harvest_ctx \<Rightarrow> string \<Rightarrow> string \<Rightarrow> 's harvest_state \<Rightarrow> 's harvest_state" where
  "source_node ctx u kind st = (if hc_engine ctx = None then st else st\<lparr>hs_out := hs_out st @ [SourceNode u kind]\<rparr>)"

text \<open>One candidate of a response at a depth: added, and queued one level deeper.\<close>

definition response_candidate :: "harvest_ctx \<Rightarrow> string \<Rightarrow> string \<Rightarrow> int \<Rightarrow> 's harvest_state \<Rightarrow> string \<Rightarrow> 's harvest_state" where
  "response_candidate ctx from node depth st candidate =
     (case harvest_add ctx node ''response'' ''response html/json extraction'' from candidate st of
        (n, st1) \<Rightarrow> if n \<noteq> '''' \<and> (depth = 0 \<or> depth < op_depth (hc_opts ctx)) then enqueue_target ctx n (depth + 1) st1 else st1)"

definition add_all :: "harvest_ctx \<Rightarrow> string \<Rightarrow> string \<Rightarrow> string \<Rightarrow> string \<Rightarrow> string list \<Rightarrow> 's harvest_state \<Rightarrow> 's harvest_state" where
  "add_all ctx parent source ev from cs st = foldl (\<lambda>st c. snd (harvest_add ctx parent source ev from c st)) st cs"

section \<open>The stages\<close>

definition root_responses :: "harvest_ctx \<Rightarrow> string \<Rightarrow> fetched \<Rightarrow> 's harvest_state \<Rightarrow> 's harvest_state" where
  "root_responses ctx baseURL f st =
     (if op_response (hc_opts ctx) then
        foldl (response_candidate ctx baseURL (node_of ctx baseURL ''response'') 0) (source_node ctx baseURL ''response'' st)
          (responseHarvestCandidatesForTarget (hc_ops ctx) baseURL (ft_body f) (ft_type f))
      else st)"

definition script_stage :: "harvest_ctx \<Rightarrow> 's sender \<Rightarrow> 's harvest_state \<Rightarrow> string \<Rightarrow> 's harvest_state" where
  "script_stage ctx send st scriptURL =
     (case fetchHarvestBody send scriptURL None st of
        (Inl _, st1) \<Rightarrow> st1
      | (Inr f, st1) \<Rightarrow> add_all ctx (node_of ctx scriptURL ''javascript'') ''javascript'' ''regex endpoint extraction'' scriptURL
          (extractJSHarvestCandidates (hc_ops ctx) (ft_body f)) (source_node ctx scriptURL ''javascript'' st1))"

definition root_scripts :: "harvest_ctx \<Rightarrow> 's sender \<Rightarrow> fetched \<Rightarrow> 's harvest_state \<Rightarrow> 's harvest_state" where
  "root_scripts ctx send f st =
     (if op_js (hc_opts ctx) then
        let scripts = collectScriptSrcs (hc_ops ctx) (ft_body f) (Some (hc_resource ctx));
            st1 = foldl (script_stage ctx send) st scripts
        in if hc_engine ctx \<noteq> None then st1\<lparr>hs_out := hs_out st1 @ [ScriptsAnalysed (length scripts)]\<rparr> else st1
      else st)"

definition root_stage :: "harvest_ctx \<Rightarrow> 's sender \<Rightarrow> string \<Rightarrow> 's harvest_state \<Rightarrow> 's harvest_state" where
  "root_stage ctx send baseURL st =
     (if op_js (hc_opts ctx) \<or> op_response (hc_opts ctx) then
        (case fetchHarvestBody send baseURL None st of
           (Inl _, st1) \<Rightarrow> st1
         | (Inr f, st1) \<Rightarrow> root_scripts ctx send f (root_responses ctx baseURL f st1))
      else st)"

definition response_stage :: "harvest_ctx \<Rightarrow> 's sender \<Rightarrow> string \<Rightarrow> int \<Rightarrow> 's harvest_state \<Rightarrow> 's harvest_state" where
  "response_stage ctx send target depth st =
     (case fetchHarvestBody send target None st of
        (Inl _, st1) \<Rightarrow> st1
      | (Inr f, st1) \<Rightarrow>
          if \<not> shouldProcessHarvestResponseStatus (ft_status f) then st1
          else foldl (response_candidate ctx target (node_of ctx target ''response'') depth) (source_node ctx target ''response'' st1)
            (responseHarvestCandidatesForTarget (hc_ops ctx) target (ft_body f) (ft_type f)))"

text \<open>The loop: a target that is too deep is dropped without being counted.\<close>

function response_loop :: "harvest_ctx \<Rightarrow> 's sender \<Rightarrow> int \<Rightarrow> 's harvest_state \<Rightarrow> 's harvest_state" where
  "response_loop ctx send processed st =
     (case hs_queue st of
        [] \<Rightarrow> st
      | (target, depth) # q \<Rightarrow>
          if processed \<ge> op_fetches (hc_opts ctx) then st
          else let st1 = st\<lparr>hs_queue := q\<rparr> in
            if depth > op_depth (hc_opts ctx) then response_loop ctx send processed st1
            else response_loop ctx send (processed + 1) (response_stage ctx send target depth st1))"
  by pat_completeness auto

termination
  by (relation "measures [\<lambda>(ctx, send, n, st). nat (op_fetches (hc_opts ctx) - n), \<lambda>(ctx, send, n, st). length (hs_queue st)]") auto

definition api_stage :: "harvest_ctx \<Rightarrow> 's sender \<Rightarrow> string \<Rightarrow> (string \<Rightarrow> string list) \<Rightarrow> string option \<Rightarrow> 's harvest_state \<Rightarrow> string
    \<Rightarrow> 's harvest_state" where
  "api_stage ctx send kind extract body st path =
     (case fetchHarvestBody send path body st of
        (Inl _, st1) \<Rightarrow> st1
      | (Inr f, st1) \<Rightarrow>
          if ft_status f \<noteq> 200 then st1
          else add_all ctx (node_of ctx path kind) kind ''schema introspection'' path (extract (ft_body f)) (source_node ctx path kind st1))"

definition introspection_query :: string where
  "introspection_query = ''{'' @ [CHR 0x22] @ ''query'' @ [CHR 0x22] @ '':'' @ [CHR 0x22] @
     ''{ __schema { types { name fields { name } } } }'' @ [CHR 0x22] @ ''}''"

definition api_stages :: "harvest_ctx \<Rightarrow> 's sender \<Rightarrow> 's harvest_state \<Rightarrow> 's harvest_state" where
  "api_stages ctx send st =
     (if op_api (hc_opts ctx) then
        let net = ho_net (hc_ops ctx);
            st1 = foldl (api_stage ctx send ''openapi'' (extractOpenAPIHarvestCandidates (hc_ops ctx)) None) st
              (openAPIHarvestPaths net (Some (hc_resource ctx)))
        in foldl (api_stage ctx send ''graphql'' (extractGraphQLHarvestCandidates (hc_ops ctx)) (Some introspection_query)) st1
             (graphqlHarvestPaths net (Some (hc_resource ctx)))
      else st)"

definition harvest_start :: "'s \<Rightarrow> 's harvest_state" where
  "harvest_start s = \<lparr>hs_discovered = [], hs_targets = [], hs_queue = [], hs_out = [], hs_net = s\<rparr>"

definition resource_base :: "url \<Rightarrow> url" where
  "resource_base base = (if u_path base \<noteq> '''' \<and> \<not> has_suffix (u_path base) ''/'' then base\<lparr>u_path := u_path base @ ''/''\<rparr> else base)"

definition harvest_stages :: "harvest_ctx \<Rightarrow> 's sender \<Rightarrow> string \<Rightarrow> 's harvest_state \<Rightarrow> 's harvest_state" where
  "harvest_stages ctx send baseURL st =
     (let st1 = root_stage ctx send baseURL st;
          st2 = (if op_response (hc_opts ctx) then response_loop ctx send 0 st1 else st1)
      in api_stages ctx send st2)"

text \<open>The discovered paths in order, and the final state; nothing is done without an address that can be parsed.\<close>

definition harvestEndpointsWithOptions :: "harvest_ops \<Rightarrow> int option \<Rightarrow> (string \<Rightarrow> string \<Rightarrow> string) \<Rightarrow> 's sender \<Rightarrow> string
    \<Rightarrow> harvest_options \<Rightarrow> 's \<Rightarrow> string list \<times> 's harvest_state" where
  "harvestEndpointsWithOptions ops engine node send baseURL opts s =
     (case (if baseURL = '''' then None else url_parse baseURL) of
        None \<Rightarrow> ([], harvest_start s)
      | Some base \<Rightarrow>
          let ctx = \<lparr>hc_ops = ops, hc_engine = engine, hc_node = node, hc_base = base, hc_resource = resource_base base, hc_opts = opts\<rparr>;
              st = harvest_stages ctx send baseURL (harvest_start s)
          in (sort (hs_discovered st), st))"

section \<open>The engine\<close>

record harvest_config =
  hf_all :: bool
  hf_js :: bool
  hf_api :: bool
  hf_response :: bool
  hf_depth :: int
  hf_fetches :: int

definition DefaultHarvestResponseDepth :: int where "DefaultHarvestResponseDepth = 2"
definition DefaultHarvestResponseFetch :: int where "DefaultHarvestResponseFetch = 32"

definition harvest_options_of :: "harvest_config \<Rightarrow> harvest_options" where
  "harvest_options_of c =
     (let o1 = \<lparr>op_js = hf_all c \<or> hf_js c, op_api = hf_all c \<or> hf_api c, op_response = hf_all c \<or> hf_response c,
                op_depth = (if hf_depth c \<le> 0 then DefaultHarvestResponseDepth else hf_depth c),
                op_fetches = (if hf_fetches c \<le> 0 then DefaultHarvestResponseFetch else hf_fetches c)\<rparr>
      in if hf_all c \<and> \<not> hf_js c \<and> \<not> hf_api c \<and> \<not> hf_response c then o1\<lparr>op_js := True, op_api := True, op_response := True\<rparr> else o1)"

text \<open>\<open>sender\<close> is the client that is built for the target, or why there is none.\<close>

definition HarvestEndpoints :: "harvest_ops \<Rightarrow> int \<Rightarrow> (string \<Rightarrow> string \<Rightarrow> string) \<Rightarrow> 's sender result \<Rightarrow> harvest_config \<Rightarrow> string \<Rightarrow> 's
    \<Rightarrow> string list result \<times> 's harvest_state" where
  "HarvestEndpoints ops run node sender c baseURL s =
     (if \<not> (hf_all c \<or> hf_js c \<or> hf_api c \<or> hf_response c) then (Inr [], harvest_start s)
      else if baseURL = '''' then (Inl ''harvest requires a target URL'', harvest_start s)
      else case sender of
        Inl e \<Rightarrow> (Inl e, harvest_start s)
      | Inr send \<Rightarrow>
          (case harvestEndpointsWithOptions ops (Some run) node send baseURL (harvest_options_of c) s of
             (paths, st) \<Rightarrow> (Inr paths, st)))"

text \<open>What a worker's answer gives: the paths of its body, one level deeper than the job.\<close>

definition queueResponseHarvestFromResult :: "harvest_ops \<Rightarrow> bool \<Rightarrow> int \<Rightarrow> job \<Rightarrow> string \<Rightarrow> string \<Rightarrow> string \<Rightarrow> string \<Rightarrow> harvest_submission list" where
  "queueResponseHarvestFromResult ops enabled depth0 job requestURL finalRedirectURL contentType body =
     (let maxDepth = (if depth0 \<le> 0 then DefaultHarvestResponseDepth else depth0);
          baseURL = (if trim_space finalRedirectURL = '''' then trim_space requestURL else trim_space finalRedirectURL)
      in if body = '''' \<or> \<not> enabled \<or> job_harvest_depth job \<ge> maxDepth then []
         else case url_parse baseURL of
           None \<Rightarrow> []
         | Some base \<Rightarrow>
             map (\<lambda>n. \<lparr>hb_path = n, hb_run = job_run job, hb_depth = job_harvest_depth job + 1, hb_parent = job_node job,
                        hb_source = ''response'', hb_evidence = ''response html/json extraction'', hb_from = ''''\<rparr>)
               (filter (\<lambda>n. n \<noteq> '''') (map (canonicalHarvestCandidate (ho_net ops) (Some base))
                 (responseHarvestCandidatesForTarget ops baseURL body contentType))))"

end
