(* ===== verification/HarvestProps.thy ===== *)
theory HarvestProps
  imports Harvest
begin

text \<open>
  What harvesting promises: the shape of a harvested path, that each path is submitted once, which requests are sent and how
  many. The locale \<open>harvest_closure\<close> holds the folds over candidates for anything the two closures of the code keep, and
  \<open>harvest_invariant\<close> extends it to the walk through all stages, when a request to an allowed address keeps it as well. They are
  interpreted for the queue of responses, the discovered paths and the requests.
\<close>

section \<open>The shape of a path\<close>

definition harvest_path_ok :: "string \<Rightarrow> bool" where
  "harvest_path_ok n \<longleftrightarrow> n \<noteq> '''' \<and> n \<noteq> ''/'' \<and> \<not> list_ex is_space n \<and> (contains_str n ''/'' \<longrightarrow> has_prefix n ''/'')"

lemma canonical_tail_ok: "canonical_tail ops c \<noteq> '''' \<Longrightarrow> harvest_path_ok (canonical_tail ops c)"
  by (auto simp: canonical_tail_def harvest_path_ok_def Let_def has_prefix_def split: if_splits)

lemma canonical_ok: "canonical_candidate same ops base c \<noteq> '''' \<Longrightarrow> harvest_path_ok (canonical_candidate same ops base c)"
  by (auto simp: canonical_candidate_def Let_def canonical_tail_ok split: if_splits option.splits)

text \<open>Where a request may go: an address with the origin of the base, as \<open>String\<close> writes it.\<close>

definition origin_ok :: "net_ops \<Rightarrow> url \<Rightarrow> string \<Rightarrow> bool" where
  "origin_ok ops base u \<longleftrightarrow> (\<exists>v. sameHarvestOrigin (Some base) (Some v) \<and> (u = no_text ops v \<or> no_text ops v = ''''))"

lemma resolve_origin: "resolveHarvestURL ops (Some base) ref \<noteq> '''' \<Longrightarrow> origin_ok ops base (resolveHarvestURL ops (Some base) ref)"
  by (auto simp: resolveHarvestURL_def origin_ok_def Let_def split: if_splits option.splits)

lemma script_origin: "u \<in> set (walk_scripts ops (Some base) n) \<Longrightarrow> origin_ok ops base u"
  by (induction n) (auto intro: resolve_origin split: if_splits)

section \<open>The loop over the queue\<close>

declare response_loop.simps [simp del]

lemma loop_end: "hs_queue st = [] \<or> n \<ge> op_fetches (hc_opts ctx) \<Longrightarrow> response_loop ctx send n st = st"
  by (subst response_loop.simps) (auto split: list.split)

lemma loop_deep:
  "hs_queue st = (t, d) # q \<Longrightarrow> n < op_fetches (hc_opts ctx) \<Longrightarrow> d > op_depth (hc_opts ctx) \<Longrightarrow>
   response_loop ctx send n st = response_loop ctx send n (st\<lparr>hs_queue := q\<rparr>)"
  by (subst response_loop.simps) simp

lemma loop_fetch:
  "hs_queue st = (t, d) # q \<Longrightarrow> n < op_fetches (hc_opts ctx) \<Longrightarrow> d \<le> op_depth (hc_opts ctx) \<Longrightarrow>
   response_loop ctx send n st = response_loop ctx send (n + 1) (response_stage ctx send t d (st\<lparr>hs_queue := q\<rparr>))"
  by (subst response_loop.simps) simp

lemma loop_induct [case_names stop deep fetch]:
  assumes stop: "\<And>n st. hs_queue st = [] \<or> n \<ge> op_fetches (hc_opts ctx) \<Longrightarrow> P n st"
    and deep: "\<And>n st t d q. hs_queue st = (t, d) # q \<Longrightarrow> n < op_fetches (hc_opts ctx) \<Longrightarrow> d > op_depth (hc_opts ctx) \<Longrightarrow>
      P n (st\<lparr>hs_queue := q\<rparr>) \<Longrightarrow> P n st"
    and fetch: "\<And>n st t d q. hs_queue st = (t, d) # q \<Longrightarrow> n < op_fetches (hc_opts ctx) \<Longrightarrow> d \<le> op_depth (hc_opts ctx) \<Longrightarrow>
      P (n + 1) (response_stage ctx send t d (st\<lparr>hs_queue := q\<rparr>)) \<Longrightarrow> P n st"
  shows "P n st"
proof -
  have "c = ctx \<Longrightarrow> s = send \<Longrightarrow> P m x" for c s m x
  proof (induction c s m x rule: response_loop.induct)
    case (1 c s m x)
    show ?case
    proof (cases "hs_queue x = [] \<or> m \<ge> op_fetches (hc_opts ctx)")
      case True
      then show ?thesis by (rule stop)
    next
      case False
      then obtain t d q where q: "hs_queue x = (t, d) # q" "m < op_fetches (hc_opts ctx)" by (cases "hs_queue x") auto
      show ?thesis
      proof (cases "d > op_depth (hc_opts ctx)")
        case True
        with q show ?thesis using "1.IH"(1) [OF q(1) refl] "1.prems" by (intro deep [OF q True]) auto
      next
        case nd: False
        with q show ?thesis using "1.IH"(2) [OF q(1) refl] "1.prems" by (intro fetch [OF q]) auto
      qed
    qed
  qed
  then show ?thesis by blast
qed

section \<open>Walking through the stages\<close>

locale harvest_closure =
  fixes ctx :: harvest_ctx and inv :: "'s harvest_state \<Rightarrow> bool"
  assumes add: "inv st \<Longrightarrow> inv (snd (harvest_add ctx p src ev from c st))"
    and enqueue: "inv st \<Longrightarrow> inv (enqueue_target ctx n d st)"
    and events: "inv st \<Longrightarrow> inv (st\<lparr>hs_out := hs_out st @ [SourceNode u k]\<rparr>)" "inv st \<Longrightarrow> inv (st\<lparr>hs_out := hs_out st @ [ScriptsAnalysed i]\<rparr>)"
begin

lemma source_node: "inv st \<Longrightarrow> inv (source_node ctx u k st)"
  by (simp add: source_node_def events(1))

lemma candidate: "inv st \<Longrightarrow> inv (response_candidate ctx from node depth st c)"
  using add [of st node "''response''" "''response html/json extraction''" "from" c] enqueue
  by (auto simp: response_candidate_def split: prod.split)

lemma candidates: "inv st \<Longrightarrow> inv (foldl (response_candidate ctx from node depth) st cs)"
  by (induction cs arbitrary: st) (simp_all add: candidate)

lemma adds: "inv st \<Longrightarrow> inv (add_all ctx parent source ev from cs st)"
  unfolding add_all_def by (induction cs arbitrary: st) (simp_all add: add)

end

locale harvest_invariant = harvest_closure ctx inv
  for ctx :: harvest_ctx and inv :: "'s harvest_state \<Rightarrow> bool" +
  fixes send :: "'s sender" and allowed :: "string \<Rightarrow> bool"
  assumes fetch: "inv st \<Longrightarrow> allowed u \<Longrightarrow> inv (snd (fetchHarvestBody send u b st))"
    and pop: "inv st \<Longrightarrow> hs_queue st = (t, d) # q \<Longrightarrow> allowed t \<and> inv (st\<lparr>hs_queue := q\<rparr>)"
    and origin: "origin_ok (ho_net (hc_ops ctx)) (hc_resource ctx) u \<Longrightarrow> allowed u"
    and nowhere: "allowed ''''"
begin

lemma fetched_inv: "inv st \<Longrightarrow> allowed u \<Longrightarrow> fetchHarvestBody send u b st = (r, st') \<Longrightarrow> inv st'"
  using fetch [of st u b] by simp

lemma script: "inv st \<Longrightarrow> allowed u \<Longrightarrow> inv (script_stage ctx send st u)"
  by (auto simp: script_stage_def split: prod.split sum.split intro!: adds source_node dest: fetched_inv)

lemma scripts: "inv st \<Longrightarrow> \<forall>u \<in> set us. allowed u \<Longrightarrow> inv (foldl (script_stage ctx send) st us)"
  by (induction us arbitrary: st) (simp_all add: script)

lemma root: "inv st \<Longrightarrow> allowed base \<Longrightarrow> inv (root_stage ctx send base st)"
proof -
  assume st: "inv st" "allowed base"
  have r: "inv (root_responses ctx base f st1)" if "inv st1" for f st1
    using that by (simp add: root_responses_def candidates source_node)
  have s: "inv (root_scripts ctx send f st1)" if "inv st1" for f st1
  proof -
    have "\<forall>u \<in> set (collectScriptSrcs (hc_ops ctx) (ft_body f) (Some (hc_resource ctx))). allowed u"
      by (auto simp: collectScriptSrcs_def split: option.splits intro!: origin dest!: script_origin)
    from scripts [OF that this] show ?thesis by (simp add: root_scripts_def Let_def that events(2))
  qed
  show ?thesis using st by (auto simp: root_stage_def split: prod.split sum.split intro!: r s dest: fetched_inv)
qed

lemma response: "inv st \<Longrightarrow> allowed t \<Longrightarrow> inv (response_stage ctx send t d st)"
  by (auto simp: response_stage_def split: prod.split sum.split intro!: candidates source_node dest: fetched_inv)

lemma loop: "inv st \<Longrightarrow> inv (response_loop ctx send n st)"
proof (induction n st rule: loop_induct [where ctx = ctx and send = send])
  case (deep n st t d q)
  then show ?case using pop [OF deep.prems deep.hyps(1)] by (simp add: loop_deep)
next
  case (fetch n st t d q)
  then show ?case using response pop [OF fetch.prems fetch.hyps(1)] by (simp add: loop_fetch)
qed (simp add: loop_end)

lemma api: "inv st \<Longrightarrow> \<forall>u \<in> set us. allowed u \<Longrightarrow> inv (foldl (api_stage ctx send kind extract body) st us)"
proof (induction us arbitrary: st)
  case (Cons u us)
  have "inv (api_stage ctx send kind extract body st u)"
    using Cons.prems by (auto simp: api_stage_def split: prod.split sum.split intro!: adds source_node dest: fetched_inv)
  with Cons show ?case by simp
qed simp

lemma resolved: "allowed (resolveHarvestURL (ho_net (hc_ops ctx)) (Some (hc_resource ctx)) r)"
  using origin [OF resolve_origin] nowhere by (cases "resolveHarvestURL (ho_net (hc_ops ctx)) (Some (hc_resource ctx)) r = ''''") auto

lemma stages: "inv st \<Longrightarrow> allowed base \<Longrightarrow> inv (harvest_stages ctx send base st)"
proof -
  assume st: "inv st" "allowed base"
  have "\<forall>u \<in> set (openAPIHarvestPaths (ho_net (hc_ops ctx)) (Some (hc_resource ctx))). allowed u"
    "\<forall>u \<in> set (graphqlHarvestPaths (ho_net (hc_ops ctx)) (Some (hc_resource ctx))). allowed u"
    by (simp_all add: openAPIHarvestPaths_def graphqlHarvestPaths_def resolved)
  then show ?thesis using st by (simp add: harvest_stages_def api_stages_def Let_def api loop root)
qed

end

section \<open>Each path once\<close>

definition submissions :: "harvest_event list \<Rightarrow> harvest_submission list" where
  "submissions es = List.map_filter (\<lambda>e. case e of HarvestSubmitted b \<Rightarrow> Some b | _ \<Rightarrow> None) es"

lemma submissions_simps [simp]:
  "submissions [] = []" "submissions (es @ es') = submissions es @ submissions es'"
  "submissions (HarvestSubmitted b # es) = b # submissions es" "submissions (HarvestFound n # es) = submissions es"
  "submissions (SourceNode u k # es) = submissions es" "submissions (ScriptsAnalysed i # es) = submissions es"
  by (simp_all add: submissions_def List.map_filter_def)

definition found_inv :: "harvest_ctx \<Rightarrow> 's harvest_state \<Rightarrow> bool" where
  "found_inv ctx st \<longleftrightarrow> distinct (hs_discovered st) \<and> (\<forall>n \<in> set (hs_discovered st). harvest_path_ok n) \<and>
     map hb_path (submissions (hs_out st)) = (if hc_engine ctx = None then [] else hs_discovered st) \<and>
     (\<forall>b \<in> set (submissions (hs_out st)). Some (hb_run b) = hc_engine ctx \<and> hb_depth b = 1)"

lemma found_add: "found_inv ctx st \<Longrightarrow> found_inv ctx (snd (harvest_add ctx p src ev from c st))"
  using canonical_ok [of sameHarvestOrigin "ho_net (hc_ops ctx)" "Some (hc_base ctx)" c]
  by (cases "hc_engine ctx") (auto simp: found_inv_def harvest_add_def Let_def canonicalHarvestCandidate_def)

interpretation found: harvest_invariant ctx "found_inv ctx" send "\<lambda>_. True" for ctx send
proof unfold_locales
  show "found_inv ctx (snd (harvest_add ctx p src ev frm c st))" if "found_inv ctx st" for st p src ev frm c
    using that by (rule found_add)
  show "found_inv ctx (snd (fetchHarvestBody send u b st))" if "found_inv ctx st" for st u b
    using that by (auto simp: found_inv_def fetchHarvestBody_def split: prod.split sum.split)
qed (auto simp: found_inv_def enqueue_target_def Let_def)

section \<open>The requests\<close>

text \<open>A server whose answer may depend on all that was asked before; the state is the list of the requests.\<close>

definition logged :: "(harvest_request list \<Rightarrow> harvest_request \<Rightarrow> fetched result) \<Rightarrow> harvest_request list sender" where
  "logged ans = (\<lambda>r log. (ans log r, log @ [r]))"

lemma fetch_logged: "snd (fetchHarvestBody (logged ans) u b st) = st\<lparr>hs_net := hs_net st @ [harvest_request_of u b]\<rparr>"
  by (simp add: fetchHarvestBody_def logged_def split: sum.split)

definition may_request :: "net_ops \<Rightarrow> url \<Rightarrow> string \<Rightarrow> string \<Rightarrow> bool" where
  "may_request ops resource baseURL u \<longleftrightarrow> u = '''' \<or> u = baseURL \<or> origin_ok ops resource u"

definition request_inv :: "harvest_ctx \<Rightarrow> string \<Rightarrow> harvest_request list harvest_state \<Rightarrow> bool" where
  "request_inv ctx baseURL st \<longleftrightarrow>
     (\<forall>r \<in> set (hs_net st). may_request (ho_net (hc_ops ctx)) (hc_resource ctx) baseURL (hr_url r)) \<and>
     (\<forall>x \<in> set (hs_queue st). origin_ok (ho_net (hc_ops ctx)) (hc_resource ctx) (fst x))"

lemma target_origin:
  "harvestResponseTargetURL ops (Some base) n \<noteq> '''' \<Longrightarrow> origin_ok ops base (harvestResponseTargetURL ops (Some base) n)"
  by (auto simp: harvestResponseTargetURL_def resolve_origin split: if_splits)

interpretation requests: harvest_invariant ctx "request_inv ctx baseURL" "logged ans" "may_request (ho_net (hc_ops ctx)) (hc_resource ctx) baseURL"
  for ctx baseURL ans
proof unfold_locales
  show "request_inv ctx baseURL (snd (fetchHarvestBody (logged ans) u b st))"
    if "request_inv ctx baseURL st" "may_request (ho_net (hc_ops ctx)) (hc_resource ctx) baseURL u" for st u b
    using that by (simp add: fetch_logged request_inv_def harvest_request_of_def)
  show "request_inv ctx baseURL (enqueue_target ctx n d st)" if "request_inv ctx baseURL st" for st n d
    using that target_origin by (auto simp: enqueue_target_def request_inv_def Let_def)
qed (auto simp: request_inv_def harvest_add_def may_request_def Let_def)

section \<open>The properties\<close>

text \<open>C24: Harvesting with an engine submits each discovered path exactly once, at depth one and for the current run, and returns exactly
  these paths in order. Each is not empty, is not the root, has no white space, and begins with a slash as soon as it contains one,
  whatever the target answers.\<close>

theorem harvest_once:
  assumes "harvestEndpointsWithOptions ops (Some run) node send baseURL opts s = (paths, st)"
  shows "sorted paths \<and> distinct paths \<and> mset paths = mset (map hb_path (submissions (hs_out st))) \<and>
    (\<forall>b \<in> set (submissions (hs_out st)). hb_run b = run \<and> hb_depth b = 1 \<and> harvest_path_ok (hb_path b))"
proof -
  have f: "found_inv ctx (harvest_stages ctx send baseURL (harvest_start s))" for ctx
    by (rule found.stages) (simp_all add: found_inv_def harvest_start_def)
  show ?thesis
  proof (cases "baseURL = '''' \<or> url_parse baseURL = None")
    case True
    then have "(if baseURL = '''' then None else url_parse baseURL) = None" by auto
    then show ?thesis using assms by (auto simp: harvestEndpointsWithOptions_def harvest_start_def)
  next
    case False
    then obtain base where b: "baseURL \<noteq> ''''" "url_parse baseURL = Some base" by auto
    let ?ctx = "\<lparr>hc_ops = ops, hc_engine = Some run, hc_node = node, hc_base = base, hc_resource = resource_base base, hc_opts = opts\<rparr>"
    have st: "st = harvest_stages ?ctx send baseURL (harvest_start s)" "paths = sort (hs_discovered st)"
      using assms b by (auto simp: harvestEndpointsWithOptions_def Let_def)
    then have i: "distinct (hs_discovered st)" "\<forall>n \<in> set (hs_discovered st). harvest_path_ok n"
        "map hb_path (submissions (hs_out st)) = hs_discovered st" "\<forall>b \<in> set (submissions (hs_out st)). hb_run b = run \<and> hb_depth b = 1"
      using f [of ?ctx] by (simp_all add: found_inv_def)
    have "harvest_path_ok (hb_path b)" if "b \<in> set (submissions (hs_out st))" for b
      using that i(2,3) by (metis image_eqI list.set_map)
    with i st(2) show ?thesis by simp
  qed
qed

text \<open>C25: Every request of harvesting goes to the address it was started with or to one of its origin (or to the empty address, which
  the client refuses), whatever the target answers.\<close>

theorem harvest_same_origin:
  assumes "harvestEndpointsWithOptions ops engine node (logged ans) baseURL opts [] = (paths, st)" "url_parse baseURL = Some base"
  shows "\<forall>r \<in> set (hs_net st). may_request (ho_net ops) (resource_base base) baseURL (hr_url r)"
proof -
  define ctx where "ctx = \<lparr>hc_ops = ops, hc_engine = engine, hc_node = node, hc_base = base, hc_resource = resource_base base, hc_opts = opts\<rparr>"
  have "request_inv ctx baseURL (harvest_start [])" by (simp add: request_inv_def harvest_start_def)
  from requests.stages [OF this, of baseURL ans] have "request_inv ctx baseURL (harvest_stages ctx (logged ans) baseURL (harvest_start []))"
    by (simp add: may_request_def)
  then show ?thesis
    using assms by (cases "baseURL = ''''") (auto simp: harvestEndpointsWithOptions_def request_inv_def ctx_def harvest_start_def Let_def)
qed

section \<open>The queue of responses\<close>

text \<open>The targets are those that were taken from the queue and those that wait, in the order in which they were found.\<close>

definition queue_ok :: "harvest_ctx \<Rightarrow> string list \<Rightarrow> 's harvest_state \<Rightarrow> bool" where
  "queue_ok ctx taken st \<longleftrightarrow> hs_targets st = taken @ map fst (hs_queue st) \<and> distinct (taken @ map fst (hs_queue st)) \<and>
     (\<forall>x \<in> set (hs_queue st). snd x \<le> op_depth (hc_opts ctx))"

interpretation queue: harvest_closure ctx "queue_ok ctx taken" for ctx taken
proof unfold_locales
  show "queue_ok ctx taken (enqueue_target ctx n d st)" if "queue_ok ctx taken st" for st n d
  proof (cases "enqueue_target ctx n d st = st")
    case False
    let ?u = "harvestResponseTargetURL (ho_net (hc_ops ctx)) (Some (hc_resource ctx)) n"
    have "enqueue_target ctx n d st = st\<lparr>hs_targets := hs_targets st @ [?u], hs_queue := hs_queue st @ [(?u, d)]\<rparr>"
      "?u \<notin> set (hs_targets st)" "d \<le> op_depth (hc_opts ctx)"
      using False by (auto simp: enqueue_target_def Let_def split: if_splits)
    with that show ?thesis by (simp add: queue_ok_def)
  qed (use that in simp)
qed (simp_all add: queue_ok_def harvest_add_def Let_def)
lemma queue_fetched: "queue_ok ctx taken st \<Longrightarrow> fetchHarvestBody send u b st = (r, st') \<Longrightarrow> queue_ok ctx taken st'"
proof -
  have "queue_ok ctx taken (st\<lparr>hs_net := s\<rparr>) = queue_ok ctx taken st" for s by (simp add: queue_ok_def)
  then show "queue_ok ctx taken st \<Longrightarrow> fetchHarvestBody send u b st = (r, st') \<Longrightarrow> ?thesis"
    by (auto simp: fetchHarvestBody_def split: prod.splits sum.splits)
qed

lemma queue_response: "queue_ok ctx taken st \<Longrightarrow> queue_ok ctx taken (response_stage ctx send t d st)"
  by (auto simp: response_stage_def split: prod.split sum.split intro!: queue.candidates queue.source_node dest: queue_fetched)

lemma log_candidates: "hs_net (foldl (response_candidate ctx from node d) st cs) = hs_net st"
  by (induction cs arbitrary: st) (auto simp: response_candidate_def harvest_add_def enqueue_target_def Let_def)

lemma log_response: "hs_net (response_stage ctx (logged ans) t d st) = hs_net st @ [harvest_request_of t None]"
  by (cases "ans (hs_net st) (harvest_request_of t None)")
     (auto simp: response_stage_def fetchHarvestBody_def logged_def log_candidates source_node_def)

lemma loop_log:
  assumes "queue_ok ctx taken st"
  shows "\<exists>ts. hs_net (response_loop ctx (logged ans) n st) = hs_net st @ map (\<lambda>t. harvest_request_of t None) ts \<and>
    distinct (taken @ ts) \<and> int (length ts) \<le> max 0 (op_fetches (hc_opts ctx) - n) \<and>
    (hs_queue (response_loop ctx (logged ans) n st) = [] \<or> int (length ts) = max 0 (op_fetches (hc_opts ctx) - n))"
  using assms
proof (induction n st arbitrary: taken rule: loop_induct [where ctx = ctx and send = "logged ans"])
  case (stop n st)
  then show ?case by (intro exI [of _ "[]"]) (auto simp: loop_end queue_ok_def)
next
  case (deep n st t d q)
  then have "d \<le> op_depth (hc_opts ctx)" by (simp add: queue_ok_def)
  with deep show ?case by simp
next
  case (fetch n st t d q)
  have "queue_ok ctx (taken @ [t]) (st\<lparr>hs_queue := q\<rparr>)"
    using fetch.prems fetch.hyps(1) by (simp add: queue_ok_def)
  from fetch.IH [OF queue_response [OF this]] obtain ts where
    ts: "hs_net (response_loop ctx (logged ans) n st) = hs_net st @ map (\<lambda>t. harvest_request_of t None) (t # ts)"
      "distinct (taken @ t # ts)" "int (length ts) \<le> max 0 (op_fetches (hc_opts ctx) - (n + 1))"
      "hs_queue (response_loop ctx (logged ans) n st) = [] \<or> int (length ts) = max 0 (op_fetches (hc_opts ctx) - (n + 1))"
    by (auto simp: loop_fetch [OF fetch.hyps] log_response)
  then show ?case using fetch.hyps(2) by (intro exI [of _ "t # ts"]) auto
qed

lemma queue_root: "queue_ok ctx [] st \<Longrightarrow> queue_ok ctx [] (root_stage ctx send baseURL st)"
proof -
  assume st: "queue_ok ctx [] st"
  have script: "queue_ok ctx [] (script_stage ctx send st' u)" if "queue_ok ctx [] st'" for st' u
    using that by (auto simp: script_stage_def split: prod.split sum.split intro!: queue.adds queue.source_node dest: queue_fetched)
  then have scripts: "queue_ok ctx [] (foldl (script_stage ctx send) st' us)" if "queue_ok ctx [] st'" for st' us
    using that by (induction us arbitrary: st') simp_all
  have s: "queue_ok ctx [] (root_scripts ctx send f st')" if "queue_ok ctx [] st'" for f st'
    using scripts [OF that] by (auto simp: root_scripts_def Let_def that queue.events(2))
  have r: "queue_ok ctx [] (root_responses ctx baseURL f st')" if "queue_ok ctx [] st'" for f st'
    using that by (simp add: root_responses_def queue.candidates queue.source_node)
  show ?thesis using st by (auto simp: root_stage_def split: prod.split sum.split intro!: s r dest: queue_fetched)
qed

text \<open>C27: The walk over the responses ends: it sends at most the configured number of requests, none to an address that was asked
  before, and stops early only when nothing is waiting.\<close>

theorem harvest_responses_bounded:
  "let st1 = root_stage ctx (logged ans) baseURL (harvest_start []); st2 = response_loop ctx (logged ans) 0 st1 in
   \<exists>ts. hs_net st2 = hs_net st1 @ map (\<lambda>t. harvest_request_of t None) ts \<and> distinct ts \<and>
     int (length ts) \<le> max 0 (op_fetches (hc_opts ctx)) \<and> (hs_queue st2 = [] \<or> int (length ts) = max 0 (op_fetches (hc_opts ctx)))"
proof -
  have "queue_ok ctx [] (harvest_start [] :: harvest_request list harvest_state)" by (simp add: queue_ok_def harvest_start_def)
  from loop_log [OF queue_root [OF this], of ans 0] show ?thesis unfolding Let_def by simp
qed

section \<open>A small target\<close>

text \<open>A page that names an interface, which names itself and another one.\<close>

definition small_net :: net_ops where
  "small_net = \<lparr>no_read = (\<lambda>raw. Inl ''unused''), no_escaped = u_path, no_text = (\<lambda>u. u_scheme u @ ''://'' @ u_host u @ u_path u),
     no_resolve = (\<lambda>b l. if u_host l = '''' then b\<lparr>u_path := u_path l, u_query := u_query l\<rparr> else l\<lparr>u_scheme := u_scheme b\<rparr>),
     no_lookup = (\<lambda>h. Inl ''no such host'')\<rparr>"

definition small_ops :: harvest_ops where
  "small_ops = \<lparr>ho_net = small_net, ho_paths = split_on (CHR '' ''), ho_js = (\<lambda>b. []), ho_hints = (\<lambda>b. []), ho_html = (\<lambda>b. None),
     ho_json = (\<lambda>b. None), ho_openapi_json = (\<lambda>b. None), ho_openapi_yaml = (\<lambda>b. None), ho_graphql = (\<lambda>b. None),
     ho_media = (\<lambda>b. None)\<rparr>"

definition small_answer :: "harvest_request list \<Rightarrow> harvest_request \<Rightarrow> fetched result" where
  "small_answer log r = (if length log = 0 then Inr \<lparr>ft_status = 200, ft_type = ''text/html'', ft_body = ''/api/a /about''\<rparr>
     else if hr_url r = ''http://h/api/a'' then Inr \<lparr>ft_status = 200, ft_type = '''', ft_body = ''/api/a /api/b''\<rparr> else Inl ''down'')"

definition small_options :: harvest_options where
  "small_options = \<lparr>op_js = False, op_api = False, op_response = True, op_depth = 2, op_fetches = 9\<rparr>"

definition small_harvest :: "string list \<times> harvest_request list harvest_state" where
  "small_harvest = harvestEndpointsWithOptions small_ops (Some 3) (\<lambda>u k. u) (logged small_answer) ''http://h'' small_options []"

lemma harvest_once_witness:
  "mset (fst small_harvest) = mset (map hb_path (submissions (hs_out (snd small_harvest)))) \<and>
   fst small_harvest = [''/about'', ''/api/a'', ''/api/b'']"
proof -
  have "fst small_harvest = [''/about'', ''/api/a'', ''/api/b'']" by code_simp
  moreover have "harvestEndpointsWithOptions small_ops (Some 3) (\<lambda>u k. u) (logged small_answer) ''http://h'' small_options [] =
      (fst small_harvest, snd small_harvest)" by (simp add: small_harvest_def)
  note harvest_once [OF this]
  ultimately show ?thesis by simp
qed

lemma harvest_same_origin_witness:
  "list_all (\<lambda>r. may_request small_net (resource_base (no_url\<lparr>u_scheme := ''http'', u_host := ''h''\<rparr>)) ''http://h'' (hr_url r))
     (hs_net (snd small_harvest))"
proof -
  have "url_parse ''http://h'' = Some (no_url\<lparr>u_scheme := ''http'', u_host := ''h''\<rparr>)" by code_simp
  moreover have "harvestEndpointsWithOptions small_ops (Some 3) (\<lambda>u k. u) (logged small_answer) ''http://h'' small_options [] =
      (fst small_harvest, snd small_harvest)" by (simp add: small_harvest_def)
  moreover have "ho_net small_ops = small_net" by (simp add: small_ops_def)
  ultimately show ?thesis unfolding list_all_iff using harvest_same_origin by metis
qed

text \<open>A link to another host without a scheme is refused as a reference of the target, but is then kept as a path of it; the same holds
  for an address of another kind.\<close>

lemma foreign_reference_kept:
  "canonicalHarvestCandidate small_net (Some (no_url\<lparr>u_scheme := ''http'', u_host := ''h''\<rparr>)) ''//evil.example/x'' = ''//evil.example/x''"
  "canonicalHarvestCandidate small_net (Some (no_url\<lparr>u_scheme := ''http'', u_host := ''h''\<rparr>)) ''mailto:me@evil.example'' = ''mailto:me@evil.example''"
  "canonicalHarvestCandidate small_net (Some (no_url\<lparr>u_scheme := ''http'', u_host := ''h''\<rparr>)) ''http://evil.example/x'' = ''''"
  by code_simp+

end
