(* ===== verification/PassiveHarvest.thy ===== *)
theory PassiveHarvest
  imports HarvestProps
begin

text \<open>
  Passive harvesting, \<open>pkg/engine/passive_harvest.go\<close>: the archives that are asked for addresses of the target, how their
  answers are read, which addresses count as the target's, and what is submitted. The exchange with an archive and the JSON
  decoder are parameters; the archives run side by side, so the order in which they end is a parameter too.
\<close>

section \<open>The target and the addresses of an archive\<close>

definition samePassiveOrigin :: "url option \<Rightarrow> url option \<Rightarrow> bool" where
  "samePassiveOrigin base other =
     (case (base, other) of
        (Some b, Some p) \<Rightarrow>
          let bh = to_lower (trim_space (url_hostname b)); oh = to_lower (trim_space (url_hostname p)) in
          bh \<noteq> '''' \<and> oh \<noteq> '''' \<and> (bh = oh \<or> has_suffix oh (''.'' @ bh) \<or> has_suffix bh (''.'' @ oh))
      | _ \<Rightarrow> False)"

definition canonicalPassiveHarvestCandidate :: "net_ops \<Rightarrow> url option \<Rightarrow> string \<Rightarrow> string" where
  "canonicalPassiveHarvestCandidate = canonical_candidate samePassiveOrigin"

definition passiveHarvestScopeHost :: "url option \<Rightarrow> string" where
  "passiveHarvestScopeHost base =
     (case base of None \<Rightarrow> ''''
      | Some b \<Rightarrow> if trim_space (url_hostname b) \<noteq> '''' then trim_space (url_hostname b) else trim_space (u_host b))"

section \<open>Reading an answer\<close>

primrec index_folded :: "string \<Rightarrow> int \<Rightarrow> string list \<Rightarrow> int" where
  "index_folded want i [] = - 1"
| "index_folded want i (v # vs) = (if trim_space (to_lower v) = want then i else index_folded want (i + 1) vs)"

definition indexOfCaseInsensitive :: "string list \<Rightarrow> string \<Rightarrow> int" where
  "indexOfCaseInsensitive vs want = index_folded (trim_space (to_lower want)) 0 vs"

text \<open>A value of a decoded object: a text, something that writes itself, or anything else.\<close>

datatype any_value = AnyText string | AnyStringer string | AnyOther

fun stringFromMap :: "(string \<times> any_value) list \<Rightarrow> string list \<Rightarrow> string" where
  "stringFromMap m [] = ''''"
| "stringFromMap m (k # ks) =
     (case map_of m k of
        Some (AnyText t) \<Rightarrow> if trim_space t \<noteq> '''' then t else stringFromMap m ks
      | Some (AnyStringer t) \<Rightarrow> if trim_space t \<noteq> '''' then trim_space t else stringFromMap m ks
      | _ \<Rightarrow> stringFromMap m ks)"

text \<open>The decoder of the first archive gives whether the answer opens with a bracket, then the rows up to the first that fails.\<close>

record passive_ops =
  po_net :: net_ops
  po_send :: "duration \<Rightarrow> harvest_request \<Rightarrow> fetched result"
  po_deadline :: "goerror \<Rightarrow> bool"
  po_rows :: "string \<Rightarrow> (bool \<times> string list result list) result"
  po_collections :: "string \<Rightarrow> (string \<times> any_value) list list result"
  po_lines :: "string \<Rightarrow> string list \<times> goerror option"
  po_row :: "string \<Rightarrow> (string \<times> any_value) list option"
  po_otx :: "string \<Rightarrow> string list result"

definition passiveHarvestResultLimit :: int where "passiveHarvestResultLimit = 1000"
definition passiveWaybackCDXURL :: string where "passiveWaybackCDXURL = ''https://web.archive.org/cdx/search/cdx''"
definition passiveCommonCrawlCollectionURL :: string where
  "passiveCommonCrawlCollectionURL = ''https://index.commoncrawl.org/collinfo.json''"
definition passiveCommonCrawlIndexBaseURL :: string where "passiveCommonCrawlIndexBaseURL = ''https://index.commoncrawl.org''"
definition passiveAlienVaultOTXBaseURL :: string where "passiveAlienVaultOTXBaseURL = ''https://otx.alienvault.com/api/v1''"

definition passive_get :: "passive_ops \<Rightarrow> duration \<Rightarrow> string \<Rightarrow> string \<Rightarrow> (string \<times> string) list \<Rightarrow> string result" where
  "passive_get ops timeout who target headers =
     (case po_send ops timeout \<lparr>hr_method = ''GET'', hr_url = target, hr_headers = headers, hr_body = None\<rparr> of
        Inl e \<Rightarrow> Inl e
      | Inr f \<Rightarrow> if ft_status f < 200 \<or> 300 \<le> ft_status f then Inl (who @ '' returned HTTP '' @ itoa (ft_status f)) else Inr (ft_body f))"

definition with_query :: "url \<Rightarrow> (string \<times> string) list \<Rightarrow> url" where
  "with_query u kvs = u\<lparr>u_query := query_encode (foldl (\<lambda>q (k, v). values_set q k v) (parse_query (u_query u)) kvs)\<rparr>"

section \<open>The archives\<close>

fun wayback_rows :: "nat \<Rightarrow> string list result list \<Rightarrow> string list result" where
  "wayback_rows i [] = Inr []"
| "wayback_rows i (Inl e # rows) = Inl e"
| "wayback_rows i (Inr row # rows) =
     (case wayback_rows i rows of Inl e \<Rightarrow> Inl e | Inr ps \<Rightarrow> Inr (if i < length row then row ! i # ps else ps))"

definition wayback_paths :: "(bool \<times> string list result list) \<Rightarrow> string list result" where
  "wayback_paths = (\<lambda>(is_array, rows).
     if \<not> is_array then Inl ''unexpected wayback response format''
     else case rows of
       [] \<Rightarrow> Inr []
     | Inl e # _ \<Rightarrow> Inl e
     | Inr headers # rest \<Rightarrow>
         let idx = indexOfCaseInsensitive headers ''original'' in wayback_rows (if idx < 0 then 0 else nat idx) rest)"

definition wayback_query :: "string \<Rightarrow> (string \<times> string) list" where
  "wayback_query host =
     [(''url'', host @ ''/*''), (''matchType'', ''prefix''), (''output'', ''json''), (''fl'', ''original''),
      (''collapse'', ''urlkey''), (''limit'', itoa passiveHarvestResultLimit)]"

definition fetchWaybackPassivePaths :: "passive_ops \<Rightarrow> duration \<Rightarrow> url option \<Rightarrow> string list result" where
  "fetchWaybackPassivePaths ops timeout base =
     (let host = passiveHarvestScopeHost base in
      if host = '''' then Inl ''missing target hostname''
      else case url_parse passiveWaybackCDXURL of
        None \<Rightarrow> Inl ''parse''
      | Some endpoint \<Rightarrow>
          case passive_get ops timeout ''wayback'' (no_text (po_net ops) (with_query endpoint (wayback_query host))) [] of
            Inl e \<Rightarrow> Inl e
          | Inr body \<Rightarrow> (case po_rows ops body of Inl e \<Rightarrow> Inl e | Inr doc \<Rightarrow> wayback_paths doc))"

definition commoncrawl_index_url :: "(string \<times> any_value) list list \<Rightarrow> string result" where
  "commoncrawl_index_url collections =
     (case collections of
        [] \<Rightarrow> Inl ''commoncrawl collection list is empty''
      | c # _ \<Rightarrow>
          let indexURL = stringFromMap c [''cdx-api'', ''cdxApi'', ''cdx_api''];
              name = stringFromMap c [''name'', ''id''] in
          if indexURL \<noteq> '''' then Inr indexURL
          else if name = '''' then Inl ''commoncrawl collection entry missing index url''
          else Inr (trim_right (\<lambda>c. c = CHR ''/'') passiveCommonCrawlIndexBaseURL @ ''/'' @ name @ ''-index''))"

definition commoncrawl_query :: "string \<Rightarrow> (string \<times> string) list" where
  "commoncrawl_query host =
     [(''url'', host @ ''/*''), (''output'', ''json''), (''fl'', ''url''), (''collapse'', ''urlkey''),
      (''pageSize'', itoa passiveHarvestResultLimit)]"

text \<open>One line of the index: a blank line and a line that is no object are skipped.\<close>

definition commoncrawl_line :: "passive_ops \<Rightarrow> string \<Rightarrow> string option" where
  "commoncrawl_line ops line0 =
     (let line = trim_space line0 in
      if line = '''' then None
      else case po_row ops line of
        None \<Rightarrow> None
      | Some row \<Rightarrow>
          let c = stringFromMap row [''url'', ''original'', ''target'', ''path''] in if c = '''' then None else Some c)"

definition commoncrawl_paths :: "passive_ops \<Rightarrow> string \<Rightarrow> string list result" where
  "commoncrawl_paths ops body =
     (case po_lines ops body of
        (ls, Some e) \<Rightarrow> Inl e
      | (ls, None) \<Rightarrow> Inr (List.map_filter (commoncrawl_line ops) ls))"

definition fetchCommonCrawlPassivePaths :: "passive_ops \<Rightarrow> duration \<Rightarrow> url option \<Rightarrow> string list result" where
  "fetchCommonCrawlPassivePaths ops timeout base =
     (let host = passiveHarvestScopeHost base in
      if host = '''' then Inl ''missing target hostname''
      else case url_parse passiveCommonCrawlCollectionURL of
        None \<Rightarrow> Inl ''parse''
      | Some collectionURL \<Rightarrow>
          case passive_get ops timeout ''commoncrawl collection list'' (no_text (po_net ops) collectionURL) [] of
            Inl e \<Rightarrow> Inl e
          | Inr listing \<Rightarrow>
              case po_collections ops listing of
                Inl e \<Rightarrow> Inl e
              | Inr collections \<Rightarrow>
                  case commoncrawl_index_url collections of
                    Inl e \<Rightarrow> Inl e
                  | Inr indexURL \<Rightarrow>
                      case url_parse indexURL of
                        None \<Rightarrow> Inl ''parse''
                      | Some endpoint \<Rightarrow>
                          case passive_get ops timeout ''commoncrawl index'' (no_text (po_net ops) (with_query endpoint (commoncrawl_query host))) [] of
                            Inl e \<Rightarrow> Inl e
                          | Inr body \<Rightarrow> commoncrawl_paths ops body)"

text \<open>\<open>url.PathEscape\<close>.\<close>

definition PathEscape :: "string \<Rightarrow> string" where
  "PathEscape s = concat (map (\<lambda>c. if query_plain c \<or> c \<in> set ''$&+=:@'' then [c]
     else [CHR ''%'', upper_hex (byte c div 16), upper_hex (byte c mod 16)]) s)"

definition otx_url :: "string \<Rightarrow> string" where
  "otx_url host = trim_right (\<lambda>c. c = CHR ''/'') passiveAlienVaultOTXBaseURL @ ''/indicators/hostname/'' @ PathEscape host @ ''/url_list''"

definition fetchAlienVaultOTXPassivePaths :: "passive_ops \<Rightarrow> duration \<Rightarrow> url option \<Rightarrow> string \<Rightarrow> string list result" where
  "fetchAlienVaultOTXPassivePaths ops timeout base apiKey =
     (let host = passiveHarvestScopeHost base in
      if trim_space apiKey = '''' then Inl ''missing OTX API key''
      else if host = '''' then Inl ''missing target hostname''
      else case passive_get ops timeout ''otx'' (otx_url host) [(''X-OTX-API-KEY'', apiKey)] of
        Inl e \<Rightarrow> Inl e
      | Inr body \<Rightarrow> (case po_otx ops body of Inl e \<Rightarrow> Inl e | Inr urls \<Rightarrow> Inr (filter (\<lambda>u. u \<noteq> '''') urls)))"

section \<open>What is submitted\<close>

definition passive_submission :: "(string \<Rightarrow> string \<Rightarrow> string) \<Rightarrow> int \<Rightarrow> string \<Rightarrow> string \<Rightarrow> harvest_submission" where
  "passive_submission node run source p =
     \<lparr>hb_path = p, hb_run = run, hb_depth = 0, hb_parent = node source ''passive'', hb_source = ''passive'',
      hb_evidence = ''passive monitoring'', hb_from = source\<rparr>"

definition ingestPassiveHarvestPaths :: "net_ops \<Rightarrow> (string \<Rightarrow> string \<Rightarrow> string) \<Rightarrow> url option \<Rightarrow> int \<Rightarrow> string \<Rightarrow> string list \<Rightarrow> harvest_event list" where
  "ingestPassiveHarvestPaths ops node base run source paths =
     (case base of None \<Rightarrow> []
      | Some b \<Rightarrow>
          concat (map (\<lambda>p. [HarvestFound p, SourceNode source ''passive'', HarvestSubmitted (passive_submission node run source p)])
            (dedupeHarvestVariants (map (canonicalPassiveHarvestCandidate ops base) paths))))"

section \<open>A run\<close>

record passive_config =
  pc_passive :: bool
  pc_harvest :: bool
  pc_key :: string
  pc_timeout :: duration

definition shouldRunPassiveHarvest :: "passive_config \<Rightarrow> bool" where
  "shouldRunPassiveHarvest cfg \<longleftrightarrow> pc_passive cfg \<or> pc_harvest cfg"

definition defaultPassiveHarvestSourceTimeout :: duration where "defaultPassiveHarvestSourceTimeout = 6 * second"
definition defaultPassiveHarvestOverallTimeout :: duration where "defaultPassiveHarvestOverallTimeout = 18 * second"

text \<open>The time for one archive and for all.\<close>

definition passive_timeouts :: "passive_config \<Rightarrow> duration \<times> duration" where
  "passive_timeouts cfg =
     (let s0 = (if pc_timeout cfg > 0 \<and> pc_timeout cfg < defaultPassiveHarvestSourceTimeout then pc_timeout cfg else defaultPassiveHarvestSourceTimeout);
          s = (if s0 \<le> 0 then defaultPassiveHarvestSourceTimeout else s0);
          o1 = (if s * 3 > defaultPassiveHarvestOverallTimeout then s * 3 else defaultPassiveHarvestOverallTimeout);
          o2 = (if o1 < s then s else o1)
      in (s, o2))"

datatype passive_source = Wayback | CommonCrawl | AlienVaultOTX

primrec source_name :: "passive_source \<Rightarrow> string" where
  "source_name Wayback = ''wayback''"
| "source_name CommonCrawl = ''commoncrawl''"
| "source_name AlienVaultOTX = ''alienvault-otx''"

definition passive_sources :: "passive_config \<Rightarrow> passive_source list" where
  "passive_sources cfg = [Wayback, CommonCrawl] @ (if trim_space (pc_key cfg) \<noteq> '''' then [AlienVaultOTX] else [])"

primrec run_source :: "passive_ops \<Rightarrow> duration \<Rightarrow> url \<Rightarrow> string \<Rightarrow> passive_source \<Rightarrow> string list result" where
  "run_source ops t base key Wayback = fetchWaybackPassivePaths ops t (Some base)"
| "run_source ops t base key CommonCrawl = fetchCommonCrawlPassivePaths ops t (Some base)"
| "run_source ops t base key AlienVaultOTX = fetchAlienVaultOTXPassivePaths ops t (Some base) key"

datatype passive_event =
    PassiveBadBase string
  | PassiveNoKey
  | PassiveTimedOut string
  | PassiveFailed string
  | PassiveHarvest harvest_event

definition source_events :: "passive_ops \<Rightarrow> (string \<Rightarrow> string \<Rightarrow> string) \<Rightarrow> duration \<Rightarrow> url \<Rightarrow> int \<Rightarrow> string \<Rightarrow> passive_source \<Rightarrow> passive_event list" where
  "source_events ops node t base run key src =
     (case run_source ops t base key src of
        Inl e \<Rightarrow> [if po_deadline ops e then PassiveTimedOut (source_name src) else PassiveFailed (source_name src)]
      | Inr paths \<Rightarrow> map PassiveHarvest (ingestPassiveHarvestPaths (po_net ops) node (Some base) run (source_name src) paths))"

text \<open>\<open>order\<close> puts the archives in the order in which they end; the events of one are submitted together, as other archives touch
  nothing of it.\<close>

definition StartPassiveHarvesting :: "passive_ops \<Rightarrow> (string \<Rightarrow> string \<Rightarrow> string) \<Rightarrow> (passive_source list \<Rightarrow> passive_source list) \<Rightarrow>
    passive_config \<Rightarrow> string \<Rightarrow> int \<Rightarrow> string \<Rightarrow> passive_event list" where
  "StartPassiveHarvesting ops node order cfg engineBase run target =
     (let base = (if trim_space target = '''' then engineBase else trim_space target) in
      if \<not> shouldRunPassiveHarvest cfg \<or> base = '''' then []
      else case url_parse base of
        None \<Rightarrow> [PassiveBadBase base]
      | Some parsed \<Rightarrow>
          (if trim_space (pc_key cfg) = '''' then [PassiveNoKey] else []) @
          concat (map (source_events ops node (fst (passive_timeouts cfg)) parsed run (trim_space (pc_key cfg)))
            (order (passive_sources cfg))))"

section \<open>What a run submits\<close>

lemma passive_timeouts_bounds:
  "0 < fst (passive_timeouts cfg)" "fst (passive_timeouts cfg) \<le> 6 * second" "snd (passive_timeouts cfg) = 18 * second"
  "0 < pc_timeout cfg \<Longrightarrow> fst (passive_timeouts cfg) \<le> pc_timeout cfg"
  by (auto simp: passive_timeouts_def Let_def defaultPassiveHarvestSourceTimeout_def defaultPassiveHarvestOverallTimeout_def second_def)

fun passive_submitted :: "passive_event list \<Rightarrow> harvest_submission list" where
  "passive_submitted [] = []"
| "passive_submitted (PassiveHarvest (HarvestSubmitted b) # es) = b # passive_submitted es"
| "passive_submitted (x # es) = passive_submitted es"

lemma passive_submitted_append [simp]: "passive_submitted (xs @ ys) = passive_submitted xs @ passive_submitted ys"
  by (induction xs rule: passive_submitted.induct) simp_all

lemma passive_submitted_concat: "passive_submitted (concat xss) = concat (map passive_submitted xss)"
  by (induction xss) simp_all

definition source_paths :: "passive_ops \<Rightarrow> duration \<Rightarrow> url \<Rightarrow> string \<Rightarrow> passive_source \<Rightarrow> string list" where
  "source_paths ops t base key src =
     (case run_source ops t base key src of
        Inl e \<Rightarrow> [] | Inr paths \<Rightarrow> dedupeHarvestVariants (map (canonicalPassiveHarvestCandidate (po_net ops) (Some base)) paths))"

lemma source_submits:
  "passive_submitted (source_events ops node t base run key src) =
   map (passive_submission node run (source_name src)) (source_paths ops t base key src)"
proof -
  have "passive_submitted (map PassiveHarvest (concat (map (\<lambda>p. [HarvestFound p, SourceNode s ''passive'', HarvestSubmitted (f p)]) ps))) = map f ps"
    for s f ps by (induction ps) simp_all
  then show ?thesis by (simp add: source_events_def source_paths_def ingestPassiveHarvestPaths_def split: sum.split)
qed

lemma source_paths_facts:
  "distinct (source_paths ops t base key src)"
  "p \<in> set (source_paths ops t base key src) \<longleftrightarrow> p \<noteq> '''' \<and>
     (\<exists>paths. run_source ops t base key src = Inr paths \<and> p \<in> canonicalPassiveHarvestCandidate (po_net ops) (Some base) ` set paths)"
proof -
  show "distinct (source_paths ops t base key src)" using dedupe_facts by (auto simp: source_paths_def split: sum.split)
  show "p \<in> set (source_paths ops t base key src) \<longleftrightarrow> p \<noteq> '''' \<and>
     (\<exists>paths. run_source ops t base key src = Inr paths \<and> p \<in> canonicalPassiveHarvestCandidate (po_net ops) (Some base) ` set paths)"
    by (cases "run_source ops t base key src") (auto simp: source_paths_def dedupe_facts)
qed

lemma source_name_inj: "source_name a = source_name b \<longleftrightarrow> a = b"
  by (cases a; cases b) simp_all

lemma passive_sources_distinct: "distinct (passive_sources cfg)"
  by (simp add: passive_sources_def)

lemma distinct_tagged:
  assumes "distinct xs" "\<And>x. distinct (f x)" "\<And>x y b. b \<in> set (f x) \<Longrightarrow> b \<in> set (f y) \<Longrightarrow> x = y"
  shows "distinct (concat (map f xs))"
  using assms(1) by (induction xs) (auto simp: assms(2) dest: assms(3))

text \<open>Whatever the order in which the archives end, a run of passive harvesting submits for every archive that answers each
  of its addresses that is the target's once, as a path of depth 0 of the run, and nothing else: an archive that fails takes
  nothing from the others.\<close>

theorem passive_submits:
  assumes "mset (order (passive_sources cfg)) = mset (passive_sources cfg)" "shouldRunPassiveHarvest cfg"
    and "trim_space target \<noteq> ''''" "url_parse (trim_space target) = Some base"
  shows "let bs = passive_submitted (StartPassiveHarvesting ops node order cfg engineBase run target) in distinct bs \<and>
    (\<forall>b. b \<in> set bs \<longleftrightarrow> (\<exists>src paths p. src \<in> set (passive_sources cfg) \<and>
       run_source ops (fst (passive_timeouts cfg)) base (trim_space (pc_key cfg)) src = Inr paths \<and> p \<noteq> '''' \<and>
       p \<in> canonicalPassiveHarvestCandidate (po_net ops) (Some base) ` set paths \<and> b = passive_submission node run (source_name src) p))"
proof -
  let ?f = "\<lambda>src. map (passive_submission node run (source_name src))
    (source_paths ops (fst (passive_timeouts cfg)) base (trim_space (pc_key cfg)) src)"
  let ?bs = "passive_submitted (StartPassiveHarvesting ops node order cfg engineBase run target)"
  have bs: "?bs = concat (map ?f (order (passive_sources cfg)))"
    using assms by (simp add: StartPassiveHarvesting_def passive_submitted_concat source_submits comp_def)
  have order: "distinct (order (passive_sources cfg))" "set (order (passive_sources cfg)) = set (passive_sources cfg)"
    using assms(1) passive_sources_distinct mset_eq_imp_distinct_iff mset_eq_setD by blast+
  have "distinct ?bs" unfolding bs
    by (rule distinct_tagged [OF order(1)])
      (auto simp: distinct_map source_paths_facts(1) inj_on_def passive_submission_def source_name_inj)
  moreover have "b \<in> set ?bs \<longleftrightarrow> (\<exists>src \<in> set (passive_sources cfg). \<exists>p \<in> set (source_paths ops (fst (passive_timeouts cfg)) base
      (trim_space (pc_key cfg)) src). b = passive_submission node run (source_name src) p)" for b
    unfolding bs using order(2) by auto
  ultimately show ?thesis unfolding Let_def Bex_def source_paths_facts(2) by blast
qed

definition small_archives :: passive_ops where
  "small_archives = \<lparr>po_net = small_net,
     po_send = (\<lambda>t r. if has_prefix (hr_url r) ''https://web'' then Inr \<lparr>ft_status = 200, ft_type = '''', ft_body = ''rows''\<rparr>
       else Inl ''down''),
     po_deadline = (\<lambda>e. False),
     po_rows = (\<lambda>b. Inr (True, [Inr [''key'', ''Original''], Inr [''k'', ''http://h/a''], Inr [''k''], Inr [''k'', ''https://h/a''],
       Inr [''k'', ''http://x/b'']])),
     po_collections = (\<lambda>b. Inl ''unused''), po_lines = (\<lambda>b. ([], None)), po_row = (\<lambda>b. None), po_otx = (\<lambda>b. Inr [])\<rparr>"

definition small_passive :: passive_config where
  "small_passive = \<lparr>pc_passive = True, pc_harvest = False, pc_key = '''', pc_timeout = 0\<rparr>"

lemma passive_submits_witness:
  "let bs = passive_submitted (StartPassiveHarvesting small_archives (\<lambda>u k. u) rev small_passive '''' 5 '' http://h'') in
   distinct bs \<and> map hb_path bs = [''/a'']"
proof -
  have p: "trim_space '' http://h'' = ''http://h''" "url_parse ''http://h'' = Some (no_url\<lparr>u_scheme := ''http'', u_host := ''h''\<rparr>)"
    by code_simp+
  have "distinct (passive_submitted (StartPassiveHarvesting small_archives (\<lambda>u k. u) rev small_passive '''' 5 '' http://h''))"
    using passive_submits [of rev small_passive "'' http://h''" _ small_archives "\<lambda>u k. u" "''''" 5] p
    by (simp add: Let_def shouldRunPassiveHarvest_def small_passive_def)
  moreover have "map hb_path (passive_submitted (StartPassiveHarvesting small_archives (\<lambda>u k. u) rev small_passive '''' 5 '' http://h'')) = [''/a'']"
    by code_simp
  ultimately show ?thesis by (simp add: Let_def)
qed

text \<open>A parent of the target's host counts as the target, up to the last label: the paths that an archive knows of another site
  become paths of the target.\<close>

lemma parent_counts_as_target:
  "canonicalPassiveHarvestCandidate small_net (Some (no_url\<lparr>u_scheme := ''http'', u_host := ''shop.example.com''\<rparr>)) ''http://com/x'' = ''/x''"
  by code_simp

end
