(* ===== verification/SourceMap.thy ===== *)
theory SourceMap
  imports HarvestProps WorkerRequest Bypass403
begin

text \<open>
  Source maps, \<open>pkg/engine/sourcemap.go\<close>: the address of the map of a script, fetching it, the routes it names, and the bounded number of
  such tasks. The regular expression of routes, base64, JSON, the limiter and the exchange are parameters.
\<close>

section \<open>The address of a map\<close>

definition cleanSourceMapURL :: "string \<Rightarrow> string" where
  "cleanSourceMapURL raw0 =
     (let r1 = trim_by (\<lambda>c. c \<in> {CHR 0x22, CHR 0x27}) (trim_space raw0);
          r2 = trim_space (trim_suffix r1 ''*/'')
      in case index_byte (\<lambda>c. c \<in> {CHR '' '', CHR 0x09}) r2 of None \<Rightarrow> r2 | Some i \<Rightarrow> take i r2)"

text \<open>\<open>strings.LastIndex\<close>.\<close>

definition last_index_str :: "string \<Rightarrow> string \<Rightarrow> nat option" where
  "last_index_str s p = map_option (\<lambda>i. length s - length p - i) (index_str (rev s) (rev p))"

definition source_map_header :: "string \<times> string \<Rightarrow> string option" where
  "source_map_header = (\<lambda>(key, val).
     if to_lower (trim_space key) \<in> {''sourcemap'', ''x-sourcemap''} \<and> cleanSourceMapURL val \<noteq> '''' then Some (cleanSourceMapURL val) else None)"

definition source_map_tail :: nat where "source_map_tail = 8192"

definition until_mark :: "string \<Rightarrow> string" where
  "until_mark value =
     (let v = (case index_byte (\<lambda>c. c \<in> {CHR 0x0D, CHR 0x0A}) value of None \<Rightarrow> value | Some i \<Rightarrow> take i value)
      in case index_str v ''*/'' of None \<Rightarrow> v | Some i \<Rightarrow> take i v)"

text \<open>The headers are tried in the order in which the map is walked.\<close>

definition ExtractSourceMapURL :: "(string, string) gomap \<Rightarrow> string \<Rightarrow> string" where
  "ExtractSourceMapURL headers body =
     (case List.map_filter source_map_header (gm_items headers) of
        u # _ \<Rightarrow> u
      | [] \<Rightarrow>
          let tail = drop (length body - source_map_tail) body in
          (case last_index_str (to_lower tail) ''sourcemappingurl='' of
             None \<Rightarrow> ''''
           | Some i \<Rightarrow> cleanSourceMapURL (until_mark (drop (i + 17) tail))))"

definition resolveSourceMapURL :: "net_ops \<Rightarrow> string \<Rightarrow> string \<Rightarrow> url result" where
  "resolveSourceMapURL ops jsURL0 mapURL0 =
     (let jsURL = trim_space jsURL0; mapURL = trim_space mapURL0 in
      if jsURL = '''' then Inl ''source map parse requires javascript url''
      else if mapURL = '''' then Inl ''source map url is empty''
      else case url_parse mapURL of
        None \<Rightarrow> Inl ''parse source map url''
      | Some ref \<Rightarrow>
          if u_scheme ref = ''data'' then Inr ref
          else case url_parse jsURL of
            None \<Rightarrow> Inl ''parse javascript url''
          | Some base \<Rightarrow> Inr (no_resolve ops base ref))"

section \<open>Fetching and reading\<close>

record source_map_snap =
  sm_agent :: string
  sm_template :: string
  sm_timeout :: duration

record 's source_map_ops =
  sm_net :: net_ops
  sm_base64 :: "string \<Rightarrow> string result"
  sm_json :: "string \<Rightarrow> (string list \<times> string list) result"
  sm_routes :: "string \<Rightarrow> string list"
  sm_limit :: "string \<Rightarrow> goerror option"
  sm_exec :: "string \<Rightarrow> duration \<Rightarrow> string \<Rightarrow> 's \<Rightarrow> raw_response result \<times> 's"

definition sourceMapHarvestBodyLimit :: int where "sourceMapHarvestBodyLimit = 10 * 1024 * 1024"

definition decodeDataSourceMap :: "(string \<Rightarrow> string result) \<Rightarrow> string \<Rightarrow> string result" where
  "decodeDataSourceMap base64 raw =
     (case index_byte (\<lambda>c. c = CHR '','') raw of
        None \<Rightarrow> Inl ''invalid data source map url''
      | Some comma \<Rightarrow>
          if contains_str (take comma raw) '';base64'' then base64 (drop (comma + 1) raw)
          else (case QueryUnescape (drop (comma + 1) raw) of None \<Rightarrow> Inl ''invalid URL escape'' | Some d \<Rightarrow> Inr d))"

definition source_map_request :: "source_map_snap \<Rightarrow> url \<Rightarrow> string" where
  "source_map_request snap u = buildRequest ''GET'' (request_path u) (u_host u) (sm_agent snap) (sm_template snap) ''''"

definition loadSourceMapBytes :: "'s source_map_ops \<Rightarrow> source_map_snap \<Rightarrow> string \<Rightarrow> string \<Rightarrow> 's \<Rightarrow> (string \<times> string) result \<times> 's" where
  "loadSourceMapBytes ops snap jsURL mapURL s =
     (case resolveSourceMapURL (sm_net ops) jsURL mapURL of
        Inl e \<Rightarrow> (Inl e, s)
      | Inr u \<Rightarrow>
          let text = no_text (sm_net ops) u in
          if u_scheme u = ''data'' then
            ((case decodeDataSourceMap (sm_base64 ops) text of Inl e \<Rightarrow> Inl e | Inr d \<Rightarrow> Inr (text, d)), s)
          else case sm_limit ops (u_host u) of
            Some e \<Rightarrow> (Inl e, s)
          | None \<Rightarrow>
              (case sm_exec ops text (if sm_timeout snap \<le> 0 then 5 * second else sm_timeout snap) (source_map_request snap u) s of
                 (Inl e, s') \<Rightarrow> (Inl e, s')
               | (Inr resp, s') \<Rightarrow>
                   (if rr_encoded resp then Inl (''source map response body is encoded for '' @ text)
                    else if int (length (rr_body resp)) > sourceMapHarvestBodyLimit then Inl (''source map body exceeds limit for '' @ text)
                    else Inr (text, rr_body resp), s')))"

definition route_trim :: "char \<Rightarrow> bool" where
  "route_trim c \<longleftrightarrow> c \<in> {CHR 0x22, CHR 0x27, CHR 0x60, CHR '' '', CHR 0x09, CHR 0x0D, CHR 0x0A} \<or> c \<in> set '',;)]}''"

definition normalizeSourceMapRoute :: "string \<Rightarrow> string" where
  "normalizeSourceMapRoute candidate =
     (let c = trim_by route_trim (trim_space candidate) in
      if c = '''' then ''''
      else if has_prefix c ''http://'' \<or> has_prefix c ''https://'' then
        (case url_parse c of None \<Rightarrow> '''' | Some u \<Rightarrow> request_path u)
      else if \<not> has_prefix c ''/'' then ''/'' @ c else c)"

definition extractSourceMapRoutes :: "'s source_map_ops \<Rightarrow> string \<Rightarrow> string list" where
  "extractSourceMapRoutes ops content = (if trim_space content = '''' then [] else sm_routes ops content)"

text \<open>The routes of a map, each once, in the order of the document; the code walks over them as a set.\<close>

definition source_map_paths :: "'s source_map_ops \<Rightarrow> string list \<Rightarrow> string list \<Rightarrow> string list" where
  "source_map_paths ops sources contents =
     dedupeHarvestVariants (map normalizeSourceMapRoute (sources @ concat (map (extractSourceMapRoutes ops) contents)))"

definition parseSourceMapWithDepth :: "'s source_map_ops \<Rightarrow> source_map_snap \<Rightarrow> (string \<Rightarrow> string \<Rightarrow> string) \<Rightarrow> string \<Rightarrow> string \<Rightarrow> int \<Rightarrow> int \<Rightarrow> 's
    \<Rightarrow> harvest_event list result \<times> 's" where
  "parseSourceMapWithDepth ops snap node jsURL mapURL harvestDepth runID s =
     (case loadSourceMapBytes ops snap jsURL mapURL s of
        (Inl e, s') \<Rightarrow> (Inl e, s')
      | (Inr (resolvedURL, mapBody), s') \<Rightarrow>
          (case sm_json ops mapBody of
             Inl e \<Rightarrow> (Inl (''parse source map '' @ resolvedURL), s')
           | Inr (sources, contents) \<Rightarrow>
               (Inr (SourceNode resolvedURL ''sourcemap'' #
                  map (\<lambda>p. HarvestSubmitted \<lparr>hb_path = p, hb_run = runID, hb_depth = harvestDepth, hb_parent = node resolvedURL ''sourcemap'',
                         hb_source = ''sourcemap'', hb_evidence = ''sourcemap route extraction'', hb_from = resolvedURL\<rparr>)
                    (source_map_paths ops sources contents)), s')))"

definition ParseSourceMap :: "'s source_map_ops \<Rightarrow> source_map_snap option \<Rightarrow> (string \<Rightarrow> string \<Rightarrow> string) \<Rightarrow> string \<Rightarrow> string \<Rightarrow> int \<Rightarrow> 's
    \<Rightarrow> harvest_event list result \<times> 's" where
  "ParseSourceMap ops snap node jsURL mapURL run s =
     (case snap of None \<Rightarrow> (Inl ''source map parse requires config snapshot'', s)
      | Some c \<Rightarrow> parseSourceMapWithDepth ops c node jsURL mapURL 1 run s)"

section \<open>Scheduling\<close>

definition shouldHarvestSourceMap :: "string \<Rightarrow> string \<Rightarrow> bool" where
  "shouldHarvestSourceMap reqPath contentType \<longleftrightarrow>
     has_suffix (to_lower (trim_space reqPath)) ''.js'' \<or> contains_str (to_lower (trim_space contentType)) ''javascript''"

text \<open>A task takes a place of the semaphore and counts as a job, or is dropped; at its end it gives both back.\<close>

definition scheduleSourceMapHarvest :: "bool \<Rightarrow> bool \<Rightarrow> bypass_tasks \<Rightarrow> bool \<times> bypass_tasks" where
  "scheduleSourceMapHarvest enabled cancelled k = (if \<not> enabled \<or> cancelled then (False, k) else schedule403BypassTask True k)"

section \<open>What is submitted\<close>

text \<open>C29: A source map that was read submits every route that it names once, for its run and at its depth, and nothing else: the
  normal forms of its sources and of the matches in its contents, without empty ones.\<close>

theorem source_map_routes:
  assumes "parseSourceMapWithDepth ops snap node jsURL mapURL d run s = (Inr es, s')"
  shows "\<exists>resolved body sources contents bs. sm_json ops body = Inr (sources, contents) \<and>
    es = SourceNode resolved ''sourcemap'' # map HarvestSubmitted bs \<and> distinct (map hb_path bs) \<and>
    set (map hb_path bs) = {p. p \<noteq> '''' \<and> (\<exists>c. normalizeSourceMapRoute c = p \<and>
      (c \<in> set sources \<or> (\<exists>t \<in> set contents. trim_space t \<noteq> '''' \<and> c \<in> set (sm_routes ops t))))} \<and>
    (\<forall>b \<in> set bs. hb_run b = run \<and> hb_depth b = d \<and> hb_from b = resolved)"
proof -
  obtain resolved body where l: "loadSourceMapBytes ops snap jsURL mapURL s = (Inr (resolved, body), s')"
    using assms by (auto simp: parseSourceMapWithDepth_def split: prod.splits sum.splits)
  obtain sources contents where j: "sm_json ops body = Inr (sources, contents)"
    using assms l by (auto simp: parseSourceMapWithDepth_def split: sum.splits)
  define bs where "bs = map (\<lambda>p. \<lparr>hb_path = p, hb_run = run, hb_depth = d, hb_parent = node resolved ''sourcemap'',
      hb_source = ''sourcemap'', hb_evidence = ''sourcemap route extraction'', hb_from = resolved\<rparr>) (source_map_paths ops sources contents)"
  have p: "map hb_path bs = source_map_paths ops sources contents" by (simp add: bs_def comp_def)
  have "es = SourceNode resolved ''sourcemap'' # map HarvestSubmitted bs"
    using assms l j by (simp add: parseSourceMapWithDepth_def bs_def comp_def)
  moreover have "distinct (map hb_path bs)" unfolding p source_map_paths_def using dedupe_facts by blast
  moreover have "set (map hb_path bs) = {p. p \<noteq> '''' \<and> (\<exists>c. normalizeSourceMapRoute c = p \<and>
      (c \<in> set sources \<or> (\<exists>t \<in> set contents. trim_space t \<noteq> '''' \<and> c \<in> set (sm_routes ops t))))}"
  proof -
    let ?cs = "sources @ concat (map (extractSourceMapRoutes ops) contents)"
    have c: "c \<in> set ?cs \<longleftrightarrow> c \<in> set sources \<or> (\<exists>t \<in> set contents. trim_space t \<noteq> '''' \<and> c \<in> set (sm_routes ops t))" for c
      by (auto simp: extractSourceMapRoutes_def split: if_splits)
    have "set (map hb_path bs) = {p \<in> set (map normalizeSourceMapRoute ?cs). p \<noteq> ''''}"
      unfolding p source_map_paths_def using dedupe_facts by blast
    also have "\<dots> = {p. p \<noteq> '''' \<and> (\<exists>c. normalizeSourceMapRoute c = p \<and> c \<in> set ?cs)}"
      unfolding set_map image_def by blast
    finally show ?thesis unfolding c .
  qed
  moreover have "\<forall>b \<in> set bs. hb_run b = run \<and> hb_depth b = d \<and> hb_from b = resolved" by (simp add: bs_def)
  ultimately show ?thesis using j by blast
qed

definition small_map_ops :: "string list source_map_ops" where
  "small_map_ops = \<lparr>sm_net = demo_ops, sm_base64 = (\<lambda>d. Inl ''unused''), sm_json = (\<lambda>b. Inr ([''webpack:///a.js''], [''/x /y''])),
     sm_routes = split_on (CHR '' ''), sm_limit = (\<lambda>h. None),
     sm_exec = (\<lambda>u t raw sent. (Inr (demo_answer 200 ''map''), sent @ [raw]))\<rparr>"

definition small_map_snap :: source_map_snap where
  "small_map_snap = \<lparr>sm_agent = ''ua'', sm_template = wire_line (''Cookie'', ''secret''), sm_timeout = 0\<rparr>"

definition small_map :: "harvest_event list result \<times> string list" where
  "small_map = parseSourceMapWithDepth small_map_ops small_map_snap (\<lambda>u k. u) ''http://h/a.js'' ''http://evil.example/m'' 1 3 []"

lemma source_map_routes_witness:
  "\<exists>es bs. fst small_map = Inr es \<and> es = SourceNode ''evil.example'' ''sourcemap'' # map HarvestSubmitted bs \<and> distinct (map hb_path bs) \<and>
     map hb_path bs = [''/webpack:///a.js'', ''/x'', ''/y'']"
proof -
  have v: "(case fst small_map of Inl e \<Rightarrow> None | Inr es \<Rightarrow> Some (hd es, map hb_path (submissions es))) =
      Some (SourceNode ''evil.example'' ''sourcemap'', [''/webpack:///a.js'', ''/x'', ''/y''])"
    by code_simp
  then obtain es where es: "fst small_map = Inr es" "hd es = SourceNode ''evil.example'' ''sourcemap''"
      "map hb_path (submissions es) = [''/webpack:///a.js'', ''/x'', ''/y'']"
    by (auto split: sum.splits)
  then have "parseSourceMapWithDepth small_map_ops small_map_snap (\<lambda>u k. u) ''http://h/a.js'' ''http://evil.example/m'' 1 3 [] = (Inr es, snd small_map)"
    by (metis prod.collapse small_map_def)
  from source_map_routes [OF this] obtain r bs where b: "es = SourceNode r ''sourcemap'' # map HarvestSubmitted bs" "distinct (map hb_path bs)"
    by blast
  have "submissions (map HarvestSubmitted bs) = bs" by (induction bs) simp_all
  with es b show ?thesis by auto
qed

text \<open>The map of a script may be on any host: the request for it carries the headers of the configuration, with cookies and
  tokens, to the host that the target named.\<close>

lemma headers_leave_the_target:
  "snd small_map = [buildRequest ''GET'' ''/m'' ''evil.example'' ''ua'' (wire_line (''Cookie'', ''secret'')) '''']"
  by code_simp

text \<open>Two headers may name a map, and which one counts depends on the order in which the headers are walked.\<close>

lemma source_map_header_order:
  "ExtractSourceMapURL (Some [(''sourcemap'', ''a''), (''x-sourcemap'', ''b'')]) '''' = ''a''"
  "ExtractSourceMapURL (Some [(''x-sourcemap'', ''b''), (''sourcemap'', ''a'')]) '''' = ''b''"
  by code_simp+

text \<open>The path of a route on another host is taken for a path of the target.\<close>

lemma foreign_route_taken: "normalizeSourceMapRoute ''https://evil.example/x'' = ''/x''"
  by code_simp

end
