(* ===== verification/Exchange.thy ===== *)
theory Exchange
  imports WorkerRequest HttpClient
begin

text \<open>
  One exchange with the target, \<open>pkg/engine/antibot.go\<close> and the callers in \<open>engine_request.go\<close>: the cookies kept between
  requests, how they are put into a raw request, the plain and the HTTP/2 path, and a second attempt after a challenge was
  solved. It gives \<open>retry_loop\<close> of Request its operations. The cookie jar, the parser of \<open>Set-Cookie\<close>, the client and the
  browser are parameters; the solver itself is Solver.
\<close>

section \<open>Cookies\<close>

record cookie =
  ck_name :: string
  ck_value :: string
  ck_domain :: string
  ck_path :: string
  ck_secure :: bool
  ck_http_only :: bool
  ck_expires :: int

record 'j jar_ops =
  jo_cookies :: "'j \<Rightarrow> url \<Rightarrow> (string \<times> string) list"
  jo_set :: "'j \<Rightarrow> url \<Rightarrow> cookie list \<Rightarrow> 'j"
  jo_parse :: "string list \<Rightarrow> cookie list"

text \<open>The manager of the engine is its jar; \<open>None\<close> is the nil manager.\<close>

definition cookieHeaderValue :: "'j jar_ops \<Rightarrow> 'j option \<Rightarrow> string \<Rightarrow> string" where
  "cookieHeaderValue ops jar targetURL =
     (case (jar, if targetURL = '''' then None else url_parse targetURL) of
        (Some j, Some u) \<Rightarrow> join ''; '' (map (\<lambda>(n, v). n @ ''='' @ v) (filter (\<lambda>(n, v). n \<noteq> '''') (jo_cookies ops j u)))
      | _ \<Rightarrow> '''')"

definition storeCookies :: "'j jar_ops \<Rightarrow> string \<Rightarrow> cookie list \<Rightarrow> 'j option \<Rightarrow> 'j option" where
  "storeCookies ops targetURL cookies jar =
     (if targetURL = '''' \<or> cookies = [] then jar
      else case url_parse targetURL of None \<Rightarrow> jar | Some u \<Rightarrow> map_option (\<lambda>j. jo_set ops j u cookies) jar)"

definition cookieAppliesToHost :: "string \<Rightarrow> string \<Rightarrow> bool" where
  "cookieAppliesToHost cookieDomain host0 =
     (let d = trim_space (to_lower cookieDomain); host = to_lower host0; d' = trim_prefix d ''.'' in
      host0 \<noteq> '''' \<and> (d = '''' \<or> host = d' \<or> has_suffix host (''.'' @ d')))"

text \<open>The cookies of the browser: the expiry is kept when it is positive.\<close>

definition storeProtoCookies :: "'j jar_ops \<Rightarrow> string \<Rightarrow> cookie list \<Rightarrow> 'j option \<Rightarrow> 'j option" where
  "storeProtoCookies ops targetURL cookies jar =
     (if targetURL = '''' \<or> cookies = [] then jar
      else case url_parse targetURL of
        None \<Rightarrow> jar
      | Some u \<Rightarrow>
          let converted = map (\<lambda>c. c\<lparr>ck_expires := max 0 (ck_expires c)\<rparr>)
            (filter (\<lambda>c. ck_name c \<noteq> '''' \<and> cookieAppliesToHost (ck_domain c) (url_hostname u)) cookies)
          in if converted = [] then jar else map_option (\<lambda>j. jo_set ops j u converted) jar)"

text \<open>The values of the \<open>Set-Cookie\<close> lines after the status line.\<close>

definition set_cookie_line :: "string \<Rightarrow> string option" where
  "set_cookie_line line0 =
     (let line = trim_space line0 in
      case split_two (CHR '':'') line of
        (_, None) \<Rightarrow> None
      | (k, Some v) \<Rightarrow> if to_lower (trim_space k) = ''set-cookie'' then Some (trim_space v) else None)"

definition ParseSetCookies :: "'j jar_ops \<Rightarrow> string \<Rightarrow> cookie list" where
  "ParseSetCookies ops headers =
     (if headers = '''' then []
      else jo_parse ops (List.map_filter set_cookie_line (tl (split_on LF (normalize_eol headers)))))"

definition mergeResponseCookies :: "'j jar_ops \<Rightarrow> string \<Rightarrow> raw_response \<Rightarrow> 'j option \<Rightarrow> 'j option" where
  "mergeResponseCookies ops targetURL resp jar = storeCookies ops targetURL (ParseSetCookies ops (rr_headers resp)) jar"

section \<open>Cookies in a raw request\<close>

definition findHeaderSeparator :: "string \<Rightarrow> (nat \<times> string) option" where
  "findHeaderSeparator raw =
     (case index_str raw (crlf @ crlf) of
        Some i \<Rightarrow> Some (i, crlf @ crlf)
      | None \<Rightarrow> (case index_str raw [LF, LF] of Some i \<Rightarrow> Some (i, [LF, LF]) | None \<Rightarrow> None))"

text \<open>The value of a cookie line, if the line is one.\<close>

definition cookie_of_line :: "string \<Rightarrow> string option" where
  "cookie_of_line line =
     (case index_byte (\<lambda>c. c = CHR '':'') line of
        None \<Rightarrow> None
      | Some i \<Rightarrow> if equal_fold (trim_space (take i line)) ''Cookie'' then Some (trim_space (drop (i + 1) line)) else None)"

definition merge_cookie_line :: "string \<Rightarrow> string \<Rightarrow> string" where
  "merge_cookie_line v line =
     (case cookie_of_line line of
        None \<Rightarrow> line
      | Some old \<Rightarrow> if old = '''' then ''Cookie: '' @ v else ''Cookie: '' @ old @ ''; '' @ v)"

definition inject_lines :: "string \<Rightarrow> string list \<Rightarrow> string list" where
  "inject_lines v lines =
     (let keep = (\<lambda>ls. filter (\<lambda>l. l \<noteq> '''') (map (trim_right (\<lambda>c. c = CR)) ls));
          rest = keep (tl lines)
      in keep (take 1 lines) @ map (merge_cookie_line v) rest @
         (if list_ex (\<lambda>l. cookie_of_line l \<noteq> None) rest then [] else [''Cookie: '' @ v]))"

definition wire_lines :: "string list \<Rightarrow> string" where
  "wire_lines ls = concat (map (\<lambda>l. l @ crlf) ls)"

definition injectCookiesIntoRawRequest :: "'j jar_ops \<Rightarrow> 'j option \<Rightarrow> string \<Rightarrow> string \<Rightarrow> string" where
  "injectCookiesIntoRawRequest ops jar targetURL raw =
     (let v = cookieHeaderValue ops jar targetURL in
      if v = '''' then raw
      else case findHeaderSeparator raw of
        None \<Rightarrow> raw
      | Some (e, sep) \<Rightarrow>
          wire_lines (inject_lines v (split_on LF (normalize_eol (take e raw)))) @ crlf @ drop (e + length sep) raw)"

section \<open>Executing a request\<close>

record ('s, 'j) exchange =
  ex_jar :: "'j jar_ops"
  ex_send :: "string \<Rightarrow> string \<Rightarrow> 's \<Rightarrow> raw_response result \<times> 's"
  ex_h2 :: "(string \<Rightarrow> string \<Rightarrow> 's \<Rightarrow> raw_response result \<times> 's) option"
  ex_solve :: "string \<Rightarrow> 'j \<Rightarrow> 's \<Rightarrow> bool \<times> 'j \<times> 's"
  ex_blocked :: "raw_response \<Rightarrow> bool"
  ex_context_error :: "goerror \<Rightarrow> bool"
  ex_cancelled :: "'s \<Rightarrow> bool"

record exchange_config =
  ec_h2 :: bool
  ec_fallback :: bool
  ec_retries :: int

record ('s, 'j) exchange_state =
  es_net :: 's
  es_jar :: "'j option"
  es_dispatched :: int

text \<open>The loop of the HTTP/2 path: no cookies, no report on the proxy, no solver.\<close>

fun h2_loop :: "('s, 'j) exchange \<Rightarrow> (string \<Rightarrow> string \<Rightarrow> 's \<Rightarrow> raw_response result \<times> 's) \<Rightarrow> string \<Rightarrow> string \<Rightarrow> nat \<Rightarrow> duration \<Rightarrow> 's
    \<Rightarrow> raw_response result \<times> duration list \<times> 's" where
  "h2_loop ex h2 targetURL raw left backoff s =
     (case h2 targetURL raw s of
        (Inr resp, s1) \<Rightarrow> (Inr resp, [], s1)
      | (Inl e, s1) \<Rightarrow>
          if ex_context_error ex e then (Inl e, [], s1)
          else (case left of
              0 \<Rightarrow> (Inl e, [], s1)
            | Suc n \<Rightarrow>
                if ex_cancelled ex s1 then (Inl ''context canceled'', [], s1)
                else (let (r, ds, s2) = h2_loop ex h2 targetURL raw n (backoff * 2) s1 in (r, backoff # ds, s2))))"

declare h2_loop.simps [simp del]

definition executeH2RequestWithRetry :: "('s, 'j) exchange \<Rightarrow> exchange_config \<Rightarrow> (string \<Rightarrow> string \<Rightarrow> 's \<Rightarrow> raw_response result \<times> 's)
    \<Rightarrow> string \<Rightarrow> string \<Rightarrow> 's \<Rightarrow> raw_response result option \<times> duration list \<times> 's" where
  "executeH2RequestWithRetry ex cfg h2 targetURL raw s =
     (let retries = (if \<not> automaticRetrySafe raw then 0 else ec_retries cfg) in
      if retries < 0 then (None, [], s)
      else let (r, ds, s') = h2_loop ex h2 targetURL raw (nat retries) second s in (Some r, ds, s'))"

definition use_h2 :: "('s, 'j) exchange \<Rightarrow> exchange_config \<Rightarrow> (string \<Rightarrow> string \<Rightarrow> 's \<Rightarrow> raw_response result \<times> 's) option" where
  "use_h2 ex cfg = (if ec_h2 cfg then ex_h2 ex else None)"

text \<open>Without a result and without an error the caller has a nil answer.\<close>

definition executeRequestOnce :: "('s, 'j) exchange \<Rightarrow> exchange_config \<Rightarrow> string \<Rightarrow> string \<Rightarrow> ('s, 'j) exchange_state
    \<Rightarrow> raw_response result option \<times> ('s, 'j) exchange_state" where
  "executeRequestOnce ex cfg targetURL raw0 st =
     (let raw = injectCookiesIntoRawRequest (ex_jar ex) (es_jar st) targetURL raw0 in
      case use_h2 ex cfg of
        Some h2 \<Rightarrow> (case executeH2RequestWithRetry ex cfg h2 targetURL raw (es_net st) of (r, ds, s) \<Rightarrow> (r, st\<lparr>es_net := s\<rparr>))
      | None \<Rightarrow>
          (case ex_send ex targetURL raw (es_net st) of
             (r, s) \<Rightarrow> (Some r, st\<lparr>es_net := s, es_dispatched := es_dispatched st + 1\<rparr>)))"

text \<open>The answer to a second request, when the first was blocked and the challenge could be solved.\<close>

definition handleAntiBotResponse :: "('s, 'j) exchange \<Rightarrow> exchange_config \<Rightarrow> string \<Rightarrow> string \<Rightarrow> raw_response \<Rightarrow> ('s, 'j) exchange_state
    \<Rightarrow> raw_response option \<times> ('s, 'j) exchange_state" where
  "handleAntiBotResponse ex cfg targetURL raw resp st =
     (case es_jar st of
        None \<Rightarrow> (None, st)
      | Some j \<Rightarrow>
          if \<not> ec_fallback cfg \<or> \<not> ab_blocked (InspectAntiBotResponse (Some resp)) then (None, st)
          else case ex_solve ex targetURL j (es_net st) of (solved, j', s) \<Rightarrow>
            let st1 = st\<lparr>es_net := s, es_jar := Some j'\<rparr> in
            if \<not> solved then (None, st1)
            else (case executeRequestOnce ex cfg targetURL raw st1 of
                (Some (Inr r), st2) \<Rightarrow> (Some r, st2\<lparr>es_jar := mergeResponseCookies (ex_jar ex) targetURL r (es_jar st2)\<rparr>)
              | (_, st2) \<Rightarrow> (None, st2)))"

text \<open>The operations that the loop over attempts uses on the plain path. A send always has a result there.\<close>

definition send_and_merge :: "('s, 'j) exchange \<Rightarrow> exchange_config \<Rightarrow> string \<Rightarrow> string \<Rightarrow> ('s, 'j) exchange_state
    \<Rightarrow> raw_response result \<times> ('s, 'j) exchange_state" where
  "send_and_merge ex cfg targetURL raw st =
     (case executeRequestOnce ex cfg targetURL raw st of
        (Some (Inr r), st1) \<Rightarrow> (Inr r, st1\<lparr>es_jar := mergeResponseCookies (ex_jar ex) targetURL r (es_jar st1)\<rparr>)
      | (Some (Inl e), st1) \<Rightarrow> (Inl e, st1)
      | (None, st1) \<Rightarrow> (Inl '''', st1))"

definition exchange_retry :: "('s, 'j) exchange \<Rightarrow> exchange_config \<Rightarrow> string \<Rightarrow> string \<Rightarrow> ('s, 'j) exchange_state retry_ops" where
  "exchange_retry ex cfg targetURL raw =
     \<lparr>ro_once = send_and_merge ex cfg targetURL raw, ro_blocked = ex_blocked ex,
      ro_solved = handleAntiBotResponse ex cfg targetURL raw, ro_context_error = ex_context_error ex,
      ro_cancelled = (\<lambda>st. ex_cancelled ex (es_net st))\<rparr>"

definition execute_with_retry :: "('s, 'j) exchange \<Rightarrow> exchange_config \<Rightarrow> string \<Rightarrow> string \<Rightarrow> ('s, 'j) exchange_state
    \<Rightarrow> raw_response result option \<times> retry_effect list \<times> ('s, 'j) exchange_state" where
  "execute_with_retry ex cfg targetURL raw st =
     (case use_h2 ex cfg of
        Some h2 \<Rightarrow> (case executeH2RequestWithRetry ex cfg h2 targetURL raw (es_net st) of
                      (r, ds, s) \<Rightarrow> (r, map Slept ds, st\<lparr>es_net := s\<rparr>))
      | None \<Rightarrow> executeRequestWithRetry (exchange_retry ex cfg targetURL raw) (ec_retries cfg) raw st)"

text \<open>The quiet variant: one attempt, and nothing is kept of the answer.\<close>

definition executeRequestOnceQuiet :: "('s, 'j) exchange \<Rightarrow> exchange_config \<Rightarrow> string \<Rightarrow> string \<Rightarrow> ('s, 'j) exchange_state
    \<Rightarrow> raw_response result \<times> ('s, 'j) exchange_state" where
  "executeRequestOnceQuiet ex cfg targetURL raw0 st =
     (let raw = injectCookiesIntoRawRequest (ex_jar ex) (es_jar st) targetURL raw0 in
      case use_h2 ex cfg of
        Some h2 \<Rightarrow> (case h2 targetURL raw (es_net st) of (r, s) \<Rightarrow> (r, st\<lparr>es_net := s\<rparr>))
      | None \<Rightarrow>
          (case ex_send ex targetURL raw (es_net st) of
             (r, s) \<Rightarrow> (r, st\<lparr>es_net := s, es_dispatched := es_dispatched st + 1\<rparr>)))"

section \<open>What the injection changes\<close>

definition head_lines :: "string list \<Rightarrow> bool" where
  "head_lines ls \<longleftrightarrow> (\<forall>l \<in> set ls. l \<noteq> '''' \<and> one_line l)"

lemma head_lines_Cons [simp]: "head_lines (l # ls) \<longleftrightarrow> l \<noteq> '''' \<and> one_line l \<and> head_lines ls"
  by (auto simp: head_lines_def)

lemma wire_lines_simps [simp]: "wire_lines [] = ''''" "wire_lines (l # ls) = l @ crlf @ wire_lines ls"
  by (simp_all add: wire_lines_def)

lemma no_crlf_start: "l \<noteq> '''' \<Longrightarrow> one_line l \<Longrightarrow> \<not> has_prefix (l @ t) crlf"
  by (cases l) (auto simp: one_line_def has_prefix_def crlf_def)

lemma wire_head_end:
  "head_lines (l # ls) \<Longrightarrow> index_str (wire_lines (l # ls) @ crlf @ b) (crlf @ crlf) = Some (length (wire_lines (l # ls)) - 2)"
proof (induction ls arbitrary: l)
  case Nil
  then have "CR \<notin> set l" by (simp add: one_line_def)
  from eol_split [OF this, of "crlf @ crlf @ b"] show ?case by (simp add: crlf_def has_prefix_def)
next
  case (Cons m ls)
  then have l: "CR \<notin> set l" and m: "head_lines (m # ls)" by (simp_all add: one_line_def)
  have "\<not> has_prefix (wire_lines (m # ls) @ crlf @ b) crlf" using m no_crlf_start [of m "crlf @ wire_lines ls @ crlf @ b"] by simp
  from eol_split [OF l, of "crlf @ wire_lines (m # ls) @ crlf @ b"] eol_step [OF this] Cons.IH [OF m] show ?case
    by (simp add: crlf_def)
qed

lemma wire_join: "wire_lines (l # ls) = join crlf (l # ls) @ crlf"
  by (induction ls arbitrary: l) simp_all

lemma index_crlf: "CR \<notin> set l \<Longrightarrow> index_str (l @ crlf @ t) crlf = Some (length l)"
  by (induction l) (auto simp: has_prefix_def crlf_def)

lemma index_crlf_none: "CR \<notin> set l \<Longrightarrow> index_str l crlf = None"
  by (induction l) (auto simp: has_prefix_def crlf_def)

lemma replace_eol: "head_lines (l # ls) \<Longrightarrow> replace_str crlf [LF] (join crlf (l # ls)) = join [LF] (l # ls)"
proof (induction ls arbitrary: l)
  case Nil
  then show ?case by (simp add: replace_str.simps index_crlf_none one_line_def)
next
  case (Cons m ls)
  then have "CR \<notin> set l" by (simp add: one_line_def)
  from index_crlf [OF this, of "join crlf (m # ls)"] have "index_str (join crlf (l # m # ls)) crlf = Some (length l)" by simp
  moreover have "drop (length l + length crlf) (join crlf (l # m # ls)) = join crlf (m # ls)" by simp
  moreover have "replace_str crlf [LF] (join crlf (m # ls)) = join [LF] (m # ls)" using Cons by simp
  ultimately show ?case by (subst replace_str.simps) (simp add: crlf_def)
qed

lemma join_no_CR: "head_lines ls \<Longrightarrow> CR \<notin> set (join [LF] ls)"
  by (induction "[LF]" ls rule: join.induct) (auto simp: one_line_def CR_def LF_def)

lemma replace_byte_absent: "c \<notin> set s \<Longrightarrow> replace_byte c r s = s"
  by (induction s) (auto simp: replace_byte_def)

lemma head_back:
  assumes "head_lines (l # ls)"
  shows "split_on LF (normalize_eol (join crlf (l # ls))) = l # ls"
proof -
  have "normalize_eol (join crlf (l # ls)) = join [LF] (l # ls)"
    using replace_byte_absent [OF join_no_CR [OF assms]] replace_eol [OF assms] by (simp add: normalize_eol_def)
  then show ?thesis using split_on_join [of "l # ls" LF] assms by (auto simp: head_lines_def one_line_def)
qed

lemma kept_lines: "head_lines ls \<Longrightarrow> filter (\<lambda>l. l \<noteq> '''') (map (trim_right (\<lambda>c. c = CR)) ls) = ls"
proof (induction ls)
  case (Cons l ls)
  have "trim_right (\<lambda>c. c = CR) l = l" using Cons.prems by (cases l rule: rev_cases) (auto simp: trim_right_def one_line_def)
  with Cons show ?case by simp
qed simp

lemma take_left: "take (length xs) (xs @ ys) = xs"
  by simp

lemma drop_left: "drop (length xs + length (a @ b)) (xs @ a @ b @ ys) = ys"
  by simp

text \<open>C30: A raw request made of header lines keeps its first line, its other lines in their order and every byte of its body when
  the cookies of the jar are put in: only a line of cookies changes, by adding them at its end, or one is added after the others
  when there is none.\<close>

theorem inject_exact:
  assumes "cookieHeaderValue ops jar targetURL = v" "v \<noteq> ''''" "head_lines (l # ls)"
  shows "injectCookiesIntoRawRequest ops jar targetURL (wire_lines (l # ls) @ crlf @ body) =
    wire_lines (l # map (merge_cookie_line v) ls @ (if \<exists>x \<in> set ls. cookie_of_line x \<noteq> None then [] else [''Cookie: '' @ v])) @ crlf @ body"
proof -
  let ?raw = "wire_lines (l # ls) @ crlf @ body"
  let ?e = "length (wire_lines (l # ls)) - 2"
  have e: "?e = length (join crlf (l # ls))" unfolding wire_join by (simp add: crlf_def)
  have sep: "findHeaderSeparator ?raw = Some (?e, crlf @ crlf)" using wire_head_end [OF assms(3), of body] by (simp add: findHeaderSeparator_def)
  have take: "take ?e ?raw = join crlf (l # ls)" unfolding e by (simp only: wire_join append_assoc take_left)
  have drop: "drop (?e + length (crlf @ crlf)) ?raw = body" unfolding e by (simp only: wire_join append_assoc drop_left)
  have "inject_lines v (l # ls) = l # map (merge_cookie_line v) ls @ (if list_ex (\<lambda>l. cookie_of_line l \<noteq> None) ls then [] else [''Cookie: '' @ v])"
    using kept_lines [of ls] kept_lines [of "[l]"] assms(3) by (simp add: inject_lines_def Let_def head_lines_def)
  then have "inject_lines v (split_on LF (normalize_eol (take ?e ?raw))) =
      l # map (merge_cookie_line v) ls @ (if \<exists>x \<in> set ls. cookie_of_line x \<noteq> None then [] else [''Cookie: '' @ v])"
    unfolding take head_back [OF assms(3)] by (simp add: list_ex_iff)
  then show ?thesis using assms(1,2) by (simp only: injectCookiesIntoRawRequest_def Let_def sep drop option.case prod.case if_False)
qed

definition small_jar :: "(string \<times> string) list jar_ops" where
  "small_jar = \<lparr>jo_cookies = (\<lambda>j u. j), jo_set = (\<lambda>j u cs. map (\<lambda>c. (ck_name c, ck_value c)) cs @ j), jo_parse = (\<lambda>vs. [])\<rparr>"

lemma inject_exact_witness:
  "injectCookiesIntoRawRequest small_jar (Some [(''c'', ''1'')]) ''http://h/'' (wire_lines [''GET / HTTP/1.1'', ''Host: h'', ''cookie: a=b''] @ crlf @ ''x'') =
   wire_lines [''GET / HTTP/1.1'', ''Host: h'', ''Cookie: a=b; c=1''] @ crlf @ ''x''"
proof -
  have "cookieHeaderValue small_jar (Some [(''c'', ''1'')]) ''http://h/'' = ''c=1''" by code_simp
  moreover have "head_lines [''GET / HTTP/1.1'', ''Host: h'', ''cookie: a=b'']" by code_simp
  moreover have "merge_cookie_line ''c=1'' ''Host: h'' = ''Host: h''" "merge_cookie_line ''c=1'' ''cookie: a=b'' = ''Cookie: a=b; c=1''"
    "cookie_of_line ''cookie: a=b'' \<noteq> None" by code_simp+
  ultimately show ?thesis
    using inject_exact [of small_jar "Some [(''c'', ''1'')]" "''http://h/''" "''c=1''" "''GET / HTTP/1.1''" "[''Host: h'', ''cookie: a=b'']" "''x''"] by simp
qed

section \<open>How often a request is sent\<close>

lemma once_dispatched:
  "use_h2 ex cfg = None \<Longrightarrow> executeRequestOnce ex cfg u raw st = (r, st') \<Longrightarrow> es_dispatched st' = es_dispatched st + 1"
  by (auto simp: executeRequestOnce_def Let_def split: prod.splits)

lemma merge_dispatched:
  "use_h2 ex cfg = None \<Longrightarrow> send_and_merge ex cfg u raw st = (r, st') \<Longrightarrow> es_dispatched st' = es_dispatched st + 1"
  by (auto simp: send_and_merge_def dest: once_dispatched split: prod.splits option.splits sum.splits)

lemma handle_dispatched:
  assumes "use_h2 ex cfg = None" "handleAntiBotResponse ex cfg u raw resp st = (r, st')"
  shows "es_dispatched st \<le> es_dispatched st' \<and> es_dispatched st' \<le> es_dispatched st + (if ec_fallback cfg then 1 else 0)"
proof (cases "es_jar st = None \<or> \<not> ec_fallback cfg \<or> \<not> ab_blocked (InspectAntiBotResponse (Some resp))")
  case True
  with assms(2) show ?thesis by (auto simp: handleAntiBotResponse_def split: option.splits if_splits)
next
  case False
  then obtain j where j: "es_jar st = Some j" by auto
  obtain solved j' s where s: "ex_solve ex u j (es_net st) = (solved, j', s)" by (metis prod_cases3)
  obtain r1 st1 where o: "executeRequestOnce ex cfg u raw (st\<lparr>es_net := s, es_jar := Some j'\<rparr>) = (r1, st1)" by fastforce
  from once_dispatched [OF assms(1) o] have "es_dispatched st1 = es_dispatched st + 1" by simp
  with assms(2) False j s o show ?thesis
    by (auto simp: handleAntiBotResponse_def Let_def split: if_splits option.splits sum.splits)
qed

lemma loop_dispatched:
  assumes "use_h2 ex cfg = None" "retry_loop (exchange_retry ex cfg u raw) left b st = (r, es, st')"
  shows "es_dispatched st + int (attempts es) \<le> es_dispatched st' \<and>
    es_dispatched st' \<le> es_dispatched st + int (attempts es) + (if ec_fallback cfg then 1 else 0)"
  using assms(2)
proof (induction left arbitrary: b st r es st')
  case 0
  obtain r1 st1 where o: "send_and_merge ex cfg u raw st = (r1, st1)" by fastforce
  from 0 o merge_dispatched [OF assms(1) o] show ?case
    by (subst (asm) retry_loop.simps)
       (auto simp: exchange_retry_def attempts_def dest: handle_dispatched [OF assms(1)] split: prod.splits sum.splits option.splits if_splits)
next
  case (Suc n)
  obtain r1 st1 where o: "send_and_merge ex cfg u raw st = (r1, st1)" by fastforce
  obtain r2 es2 st2 where l: "retry_loop (exchange_retry ex cfg u raw) n (b * 2) st1 = (r2, es2, st2)" by (metis prod_cases3)
  from Suc.prems o l merge_dispatched [OF assms(1) o] Suc.IH [OF l] show ?case
    by (subst (asm) retry_loop.simps)
       (auto simp: exchange_retry_def attempts_def dest: handle_dispatched [OF assms(1)] split: prod.splits sum.splits option.splits if_splits)
qed

text \<open>A request on the plain path is sent once for every attempt of the loop, and once more at most when a challenge was solved: at
  least once, at most two times more than the configured number of retries, and at most twice when it must not be repeated.\<close>

theorem exchange_bounded:
  assumes "use_h2 ex cfg = None" "0 \<le> ec_retries cfg" "execute_with_retry ex cfg u raw st = (r, es, st')"
  shows "let n = es_dispatched st' - es_dispatched st in 1 \<le> n \<and> n \<le> ec_retries cfg + 2 \<and> (\<not> automaticRetrySafe raw \<longrightarrow> n \<le> 2) \<and>
    (\<not> ec_fallback cfg \<longrightarrow> n = int (attempts es))"
proof -
  let ?k = "if \<not> automaticRetrySafe raw then 0 else ec_retries cfg"
  have l: "retry_loop (exchange_retry ex cfg u raw) (nat ?k) second st = (the r, es, st')"
    using assms by (auto simp: execute_with_retry_def executeRequestWithRetry_def Let_def split: if_splits prod.splits)
  from retry_loop_bounds [OF l] loop_dispatched [OF assms(1) l] assms(2) show ?thesis by (auto simp: Let_def split: if_splits)
qed

definition small_exchange :: "(string list, (string \<times> string) list) exchange" where
  "small_exchange = \<lparr>ex_jar = small_jar,
     ex_send = (\<lambda>u raw sent. (Inr \<lparr>rr_status = (if sent = [] then 403 else 200), rr_headers = ''server: cloudflare'', rr_map = None, rr_body = '''',
        rr_raw = '''', rr_complete = True, rr_encoded = False\<rparr>, sent @ [raw])),
     ex_h2 = None, ex_solve = (\<lambda>u j s. (True, (''clear'', ''1'') # j, s)), ex_blocked = (\<lambda>r. False), ex_context_error = (\<lambda>e. False),
     ex_cancelled = (\<lambda>s. False)\<rparr>"

definition small_exchange_config :: exchange_config where
  "small_exchange_config = \<lparr>ec_h2 = False, ec_fallback = True, ec_retries = 3\<rparr>"

definition small_post :: string where
  "small_post = wire_lines [''POST / HTTP/1.1'', ''Host: h''] @ crlf @ ''pay''"

definition small_exchange_run where
  "small_exchange_run = execute_with_retry small_exchange small_exchange_config ''http://h/'' small_post
     \<lparr>es_net = [], es_jar = Some [], es_dispatched = 0\<rparr>"

lemma exchange_bounded_witness:
  "let n = es_dispatched (snd (snd small_exchange_run)) in 1 \<le> n \<and> n \<le> 2 \<and> \<not> automaticRetrySafe small_post"
proof -
  have "\<not> automaticRetrySafe small_post" by code_simp
  moreover have "use_h2 small_exchange small_exchange_config = None" "0 \<le> ec_retries small_exchange_config"
    by (simp_all add: use_h2_def small_exchange_config_def)
  ultimately show ?thesis
    using exchange_bounded [of small_exchange small_exchange_config "''http://h/''" small_post
        "\<lparr>es_net = [], es_jar = Some [], es_dispatched = 0\<rparr>" "fst small_exchange_run" "fst (snd small_exchange_run)" "snd (snd small_exchange_run)"]
    by (simp add: small_exchange_run_def Let_def)
qed

text \<open>A request that must not be repeated is sent a second time when a challenge was solved, now with the cookie of the solver.\<close>

lemma post_sent_twice:
  "es_net (snd (snd small_exchange_run)) =
   [small_post, wire_lines [''POST / HTTP/1.1'', ''Host: h'', ''Cookie: clear=1''] @ crlf @ ''pay'']"
  by code_simp

text \<open>On the HTTP/2 path the loop sends the request as it is: the cookies of the jar are left out.\<close>

definition h2_exchange :: "(string list, (string \<times> string) list) exchange" where
  "h2_exchange = small_exchange\<lparr>ex_h2 := Some (ex_send small_exchange)\<rparr>"

lemma h2_drops_cookies:
  "es_net (snd (snd (execute_with_retry h2_exchange (small_exchange_config\<lparr>ec_h2 := True\<rparr>) ''http://h/'' small_post
     \<lparr>es_net = [], es_jar = Some [(''clear'', ''1'')], es_dispatched = 0\<rparr>))) = [small_post]"
  "es_net (snd (executeRequestOnceQuiet h2_exchange (small_exchange_config\<lparr>ec_h2 := True\<rparr>) ''http://h/'' small_post
     \<lparr>es_net = [], es_jar = Some [(''clear'', ''1'')], es_dispatched = 0\<rparr>)) =
   [wire_lines [''POST / HTTP/1.1'', ''Host: h'', ''Cookie: clear=1''] @ crlf @ ''pay'']"
  by code_simp+

end
