(* ===== verification/Solver.thy ===== *)
theory Solver
  imports Exchange
begin

text \<open>
  The solver of challenges, \<open>solve\<close> in \<open>pkg/engine/antibot.go\<close>: what one attempt with the browser does, and the goroutines that ask
  for the same host as a step relation, where one solves and the others wait for it on a condition variable. The browser is a
  parameter: whether it starts, and what each look at the page shows.
\<close>

section \<open>One attempt\<close>

definition challenge_markers :: "string list" where
  "challenge_markers =
     [''just a moment'', ''checking your browser'', ''verify you are human'', ''enable javascript and cookies'', ''security check'',
      ''captcha'', ''turnstile'', ''cloudflare'', ''attention required'', ''one moment please'', ''pardon our interruption'',
      ''sorry, you have been blocked'', ''request blocked'', ''incapsula incident id'', ''datadome'', ''modsecurity'',
      ''sucuri website firewall'', ''barracuda web application firewall'', ''the requested url was rejected'']"

definition challengeLooksActive :: "string \<Rightarrow> bool" where
  "challengeLooksActive bodyText \<longleftrightarrow> bodyText \<noteq> '''' \<and> list_ex (contains_str bodyText) challenge_markers"

text \<open>One look at the page: the error of the context, the cookies, the text, and the cookies after it; \<open>None\<close> is a failed call.\<close>

record look =
  lk_context :: "goerror option"
  lk_cookies :: "cookie list option"
  lk_text :: "string option"
  lk_last :: "cookie list option"

definition keep_cookies :: "'j jar_ops \<Rightarrow> string \<Rightarrow> cookie list option \<Rightarrow> 'j option \<Rightarrow> 'j option" where
  "keep_cookies ops targetURL cs jar = (case cs of None \<Rightarrow> jar | Some c \<Rightarrow> storeProtoCookies ops targetURL c jar)"

text \<open>The looks that fit into 45 seconds, one after the other. The error is \<open>None\<close> when the challenge is gone.\<close>

fun solve_looks :: "'j jar_ops \<Rightarrow> string \<Rightarrow> look list \<Rightarrow> 'j option \<Rightarrow> goerror option \<times> 'j option" where
  "solve_looks ops targetURL [] jar = (Some (''anti-bot challenge did not clear for '' @ targetURL), jar)"
| "solve_looks ops targetURL (l # ls) jar =
     (case lk_context l of
        Some e \<Rightarrow> (Some e, jar)
      | None \<Rightarrow>
          let jar1 = keep_cookies ops targetURL (lk_cookies l) jar;
              bodyText = (case lk_text l of None \<Rightarrow> '''' | Some t \<Rightarrow> to_lower t)
          in if bodyText \<noteq> '''' \<and> \<not> challengeLooksActive bodyText then (None, keep_cookies ops targetURL (lk_last l) jar1)
             else solve_looks ops targetURL ls jar1)"

record browser_run =
  br_launch :: "goerror option"
  br_connect :: "goerror option"
  br_page :: "goerror option"
  br_navigate :: "goerror option"
  br_looks :: "look list"

definition solve_attempt :: "'j jar_ops \<Rightarrow> string \<Rightarrow> browser_run \<Rightarrow> 'j option \<Rightarrow> goerror option \<times> 'j option" where
  "solve_attempt ops targetURL b jar =
     (case List.map_filter (\<lambda>f. f b) [br_launch, br_connect, br_page, br_navigate] of
        e # _ \<Rightarrow> (Some e, jar)
      | [] \<Rightarrow> solve_looks ops targetURL (br_looks b) jar)"

text \<open>The host whose state is used, or why there is none.\<close>

definition solve_host :: "string \<Rightarrow> string result" where
  "solve_host targetURL =
     (if targetURL = '''' then Inl ''anti-bot manager is not configured''
      else case url_parse targetURL of
        None \<Rightarrow> Inl ''invalid anti-bot target URL''
      | Some u \<Rightarrow> let host = to_lower (url_hostname u) in if host = '''' then Inl ''anti-bot target host is empty'' else Inr host)"

definition hostState :: "'a \<Rightarrow> string \<Rightarrow> (string \<rightharpoonup> 'a) \<Rightarrow> 'a option \<times> (string \<rightharpoonup> 'a)" where
  "hostState fresh host states =
     (if host = '''' then (None, states)
      else case states host of Some s \<Rightarrow> (Some s, states) | None \<Rightarrow> (Some fresh, states(host \<mapsto> fresh)))"

section \<open>The goroutines of a host\<close>

text \<open>
  A goroutine carries the number of attempts that had ended when it came, which the code does not keep: it enters, waits on
  the condition variable, is woken, solves, has its outcome and is about to leave, or has returned with the error it reports. A
  section under the mutex is one step. \<open>sv_ended\<close> lists the outcomes of the attempts so far.
\<close>

datatype solver_pc =
    Entering
  | Parked nat
  | Awake nat
  | Solving nat
  | Closing nat "goerror option"
  | Returned nat "goerror option"

record solver_state =
  sv_solving :: bool
  sv_err :: "goerror option"
  sv_pcs :: "solver_pc list"
  sv_ended :: "goerror option list"

definition new_solver :: "nat \<Rightarrow> solver_state" where
  "new_solver n = \<lparr>sv_solving = False, sv_err = None, sv_pcs = replicate n Entering, sv_ended = []\<rparr>"

definition set_pc :: "nat \<Rightarrow> solver_pc \<Rightarrow> solver_state \<Rightarrow> solver_state" where
  "set_pc i p s = s\<lparr>sv_pcs := (sv_pcs s)[i := p]\<rparr>"

fun awaken :: "solver_pc \<Rightarrow> solver_pc" where
  "awaken (Parked n) = Awake n"
| "awaken p = p"

text \<open>\<open>work i\<close> is the outcome of the attempt of goroutine \<open>i\<close>. A goroutine may come at any time: the number of attempts it finds
  is set when it takes the mutex for the first time.\<close>

definition at_pc :: "solver_state \<Rightarrow> nat \<Rightarrow> solver_pc \<Rightarrow> bool" where
  "at_pc s i p \<longleftrightarrow> i < length (sv_pcs s) \<and> sv_pcs s ! i = p"

definition enter_step :: "nat \<Rightarrow> solver_state \<Rightarrow> solver_state" where
  "enter_step i s =
     (if sv_solving s then set_pc i (Parked (length (sv_ended s))) s
      else set_pc i (Solving (length (sv_ended s))) (s\<lparr>sv_solving := True, sv_err := None\<rparr>))"

definition work_step :: "nat \<Rightarrow> nat \<Rightarrow> goerror option \<Rightarrow> solver_state \<Rightarrow> solver_state" where
  "work_step i n r s = set_pc i (Closing n r) (if r = None then s else s\<lparr>sv_err := r\<rparr>)"

definition close_step :: "nat \<Rightarrow> nat \<Rightarrow> goerror option \<Rightarrow> solver_state \<Rightarrow> solver_state" where
  "close_step i n r s =
     set_pc i (Returned n r) (s\<lparr>sv_solving := False, sv_pcs := map awaken (sv_pcs s), sv_ended := sv_ended s @ [r]\<rparr>)"

definition wake_step :: "nat \<Rightarrow> nat \<Rightarrow> solver_state \<Rightarrow> solver_state" where
  "wake_step i n s = set_pc i (if sv_solving s then Parked n else Returned n (sv_err s)) s"

inductive solver_step :: "(nat \<Rightarrow> goerror option) \<Rightarrow> solver_state \<Rightarrow> solver_state \<Rightarrow> bool" for work where
  enter: "at_pc s i Entering \<Longrightarrow> solver_step work s (enter_step i s)"
| work: "at_pc s i (Solving n) \<Longrightarrow> solver_step work s (work_step i n (work i) s)"
| close: "at_pc s i (Closing n r) \<Longrightarrow> solver_step work s (close_step i n r s)"
| wake: "at_pc s i (Awake n) \<Longrightarrow> solver_step work s (wake_step i n s)"

inductive_cases solver_stepE: "solver_step work s s'"

section \<open>One solves, the others share its outcome\<close>

fun active :: "solver_pc \<Rightarrow> bool" where
  "active (Solving n) = True"
| "active (Closing n r) = True"
| "active p = False"

definition active_at :: "solver_state \<Rightarrow> nat \<Rightarrow> bool" where
  "active_at s i \<longleftrightarrow> i < length (sv_pcs s) \<and> active (sv_pcs s ! i)"

fun pc_ok :: "(nat \<Rightarrow> goerror option) \<Rightarrow> solver_state \<Rightarrow> solver_pc \<Rightarrow> bool" where
  "pc_ok work s Entering \<longleftrightarrow> True"
| "pc_ok work s (Parked n) \<longleftrightarrow> n \<le> length (sv_ended s) \<and> sv_solving s"
| "pc_ok work s (Awake n) \<longleftrightarrow> n < length (sv_ended s)"
| "pc_ok work s (Solving n) \<longleftrightarrow> n = length (sv_ended s) \<and> sv_err s = None"
| "pc_ok work s (Closing n r) \<longleftrightarrow> n = length (sv_ended s) \<and> sv_err s = r \<and> r \<in> range work"
| "pc_ok work s (Returned n r) \<longleftrightarrow> (\<exists>k. n \<le> k \<and> k < length (sv_ended s) \<and> sv_ended s ! k = r)"

definition solver_inv :: "(nat \<Rightarrow> goerror option) \<Rightarrow> solver_state \<Rightarrow> bool" where
  "solver_inv work s \<longleftrightarrow> (sv_solving s \<longleftrightarrow> (\<exists>i. active_at s i)) \<and> (\<forall>i j. active_at s i \<longrightarrow> active_at s j \<longrightarrow> i = j) \<and>
     (\<forall>i < length (sv_pcs s). pc_ok work s (sv_pcs s ! i)) \<and>
     (\<not> sv_solving s \<longrightarrow> sv_ended s \<noteq> [] \<longrightarrow> sv_err s = last (sv_ended s)) \<and> set (sv_ended s) \<subseteq> range work"

lemma solver_invD:
  assumes "solver_inv work s"
  shows "sv_solving s \<longleftrightarrow> (\<exists>i. active_at s i)" "active_at s i \<Longrightarrow> active_at s j \<Longrightarrow> i = j"
    "at_pc s i p \<Longrightarrow> pc_ok work s p" "\<not> sv_solving s \<Longrightarrow> sv_ended s \<noteq> [] \<Longrightarrow> sv_err s = last (sv_ended s)"
    "set (sv_ended s) \<subseteq> range work"
  using assms by (auto simp: solver_inv_def at_pc_def)

lemma active_set_pc: "active_at (set_pc i p s) j \<longleftrightarrow> (if j = i then i < length (sv_pcs s) \<and> active p else active_at s j)"
  by (auto simp: active_at_def set_pc_def nth_list_update)

lemma active_upd: "active_at (s\<lparr>sv_solving := b\<rparr>) j = active_at s j" "active_at (s\<lparr>sv_err := e\<rparr>) j = active_at s j"
  by (simp_all add: active_at_def)

lemma active_awaken [simp]: "active (awaken p) = active p"
  by (cases p) simp_all

lemma solver_inv_new: "solver_inv work (new_solver n)"
  by (auto simp: solver_inv_def new_solver_def active_at_def)

lemma set_pc_fields [simp]:
  "sv_solving (set_pc i p s) = sv_solving s" "sv_err (set_pc i p s) = sv_err s" "sv_ended (set_pc i p s) = sv_ended s"
  "sv_pcs (set_pc i p s) = (sv_pcs s)[i := p]"
  by (simp_all add: set_pc_def)

lemma pc_ok_cong:
  "sv_solving s' = sv_solving s \<Longrightarrow> sv_err s' = sv_err s \<Longrightarrow> sv_ended s' = sv_ended s \<Longrightarrow> pc_ok work s' p = pc_ok work s p"
  by (cases p) simp_all

lemma pc_ok_set [simp]: "pc_ok work (set_pc i p s) q = pc_ok work s q"
  by (rule pc_ok_cong) simp_all

lemma enter_inv:
  assumes "solver_inv work s" "at_pc s i Entering"
  shows "solver_inv work (enter_step i s)"
proof (cases "sv_solving s")
  case True
  let ?s = "set_pc i (Parked (length (sv_ended s))) s"
  have "active_at ?s j = active_at s j" for j using assms(2) unfolding active_set_pc by (auto simp: active_at_def at_pc_def)
  moreover have "pc_ok work ?s (sv_pcs ?s ! j)" if "j < length (sv_pcs ?s)" for j
    using that assms(1) True by (cases "j = i") (simp_all add: nth_list_update solver_inv_def)
  ultimately show ?thesis using assms(1) True by (simp add: enter_step_def solver_inv_def)
next
  case False
  let ?s = "set_pc i (Solving (length (sv_ended s))) (s\<lparr>sv_solving := True, sv_err := None\<rparr>)"
  have none: "\<not> active_at s j" for j using False solver_invD(1) [OF assms(1)] by blast
  have i: "i < length (sv_pcs s)" using assms(2) by (simp add: at_pc_def)
  then have "active_at ?s j \<longleftrightarrow> j = i" for j using none unfolding active_set_pc by (auto simp: active_at_def)
  moreover have "pc_ok work ?s (sv_pcs ?s ! j)" if j: "j < length (sv_pcs ?s)" for j
  proof (cases "j = i")
    case False
    have "pc_ok work s (sv_pcs s ! j)" "\<not> active (sv_pcs s ! j)" using j assms(1) none by (auto simp: solver_inv_def active_at_def)
    then show ?thesis using False by (cases "sv_pcs s ! j") auto
  qed (use i in simp)
  ultimately show ?thesis using assms(1) False by (simp add: enter_step_def solver_inv_def)
qed

lemma work_inv:
  assumes "solver_inv work s" "at_pc s i (Solving n)"
  shows "solver_inv work (work_step i n (work i) s)"
proof -
  let ?t = "if work i = None then s else s\<lparr>sv_err := work i\<rparr>"
  let ?s = "set_pc i (Closing n (work i)) ?t"
  have i: "i < length (sv_pcs s)" "active_at s i" using assms(2) by (simp_all add: at_pc_def active_at_def)
  have t: "sv_pcs ?t = sv_pcs s" "sv_solving ?t = sv_solving s" "sv_ended ?t = sv_ended s" "active_at ?t j = active_at s j" for j
    by (simp_all add: active_upd)
  have e: "sv_err ?t = work i" using solver_invD(3) [OF assms] by simp
  have "active_at ?s j = active_at s j" for j using i t by (auto simp: active_set_pc)
  moreover have "pc_ok work ?s (sv_pcs ?s ! j)" if j: "j < length (sv_pcs ?s)" for j
  proof (cases "j = i")
    case True
    then show ?thesis using solver_invD(3) [OF assms] i t e by simp
  next
    case False
    then have "\<not> active_at s j" using solver_invD(2) [OF assms(1) i(2)] by blast
    then have "pc_ok work s (sv_pcs s ! j)" "\<not> active (sv_pcs s ! j)" using j assms(1) t by (auto simp: solver_inv_def active_at_def)
    then show ?thesis using False t by (cases "sv_pcs s ! j") auto
  qed
  moreover have "sv_solving s" using i(2) solver_invD(1) [OF assms(1)] by blast
  ultimately show ?thesis using assms(1) t by (simp add: work_step_def solver_inv_def)
qed

lemma close_inv:
  assumes "solver_inv work s" "at_pc s i (Closing n r)"
  shows "solver_inv work (close_step i n r s)"
proof -
  let ?s = "close_step i n r s"
  have i: "i < length (sv_pcs s)" "active_at s i" using assms(2) by (simp_all add: at_pc_def active_at_def)
  have f: "sv_solving ?s = False" "sv_err ?s = sv_err s" "sv_ended ?s = sv_ended s @ [r]" "sv_pcs ?s = (map awaken (sv_pcs s))[i := Returned n r]"
    by (simp_all add: close_step_def)
  have ok: "n = length (sv_ended s)" "sv_err s = r" "r \<in> range work" using solver_invD(3) [OF assms] by simp_all
  have others: "\<not> active_at s j" if "j \<noteq> i" for j using that solver_invD(2) [OF assms(1) i(2)] by blast
  have "\<not> active_at ?s j" for j
    using others [of j] by (cases "j = i") (auto simp: active_at_def f nth_list_update)
  moreover have "pc_ok work ?s (sv_pcs ?s ! j)" if j: "j < length (sv_pcs ?s)" for j
  proof (cases "j = i")
    case True
    have "pc_ok work ?s (Returned n r)" unfolding pc_ok.simps f(3) using ok(1) by (intro exI [of _ n]) simp
    then show ?thesis using True i by (simp add: f)
  next
    case False
    have "pc_ok work s (sv_pcs s ! j)" "\<not> active (sv_pcs s ! j)" using j assms(1) others [OF False] by (auto simp: solver_inv_def active_at_def f)
    then have "pc_ok work ?s (awaken (sv_pcs s ! j))" by (cases "sv_pcs s ! j") (auto simp: f nth_append)
    then show ?thesis using False j by (simp add: f)
  qed
  moreover have "set (sv_ended ?s) \<subseteq> range work" "sv_err ?s = last (sv_ended ?s)" using ok(2,3) solver_invD(5) [OF assms(1)] by (simp_all add: f)
  ultimately show ?thesis unfolding solver_inv_def f(1) by blast
qed

lemma wake_inv:
  assumes "solver_inv work s" "at_pc s i (Awake n)"
  shows "solver_inv work (wake_step i n s)"
proof -
  define p where "p = (if sv_solving s then Parked n else Returned n (sv_err s))"
  have n: "n < length (sv_ended s)" using solver_invD(3) [OF assms] by simp
  have p: "pc_ok work s p"
  proof (cases "sv_solving s")
    case False
    then have "sv_err s = last (sv_ended s)" using solver_invD(4) [OF assms(1)] n by fastforce
    then have "sv_ended s ! (length (sv_ended s) - 1) = sv_err s" using n by (subst last_conv_nth [symmetric]) auto
    then show ?thesis using False n by (auto simp: p_def intro!: exI [of _ "length (sv_ended s) - 1"])
  qed (use n in \<open>simp add: p_def\<close>)
  then have "pc_ok work (set_pc i p s) (sv_pcs (set_pc i p s) ! j)" if "j < length (sv_pcs s)" for j
    using that assms(1) by (cases "j = i") (simp_all add: nth_list_update solver_inv_def)
  moreover have "\<not> active p" by (simp add: p_def)
  then have "active_at (set_pc i p s) j = active_at s j" for j using assms(2) unfolding active_set_pc by (auto simp: active_at_def at_pc_def)
  ultimately have "solver_inv work (set_pc i p s)" using assms(1) by (simp add: solver_inv_def)
  then show ?thesis by (simp only: wake_step_def p_def)
qed

lemma solver_reach_inv: "(solver_step work)\<^sup>*\<^sup>* (new_solver n) s \<Longrightarrow> solver_inv work s"
  by (induction rule: rtranclp_induct)
    (auto simp: solver_inv_new elim!: solver_stepE intro: enter_inv work_inv close_inv wake_inv)

text \<open>C31: Of any number of goroutines that ask for the same host at most one solves at a time, and every goroutine that has returned
  reports the outcome of an attempt that ended after it came.\<close>

theorem solver_shares:
  assumes "(solver_step work)\<^sup>*\<^sup>* (new_solver n) s"
  shows "(\<forall>i j. active_at s i \<and> active_at s j \<longrightarrow> i = j) \<and> (sv_solving s \<longleftrightarrow> (\<exists>i. active_at s i)) \<and>
    (\<forall>i m r. at_pc s i (Returned m r) \<longrightarrow> (\<exists>k. m \<le> k \<and> k < length (sv_ended s) \<and> sv_ended s ! k = r \<and> r \<in> range work))"
proof -
  note inv = solver_reach_inv [OF assms]
  have "\<exists>k. m \<le> k \<and> k < length (sv_ended s) \<and> sv_ended s ! k = r \<and> r \<in> range work" if "at_pc s i (Returned m r)" for i m r
  proof -
    from solver_invD(3) [OF inv that] obtain k where k: "m \<le> k" "k < length (sv_ended s)" "sv_ended s ! k = r" by auto
    then have "r \<in> range work" using solver_invD(5) [OF inv] nth_mem [OF k(2)] by blast
    with k show ?thesis by blast
  qed
  with solver_invD(1,2) [OF inv] show ?thesis by blast
qed

section \<open>Every goroutine returns\<close>

fun weight :: "solver_pc \<Rightarrow> nat" where
  "weight Entering = 3"
| "weight (Solving n) = 2"
| "weight (Closing n r) = 1"
| "weight p = 0"

fun awake :: "solver_pc \<Rightarrow> nat" where
  "awake (Awake n) = 1"
| "awake p = 0"

definition to_do :: "solver_state \<Rightarrow> nat" where "to_do s = sum_list (map weight (sv_pcs s))"
definition awakes :: "solver_state \<Rightarrow> nat" where "awakes s = sum_list (map awake (sv_pcs s))"

definition solver_left :: "solver_state \<Rightarrow> nat" where
  "solver_left s = to_do s * (length (sv_pcs s) + 1) + awakes s"

lemma weight_awaken: "weight (awaken p) = weight p"
  by (cases p) simp_all

lemma awakes_bound: "awakes s \<le> length (sv_pcs s)"
proof -
  have "sum_list (map awake ps) \<le> length ps" for ps
  proof (induction ps)
    case (Cons p ps)
    have "awake p \<le> 1" by (cases p) simp_all
    with Cons show ?case by simp
  qed simp
  then show ?thesis by (simp add: awakes_def)
qed

lemma sum_set_pc:
  fixes f :: "solver_pc \<Rightarrow> nat"
  assumes "i < length ps"
  shows "sum_list (map f (ps[i := p])) + f (ps ! i) = sum_list (map f ps) + f p"
  using assms by (induction ps arbitrary: i) (auto simp: nth_Cons split: nat.splits)

lemma to_do_set_pc: "i < length (sv_pcs s) \<Longrightarrow> to_do (set_pc i p s) + weight (sv_pcs s ! i) = to_do s + weight p"
  using sum_set_pc [of i "sv_pcs s" weight p] by (simp add: to_do_def)

lemma fewer_to_do:
  assumes "length (sv_pcs s') = length (sv_pcs s)" "to_do s' < to_do s"
  shows "solver_left s' < solver_left s"
proof -
  let ?n = "length (sv_pcs s) + 1"
  have "solver_left s' < (to_do s' + 1) * ?n" using awakes_bound [of s'] assms(1) by (simp add: solver_left_def algebra_simps)
  also have "\<dots> \<le> to_do s * ?n" using assms(2) by (intro mult_right_mono) auto
  finally show ?thesis by (simp add: solver_left_def)
qed

lemma solver_step_left:
  assumes "solver_step work s s'"
  shows "length (sv_pcs s') = length (sv_pcs s) \<and> solver_left s' < solver_left s"
  using assms
proof cases
  case (enter i)
  let ?t = "s\<lparr>sv_solving := True, sv_err := None\<rparr>"
  have "to_do ?t = to_do s" by (simp add: to_do_def)
  then have "to_do (enter_step i s) < to_do s"
    using enter(2) to_do_set_pc [of i s "Parked (length (sv_ended s))"] to_do_set_pc [of i ?t "Solving (length (sv_ended s))"]
    by (auto simp: enter_step_def at_pc_def)
  then show ?thesis using fewer_to_do [of "enter_step i s" s] enter(1) by (simp add: enter_step_def)
next
  case (work i n)
  let ?t = "if work i = None then s else s\<lparr>sv_err := work i\<rparr>"
  have "to_do ?t = to_do s" "sv_pcs ?t = sv_pcs s" by (simp_all add: to_do_def)
  then have "to_do (work_step i n (work i) s) < to_do s"
    using work(2) to_do_set_pc [of i ?t "Closing n (work i)"] by (auto simp: work_step_def at_pc_def)
  then show ?thesis using fewer_to_do [of "work_step i n (work i) s" s] work(1) by (simp add: work_step_def)
next
  case (close i n r)
  let ?t = "s\<lparr>sv_solving := False, sv_pcs := map awaken (sv_pcs s), sv_ended := sv_ended s @ [r]\<rparr>"
  have "to_do ?t = to_do s" by (simp add: to_do_def weight_awaken comp_def)
  moreover have "i < length (sv_pcs ?t)" "weight (sv_pcs ?t ! i) = 1" using close(2) by (simp_all add: at_pc_def)
  ultimately have "to_do (close_step i n r s) < to_do s"
    using to_do_set_pc [of i ?t "Returned n r"] by (simp add: close_step_def)
  then show ?thesis using fewer_to_do [of "close_step i n r s" s] close(1) by (simp add: close_step_def)
next
  case (wake i n)
  have i: "i < length (sv_pcs s)" "sv_pcs s ! i = Awake n" using wake(2) by (simp_all add: at_pc_def)
  let ?p = "if sv_solving s then Parked n else Returned n (sv_err s)"
  have "to_do (set_pc i ?p s) = to_do s" using to_do_set_pc [OF i(1), of ?p] i(2) by simp
  moreover have "awakes (set_pc i ?p s) + 1 = awakes s" using sum_set_pc [OF i(1), of awake ?p] i(2) by (simp add: awakes_def)
  ultimately show ?thesis using wake(1) by (simp add: wake_step_def solver_left_def)
qed

lemma solver_steps_left:
  "(solver_step work ^^ k) s s' \<Longrightarrow> length (sv_pcs s') = length (sv_pcs s) \<and> k + solver_left s' \<le> solver_left s"
proof (induction k arbitrary: s')
  case (Suc k)
  then obtain t where t: "(solver_step work ^^ k) s t" "solver_step work t s'" by auto
  from Suc.IH [OF t(1)] solver_step_left [OF t(2)] show ?case by linarith
qed simp

lemma solver_progress:
  assumes "solver_inv work s" "i < length (sv_pcs s)" "\<forall>m r. \<not> at_pc s i (Returned m r)"
  shows "\<exists>s'. solver_step work s s'"
proof -
  have go: "\<exists>s'. solver_step work s s'" if "active_at s j" for j
  proof (cases "sv_pcs s ! j")
    case (Solving n)
    with that have "at_pc s j (Solving n)" by (simp add: at_pc_def active_at_def)
    then show ?thesis by (blast intro: solver_step.work)
  next
    case (Closing n r)
    with that have "at_pc s j (Closing n r)" by (simp add: at_pc_def active_at_def)
    then show ?thesis by (blast intro: solver_step.close)
  qed (use that in \<open>simp_all add: active_at_def\<close>)
  obtain p where p: "at_pc s i p" using assms(2) by (simp add: at_pc_def)
  show ?thesis
  proof (cases p)
    case Entering
    with p show ?thesis by (blast intro: solver_step.enter)
  next
    case (Parked n)
    with p solver_invD(3) [OF assms(1) p] solver_invD(1) [OF assms(1)] go show ?thesis by auto
  next
    case (Awake n)
    with p show ?thesis by (blast intro: solver_step.wake)
  next
    case (Returned n r)
    with p assms(3) show ?thesis by blast
  qed (use p go [of i] in \<open>auto simp: at_pc_def active_at_def\<close>)
qed

text \<open>C32: Whatever the outcomes of the attempts and the order of the steps, goroutines that ask for a host take finitely many steps,
  and as long as one has not returned a step is possible: nobody waits for a wake-up that does not come.\<close>

theorem solver_returns:
  assumes "(solver_step work ^^ k) (new_solver n) s"
  shows "k \<le> 3 * n * (n + 1) \<and> ((\<exists>s'. solver_step work s s') \<or> (\<forall>i < n. \<exists>m r. at_pc s i (Returned m r)))"
proof -
  have l: "length (sv_pcs s) = n" and k: "k \<le> solver_left (new_solver n)"
    using solver_steps_left [OF assms] by (auto simp: new_solver_def)
  have "solver_left (new_solver n) = 3 * n * (n + 1)"
    by (simp add: solver_left_def new_solver_def to_do_def awakes_def sum_list_replicate algebra_simps)
  moreover have "solver_inv work s" using relpowp_imp_rtranclp [OF assms] by (rule solver_reach_inv)
  then have "(\<exists>s'. solver_step work s s') \<or> (\<forall>i < n. \<exists>m r. at_pc s i (Returned m r))" using solver_progress l by blast
  ultimately show ?thesis using k by simp
qed

text \<open>Two goroutines: the second waits for the first, whose attempt fails, and reports its error.\<close>

definition small_work :: "nat \<Rightarrow> goerror option" where "small_work i = (if i = 0 then Some ''launch'' else None)"

definition small_solver :: solver_state where
  "small_solver = wake_step 1 0 (close_step 0 0 (Some ''launch'') (work_step 0 0 (Some ''launch'') (enter_step 1 (enter_step 0 (new_solver 2)))))"

lemma small_solver_run: "(solver_step small_work ^^ 5) (new_solver 2) small_solver"
proof -
  let ?s1 = "enter_step 0 (new_solver 2)"
  let ?s2 = "enter_step 1 ?s1"
  let ?s3 = "work_step 0 0 (small_work 0) ?s2"
  let ?s4 = "close_step 0 0 (Some ''launch'') ?s3"
  have "solver_step small_work (new_solver 2) ?s1" by (rule solver_step.enter) code_simp
  moreover have "solver_step small_work ?s1 ?s2" by (rule solver_step.enter) code_simp
  moreover have "solver_step small_work ?s2 ?s3" by (rule solver_step.work) code_simp
  moreover have "solver_step small_work ?s3 ?s4" by (rule solver_step.close) code_simp
  moreover have "solver_step small_work ?s4 (wake_step 1 0 ?s4)" by (rule solver_step.wake) code_simp
  moreover have "small_solver = wake_step 1 0 ?s4" by (simp add: small_solver_def small_work_def)
  ultimately have "(solver_step small_work ^^ Suc (Suc (Suc (Suc (Suc 0))))) (new_solver 2) small_solver" by (auto simp: OO_def)
  then show ?thesis by (simp add: numeral_eq_Suc)
qed

lemma solver_shares_witness:
  "at_pc small_solver 1 (Returned 0 (Some ''launch'')) \<and> (\<exists>k. k < length (sv_ended small_solver) \<and> sv_ended small_solver ! k = Some ''launch'')"
proof -
  have a: "at_pc small_solver 1 (Returned 0 (Some ''launch''))" by code_simp
  with solver_shares [OF relpowp_imp_rtranclp [OF small_solver_run]] show ?thesis by blast
qed

lemma solver_returns_witness:
  "(5::nat) \<le> 3 * 2 * (2 + 1) \<and> at_pc small_solver 0 (Returned 0 (Some ''launch'')) \<and> at_pc small_solver 1 (Returned 0 (Some ''launch''))"
proof -
  have "at_pc small_solver 0 (Returned 0 (Some ''launch''))" "at_pc small_solver 1 (Returned 0 (Some ''launch''))" by code_simp+
  with solver_returns [OF small_solver_run] show ?thesis by blast
qed

text \<open>A page that is clear but names a captcha counts as the challenge: the attempt goes on until its time is over.\<close>

lemma clear_page_never_clears:
  "fst (solve_looks small_jar ''http://h/'' (replicate 2 \<lparr>lk_context = None, lk_cookies = Some [], lk_text = Some ''Sign in. Captcha off'', lk_last = None\<rparr>) (Some [])) =
   Some ''anti-bot challenge did not clear for http://h/''"
  by code_simp

end
