(* ===== verification/WorkerJob.thy ===== *)
theory WorkerJob
  imports WorkerRequest Filters Recursion Submission TimingOracle Bypass403 Eagle SourceMap
begin

text \<open>
  What a worker does with one job, the body of the loop of \<open>worker\<close> in \<open>pkg/engine/worker.go\<close>, composed of the stages of the
  code: the plan of the request, sending it (authorization matrix, timing oracle, HEAD and GET), redirects, the counters,
  the bypass task, the classification and evasion of a blocked answer, the filters, the smart filter, the result, mirrors,
  links, the report, replay, mutations and recursion. Each stage uses the model of the component it calls. The network, the
  limiter, the regular expressions and the choices of the scheduler are parameters; a job that ends early
  is an \<open>Inl\<close>.
\<close>

section \<open>Parameters, settings and state\<close>

type_synonym timed = "raw_response \<times> duration"

record 's worker_ops =
  wo_exec :: "string \<Rightarrow> duration \<Rightarrow> string \<Rightarrow> 's \<Rightarrow> timed result \<times> 's"
  wo_auth :: "url \<Rightarrow> string \<Rightarrow> raw_response result"
  wo_auth_time :: "raw_response \<Rightarrow> duration"
  wo_net :: net_ops
  wo_ctx_error :: "goerror \<Rightarrow> bool"
  wo_admits :: "string \<Rightarrow> bool"
  wo_techs :: "raw_response \<Rightarrow> string list"
  wo_links :: "string \<Rightarrow> string list"
  wo_harvest :: harvest_ops
  wo_sha :: "string \<Rightarrow> string"
  wo_random :: "nat \<Rightarrow> int"
  wo_format_z :: "real option \<Rightarrow> string"

text \<open>What the scheduler and the channels decide: whether the scan was cancelled while it was paused, and whether there is
  room for the note of the smart filter, the result and the replay.\<close>

record worker_env =
  en_cancelled :: bool
  en_note_room :: bool
  en_result_sent :: bool
  en_replay_room :: bool

record worker_snap =
  wn_max_workers :: int
  wn_headers :: header_config
  wn_filter :: filter_config
  wn_follow :: bool
  wn_max_redirects :: int
  wn_allow_private :: bool
  wn_body :: string
  wn_timeout :: duration
  wn_save_raw :: bool
  wn_auth :: "(string \<times> string list) list"
  wn_threshold :: int
  wn_mutate :: bool
  wn_recurse :: bool
  wn_prune :: bool
  wn_max_depth :: int
  wn_waf :: bool
  wn_evasion_limit :: int
  wn_verb :: bool
  wn_spider :: bool
  wn_source_maps :: bool
  wn_harvest :: bool
  wn_harvest_depth :: int
  wn_bypass :: bool
  wn_proxy_out :: string
  wn_oracle :: bool
  wn_oracle_n :: int

record role_detail =
  rd_role :: string
  rd_status :: int
  rd_metrics :: metrics
  rd_duration :: duration
  rd_headers :: "(string \<times> string) list"
  rd_raw :: "(string \<times> string) option"

record worker_result =
  res_path :: string
  res_node :: string
  res_method :: string
  res_status :: int
  res_size :: int
  res_words :: int
  res_lines :: int
  res_type :: string
  res_duration :: duration
  res_headers :: "(string \<times> string) list"
  res_url :: string
  res_labels :: "string list"
  res_confidence :: string
  res_redirect :: string
  res_403 :: string
  res_raw :: "(string \<times> string) option"
  res_drift :: drift
  res_roles :: "role_detail list"

datatype worker_effect =
    ResultSent worker_result
  | FilterNote string int int
  | Submitted job
  | BypassAsked string string string int
  | SourceMapAsked string string int
  | ParamFuzzAsked string int "64 word" string
  | HarvestPath harvest_submission
  | ReplayAsked string string
  | TechSeen string string
  | ThrottleChecked
  | FeedbackAsked worker_result
  | BranchAsked string int

record 's worker_engine =
  we_run :: int
  we_scanner :: bool
  we_base :: string
  we_scope :: string
  we_oracle :: "timing_oracle option"
  we_previous :: previous_state
  we_active :: int
  we_processed :: int
  we_conn_err :: int
  we_200 :: int
  we_403 :: int
  we_404 :: int
  we_429 :: int
  we_500 :: int
  we_suppressed :: int
  we_collected :: int
  we_tracker :: simhash_tracker
  we_prints :: "fingerprint_key \<Rightarrow> int"
  we_signatures :: signatures
  we_seen :: attempted
  we_board :: scoreboard
  we_waf :: "bool \<times> string"
  we_rejected :: "string list"
  we_tasks :: bypass_tasks
  we_techs :: "(string \<times> string) list"
  we_out :: "worker_effect list"
  we_net :: 's

definition emit :: "worker_effect list \<Rightarrow> 's worker_engine \<Rightarrow> 's worker_engine" where
  "emit es e = e\<lparr>we_out := we_out e @ es\<rparr>"

section \<open>The request\<close>

record job_plan =
  jp_url :: string
  jp_parsed :: url
  jp_path :: string
  jp_ua :: string
  jp_headers :: header_map
  jp_block :: string
  jp_body :: string

definition plan_job :: "worker_snap \<Rightarrow> string \<Rightarrow> job \<Rightarrow> job_plan option" where
  "plan_job snap base job =
     (let payload = job_path job; full = fullURLForPayload base payload (wn_body snap) in
      case url_parse full of
        None \<Rightarrow> None
      | Some u \<Rightarrow>
          let (ua, headers) = snapshot_headers (wn_headers snap);
              (hs, block) = request_headers headers (job_headers job) (wn_verb snap) (job_method job) payload
          in Some \<lparr>jp_url = full, jp_parsed = u, jp_path = request_path u, jp_ua = request_ua ua payload, jp_headers = hs,
                    jp_block = block, jp_body = (if wn_body snap \<noteq> '''' then replace_str ''{PAYLOAD}'' payload (wn_body snap) else '''')\<rparr>)"

definition plan_request :: "job_plan \<Rightarrow> string \<Rightarrow> string \<Rightarrow> string \<Rightarrow> string" where
  "plan_request plan meth block body = buildRequest meth (jp_path plan) (u_host (jp_parsed plan)) (jp_ua plan) block body"

definition request_timeout :: "worker_snap \<Rightarrow> duration" where
  "request_timeout snap = (if wn_timeout snap \<le> 0 then 5 * second else wn_timeout snap)"

text \<open>An answer with the method and the raw request it belongs to, and what the oracle and the authorization matrix say.\<close>

record answer =
  an_resp :: raw_response
  an_time :: duration
  an_method :: string
  an_raw :: string
  an_body :: string
  an_oracle :: "(duration \<times> bool \<times> real option) option"
  an_finding :: "auth_finding option"
  an_roles :: "role_response list"

text \<open>Sending without a duration: the last duration is kept beside the state.\<close>

definition keep_time :: "(string \<Rightarrow> 's \<Rightarrow> timed result \<times> 's) \<Rightarrow> string \<Rightarrow> 's \<times> duration \<Rightarrow> raw_response result \<times> 's \<times> duration" where
  "keep_time exec raw = (\<lambda>(s, d). case exec raw s of
     (Inl e, s') \<Rightarrow> (Inl e, s', d) | (Inr (resp, t), s') \<Rightarrow> (Inr resp, s', t))"

definition send_oracle ::
  "(string \<Rightarrow> 's \<Rightarrow> timed result \<times> 's) \<Rightarrow> int \<Rightarrow> timing_oracle \<Rightarrow> string \<Rightarrow> string \<Rightarrow> string \<Rightarrow> 's \<Rightarrow> answer result \<times> 's" where
  "send_oracle exec n orc meth raw body s =
     (case executeTimingOracleRequests (exec raw) n s of
        (Inl e, s') \<Rightarrow> (Inl e, s')
      | (Inr (None, samples), s') \<Rightarrow> (Inl ''no response'', s')
      | (Inr (Some resp, samples), s') \<Rightarrow>
          let med = medianDuration samples (to_trim orc) in
          (Inr \<lparr>an_resp = resp, an_time = hd samples, an_method = meth, an_raw = raw, an_body = body,
             an_oracle = Some (med, IsAnomaly orc med, ZScore orc med), an_finding = None, an_roles = []\<rparr>, s'))"

definition plain_answer :: "timed \<Rightarrow> string \<Rightarrow> string \<Rightarrow> string \<Rightarrow> answer" where
  "plain_answer r meth raw body = \<lparr>an_resp = fst r, an_time = snd r, an_method = meth, an_raw = raw, an_body = body,
     an_oracle = None, an_finding = None, an_roles = []\<rparr>"

text \<open>A job without a method, whether a host that rejects HEAD is marked, and the answer.\<close>

definition send_unmethod ::
  "(string \<Rightarrow> 's \<Rightarrow> timed result \<times> 's) \<Rightarrow> worker_snap \<Rightarrow> timing_oracle option \<Rightarrow> bool \<Rightarrow> job_plan \<Rightarrow> bool \<Rightarrow> 's
   \<Rightarrow> (answer result \<times> bool) \<times> 's" where
  "send_unmethod exec snap orc body_filter plan rejected s =
     (let m = \<lparr>mt_body_filter = body_filter, mt_head_rejected = rejected, mt_follow = wn_follow snap, mt_oracle = orc \<noteq> None\<rparr>;
          build = (\<lambda>meth. plan_request plan meth (jp_block plan) (jp_body plan))
      in case orc of
        Some o1 \<Rightarrow> let (r, s') = send_oracle exec (wn_oracle_n snap) o1 (first_method m) (build (first_method m)) '''' s in ((r, False), s')
      | None \<Rightarrow>
          (case unmethod_request (keep_time exec) build m (s, 0) of
             ((Inl e, meth, marked), s', d) \<Rightarrow> ((Inl e, marked), s')
           | ((Inr resp, meth, marked), s', d) \<Rightarrow>
               ((Inr (plain_answer (resp, d) meth (if marked then build ''GET'' else build meth) ''''), marked), s')))"

definition send_method ::
  "(string \<Rightarrow> 's \<Rightarrow> timed result \<times> 's) \<Rightarrow> worker_snap \<Rightarrow> timing_oracle option \<Rightarrow> job_plan \<Rightarrow> string \<Rightarrow> 's \<Rightarrow> answer result \<times> 's" where
  "send_method exec snap orc plan meth s =
     (let raw = plan_request plan meth (method_headers meth (jp_headers plan) (jp_block plan) (jp_body plan)) (jp_body plan) in
      case orc of
        Some o1 \<Rightarrow> send_oracle exec (wn_oracle_n snap) o1 meth raw (jp_body plan) s
      | None \<Rightarrow> (case exec raw s of
          (Inl e, s') \<Rightarrow> (Inl e, s') | (Inr r, s') \<Rightarrow> (Inr (plain_answer r meth raw (jp_body plan)), s')))"

text \<open>The replay under the roles. No role at all is an answer that is missing, on which the worker would panic.\<close>

definition send_auth :: "'s worker_ops \<Rightarrow> worker_snap \<Rightarrow> string \<Rightarrow> job_plan \<Rightarrow> string \<Rightarrow> answer option result" where
  "send_auth ops snap base plan meth0 =
     (let meth = (if meth0 = '''' then ''GET'' else meth0) in
      case executeAuthMatrixRequests (wo_auth ops) base (jp_path plan) (u_host (jp_parsed plan)) (jp_ua plan) meth (jp_headers plan) (wn_auth snap) of
        Inl e \<Rightarrow> Inl e
      | Inr (Some (Some resp, raw, m, fnd, roles)) \<Rightarrow>
          Inr (Some \<lparr>an_resp = resp, an_time = wo_auth_time ops resp, an_method = m, an_raw = raw, an_body = '''', an_oracle = None,
            an_finding = fnd, an_roles = roles\<rparr>)
      | Inr _ \<Rightarrow> Inr None)"

definition body_filter_active :: "filter_config \<Rightarrow> bool" where
  "body_filter_active fc \<longleftrightarrow> fc_match_re fc \<noteq> None \<or> fc_filter_re fc \<noteq> None \<or> fc_words fc \<ge> 0 \<or> fc_lines fc \<ge> 0 \<or>
     fc_match_words fc \<ge> 0 \<or> fc_match_lines fc \<ge> 0 \<or> fc_match_types fc \<noteq> [] \<or> fc_filter_types fc \<noteq> []"

text \<open>One job's answer: nothing is the panic of a missing answer.\<close>

definition send_job ::
  "'s worker_ops \<Rightarrow> worker_snap \<Rightarrow> job_plan \<Rightarrow> job \<Rightarrow> 's worker_engine \<Rightarrow> answer option result \<times> 's worker_engine" where
  "send_job ops snap plan job e =
     (let exec = wo_exec ops (we_base e) (request_timeout snap); host = u_host (jp_parsed plan);
          orc = (if wn_oracle snap then we_oracle e else None); e1 = e\<lparr>we_processed := we_processed e + 1\<rparr>
      in if wn_auth snap \<noteq> [] then (send_auth ops snap (we_base e) plan (job_method job), e1)
         else if job_method job = '''' then
           (case send_unmethod exec snap orc (body_filter_active (wn_filter snap)) plan (host \<in> set (we_rejected e)) (we_net e) of
              ((r, marked), s') \<Rightarrow>
                ((case r of Inl er \<Rightarrow> Inl er | Inr a \<Rightarrow> Inr (Some a)),
                 e1\<lparr>we_net := s', we_rejected := (if marked then host # we_rejected e else we_rejected e)\<rparr>))
         else
           (case send_method exec snap orc plan (job_method job) (we_net e) of
              (r, s') \<Rightarrow> ((case r of Inl er \<Rightarrow> Inl er | Inr a \<Rightarrow> Inr (Some a)), e1\<lparr>we_net := s'\<rparr>)))"

section \<open>After the answer\<close>

text \<open>What the later stages know: the answer that counts, its method and raw request, the address, the metrics, the kind of
  block, the label of a bypass, and the address after redirects.\<close>

record hit =
  ht_resp :: raw_response
  ht_time :: duration
  ht_method :: string
  ht_raw :: string
  ht_url :: string
  ht_metrics :: metrics
  ht_403 :: string
  ht_label :: string
  ht_final :: string
  ht_techs :: "string list"

definition follow_stage :: "'s worker_ops \<Rightarrow> worker_snap \<Rightarrow> job_plan \<Rightarrow> answer \<Rightarrow> 's worker_engine
    \<Rightarrow> (raw_response \<times> duration \<times> string) \<times> 's worker_engine" where
  "follow_stage ops snap plan a e =
     (if wn_follow snap \<and> 300 \<le> rr_status (an_resp a) \<and> rr_status (an_resp a) < 400 then
        (case followRedirectChain (wo_net ops) (wn_allow_private snap) (\<lambda>u raw. keep_time (wo_exec ops u (request_timeout snap)) raw)
            (nat (wn_max_redirects snap)) (an_resp a) '''' (jp_url plan) (an_raw a) (we_net e, an_time a) of
           ((resp, final), s', d) \<Rightarrow> ((resp, d, final), e\<lparr>we_net := s'\<rparr>))
      else ((an_resp a, an_time a, ''''), e))"

definition count_status :: "int \<Rightarrow> 's worker_engine \<Rightarrow> 's worker_engine" where
  "count_status st e =
     (if st = 200 then e\<lparr>we_200 := we_200 e + 1\<rparr>
      else if st = 403 then e\<lparr>we_403 := we_403 e + 1\<rparr>
      else if st = 404 then e\<lparr>we_404 := we_404 e + 1\<rparr>
      else if st = 429 then emit [ThrottleChecked] (e\<lparr>we_429 := we_429 e + 1\<rparr>)
      else if st \<ge> 500 then e\<lparr>we_500 := we_500 e + 1\<rparr>
      else e)"

text \<open>A technology is announced once for each host.\<close>

definition tech_step :: "string \<Rightarrow> 's worker_engine \<Rightarrow> string \<Rightarrow> 's worker_engine" where
  "tech_step host e tech =
     (if (host, tech) \<in> set (we_techs e) then e
      else emit [TechSeen host tech] (e\<lparr>we_techs := (host, tech) # we_techs e\<rparr>))"

definition tech_stage :: "'s worker_ops \<Rightarrow> job_plan \<Rightarrow> raw_response \<Rightarrow> 's worker_engine \<Rightarrow> string list \<times> 's worker_engine" where
  "tech_stage ops plan resp e =
     (if 200 \<le> rr_status resp \<and> rr_status resp < 400 \<and> rr_body resp \<noteq> [] then
        (wo_techs ops resp, foldl (tech_step (url_hostname (jp_parsed plan))) e (wo_techs ops resp))
      else ([], e))"

definition bypass_stage :: "worker_snap \<Rightarrow> job_plan \<Rightarrow> raw_response \<Rightarrow> string \<Rightarrow> metrics \<Rightarrow> 's worker_engine \<Rightarrow> 's worker_engine" where
  "bypass_stage snap plan resp meth m e =
     (if wn_bypass snap \<and> (rr_status resp = 403 \<or> rr_status resp = 401) \<and> mt_size m \<ge> 0 then
        (case schedule403BypassTask True (we_tasks e) of
           (started, k) \<Rightarrow>
             if started then emit [BypassAsked (jp_url plan) (jp_path plan) meth (mt_size m)] (e\<lparr>we_tasks := k\<rparr>) else e)
      else e)"

text \<open>The body and headers that are classified: for HEAD those of a GET with a timeout of three seconds.\<close>

definition classify_stage :: "'s worker_ops \<Rightarrow> job_plan \<Rightarrow> raw_response \<Rightarrow> string \<Rightarrow> 's worker_engine
    \<Rightarrow> (string \<times> string) \<times> 's worker_engine" where
  "classify_stage ops plan resp meth e =
     (if meth = ''HEAD'' then
        (case wo_exec ops (we_base e) (3 * second) (plan_request plan ''GET'' (jp_block plan) '''') (we_net e) of
           (Inl _, s') \<Rightarrow> ((rr_body resp, rr_headers resp), e\<lparr>we_net := s'\<rparr>)
         | (Inr (r, _), s') \<Rightarrow> ((rr_body r, rr_headers r), e\<lparr>we_net := s'\<rparr>))
      else ((rr_body resp, rr_headers resp), e))"

definition evasion_request :: "job_plan \<Rightarrow> string \<Rightarrow> string \<Rightarrow> string \<Rightarrow> string \<times> header_map \<Rightarrow> string" where
  "evasion_request plan payload meth body = (\<lambda>(path, hs).
     buildRequest meth path (u_host (jp_parsed plan)) (jp_ua plan)
       (concat (map (\<lambda>(k, v). wire_line (sanitizeHeaderToken k, sanitizeHeaderToken (replace_str ''{PAYLOAD}'' (sanitizeHeaderToken payload) v)))
         (sorted_items (Some (foldl (\<lambda>m (k, v). AList.update k v m) (jp_headers plan) hs))))) body)"

text \<open>The loop over the techniques: at most \<open>left\<close> that were not tried on this path; \<open>i\<close> numbers the random draws.\<close>

fun evasion_loop :: "'s worker_ops \<Rightarrow> worker_snap \<Rightarrow> job_plan \<Rightarrow> string \<Rightarrow> string \<Rightarrow> string \<Rightarrow> raw_response \<Rightarrow> nat \<Rightarrow> nat
    \<Rightarrow> evasion_technique list \<Rightarrow> 's worker_engine \<Rightarrow> (string \<times> string \<times> string \<times> timed) option \<times> 's worker_engine" where
  "evasion_loop ops snap plan payload meth body blocked left i [] e = (None, e)"
| "evasion_loop ops snap plan payload meth body blocked left i (t # ts) e =
     (if left = 0 then (None, e)
      else if evasionTechniqueSeen (we_seen e) payload (et_name t) then
        evasion_loop ops snap plan payload meth body blocked left (i + 1) ts e
      else
        let e1 = e\<lparr>we_seen := markEvasionTechnique payload (et_name t) (we_seen e)\<rparr>;
            m = et_modify t (wo_random ops i) payload (jp_headers plan) meth;
            raw = evasion_request plan payload meth body m
        in (case wo_exec ops (we_base e) (request_timeout snap) raw (we_net e1) of
              (Inl _, s') \<Rightarrow> evasion_loop ops snap plan payload meth body blocked (left - 1) (i + 1) ts
                 (e1\<lparr>we_net := s', we_board := scoreboard_record (et_name t) False (we_board e1)\<rparr>)
            | (Inr (resp, d), s') \<Rightarrow>
                if isMeaningfulBypassResponse (Some blocked) (Some resp) then
                  (Some (et_name t, fst m, raw, resp, d), e1\<lparr>we_net := s', we_board := scoreboard_record (et_name t) True (we_board e1)\<rparr>)
                else evasion_loop ops snap plan payload meth body blocked (left - 1) (i + 1) ts
                   (e1\<lparr>we_net := s', we_board := scoreboard_record (et_name t) False (we_board e1)\<rparr>)))"

definition bypassed_url :: "string \<Rightarrow> string \<Rightarrow> string" where
  "bypassed_url base path =
     (case index_str base ''{PAYLOAD}'' of
        Some i \<Rightarrow> take i base @ path @ drop (i + 9) base
      | None \<Rightarrow> trim_right (\<lambda>c. c = CHR ''/'') base @ (if \<not> has_prefix path ''/'' then ''/'' @ path else path))"

definition recount_status :: "int \<Rightarrow> 's worker_engine \<Rightarrow> 's worker_engine" where
  "recount_status st e0 =
     (let e = e0\<lparr>we_403 := we_403 e0 - 1\<rparr> in
      if st = 200 then e\<lparr>we_200 := we_200 e + 1\<rparr>
      else if st = 404 then e\<lparr>we_404 := we_404 e + 1\<rparr>
      else if st \<ge> 500 then e\<lparr>we_500 := we_500 e + 1\<rparr> else e)"

definition evasion_stage :: "'s worker_ops \<Rightarrow> worker_snap \<Rightarrow> job_plan \<Rightarrow> string \<Rightarrow> string \<Rightarrow> string \<Rightarrow> string \<Rightarrow> hit
    \<Rightarrow> 's worker_engine \<Rightarrow> hit \<times> 's worker_engine" where
  "evasion_stage ops snap plan payload body cbody cheaders h e =
     (let waf = FingerprintWAF cbody cheaders (rr_status (ht_resp h)); vendor = (if wf_detected waf then wf_vendor waf else ''unknown'');
          e1 = e\<lparr>we_waf := setWAFState (wf_detected waf) vendor\<rparr>;
          limit = (if wn_evasion_limit snap < 1 then 4 else wn_evasion_limit snap)
      in case evasion_loop ops snap plan payload (ht_method h) body (ht_resp h) (nat limit) 0 (EvasionStrategiesFor vendor) e1 of
           (None, e2) \<Rightarrow> (h, e2)
         | (Some (name, path, raw, resp, d), e2) \<Rightarrow>
             let h' = h\<lparr>ht_resp := resp, ht_time := d, ht_raw := raw, ht_metrics := computeResponseMetrics resp (ht_method h),
                   ht_url := bypassed_url (we_base e) path, ht_label := ''BYPASS:'' @ name\<rparr>
             in (h', if rr_status resp \<noteq> 403 then recount_status (rr_status resp) e2 else e2))"

definition blocked_stage :: "'s worker_ops \<Rightarrow> worker_snap \<Rightarrow> job_plan \<Rightarrow> string \<Rightarrow> string \<Rightarrow> hit \<Rightarrow> 's worker_engine
    \<Rightarrow> hit \<times> 's worker_engine" where
  "blocked_stage ops snap plan payload body h e =
     (if rr_status (ht_resp h) \<noteq> 403 then (h, e)
      else case classify_stage ops plan (ht_resp h) (ht_method h) e of
        ((cbody, cheaders), e1) \<Rightarrow>
          let h1 = h\<lparr>ht_403 := Classify403 cbody cheaders\<rparr> in
          if wn_waf snap then evasion_stage ops snap plan payload body cbody cheaders h1 e1 else (h1, e1))"

text \<open>From the answer to the hit.\<close>

definition hit_stage :: "'s worker_ops \<Rightarrow> worker_snap \<Rightarrow> job_plan \<Rightarrow> string \<Rightarrow> answer \<Rightarrow> 's worker_engine \<Rightarrow> hit \<times> 's worker_engine" where
  "hit_stage ops snap plan payload a e =
     (case follow_stage ops snap plan a e of
        ((resp, d, final), e1) \<Rightarrow>
          let e2 = count_status (rr_status resp) e1; m = computeResponseMetrics resp (an_method a) in
          (case tech_stage ops plan resp e2 of
             (techs, e3) \<Rightarrow>
               let e4 = bypass_stage snap plan resp (an_method a) m e3;
                   h = \<lparr>ht_resp = resp, ht_time = d, ht_method = an_method a, ht_raw = an_raw a, ht_url = jp_url plan, ht_metrics = m,
                        ht_403 = '''', ht_label = '''', ht_final = final, ht_techs = techs\<rparr>
               in blocked_stage ops snap plan payload (an_body a) h e4))"

section \<open>Filters\<close>

definition oracle_hit :: "answer \<Rightarrow> bool" where
  "oracle_hit a = (case an_oracle a of Some (_, anomaly, _) \<Rightarrow> anomaly | None \<Rightarrow> False)"

definition filter_stage :: "worker_snap \<Rightarrow> answer \<Rightarrow> hit \<Rightarrow> 's worker_engine \<Rightarrow> bool \<times> 's worker_engine" where
  "filter_stage snap a h e =
     (case applyFilters (wn_filter snap) (ht_resp h) (ht_method h) (ht_metrics h) (ht_time h) (oracle_hit a) (oracle_hit a) (we_tracker e) of
        (keep, t) \<Rightarrow> (keep, e\<lparr>we_tracker := t\<rparr>))"

definition source_map_stage :: "worker_snap \<Rightarrow> job_plan \<Rightarrow> job \<Rightarrow> hit \<Rightarrow> 's worker_engine \<Rightarrow> 's worker_engine" where
  "source_map_stage snap plan job h e =
     (let resp = ht_resp h; u = ExtractSourceMapURL (rr_map resp) (rr_body resp) in
      if wn_source_maps snap \<and> 200 \<le> rr_status resp \<and> rr_status resp < 300 \<and>
         shouldHarvestSourceMap (u_path (jp_parsed plan)) (mt_type (ht_metrics h)) \<and> u \<noteq> ''''
      then emit [SourceMapAsked (if ht_final h \<noteq> '''' then ht_final h else ht_url h) u (job_harvest_depth job + 1)] e
      else e)"

text \<open>The smart filter: the note is dropped when the channel is full.\<close>

definition smart_stage :: "worker_env \<Rightarrow> worker_snap \<Rightarrow> hit \<Rightarrow> 's worker_engine \<Rightarrow> bool \<times> 's worker_engine" where
  "smart_stage env snap h e =
     (case smart_filter (wn_threshold snap) (ht_resp h) (ht_metrics h) (ht_403 h) (we_prints e) of
        (go_on, announce, prints) \<Rightarrow>
          let e1 = e\<lparr>we_prints := prints\<rparr>;
              e2 = (if announce \<and> en_note_room env
                    then emit [FilterNote (ht_method h) (rr_status (ht_resp h)) (mt_size (ht_metrics h))] (e1\<lparr>we_collected := we_collected e1 + 1\<rparr>)
                    else e1)
          in (go_on, if go_on then e2 else e2\<lparr>we_suppressed := we_suppressed e2 + 1\<rparr>))"

section \<open>The result\<close>

definition interesting_headers :: "(string \<times> string) list" where
  "interesting_headers =
     [(''server'', ''Server''), (''x-powered-by'', ''X-Powered-By''), (''cf-ray'', ''Cf-Ray''),
      (''content-security-policy'', ''Content-Security-Policy''), (''strict-transport-security'', ''Strict-Transport-Security''),
      (''x-frame-options'', ''X-Frame-Options''), (''x-content-type-options'', ''X-Content-Type-Options''),
      (''referrer-policy'', ''Referrer-Policy''), (''permissions-policy'', ''Permissions-Policy''),
      (''access-control-allow-origin'', ''Access-Control-Allow-Origin'')]"

definition captured_headers :: "raw_response \<Rightarrow> (string \<times> string) list" where
  "captured_headers resp =
     List.map_filter (\<lambda>(l, k). map_option (\<lambda>v. (k, v)) (gm_get (rr_map resp) l)) interesting_headers"

definition role_detail_of :: "'s worker_ops \<Rightarrow> worker_snap \<Rightarrow> string \<Rightarrow> role_response \<Rightarrow> role_detail option" where
  "role_detail_of ops snap meth ar =
     (case rp_resp ar of
        None \<Rightarrow> None
      | Some r \<Rightarrow> Some \<lparr>rd_role = rp_role ar, rd_status = rr_status r, rd_metrics = computeResponseMetrics r meth,
          rd_duration = wo_auth_time ops r, rd_headers = captured_headers r,
          rd_raw = (if wn_save_raw snap then Some (rp_raw ar, rr_raw r) else None)\<rparr>)"

definition result_redirect :: "worker_snap \<Rightarrow> hit \<Rightarrow> string" where
  "result_redirect snap h =
     (let redirect = 300 \<le> rr_status (ht_resp h) \<and> rr_status (ht_resp h) < 400 in
      if ht_final h \<noteq> '''' \<and> redirect then ht_final h
      else if redirect \<and> \<not> wn_follow snap then GetHeader (ht_resp h) ''Location''
      else '''')"

definition join_confidence :: "string \<Rightarrow> string \<Rightarrow> string" where
  "join_confidence c d = (if c = '''' then d else c @ '';'' @ d)"

definition make_result :: "'s worker_ops \<Rightarrow> worker_snap \<Rightarrow> job \<Rightarrow> answer \<Rightarrow> hit \<Rightarrow> previous_state \<Rightarrow> worker_result" where
  "make_result ops snap job a h previous =
     (let resp = ht_resp h; m = ht_metrics h;
          oracle = (case an_oracle a of Some (med, True, z) \<Rightarrow> Some (med, z) | _ \<Rightarrow> None);
          fnd = an_finding a;
          labels = (if ht_label h \<noteq> '''' then [ht_label h] else []) @ map (\<lambda>t. ''TECH:'' @ t) (ht_techs h) @
                   (if oracle \<noteq> None then [''TIMING-ORACLE''] else []) @ (case fnd of None \<Rightarrow> [] | Some f \<Rightarrow> af_labels f);
          c1 = (case oracle of None \<Rightarrow> '''' | Some (_, z) \<Rightarrow> join_confidence '''' (wo_format_z ops z));
          c2 = (case fnd of None \<Rightarrow> c1 | Some f \<Rightarrow> if af_confidence f \<noteq> '''' then join_confidence c1 (af_confidence f) else c1)
      in \<lparr>res_path = job_path job, res_node = job_node job, res_method = ht_method h, res_status = rr_status resp,
          res_size = mt_size m, res_words = mt_words m, res_lines = mt_lines m, res_type = mt_type m,
          res_duration = (case oracle of None \<Rightarrow> ht_time h | Some (med, _) \<Rightarrow> med),
          res_headers = captured_headers resp @
            (case fnd of None \<Rightarrow> [] | Some f \<Rightarrow> if af_summary f \<noteq> '''' then [(''Auth-Matrix'', af_summary f)] else []),
          res_url = ht_url h, res_labels = labels, res_confidence = c2, res_redirect = result_redirect snap h,
          res_403 = (if rr_status resp = 403 then ht_403 h else ''''),
          res_raw = (if wn_save_raw snap then Some (ht_raw h, rr_raw resp) else None),
          res_drift = applyEagleDrift previous (ht_method h) (job_path job) (rr_status resp) (mt_size m) (eagleBodyHash (wo_sha ops) (rr_body resp)),
          res_roles = List.map_filter (role_detail_of ops snap (ht_method h)) (an_roles a)\<rparr>)"

section \<open>What follows a result\<close>

text \<open>Whether a hit is the mirror of a path above it; otherwise its signature is remembered. HEAD has no signature.\<close>

definition mirror_stage :: "job \<Rightarrow> hit \<Rightarrow> 's worker_engine \<Rightarrow> bool \<times> 's worker_engine" where
  "mirror_stage job h e =
     (if equal_fold (ht_method h) ''HEAD'' then (False, e)
      else
        let m = ht_metrics h;
            sig = makeRecursiveResponseSignature (rr_status (ht_resp h)) (mt_size m) (mt_words m) (mt_lines m) (mt_type m) (mt_hash m)
        in if job_depth job > 0 \<and> IsMirror (job_path job) sig (we_signatures e) then (True, e)
           else (False, e\<lparr>we_signatures := RememberSignature (job_path job) sig (we_signatures e)\<rparr>))"

definition isSameSpiderScopeHost :: "string \<Rightarrow> url \<Rightarrow> bool" where
  "isSameSpiderScopeHost baseHostname u \<longleftrightarrow> u_scheme u = '''' \<or> equal_fold (url_hostname u) baseHostname"

definition spiderChildJob :: "job \<Rightarrow> string \<Rightarrow> job" where
  "spiderChildJob parent newPath =
     no_job\<lparr>job_path := newPath, job_depth := job_depth parent + 1, job_method := ''GET'', job_run := job_run parent\<rparr>"

definition spider_link :: "string \<Rightarrow> job \<Rightarrow> string \<Rightarrow> job option" where
  "spider_link host job raw =
     (let link = trim_space raw; l = to_lower link in
      if has_prefix l ''javascript:'' \<or> has_prefix l ''mailto:'' \<or> has_prefix l ''data:'' \<or> has_prefix l ''#'' then None
      else case url_parse link of
        None \<Rightarrow> None
      | Some u \<Rightarrow> if isSameSpiderScopeHost host u then Some (spiderChildJob job (request_path u)) else None)"

definition spider_stage :: "'s worker_ops \<Rightarrow> worker_snap \<Rightarrow> job_plan \<Rightarrow> job \<Rightarrow> hit \<Rightarrow> 's worker_engine \<Rightarrow> 's worker_engine" where
  "spider_stage ops snap plan job h e =
     (let resp = ht_resp h in
      if wn_spider snap \<and> rr_body resp \<noteq> [] \<and> 200 \<le> rr_status resp \<and> rr_status resp < 300 then
        emit (map Submitted (List.map_filter (spider_link (url_hostname (jp_parsed plan)) job) (wo_links ops (rr_body resp)))) e
      else e)"

definition mutation_suffixes :: "string list" where
  "mutation_suffixes = [''.bak'', ''.old'', ''.save'', ''~'', ''.swp'', ''.orig'', ''.tmp'']"

definition mutation_jobs :: "job \<Rightarrow> job list" where
  "mutation_jobs job = map (\<lambda>m. no_job\<lparr>job_path := job_path job @ m, job_depth := job_depth job, job_method := job_method job,
     job_run := job_run job\<rparr>) mutation_suffixes"

definition mutate_stage :: "worker_snap \<Rightarrow> job \<Rightarrow> hit \<Rightarrow> 's worker_engine \<Rightarrow> 's worker_engine" where
  "mutate_stage snap job h e =
     (if wn_mutate snap \<and> rr_status (ht_resp h) \<in> {200, 403, 301} then emit (map Submitted (mutation_jobs job)) e else e)"

definition recurse_stage :: "worker_snap \<Rightarrow> job \<Rightarrow> hit \<Rightarrow> string \<Rightarrow> 's worker_engine \<Rightarrow> 's worker_engine" where
  "recurse_stage snap job h redirect e =
     (if wn_recurse snap \<and> job_depth job < wn_max_depth snap then
        (case ProcessHit (we_scope e) (we_scanner e) (wn_prune snap) (job_path job) redirect (mt_type (ht_metrics h)) (rr_body (ht_resp h)) (we_active e) of
           (out, active) \<Rightarrow>
             (if out = BranchStarted then emit [BranchAsked (job_path job) (job_depth job + 1)] else (\<lambda>x. x)) (e\<lparr>we_active := active\<rparr>))
      else e)"

definition replay_stage :: "worker_env \<Rightarrow> worker_snap \<Rightarrow> hit \<Rightarrow> 's worker_engine \<Rightarrow> 's worker_engine" where
  "replay_stage env snap h e =
     (if wn_proxy_out snap \<noteq> '''' \<and> en_replay_room env then emit [ReplayAsked (ht_url h) (ht_method h)] e else e)"

definition queue_stage :: "'s worker_ops \<Rightarrow> worker_snap \<Rightarrow> job \<Rightarrow> hit \<Rightarrow> 's worker_engine \<Rightarrow> 's worker_engine" where
  "queue_stage ops snap job h e =
     emit (ParamFuzzAsked (if ht_final h \<noteq> '''' then ht_final h else ht_url h) (mt_size (ht_metrics h)) (mt_hash (ht_metrics h)) (mt_type (ht_metrics h)) #
           map HarvestPath (queueResponseHarvestFromResult (wo_harvest ops) (wn_harvest snap) (wn_harvest_depth snap) job
             (ht_url h) (ht_final h) (mt_type (ht_metrics h)) (rr_body (ht_resp h)))) e"

section \<open>The job\<close>

definition job_done :: "'s worker_engine \<Rightarrow> 's worker_engine" where
  "job_done e = e\<lparr>we_active := we_active e - 1\<rparr>"

text \<open>From the result on: whether the worker ends because the scan was cancelled.\<close>

definition finish_stage :: "'s worker_ops \<Rightarrow> worker_env \<Rightarrow> worker_snap \<Rightarrow> job_plan \<Rightarrow> job \<Rightarrow> answer \<Rightarrow> hit \<Rightarrow> 's worker_engine
    \<Rightarrow> bool \<times> 's worker_engine" where
  "finish_stage ops env snap plan job a h e =
     (let result = make_result ops snap job a h (we_previous e) in
      case mirror_stage job h e of
        (True, e1) \<Rightarrow> (False, e1)
      | (False, e1) \<Rightarrow>
          let e2 = emit [FeedbackAsked result] (spider_stage ops snap plan job h (queue_stage ops snap job h e1)) in
          if \<not> en_result_sent env then (True, e2)
          else
            let e3 = emit [ResultSent result] (e2\<lparr>we_collected := we_collected e2 + 1\<rparr>);
                e4 = mutate_stage snap job h (replay_stage env snap h e3)
            in (False, recurse_stage snap job h (res_redirect result) e4))"

text \<open>One job, with the number of the worker: whether the worker ends, and the state. Nothing is a panic.\<close>

definition worker_job :: "'s worker_ops \<Rightarrow> worker_env \<Rightarrow> worker_snap \<Rightarrow> int \<Rightarrow> job \<Rightarrow> 's worker_engine
    \<Rightarrow> (bool \<times> 's worker_engine) option" where
  "worker_job ops env snap i job e =
     (let shouldExit = (i \<ge> wn_max_workers snap) in
      if job_run job \<noteq> we_run e then Some (False, job_done e)
      else if \<not> we_scanner e then Some (shouldExit, job_done e)
      else if en_cancelled env then Some (True, job_done e)
      else case plan_job snap (we_base e) job of
        None \<Rightarrow> Some (shouldExit, job_done e)
      | Some plan \<Rightarrow>
          if \<not> wo_admits ops (u_host (jp_parsed plan)) then Some (shouldExit, job_done e)
          else case send_job ops snap plan job e of
            (Inl er, e1) \<Rightarrow>
              Some (shouldExit, job_done (if wo_ctx_error ops er then e1 else e1\<lparr>we_conn_err := we_conn_err e1 + 1\<rparr>))
          | (Inr None, e1) \<Rightarrow> None
          | (Inr (Some a), e1) \<Rightarrow>
              (case hit_stage ops snap plan (job_path job) a e1 of
                 (h, e2) \<Rightarrow>
                   (case filter_stage snap a h e2 of
                      (False, e3) \<Rightarrow> Some (shouldExit, job_done e3)
                    | (True, e3) \<Rightarrow>
                        (case smart_stage env snap h (source_map_stage snap plan job h e3) of
                           (False, e4) \<Rightarrow> Some (shouldExit, job_done e4)
                         | (True, e4) \<Rightarrow>
                             (case finish_stage ops env snap plan job a h e4 of
                                (cancelled, e5) \<Rightarrow> Some (cancelled \<or> shouldExit, job_done e5))))))"

end
