(* ===== verification/WorkerJobProps.thy ===== *)
theory WorkerJobProps
  imports WorkerJob
begin

text \<open>
  What a worker promises for one job: the accounting of jobs, results and status counters on every path through the loop,
  the filters that a reported result has passed, the bound of the evasion loop, and the panics and oddities of the loop.
\<close>

section \<open>Frames\<close>

fun quiet :: "worker_effect \<Rightarrow> bool" where
  "quiet (ResultSent r) = False"
| "quiet (FilterNote m st n) = False"
| "quiet (BranchAsked p d) = False"
| "quiet x = True"

definition frame :: "'s worker_engine \<Rightarrow> (int \<times> int \<times> int \<times> string) \<times> int \<times> int \<times> int \<times> int \<times> int" where
  "frame e = ((we_active e, we_collected e, we_run e, we_base e), we_200 e, we_403 e, we_404 e, we_429 e, we_500 e)"

text \<open>A stage that is silent changes none of these, and its effects are neither results nor notes nor branches.\<close>

definition silent :: "'s worker_engine \<Rightarrow> 's worker_engine \<Rightarrow> bool" where
  "silent e e' \<longleftrightarrow> frame e' = frame e \<and> (\<exists>es. we_out e' = we_out e @ es \<and> list_all quiet es)"

lemma silent_refl [simp]: "silent e e"
  by (simp add: silent_def)

lemma silent_trans [trans]: "silent e1 e2 \<Longrightarrow> silent e2 e3 \<Longrightarrow> silent e1 e3"
  by (auto simp: silent_def)

lemma silent_same: "frame e' = frame e \<Longrightarrow> we_out e' = we_out e \<Longrightarrow> silent e e'"
  by (simp add: silent_def)

lemma silent_emit: "list_all quiet es \<Longrightarrow> silent e (emit es e)"
  by (auto simp: silent_def emit_def frame_def)

lemma silent_upd:
  "silent e (e\<lparr>we_net := s\<rparr>)" "silent e (e\<lparr>we_seen := m\<rparr>)" "silent e (e\<lparr>we_tracker := t\<rparr>)" "silent e (e\<lparr>we_processed := n\<rparr>)"
  "silent e (e\<lparr>we_waf := w\<rparr>)" "silent e (e\<lparr>we_conn_err := n\<rparr>)" "silent e (e\<lparr>we_signatures := sg\<rparr>)" "silent e (e\<lparr>we_prints := pr\<rparr>)"
  "silent e (e\<lparr>we_net := s, we_board := b\<rparr>)" "silent e (e\<lparr>we_tasks := k\<rparr>)" "silent e (e\<lparr>we_techs := ts\<rparr>)"
  "silent e (e\<lparr>we_suppressed := n\<rparr>)"
  by (simp_all add: silent_def frame_def)

lemma send_job_silent: "send_job ops snap plan job e = (r, e') \<Longrightarrow> silent e e'"
  by (auto simp: send_job_def Let_def silent_def frame_def split: if_splits prod.splits)

lemma follow_silent: "follow_stage ops snap plan a e = (r, e') \<Longrightarrow> silent e e'"
  by (auto simp: follow_stage_def silent_upd split: if_splits prod.splits)

lemma tech_step_silent: "silent e (tech_step host e t)"
  by (auto simp: tech_step_def silent_def frame_def emit_def)

lemma tech_silent: "tech_stage ops plan resp e = (ts, e') \<Longrightarrow> silent e e'"
proof -
  have "silent e (foldl (tech_step host) e xs)" for host xs
    by (induction xs rule: rev_induct) (auto intro: silent_trans tech_step_silent)
  then show "tech_stage ops plan resp e = (ts, e') \<Longrightarrow> silent e e'" by (auto simp: tech_stage_def split: if_splits)
qed

lemma bypass_silent: "silent e (bypass_stage snap plan resp meth m e)"
  by (auto simp: bypass_stage_def silent_def frame_def emit_def split: prod.split)

lemma classify_silent: "classify_stage ops plan resp meth e = (r, e') \<Longrightarrow> silent e e'"
  by (auto simp: classify_stage_def silent_upd split: if_splits sum.splits prod.splits)

lemma evasion_step:
  "(\<exists>left' e2. evasion_loop ops snap plan payload meth body blocked left i (t # ts) e =
      evasion_loop ops snap plan payload meth body blocked left' (i + 1) ts e2 \<and> silent e e2) \<or>
   (\<exists>n p raw resp d e2. evasion_loop ops snap plan payload meth body blocked left i (t # ts) e = (Some (n, p, raw, resp, d), e2) \<and>
      silent e e2 \<and> isMeaningfulBypassResponse (Some blocked) (Some resp)) \<or>
   evasion_loop ops snap plan payload meth body blocked left i (t # ts) e = (None, e)"
proof (cases "left = 0 \<or> evasionTechniqueSeen (we_seen e) payload (et_name t)")
  case True
  then show ?thesis
  proof (cases "left = 0")
    case nz: False
    with True have "evasion_loop ops snap plan payload meth body blocked left i (t # ts) e =
        evasion_loop ops snap plan payload meth body blocked left (i + 1) ts e" by simp
    then show ?thesis using silent_refl by blast
  qed simp
next
  case False
  let ?e1 = "e\<lparr>we_seen := markEvasionTechnique payload (et_name t) (we_seen e)\<rparr>"
  let ?raw = "evasion_request plan payload meth body (et_modify t (wo_random ops i) payload (jp_headers plan) meth)"
  have u: "silent e (?e1\<lparr>we_net := s, we_board := b\<rparr>)" for s b by (simp add: silent_def frame_def)
  obtain x s' where x: "wo_exec ops (we_base e) (request_timeout snap) ?raw (we_net e) = (x, s')" by fastforce
  show ?thesis
  proof (cases x)
    case (Inl er)
    with False x have "evasion_loop ops snap plan payload meth body blocked left i (t # ts) e =
        evasion_loop ops snap plan payload meth body blocked (left - 1) (i + 1) ts
          (?e1\<lparr>we_net := s', we_board := scoreboard_record (et_name t) False (we_board ?e1)\<rparr>)" by (simp add: Let_def)
    with u show ?thesis by blast
  next
    case (Inr v)
    obtain resp d where v: "v = (resp, d)" by fastforce
    show ?thesis
    proof (cases "isMeaningfulBypassResponse (Some blocked) (Some resp)")
      case True
      with False x Inr v have "evasion_loop ops snap plan payload meth body blocked left i (t # ts) e =
          (Some (et_name t, fst (et_modify t (wo_random ops i) payload (jp_headers plan) meth), ?raw, resp, d),
           ?e1\<lparr>we_net := s', we_board := scoreboard_record (et_name t) True (we_board ?e1)\<rparr>)" by (simp add: Let_def)
      with u True show ?thesis by blast
    next
      case nm: False
      with False x Inr v have "evasion_loop ops snap plan payload meth body blocked left i (t # ts) e =
          evasion_loop ops snap plan payload meth body blocked (left - 1) (i + 1) ts
            (?e1\<lparr>we_net := s', we_board := scoreboard_record (et_name t) False (we_board ?e1)\<rparr>)" by (simp add: Let_def)
      with u show ?thesis by blast
    qed
  qed
qed

declare evasion_loop.simps(2) [simp del]

lemma evasion_loop_silent:
  "silent e (snd (evasion_loop ops snap plan payload meth body blocked left i ts e)) \<and>
   (case fst (evasion_loop ops snap plan payload meth body blocked left i ts e) of None \<Rightarrow> True
    | Some (n, p, raw, resp, d) \<Rightarrow> isMeaningfulBypassResponse (Some blocked) (Some resp))"
proof (induction ts arbitrary: left i e)
  case (Cons t ts)
  from evasion_step [of ops snap plan payload meth body blocked left i t ts e] show ?case
  proof (elim disjE exE conjE)
    fix left' e2 assume "evasion_loop ops snap plan payload meth body blocked left i (t # ts) e =
        evasion_loop ops snap plan payload meth body blocked left' (i + 1) ts e2" "silent e e2"
    with Cons.IH [where e = e2 and left = left' and i = "i + 1"] show ?thesis using silent_trans by (simp only:) blast
  qed simp_all
qed simp

section \<open>The status counters\<close>

definition status_total :: "'s worker_engine \<Rightarrow> int" where
  "status_total e = we_200 e + we_403 e + we_404 e + we_429 e + we_500 e"

text \<open>From one state to another the counters of the results stay, quiet effects are added, and one answer is counted at most.\<close>

definition one_answer :: "'s worker_engine \<Rightarrow> 's worker_engine \<Rightarrow> bool" where
  "one_answer e e' \<longleftrightarrow> fst (frame e') = fst (frame e) \<and> (\<exists>es. we_out e' = we_out e @ es \<and> list_all quiet es) \<and>
     status_total e \<le> status_total e' \<and> status_total e' \<le> status_total e + 1 \<and>
     we_200 e \<le> we_200 e' \<and> we_403 e \<le> we_403 e' \<and> we_404 e \<le> we_404 e' \<and> we_429 e \<le> we_429 e' \<and> we_500 e \<le> we_500 e'"

lemma silent_frame: "silent e e' \<Longrightarrow> frame e' = frame e"
  by (simp add: silent_def)

lemma one_answer_silent_right: "one_answer e e1 \<Longrightarrow> silent e1 e2 \<Longrightarrow> one_answer e e2"
  by (auto simp: one_answer_def silent_def frame_def status_total_def)

lemma one_answer_silent_left: "silent e e1 \<Longrightarrow> one_answer e1 e2 \<Longrightarrow> one_answer e e2"
  by (auto simp: one_answer_def silent_def frame_def status_total_def)

lemma one_answer_count: "one_answer e (count_status st e)"
  by (auto simp: one_answer_def count_status_def frame_def status_total_def emit_def)

text \<open>A successful bypass takes the answer back from the blocked ones and counts the new one.\<close>

lemma one_answer_recount:
  assumes "silent (count_status 403 e) e1"
  shows "one_answer e (recount_status st e1)"
proof -
  have f: "frame e1 = frame (count_status 403 e)" using assms by (rule silent_frame)
  then have "fst (frame e1) = fst (frame e)" "we_200 e1 = we_200 e" "we_403 e1 = we_403 e + 1" "we_404 e1 = we_404 e"
    "we_429 e1 = we_429 e" "we_500 e1 = we_500 e"
    by (simp_all add: frame_def count_status_def)
  moreover have "\<exists>es. we_out e1 = we_out e @ es \<and> list_all quiet es" using assms by (auto simp: silent_def count_status_def)
  moreover have "fst (frame (recount_status st e1)) = fst (frame e1)" "we_out (recount_status st e1) = we_out e1"
    by (simp_all add: recount_status_def Let_def frame_def)
  moreover have "we_200 e1 \<le> we_200 (recount_status st e1)" "we_403 (recount_status st e1) = we_403 e1 - 1"
    "we_404 e1 \<le> we_404 (recount_status st e1)" "we_429 (recount_status st e1) = we_429 e1" "we_500 e1 \<le> we_500 (recount_status st e1)"
    "status_total (recount_status st e1) \<le> status_total e1" "status_total e1 - 1 \<le> status_total (recount_status st e1)"
    by (simp_all add: recount_status_def Let_def status_total_def)
  ultimately show ?thesis unfolding one_answer_def status_total_def by simp
qed

lemma evasion_stage_cases:
  assumes "evasion_stage ops snap plan payload body cbody cheaders h e = (h', e')"
  shows "(h' = h \<and> silent e e') \<or>
    (\<exists>e1. silent e e1 \<and> 200 \<le> rr_status (ht_resp h') \<and> rr_status (ht_resp h') < 300 \<and> e' = recount_status (rr_status (ht_resp h')) e1)"
proof -
  define waf where "waf = FingerprintWAF cbody cheaders (rr_status (ht_resp h))"
  define vendor where "vendor = (if wf_detected waf then wf_vendor waf else ''unknown'')"
  define e1 where "e1 = e\<lparr>we_waf := setWAFState (wf_detected waf) vendor\<rparr>"
  define limit where "limit = (if wn_evasion_limit snap < 1 then 4 else wn_evasion_limit snap)"
  define l where "l = evasion_loop ops snap plan payload (ht_method h) body (ht_resp h) (nat limit) 0 (EvasionStrategiesFor vendor) e1"
  have s1: "silent e e1" unfolding e1_def by (rule silent_upd)
  have s2: "silent e1 (snd l)" "case fst l of None \<Rightarrow> True | Some (n, p, raw, resp, d) \<Rightarrow> isMeaningfulBypassResponse (Some (ht_resp h)) (Some resp)"
    unfolding l_def using evasion_loop_silent by blast+
  have d: "evasion_stage ops snap plan payload body cbody cheaders h e = (case l of
      (None, e2) \<Rightarrow> (h, e2)
    | (Some (name, path, raw, resp, d), e2) \<Rightarrow>
        (h\<lparr>ht_resp := resp, ht_time := d, ht_raw := raw, ht_metrics := computeResponseMetrics resp (ht_method h),
           ht_url := bypassed_url (we_base e) path, ht_label := ''BYPASS:'' @ name\<rparr>,
         if rr_status resp \<noteq> 403 then recount_status (rr_status resp) e2 else e2))"
    unfolding evasion_stage_def Let_def l_def e1_def vendor_def waf_def limit_def ..
  show ?thesis
  proof (cases "fst l")
    case None
    then show ?thesis using d assms silent_trans [OF s1 s2(1)] by (cases l) auto
  next
    case (Some v)
    obtain name path raw resp t where v: "v = (name, path, raw, resp, t)" by (metis prod_cases5)
    have "200 \<le> rr_status resp" "rr_status resp < 300" using s2(2) Some v
      by (auto simp: isMeaningfulBypassResponse_def isMeaningfulAccessImprovement_def split: if_splits)
    moreover have "h' = h\<lparr>ht_resp := resp, ht_time := t, ht_raw := raw, ht_metrics := computeResponseMetrics resp (ht_method h),
           ht_url := bypassed_url (we_base e) path, ht_label := ''BYPASS:'' @ name\<rparr>" "e' = recount_status (rr_status resp) (snd l)"
      using d assms Some v \<open>rr_status resp < 300\<close> by (cases l; auto)+
    ultimately show ?thesis using silent_trans [OF s1 s2(1)] by auto
  qed
qed

lemma blocked_stage_counts:
  assumes "blocked_stage ops snap plan payload body h e2 = (h', e')" "silent (count_status (rr_status (ht_resp h)) e) e2"
  shows "one_answer e e'"
proof (cases "rr_status (ht_resp h) = 403 \<and> wn_waf snap")
  case False
  then have "silent e2 e'"
    using assms(1) classify_silent by (auto simp: blocked_stage_def Let_def split: if_splits prod.splits)
  with assms(2) show ?thesis using one_answer_silent_right [OF one_answer_count] silent_trans by blast
next
  case True
  obtain c e3 where c: "classify_stage ops plan (ht_resp h) (ht_method h) e2 = (c, e3)" by fastforce
  then have s: "silent (count_status 403 e) e3" using classify_silent [OF c] assms(2) True silent_trans by metis
  have "evasion_stage ops snap plan payload body (fst c) (snd c) (h\<lparr>ht_403 := Classify403 (fst c) (snd c)\<rparr>) e3 = (h', e')"
    using assms(1) True c by (simp add: blocked_stage_def Let_def split: prod.splits)
  from evasion_stage_cases [OF this] show ?thesis
  proof
    assume "h' = h\<lparr>ht_403 := Classify403 (fst c) (snd c)\<rparr> \<and> silent e3 e'"
    then show ?thesis using one_answer_silent_right [OF one_answer_count] silent_trans s by blast
  next
    assume "\<exists>e1. silent e3 e1 \<and> 200 \<le> rr_status (ht_resp h') \<and> rr_status (ht_resp h') < 300 \<and>
      e' = recount_status (rr_status (ht_resp h')) e1"
    then show ?thesis using one_answer_recount silent_trans [OF s] by blast
  qed
qed

lemma hit_stage_counts:
  assumes "hit_stage ops snap plan payload a e = (h, e')" shows "one_answer e e'"
proof -
  obtain resp d final e1 where f: "follow_stage ops snap plan a e = ((resp, d, final), e1)" by (metis prod_cases4 surj_pair)
  obtain ts e3 where t: "tech_stage ops plan resp (count_status (rr_status resp) e1) = (ts, e3)" by fastforce
  let ?m = "computeResponseMetrics resp (an_method a)"
  let ?h = "\<lparr>ht_resp = resp, ht_time = d, ht_method = an_method a, ht_raw = an_raw a, ht_url = jp_url plan, ht_metrics = ?m,
                        ht_403 = '''', ht_label = '''', ht_final = final, ht_techs = ts\<rparr>"
  let ?e4 = "bypass_stage snap plan resp (an_method a) ?m e3"
  have "blocked_stage ops snap plan payload (an_body a) ?h ?e4 = (h, e')"
    using assms by (simp add: hit_stage_def f t Let_def)
  moreover have "silent (count_status (rr_status (ht_resp ?h)) e1) ?e4"
    using tech_silent [OF t] bypass_silent silent_trans by fastforce
  ultimately have "one_answer e1 e'" by (rule blocked_stage_counts)
  with follow_silent [OF f] show ?thesis by (rule one_answer_silent_left)
qed

section \<open>The accounts of a job\<close>

fun is_report :: "worker_effect \<Rightarrow> bool" where
  "is_report (ResultSent r) = True" | "is_report x = False"

fun is_note :: "worker_effect \<Rightarrow> bool" where
  "is_note (FilterNote m st n) = True" | "is_note x = False"

fun is_branch :: "worker_effect \<Rightarrow> bool" where
  "is_branch (BranchAsked p d) = True" | "is_branch x = False"

definition how_many :: "(worker_effect \<Rightarrow> bool) \<Rightarrow> worker_effect list \<Rightarrow> int" where
  "how_many P es = int (length (filter P es))"

lemma how_many_simps [simp]:
  "how_many P [] = 0" "how_many P (x # es) = (if P x then 1 else 0) + how_many P es" "how_many P (es @ es') = how_many P es + how_many P es'"
  by (simp_all add: how_many_def)

lemma quiet_none: "list_all quiet es \<Longrightarrow> how_many is_report es = 0 \<and> how_many is_note es = 0 \<and> how_many is_branch es = 0"
proof (induction es)
  case (Cons x es)
  then show ?case by (cases x) simp_all
qed simp

definition counters_grow :: "'s worker_engine \<Rightarrow> 's worker_engine \<Rightarrow> bool" where
  "counters_grow e e' \<longleftrightarrow> we_200 e \<le> we_200 e' \<and> we_403 e \<le> we_403 e' \<and> we_404 e \<le> we_404 e' \<and> we_429 e \<le> we_429 e' \<and> we_500 e \<le> we_500 e'"

text \<open>\<open>r\<close> results, \<open>n\<close> notes and \<open>b\<close> branches were added, and at most \<open>k\<close> answers counted.\<close>

definition ledger :: "int \<Rightarrow> int \<Rightarrow> int \<Rightarrow> int \<Rightarrow> 's worker_engine \<Rightarrow> 's worker_engine \<Rightarrow> bool" where
  "ledger r n b k e e' \<longleftrightarrow> (\<exists>es. we_out e' = we_out e @ es \<and> how_many is_report es = r \<and> how_many is_note es = n \<and> how_many is_branch es = b) \<and>
     we_active e' = we_active e + b \<and> we_collected e' = we_collected e + r + n \<and> counters_grow e e' \<and> status_total e' \<le> status_total e + k"

lemma ledger_trans: "ledger r n b k e1 e2 \<Longrightarrow> ledger r' n' b' k' e2 e3 \<Longrightarrow> ledger (r + r') (n + n') (b + b') (k + k') e1 e3"
  by (fastforce simp: ledger_def counters_grow_def)

lemma silent_ledger: "silent e e' \<Longrightarrow> ledger 0 0 0 0 e e'"
  by (auto simp: silent_def ledger_def frame_def counters_grow_def status_total_def dest!: quiet_none)

lemma one_answer_ledger: "one_answer e e' \<Longrightarrow> ledger 0 0 0 1 e e'"
  by (auto simp: one_answer_def ledger_def frame_def counters_grow_def dest!: quiet_none)

lemma emit_ledger:
  "ledger (how_many is_report es) (how_many is_note es) 0 0 e
     ((emit es e)\<lparr>we_collected := we_collected e + how_many is_report es + how_many is_note es\<rparr>)"
  if "how_many is_branch es = 0"
  using that by (simp add: ledger_def emit_def counters_grow_def status_total_def)

lemma filter_silent: "filter_stage snap a h e = (keep, e') \<Longrightarrow> silent e e'"
  by (auto simp: filter_stage_def silent_upd split: prod.splits)

lemma source_map_silent: "silent e (source_map_stage snap plan job h e)"
  by (simp add: source_map_stage_def Let_def silent_emit)

lemma submitted_quiet: "list_all quiet (map Submitted js)" "list_all quiet (map HarvestPath bs)"
  by (simp_all add: list_all_iff)

lemma queue_silent: "silent e (queue_stage ops snap job h e)"
  by (simp add: queue_stage_def silent_emit submitted_quiet)

lemma spider_silent: "silent e (spider_stage ops snap plan job h e)"
  by (simp add: spider_stage_def Let_def silent_emit submitted_quiet)

lemma mutate_silent: "silent e (mutate_stage snap job h e)"
  by (simp add: mutate_stage_def silent_emit submitted_quiet)

lemma replay_silent: "silent e (replay_stage env snap h e)"
  by (simp add: replay_stage_def silent_emit)

lemma mirror_silent: "mirror_stage job h e = (m, e') \<Longrightarrow> silent e e'"
  by (auto simp: mirror_stage_def Let_def silent_upd split: if_splits)

lemma smart_ledger:
  assumes "smart_stage env snap h e = (go_on, e')" shows "\<exists>n. 0 \<le> n \<and> n \<le> 1 \<and> ledger 0 n 0 0 e e'"
proof -
  obtain g announce prints where s: "smart_filter (wn_threshold snap) (ht_resp h) (ht_metrics h) (ht_403 h) (we_prints e) = (g, announce, prints)"
    by (metis prod_cases3)
  show ?thesis
  proof (cases "announce \<and> en_note_room env")
    case True
    then have "ledger 0 1 0 0 e e'"
      using assms s by (auto simp: smart_stage_def Let_def ledger_def emit_def counters_grow_def status_total_def)
    then show ?thesis by (intro exI [of _ 1]) simp
  next
    case False
    then have "ledger 0 0 0 0 e e'"
      using assms s by (auto simp: smart_stage_def Let_def ledger_def emit_def counters_grow_def status_total_def)
    then show ?thesis by (intro exI [of _ 0]) simp
  qed
qed

lemma recurse_ledger: "\<exists>b. 0 \<le> b \<and> b \<le> 1 \<and> ledger 0 0 b 0 e (recurse_stage snap job h redirect e)"
proof -
  define hit where "hit = ProcessHit (we_scope e) (we_scanner e) (wn_prune snap) (job_path job) redirect (mt_type (ht_metrics h)) (rr_body (ht_resp h)) (we_active e)"
  have hit: "snd hit = we_active e + (if fst hit = BranchStarted then 1 else 0)" by (auto simp: hit_def ProcessHit_def)
  have r: "recurse_stage snap job h redirect e = (if wn_recurse snap \<and> job_depth job < wn_max_depth snap then
      (if fst hit = BranchStarted then emit [BranchAsked (job_path job) (job_depth job + 1)] else (\<lambda>x. x)) (e\<lparr>we_active := snd hit\<rparr>) else e)"
    by (simp add: recurse_stage_def hit_def split: prod.split)
  show ?thesis
  proof (cases "wn_recurse snap \<and> job_depth job < wn_max_depth snap \<and> fst hit = BranchStarted")
    case True
    then have "ledger 0 0 1 0 e (recurse_stage snap job h redirect e)"
      by (simp add: r hit ledger_def emit_def counters_grow_def status_total_def)
    then show ?thesis by (intro exI [of _ 1]) simp
  next
    case False
    then have "ledger 0 0 0 0 e (recurse_stage snap job h redirect e)"
      by (auto simp: r hit ledger_def emit_def counters_grow_def status_total_def)
    then show ?thesis by (intro exI [of _ 0]) simp
  qed
qed

lemma finish_ledger:
  assumes "finish_stage ops env snap plan job a h e = (cancelled, e')"
  shows "\<exists>r b. 0 \<le> r \<and> r \<le> 1 \<and> 0 \<le> b \<and> b \<le> 1 \<and> ledger r 0 b 0 e e' \<and> (cancelled \<longrightarrow> \<not> en_result_sent env)"
proof -
  obtain m e1 where m: "mirror_stage job h e = (m, e1)" by fastforce
  have s1: "silent e e1" using mirror_silent [OF m] .
  let ?result = "make_result ops snap job a h (we_previous e)"
  let ?e2 = "emit [FeedbackAsked ?result] (spider_stage ops snap plan job h (queue_stage ops snap job h e1))"
  have s2: "silent e ?e2"
  proof -
    have "silent e (spider_stage ops snap plan job h (queue_stage ops snap job h e1))"
      by (rule silent_trans [OF silent_trans [OF s1 queue_silent] spider_silent])
    then show ?thesis by (rule silent_trans) (simp add: silent_emit)
  qed
  show ?thesis
  proof (cases "m \<or> \<not> en_result_sent env")
    case True
    then have "silent e e' \<and> (cancelled \<longrightarrow> \<not> en_result_sent env)"
      using assms m s1 s2 by (cases m) (auto simp: finish_stage_def Let_def split: if_splits)
    then show ?thesis using silent_ledger [of e e'] by (intro exI [of _ 0]) simp
  next
    case False
    let ?e3 = "emit [ResultSent ?result] (?e2\<lparr>we_collected := we_collected ?e2 + 1\<rparr>)"
    let ?e4 = "mutate_stage snap job h (replay_stage env snap h ?e3)"
    have e: "e' = recurse_stage snap job h (res_redirect ?result) ?e4" "\<not> cancelled"
      using assms m False by (auto simp: finish_stage_def Let_def)
    have "ledger 1 0 0 0 ?e2 ?e3" by (simp add: ledger_def emit_def counters_grow_def status_total_def)
    with silent_ledger [OF s2] have "ledger 1 0 0 0 e ?e3" using ledger_trans by fastforce
    moreover have "silent ?e3 ?e4" by (rule silent_trans [OF replay_silent mutate_silent])
    ultimately have "ledger 1 0 0 0 e ?e4" using silent_ledger ledger_trans by fastforce
    moreover obtain b where "0 \<le> b" "b \<le> 1" "ledger 0 0 b 0 ?e4 e'" using recurse_ledger e(1) by blast
    ultimately have "ledger 1 0 b 0 e e'" using ledger_trans by fastforce
    with \<open>0 \<le> b\<close> \<open>b \<le> 1\<close> e(2) show ?thesis by (rule_tac exI [of _ 1], rule_tac exI [of _ b]) simp
  qed
qed

text \<open>What happens before the last stage reports nothing.\<close>

lemma worker_job_cases:
  assumes "worker_job ops env snap i job e = Some (ends, e')"
  shows "(\<exists>n k e1. 0 \<le> n \<and> n \<le> 1 \<and> k \<le> 1 \<and> ledger 0 n 0 k e e1 \<and> e' = job_done e1 \<and> (ends \<longrightarrow> i \<ge> wn_max_workers snap \<or> en_cancelled env)) \<or>
    (\<exists>plan a h e1 e2 e3 e4 e5 n cancelled. job_run job = we_run e \<and> plan_job snap (we_base e) job = Some plan \<and>
       send_job ops snap plan job e = (Inr (Some a), e1) \<and> hit_stage ops snap plan (job_path job) a e1 = (h, e2) \<and>
       filter_stage snap a h e2 = (True, e3) \<and> smart_stage env snap h (source_map_stage snap plan job h e3) = (True, e4) \<and>
       0 \<le> n \<and> n \<le> 1 \<and> ledger 0 n 0 1 e e4 \<and> finish_stage ops env snap plan job a h e4 = (cancelled, e5) \<and> e' = job_done e5 \<and>
       (ends \<longleftrightarrow> cancelled \<or> i \<ge> wn_max_workers snap))"
proof -
  have refl0: "ledger 0 0 0 0 e e" by (rule silent_ledger) simp
  show ?thesis
  proof (cases "job_run job \<noteq> we_run e \<or> \<not> we_scanner e \<or> en_cancelled env")
    case True
    then have "e' = job_done e" "ends \<longrightarrow> i \<ge> wn_max_workers snap \<or> en_cancelled env"
      using assms by (auto simp: worker_job_def Let_def split: if_splits)
    with refl0 show ?thesis by (intro disjI1) (rule exI [of _ 0], rule exI [of _ 0], auto)
  next
    case go: False
    show ?thesis
    proof (cases "plan_job snap (we_base e) job")
      case None
      then have "e' = job_done e" "ends \<longrightarrow> i \<ge> wn_max_workers snap" using assms go by (auto simp: worker_job_def Let_def)
      with refl0 show ?thesis by (intro disjI1) (rule exI [of _ 0], rule exI [of _ 0], auto)
    next
      case (Some plan)
      show ?thesis
      proof (cases "wo_admits ops (u_host (jp_parsed plan))")
        case False
        then have "e' = job_done e" "ends \<longrightarrow> i \<ge> wn_max_workers snap" using assms go Some by (auto simp: worker_job_def Let_def)
        with refl0 show ?thesis by (intro disjI1) (rule exI [of _ 0], rule exI [of _ 0], auto)
      next
        case adm: True
        obtain r e1 where r: "send_job ops snap plan job e = (r, e1)" by fastforce
        have l1: "ledger 0 0 0 0 e e1" using send_job_silent [OF r] by (rule silent_ledger)
        show ?thesis
        proof (cases r)
          case (Inl er)
          have "ledger 0 0 0 0 e1 (e1\<lparr>we_conn_err := we_conn_err e1 + 1\<rparr>)" by (intro silent_ledger silent_upd)
          then have "ledger 0 0 0 0 e (if wo_ctx_error ops er then e1 else e1\<lparr>we_conn_err := we_conn_err e1 + 1\<rparr>)"
            using l1 ledger_trans [OF l1] by fastforce
          moreover have "e' = job_done (if wo_ctx_error ops er then e1 else e1\<lparr>we_conn_err := we_conn_err e1 + 1\<rparr>)"
              "ends \<longrightarrow> i \<ge> wn_max_workers snap"
            using assms go Some adm r Inl by (auto simp: worker_job_def Let_def)
          ultimately show ?thesis by (intro disjI1) (rule exI [of _ 0], rule exI [of _ 0], auto)
        next
          case (Inr ao)
          obtain a where a: "ao = Some a" using assms go Some adm r Inr by (cases ao) (auto simp: worker_job_def Let_def)
          obtain h e2 where h: "hit_stage ops snap plan (job_path job) a e1 = (h, e2)" by fastforce
          obtain keep e3 where f: "filter_stage snap a h e2 = (keep, e3)" by fastforce
          obtain go_on e4 where s: "smart_stage env snap h (source_map_stage snap plan job h e3) = (go_on, e4)" by fastforce
          have "ledger 0 0 0 1 e e2" using ledger_trans [OF l1 one_answer_ledger [OF hit_stage_counts [OF h]]] by simp
          then have l3: "ledger 0 0 0 1 e e3" using ledger_trans [OF _ silent_ledger [OF filter_silent [OF f]]] by fastforce
          then have "ledger 0 0 0 1 e (source_map_stage snap plan job h e3)"
            using ledger_trans [OF l3 silent_ledger [OF source_map_silent]] by simp
          moreover obtain n where n: "0 \<le> n" "n \<le> 1" "ledger 0 n 0 0 (source_map_stage snap plan job h e3) e4"
            using smart_ledger [OF s] by blast
          ultimately have l4: "ledger 0 n 0 1 e e4" using ledger_trans by fastforce
          show ?thesis
          proof (cases "keep \<and> go_on")
            case False
            then have "\<exists>e0 m. 0 \<le> m \<and> m \<le> 1 \<and> ledger 0 m 0 1 e e0 \<and> e' = job_done e0 \<and> (ends \<longrightarrow> i \<ge> wn_max_workers snap)"
            proof (cases keep)
              case True
              then have "e' = job_done e4" "ends \<longrightarrow> i \<ge> wn_max_workers snap"
                using False assms go Some adm r Inr a h f s by (simp_all add: worker_job_def Let_def)
              with l4 n show ?thesis by blast
            next
              case nk: False
              then have "e' = job_done e3" "ends \<longrightarrow> i \<ge> wn_max_workers snap"
                using False assms go Some adm r Inr a h f s by (simp_all add: worker_job_def Let_def)
              with l3 show ?thesis by (intro exI [of _ e3] exI [of _ 0]) simp
            qed
            then show ?thesis by (intro disjI1) (metis order_refl)
          next
            case True
            obtain cancelled e5 where e5: "finish_stage ops env snap plan job a h e4 = (cancelled, e5)" by fastforce
            with True have "e' = job_done e5 \<and> (ends \<longleftrightarrow> cancelled \<or> i \<ge> wn_max_workers snap)"
              using assms go Some adm r Inr a h f s by (auto simp: worker_job_def Let_def)
            then have fin: "e' = job_done e5" "ends \<longleftrightarrow> cancelled \<or> i \<ge> wn_max_workers snap" by simp_all
            have go': "job_run job = we_run e" using go by simp
            have r': "send_job ops snap plan job e = (Inr (Some a), e1)" using r Inr a by simp
            have f': "filter_stage snap a h e2 = (True, e3)" using f True by simp
            have s': "smart_stage env snap h (source_map_stage snap plan job h e3) = (True, e4)" using s True by simp
            show ?thesis
              by (intro disjI2 exI conjI) (rule go' Some r' h f' s' n(1,2) l4 e5 fin)+
          qed
        qed
      qed
    qed
  qed
qed

text \<open>C1: Whatever happens to a job - it is stale, its address is wrong, the request fails, the answer is blocked, bypassed, filtered,
  repetitive or a mirror, or the scan is cancelled - it is released exactly once, a branch of the recursion being counted
  before; it adds at most one result, one note of the smart filter and one branch, counts exactly the results and notes that
  were sent, and counts at most one answer by its status; no counter ever goes down. A worker ends only when it is
  surplus or the scan was cancelled.\<close>

theorem worker_job_accounts:
  assumes "worker_job ops env snap i job e = Some (ends, e')"
  shows "\<exists>es. we_out e' = we_out e @ es \<and>
    we_active e' = we_active e - 1 + how_many is_branch es \<and>
    how_many is_report es \<le> 1 \<and> how_many is_note es \<le> 1 \<and> how_many is_branch es \<le> 1 \<and>
    we_collected e' = we_collected e + how_many is_report es + how_many is_note es \<and>
    counters_grow e e' \<and> status_total e' \<le> status_total e + 1 \<and>
    (ends \<longrightarrow> i \<ge> wn_max_workers snap \<or> en_cancelled env \<or> \<not> en_result_sent env)"
proof -
  have d: "\<exists>es. we_out e' = we_out e @ es \<and> we_active e' = we_active e - 1 + how_many is_branch es \<and>
      how_many is_report es \<le> 1 \<and> how_many is_note es \<le> 1 \<and> how_many is_branch es \<le> 1 \<and>
      we_collected e' = we_collected e + how_many is_report es + how_many is_note es \<and> counters_grow e e' \<and> status_total e' \<le> status_total e + 1"
    if l: "ledger r n b k e e1" and e1: "e' = job_done e1" "r \<le> 1" "n \<le> 1" "b \<le> 1" "k \<le> 1" for r n b k e1
  proof -
    obtain es where "we_out e1 = we_out e @ es" "how_many is_report es = r" "how_many is_note es = n" "how_many is_branch es = b"
      using l unfolding ledger_def by blast
    with l e1 show ?thesis
      by (intro exI [of _ es]) (simp add: ledger_def job_done_def counters_grow_def status_total_def)
  qed
  from worker_job_cases [OF assms] show ?thesis
  proof (elim disjE exE conjE)
    fix n k e1
    assume "n \<le> 1" "k \<le> 1" "ledger 0 n 0 k e e1" "e' = job_done e1" "ends \<longrightarrow> i \<ge> wn_max_workers snap \<or> en_cancelled env"
    with d [of 0 n 0 k e1] show ?thesis by fastforce
  next
    fix plan a h e4 e5 n cancelled
    assume n: "n \<le> 1" and l: "ledger 0 n 0 1 e e4" and f: "finish_stage ops env snap plan job a h e4 = (cancelled, e5)"
      and e: "e' = job_done e5" "ends \<longleftrightarrow> cancelled \<or> i \<ge> wn_max_workers snap"
    obtain r b where r: "r \<le> 1" "b \<le> 1" "ledger r 0 b 0 e4 e5" "cancelled \<longrightarrow> \<not> en_result_sent env" using finish_ledger [OF f] by blast
    have "ledger r n b 1 e e5" using ledger_trans [OF l r(3)] by simp
    from d [OF this e(1) r(1) n r(2)] e(2) r(4) show ?thesis by fastforce
  qed
qed

section \<open>What a reported result has passed\<close>

lemma no_report_member: "how_many is_report es = 0 \<Longrightarrow> ResultSent r \<notin> set es"
  by (induction es) (auto simp: how_many_def split: if_splits)

lemma finish_result:
  assumes "finish_stage ops env snap plan job a h e = (cancelled, e')" "we_out e' = we_out e @ es" "ResultSent r \<in> set es"
  shows "r = make_result ops snap job a h (we_previous e)"
proof -
  obtain m e1 where m: "mirror_stage job h e = (m, e1)" by fastforce
  let ?result = "make_result ops snap job a h (we_previous e)"
  let ?e2 = "emit [FeedbackAsked ?result] (spider_stage ops snap plan job h (queue_stage ops snap job h e1))"
  have "silent e (spider_stage ops snap plan job h (queue_stage ops snap job h e1))"
    by (rule silent_trans [OF silent_trans [OF mirror_silent [OF m] queue_silent] spider_silent])
  then have s2: "silent e ?e2" by (rule silent_trans) (simp add: silent_emit)
  have quiet_no: "ResultSent r \<notin> set xs" if "list_all quiet xs" for xs using no_report_member quiet_none [OF that] by blast
  show ?thesis
  proof (cases "m \<or> \<not> en_result_sent env")
    case True
    then have "silent e e'" using assms(1) m s2 mirror_silent [OF m] by (cases m) (auto simp: finish_stage_def Let_def split: if_splits)
    then show ?thesis using assms(2,3) quiet_no by (auto simp: silent_def)
  next
    case False
    let ?e3 = "emit [ResultSent ?result] (?e2\<lparr>we_collected := we_collected ?e2 + 1\<rparr>)"
    let ?e4 = "mutate_stage snap job h (replay_stage env snap h ?e3)"
    have e: "e' = recurse_stage snap job h (res_redirect ?result) ?e4" using assms(1) m False by (auto simp: finish_stage_def Let_def)
    obtain xs where xs: "we_out ?e2 = we_out e @ xs" "list_all quiet xs" using s2 by (auto simp: silent_def)
    have "silent ?e3 ?e4" by (rule silent_trans [OF replay_silent mutate_silent])
    then obtain ys where ys: "we_out ?e4 = we_out ?e3 @ ys" "list_all quiet ys" by (auto simp: silent_def)
    obtain b where "ledger 0 0 b 0 ?e4 e'" using recurse_ledger e by blast
    then obtain zs where zs: "we_out e' = we_out ?e4 @ zs" "how_many is_report zs = 0" unfolding ledger_def by blast
    have "we_out ?e3 = we_out ?e2 @ [ResultSent ?result]" by (simp add: emit_def)
    then have "es = xs @ [ResultSent ?result] @ ys @ zs" using assms(2) xs(1) ys(1) zs(1) by simp
    with assms(3) quiet_no [OF xs(2)] quiet_no [OF ys(2)] no_report_member [OF zs(2)] show ?thesis by auto
  qed
qed

lemma send_no_oracle:
  assumes "send_job ops snap plan job e = (Inr (Some a), e1)" "\<not> (wn_oracle snap \<and> we_oracle e \<noteq> None)"
  shows "an_oracle a = None"
proof -
  have o1: "(if wn_oracle snap then we_oracle e else None) = None" using assms(2) by auto
  let ?exec = "wo_exec ops (we_base e) (request_timeout snap)"
  have auth: "an_oracle b = None" if "send_auth ops snap base plan meth = Inr (Some b)" for base meth b
    using that unfolding send_auth_def Let_def by (auto split: sum.splits option.splits prod.splits)
  have un: "an_oracle b = None" if "send_unmethod ?exec snap None bf plan rej s = ((Inr b, marked), s')" for bf rej s b marked s'
    using that unfolding send_unmethod_def Let_def by (auto simp: plain_answer_def split: sum.splits prod.splits)
  have me: "an_oracle b = None" if "send_method ?exec snap None plan meth s = (Inr b, s')" for meth s b s'
    using that unfolding send_method_def Let_def by (auto simp: plain_answer_def split: sum.splits prod.splits)
  consider "wn_auth snap \<noteq> []" | "wn_auth snap = []" "job_method job = ''''" | "wn_auth snap = []" "job_method job \<noteq> ''''" by blast
  then show ?thesis
  proof cases
    case 1
    then have "send_auth ops snap (we_base e) plan (job_method job) = Inr (Some a)" using assms(1) by (simp add: send_job_def Let_def)
    then show ?thesis by (rule auth)
  next
    case 2
    obtain x marked s' where x: "send_unmethod ?exec snap None (body_filter_active (wn_filter snap)) plan (u_host (jp_parsed plan) \<in> set (we_rejected e)) (we_net e)
        = ((x, marked), s')" by (metis surj_pair)
    with 2 assms(1) have "x = Inr a" by (cases x) (auto simp: send_job_def Let_def o1)
    with x un show ?thesis by blast
  next
    case 3
    obtain x s' where x: "send_method ?exec snap None plan (job_method job) (we_net e) = (x, s')" by fastforce
    with 3 assms(1) have "x = Inr a" by (cases x) (auto simp: send_job_def Let_def o1)
    with x me show ?thesis by blast
  qed
qed

text \<open>The rules of the filters on the fields of a result.\<close>

definition passes_filters :: "filter_config \<Rightarrow> worker_result \<Rightarrow> bool" where
  "passes_filters fc r \<longleftrightarrow>
     (fc_codes fc = [] \<or> res_status r \<in> set (fc_codes fc)) \<and> res_size r \<notin> set (fc_sizes fc) \<and>
     (\<forall>(lo, hi) \<in> set (fc_ranges fc). \<not> (0 \<le> res_size r \<and> lo \<le> res_size r \<and> res_size r \<le> hi)) \<and>
     \<not> (0 \<le> fc_words fc \<and> res_words r = fc_words fc) \<and> \<not> (0 \<le> fc_lines fc \<and> res_lines r = fc_lines fc) \<and>
     \<not> (0 \<le> fc_match_words fc \<and> res_words r \<noteq> fc_match_words fc) \<and> \<not> (0 \<le> fc_match_lines fc \<and> res_lines r \<noteq> fc_match_lines fc) \<and>
     (0 < fc_rt_min fc \<longrightarrow> fc_rt_min fc \<le> res_duration r) \<and> (0 < fc_rt_max fc \<longrightarrow> res_duration r \<le> fc_rt_max fc) \<and>
     (fc_match_types fc = [] \<or> (\<exists>t \<in> set (fc_match_types fc). contains_str (to_lower (res_type r)) t)) \<and>
     (\<forall>t \<in> set (fc_filter_types fc). \<not> contains_str (to_lower (res_type r)) t)"

lemma filter_rules_none:
  assumes "\<not> list_ex snd (filter_rules fc resp m dur False)"
  shows "fc_codes fc = [] \<or> rr_status resp \<in> set (fc_codes fc)" "mt_size m \<notin> set (fc_sizes fc)"
    "\<not> list_ex (\<lambda>(lo, hi). mt_size m \<ge> 0 \<and> mt_size m \<ge> lo \<and> mt_size m \<le> hi) (fc_ranges fc)"
    "\<not> (0 \<le> fc_words fc \<and> mt_words m = fc_words fc)" "\<not> (0 \<le> fc_lines fc \<and> mt_lines m = fc_lines fc)"
    "\<not> (0 \<le> fc_match_words fc \<and> mt_words m \<noteq> fc_match_words fc)" "\<not> (0 \<le> fc_match_lines fc \<and> mt_lines m \<noteq> fc_match_lines fc)"
    "0 < fc_rt_min fc \<longrightarrow> fc_rt_min fc \<le> dur" "0 < fc_rt_max fc \<longrightarrow> dur \<le> fc_rt_max fc"
    "fc_match_types fc = [] \<or> list_ex (\<lambda>t. contains_str (to_lower (mt_type m)) t) (fc_match_types fc)"
    "\<not> list_ex (\<lambda>t. contains_str (to_lower (mt_type m)) t) (fc_filter_types fc)"
proof -
  note n = assms [unfolded filter_rules_def Let_def list_ex_Cons_iff list_ex_Nil_iff snd_conv de_Morgan_disj not_not]
  show "fc_codes fc = [] \<or> rr_status resp \<in> set (fc_codes fc)" using n by blast
  have "fc_sizes fc = [] \<or> mt_size m \<notin> set (fc_sizes fc)" using n by blast
  then show "mt_size m \<notin> set (fc_sizes fc)" by auto
  show "\<not> list_ex (\<lambda>(lo, hi). mt_size m \<ge> 0 \<and> mt_size m \<ge> lo \<and> mt_size m \<le> hi) (fc_ranges fc)" using n by blast
  show "\<not> (0 \<le> fc_words fc \<and> mt_words m = fc_words fc)" using n by blast
  show "\<not> (0 \<le> fc_lines fc \<and> mt_lines m = fc_lines fc)" using n by blast
  show "\<not> (0 \<le> fc_match_words fc \<and> mt_words m \<noteq> fc_match_words fc)" using n by blast
  show "\<not> (0 \<le> fc_match_lines fc \<and> mt_lines m \<noteq> fc_match_lines fc)" using n by blast
  have "\<not> (0 < fc_rt_min fc \<and> dur < fc_rt_min fc)" using n by blast
  then show "0 < fc_rt_min fc \<longrightarrow> fc_rt_min fc \<le> dur" by auto
  have "\<not> (0 < fc_rt_max fc \<and> fc_rt_max fc < dur)" using n by blast
  then show "0 < fc_rt_max fc \<longrightarrow> dur \<le> fc_rt_max fc" by auto
  show "fc_match_types fc = [] \<or> list_ex (\<lambda>t. contains_str (to_lower (mt_type m)) t) (fc_match_types fc)" using n by blast
  show "\<not> list_ex (\<lambda>t. contains_str (to_lower (mt_type m)) t) (fc_filter_types fc)" using n by blast
qed

lemma applyFilters_passes:
  assumes "applyFilters fc resp meth m dur False False tr = (True, tr')"
    and "res_status r = rr_status resp" "res_size r = mt_size m" "res_words r = mt_words m" "res_lines r = mt_lines m"
      "res_type r = mt_type m" "res_duration r = dur"
  shows "passes_filters fc r"
proof -
  have n: "\<not> list_ex snd (filter_rules fc resp m dur False)" using assms(1) by (auto simp: applyFilters_def split: if_splits)
  note p = filter_rules_none [OF n]
  show ?thesis unfolding passes_filters_def assms(2-7)
  proof (intro conjI)
    show "\<forall>(lo, hi) \<in> set (fc_ranges fc). \<not> (0 \<le> mt_size m \<and> lo \<le> mt_size m \<and> mt_size m \<le> hi)"
      using p(3) unfolding list_ex_iff by blast
    show "fc_match_types fc = [] \<or> (\<exists>t \<in> set (fc_match_types fc). contains_str (to_lower (mt_type m)) t)"
      using p(10) unfolding list_ex_iff by blast
    show "\<forall>t \<in> set (fc_filter_types fc). \<not> contains_str (to_lower (mt_type m)) t" using p(11) unfolding list_ex_iff by blast
  qed (use p in blast)+
qed



section \<open>A run of one job\<close>

text \<open>A scan with one job left, whose answer is 200 with no body and passes a filter on the status.\<close>

definition calm_ops :: "nat worker_ops" where
  "calm_ops = \<lparr>wo_exec = (\<lambda>u t raw n. (Inr (demo_answer 200 '''', 7), n + 1)), wo_auth = (\<lambda>u raw. Inl ''unused''),
     wo_auth_time = (\<lambda>r. 0), wo_net = demo_ops, wo_ctx_error = (\<lambda>e. False), wo_admits = (\<lambda>h. True), wo_techs = (\<lambda>r. []),
     wo_links = (\<lambda>b. []), wo_harvest = small_ops, wo_sha = (\<lambda>b. b), wo_random = int, wo_format_z = (\<lambda>z. '''')\<rparr>"

definition calm_env :: worker_env where
  "calm_env = \<lparr>en_cancelled = False, en_note_room = True, en_result_sent = True, en_replay_room = True\<rparr>"

definition calm_filter :: filter_config where
  "calm_filter = \<lparr>fc_sizes = [], fc_ranges = [], fc_codes = [200], fc_words = - 1, fc_lines = - 1, fc_match_words = - 1,
     fc_match_lines = - 1, fc_match_re = None, fc_filter_re = None, fc_rt_min = 0, fc_rt_max = 0, fc_match_types = [], fc_filter_types = []\<rparr>"

definition calm_snap :: worker_snap where
  "calm_snap = \<lparr>wn_max_workers = 1, wn_headers = \<lparr>hc_ua = ''ua'', hc_headers = []\<rparr>, wn_filter = calm_filter, wn_follow = False,
     wn_max_redirects = 3, wn_allow_private = False, wn_body = '''', wn_timeout = 0, wn_save_raw = False, wn_auth = [], wn_threshold = 0,
     wn_mutate = True, wn_recurse = False, wn_prune = False, wn_max_depth = 0, wn_waf = False, wn_evasion_limit = 0, wn_verb = False,
     wn_spider = False, wn_source_maps = False, wn_harvest = True, wn_harvest_depth = 0, wn_bypass = False, wn_proxy_out = '''', wn_oracle = False, wn_oracle_n = 0\<rparr>"

definition calm_job :: job where
  "calm_job = no_job\<lparr>job_path := ''/a'', job_method := ''GET'', job_run := 4\<rparr>"

definition calm_engine :: "nat worker_engine" where
  "calm_engine = \<lparr>we_run = 4, we_scanner = True, we_base = ''http://h'', we_scope = ''h'', we_oracle = None, we_previous = None,
     we_active = 1, we_processed = 0, we_conn_err = 0, we_200 = 0, we_403 = 0, we_404 = 0, we_429 = 0, we_500 = 0, we_suppressed = 0,
     we_collected = 0, we_tracker = newSimhashTracker 3 10, we_prints = (\<lambda>k. 0), we_signatures = (\<lambda>p. None), we_seen = [],
     we_board = \<lparr>sc_attempts = [], sc_hits = []\<rparr>, we_waf = (False, ''''), we_rejected = [],
     we_tasks = \<lparr>bk_limit = 1, bk_busy = 0, bk_jobs = 0\<rparr>, we_techs = [], we_out = [], we_net = 0\<rparr>"

definition calm_run :: "(bool \<times> nat worker_engine) option" where
  "calm_run = worker_job calm_ops calm_env calm_snap 0 calm_job calm_engine"


lemma calm_run_value:
  "map_option (\<lambda>(b, e). (b, length (filter is_report (we_out e)), we_active e, we_200 e, we_collected e)) calm_run = Some (False, 1, 0, 1, 1)"
  by code_simp

lemma calm_run_some:
  obtains e' r where "worker_job calm_ops calm_env calm_snap 0 calm_job calm_engine = Some (False, e')" "ResultSent r \<in> set (we_out e')"
    "we_200 e' = 1"
proof -
  obtain e' where e: "calm_run = Some (False, e')" "length (filter is_report (we_out e')) = 1" "we_200 e' = 1"
    using calm_run_value by auto
  then have "filter is_report (we_out e') \<noteq> []" by auto
  then obtain x where "x \<in> set (we_out e')" "is_report x" by (auto simp: filter_empty_conv)
  with e that show thesis by (cases x) (auto simp: calm_run_def)
qed

lemma worker_job_accounts_witness:
  "\<exists>e'. worker_job calm_ops calm_env calm_snap 0 calm_job calm_engine = Some (False, e') \<and> we_200 e' = 1 \<and>
     we_collected e' = how_many is_report (we_out e') + how_many is_note (we_out e') \<and>
     we_active e' = how_many is_branch (we_out e')"
proof -
  obtain e' r where e: "worker_job calm_ops calm_env calm_snap 0 calm_job calm_engine = Some (False, e')" "we_200 e' = 1"
    by (rule calm_run_some)
  have "we_active calm_engine = 1" "we_collected calm_engine = 0" "we_out calm_engine = []" by (simp_all add: calm_engine_def)
  with worker_job_accounts [OF e(1)] e show ?thesis by auto
qed


section \<open>Oddities of the loop\<close>

text \<open>The mutations of a mutation are jobs of the same depth: nothing but their answers bounds the chain
  \<open>/a.bak\<close>, \<open>/a.bak.bak\<close>, and so on.\<close>

lemma mutation_chain:
  "job_depth (((\<lambda>j. hd (mutation_jobs j)) ^^ n) job) = job_depth job \<and>
   job_path (((\<lambda>j. hd (mutation_jobs j)) ^^ n) job) = job_path job @ concat (replicate n ''.bak'')"
proof (induction n)
  case (Suc n)
  have "concat (replicate n s) @ s = s @ concat (replicate n s)" for s :: string
    by (induction n) simp_all
  with Suc show ?case by (simp add: mutation_jobs_def mutation_suffixes_def)
qed simp

text \<open>A link that names another host without a scheme counts as a link of the scanned host, and its path is submitted.\<close>

lemma foreign_link_submitted:
  "map_option job_path (spider_link ''h'' calm_job ''//evil.example/x'') = Some ''/x''"
  "map_option job_path (spider_link ''h'' calm_job ''http://evil.example/x'') = None"
  by code_simp+

text \<open>An authorization matrix that is set but has no usable role gives neither an answer nor an error: the worker panics.\<close>

lemma no_role_panics:
  "worker_job calm_ops calm_env (calm_snap\<lparr>wn_auth := [('''', [''A: 1''])]\<rparr>) 0 calm_job calm_engine = None"
  by code_simp

text \<open>A host that rejects HEAD and then fails the GET: the answer keeps the method HEAD but the request that is kept is the GET.\<close>

lemma kept_request_is_get:
  "(case send_unmethod (\<lambda>raw n. (if n = 0 then Inr (demo_answer 405 '''', 1) else Inl ''down'', n + 1)) calm_snap None False
      \<lparr>jp_url = ''http://h/a'', jp_parsed = no_url, jp_path = ''/a'', jp_ua = ''ua'', jp_headers = [], jp_block = '''', jp_body = ''''\<rparr> False (0 :: nat) of
     ((r, marked), s) \<Rightarrow> (case r of Inl e \<Rightarrow> False | Inr a \<Rightarrow> an_method a = ''HEAD'' \<and> take 4 (an_raw a) = ''GET '' \<and> marked))"
  by code_simp

end
