(* ===== verification/Resume.thy ===== *)
theory Resume
  imports Submission "HOL-Library.Log_Nat"
begin

text \<open>
  The wordlist scanner and its resume file: \<open>StartWordlistScanner\<close> in \<open>pkg/engine/engine.go\<close> with what it submits and saves, and
  \<open>engine_resume.go\<close>, which writes and reads the state and the filter of duplicates. The file system and the JSON codec are
  parameters. The decoder reads numbers as \<open>float64\<close>, which is written out.
\<close>

section \<open>The scanner\<close>

text \<open>What the scanner meets at one line: whether the context is done (also while it pauses), whether the ticker has fired, the settings of
  the snapshot, and the line.\<close>

record scan_line =
  sl_cancelled :: bool
  sl_tick :: bool
  sl_config :: scan_config
  sl_text :: string

datatype scan_event = ScanSaved int bool | ScanSubmitted job

text \<open>The number of the line that was read last, and the lines to come. A cancellation is seen when there is another line.\<close>

fun scan_loop :: "int \<Rightarrow> int \<Rightarrow> int \<Rightarrow> scan_line list \<Rightarrow> scan_event list" where
  "scan_loop startLine run n [] = []"
| "scan_loop startLine run n (l # ls) =
     (if sl_cancelled l then [ScanSaved n True]
      else let line = trim_right (\<lambda>c. c = CHR 0x0D) (sl_text l) in
        if line = '''' then scan_loop startLine run n ls
        else (if sl_tick l then [ScanSaved (n + 1) False] else []) @
             (if n + 1 \<le> startLine then [] else map ScanSubmitted (line_jobs (sl_config l) '''' 0 run line)) @
             scan_loop startLine run (n + 1) ls)"

text \<open>A file that cannot be opened and an error of the scanner give a message.\<close>

definition StartWordlistScanner :: "int \<Rightarrow> int \<Rightarrow> (scan_line list \<times> goerror option) result \<Rightarrow> scan_event list \<times> string option" where
  "StartWordlistScanner startLine run file =
     (case file of
        Inl e \<Rightarrow> ([], Some (''Error opening wordlist: '' @ e))
      | Inr (ls, err) \<Rightarrow>
          (scan_loop startLine run 0 ls,
           if list_ex sl_cancelled ls then None else map_option (\<lambda>e. ''Wordlist scan error: '' @ e) err))"

primrec submitted_job :: "scan_event \<Rightarrow> job option" where
  "submitted_job (ScanSaved n b) = None"
| "submitted_job (ScanSubmitted j) = Some j"

definition submitted_jobs :: "scan_event list \<Rightarrow> job list" where
  "submitted_jobs es = List.map_filter submitted_job es"

lemma submitted_jobs_simps [simp]:
  "submitted_jobs [] = []" "submitted_jobs (ScanSaved n b # es) = submitted_jobs es"
  "submitted_jobs (ScanSubmitted j # es) = j # submitted_jobs es" "submitted_jobs (xs @ ys) = submitted_jobs xs @ submitted_jobs ys"
  "submitted_jobs (map ScanSubmitted js) = js"
proof -
  show "submitted_jobs (xs @ ys) = submitted_jobs xs @ submitted_jobs ys"
    by (induction xs) (simp_all add: submitted_jobs_def List.map_filter_simps split: option.split)
  show "submitted_jobs (map ScanSubmitted js) = js"
    by (induction js) (simp_all add: submitted_jobs_def List.map_filter_simps)
qed (simp_all add: submitted_jobs_def List.map_filter_simps)

definition same_lines :: "scan_config \<Rightarrow> string list \<Rightarrow> scan_line list" where
  "same_lines cfg lns = map (\<lambda>t. \<lparr>sl_cancelled = False, sl_tick = False, sl_config = cfg, sl_text = t\<rparr>) lns"

text \<open>Under one configuration, without a cancellation, the scanner submits the jobs of \<open>scan_jobs\<close>, whatever the ticker does.\<close>

lemma scan_loop_jobs:
  assumes "\<forall>l \<in> set ls. \<not> sl_cancelled l \<and> sl_config l = cfg" "0 \<le> n"
  shows "submitted_jobs (scan_loop startLine run n ls) =
    concat (map (line_jobs cfg '''' 0 run) (drop (nat (startLine - n)) (wordlist_words (map sl_text ls))))"
  using assms
proof (induction ls arbitrary: n)
  case (Cons l ls)
  let ?t = "trim_right (\<lambda>c. c = CHR 0x0D) (sl_text l)"
  show ?case
  proof (cases "?t = ''''")
    case True
    with Cons show ?thesis by (simp add: Let_def wordlist_words_def)
  next
    case False
    have d: "nat (startLine - n) = (if n + 1 \<le> startLine then Suc (nat (startLine - (n + 1))) else 0)"
      "\<not> n + 1 \<le> startLine \<Longrightarrow> nat (startLine - (n + 1)) = 0" by auto
    from False Cons show ?thesis by (auto simp: Let_def wordlist_words_def d)
  qed
qed (simp add: wordlist_words_def)

text \<open>What a scan that is cancelled has saved at the end: the number of lines it has submitted or skipped.\<close>

lemma scan_loop_cancelled:
  assumes "\<forall>l \<in> set ls. \<not> sl_cancelled l" "sl_cancelled c"
  shows "\<exists>es. scan_loop startLine run n (ls @ c # rest) = es @ [ScanSaved (n + int (length (wordlist_words (map sl_text ls)))) True] \<and>
    submitted_jobs es = submitted_jobs (scan_loop startLine run n ls)"
  using assms
proof (induction ls arbitrary: n)
  case (Cons l ls)
  let ?t = "trim_right (\<lambda>c. c = CHR 0x0D) (sl_text l)"
  show ?case
  proof (cases "?t = ''''")
    case True
    with Cons show ?thesis by (simp add: Let_def wordlist_words_def)
  next
    case False
    obtain es where es: "scan_loop startLine run (n + 1) (ls @ c # rest) = es @ [ScanSaved (n + 1 + int (length (wordlist_words (map sl_text ls)))) True]"
      "submitted_jobs es = submitted_jobs (scan_loop startLine run (n + 1) ls)" using Cons by fastforce
    let ?h = "(if sl_tick l then [ScanSaved (n + 1) False] else []) @
      (if n + 1 \<le> startLine then [] else map ScanSubmitted (line_jobs (sl_config l) '''' 0 run ?t))"
    have "scan_loop startLine run n ((l # ls) @ c # rest) = (?h @ es) @ [ScanSaved (n + int (length (wordlist_words (map sl_text (l # ls))))) True]"
      using False Cons.prems es(1) by (simp add: Let_def wordlist_words_def)
    moreover have "submitted_jobs (?h @ es) = submitted_jobs (scan_loop startLine run n (l # ls))"
      using False Cons.prems es(2) by (simp add: Let_def)
    ultimately show ?thesis by blast
  qed
qed (simp add: wordlist_words_def)

text \<open>C16: A scan that is cancelled at some line and resumed from the number it saved submits, under one configuration, the jobs of the
  whole wordlist: those of the first part before and those of the rest after, each once and in the same order.\<close>

theorem resume_exact:
  assumes "\<forall>l \<in> set ls. \<not> sl_cancelled l \<and> sl_config l = cfg" "sl_cancelled c"
  shows "\<exists>es n. scan_loop 0 run 0 (ls @ c # rest) = es @ [ScanSaved n True] \<and>
    submitted_jobs es @ submitted_jobs (scan_loop n run 0 (same_lines cfg (map sl_text ls @ lns))) =
    scan_jobs cfg 0 run (map sl_text ls @ lns)"
proof -
  let ?n = "int (length (wordlist_words (map sl_text ls)))"
  obtain es where es: "scan_loop 0 run 0 (ls @ c # rest) = es @ [ScanSaved ?n True]" "submitted_jobs es = submitted_jobs (scan_loop 0 run 0 ls)"
    using scan_loop_cancelled [of ls c 0 run 0 rest] assms by auto
  have first: "submitted_jobs es = concat (map (line_jobs cfg '''' 0 run) (wordlist_words (map sl_text ls)))"
    using scan_loop_jobs [of ls cfg 0 0 run] assms(1) es(2) by simp
  have plain: "\<forall>l \<in> set (same_lines cfg ts). \<not> sl_cancelled l \<and> sl_config l = cfg" for ts by (auto simp: same_lines_def)
  have same: "map sl_text (same_lines cfg ts) = ts" for ts by (simp add: same_lines_def comp_def)
  have "submitted_jobs (scan_loop ?n run 0 (same_lines cfg (map sl_text ls @ lns))) =
      concat (map (line_jobs cfg '''' 0 run) (drop (nat ?n) (wordlist_words (map sl_text ls @ lns))))"
    using scan_loop_jobs [OF plain, of 0 ?n run "map sl_text ls @ lns"] unfolding same by simp
  moreover have "wordlist_words (map sl_text ls @ lns) = wordlist_words (map sl_text ls) @ wordlist_words lns"
    by (simp add: wordlist_words_def)
  ultimately have "submitted_jobs es @ submitted_jobs (scan_loop ?n run 0 (same_lines cfg (map sl_text ls @ lns))) =
      scan_jobs cfg 0 run (map sl_text ls @ lns)"
    by (simp add: first scan_jobs_def)
  with es(1) show ?thesis by blast
qed

definition plain_scan :: scan_config where
  "plain_scan = \<lparr>sc_methods = [], sc_smart = False, sc_exts = [], sc_excluded = (\<lambda>p. False)\<rparr>"

definition scan_text :: "bool \<Rightarrow> bool \<Rightarrow> string \<Rightarrow> scan_line" where
  "scan_text c t s = \<lparr>sl_cancelled = c, sl_tick = t, sl_config = plain_scan, sl_text = s\<rparr>"

lemma resume_exact_witness:
  "\<exists>es n. scan_loop 0 1 0 [scan_text False True ''a'', scan_text True False ''b''] = es @ [ScanSaved n True] \<and>
     map job_path (submitted_jobs es @ submitted_jobs (scan_loop n 1 0 (same_lines plain_scan [''a'', ''b'']))) = [''a'', ''b'']"
proof -
  have m: "map job_path (scan_jobs plain_scan 0 1 [''a'', ''b'']) = [''a'', ''b'']" by code_simp
  have "\<forall>l \<in> set [scan_text False True ''a'']. \<not> sl_cancelled l \<and> sl_config l = plain_scan" "sl_cancelled (scan_text True False ''b'')"
    by (simp_all add: scan_text_def)
  from resume_exact [OF this, of 1 "[]" "[''b'']"] obtain es n where
      e: "scan_loop 0 1 0 ([scan_text False True ''a''] @ [scan_text True False ''b'']) = es @ [ScanSaved n True]"
      and j: "submitted_jobs es @ submitted_jobs (scan_loop n 1 0 (same_lines plain_scan (map sl_text [scan_text False True ''a''] @ [''b'']))) =
        scan_jobs plain_scan 0 1 (map sl_text [scan_text False True ''a''] @ [''b''])" by blast
  have t: "map sl_text [scan_text False True ''a''] @ [''b''] = [''a'', ''b'']" by (simp add: scan_text_def)
  show ?thesis using e j m unfolding t by (intro exI [of _ es] exI [of _ n]) (simp only: append.simps)
qed

text \<open>The ticker saves the number of a line before its jobs are submitted: a program that ends there loses the line.\<close>

lemma tick_loses_line:
  "scan_loop 0 1 0 [scan_text False True ''a''] = [ScanSaved 1 False, ScanSubmitted (no_job\<lparr>job_path := ''a'', job_run := 1\<rparr>)]"
  "submitted_jobs (scan_loop 1 1 0 (same_lines plain_scan [''a''])) = []"
  by code_simp+

section \<open>The resume file\<close>

text \<open>An integer as the nearest \<open>float64\<close>, which has 53 significant bits; halves go to the even one.\<close>

definition double_int :: "int \<Rightarrow> int" where
  "double_int x =
     (let k = nat (bitlen \<bar>x\<bar> - 53); q = \<bar>x\<bar> div 2 ^ k; r = \<bar>x\<bar> mod 2 ^ k;
          q' = (if k = 0 then q else if 2 * r > 2 ^ k \<or> 2 * r = 2 ^ k \<and> odd q then q + 1 else q)
      in sgn x * (q' * 2 ^ k))"

lemma double_int_exact: "\<bar>x\<bar> < 2 ^ 53 \<Longrightarrow> double_int x = x"
proof -
  assume x: "\<bar>x\<bar> < 2 ^ 53"
  have "bitlen \<bar>x\<bar> \<le> 53" using bitlen_le_iff_power [of "\<bar>x\<bar>" 53] x by simp
  then have "nat (bitlen \<bar>x\<bar> - 53) = 0" by simp
  then show ?thesis by (simp add: double_int_def Let_def sgn_mult_abs)
qed

record 'g resume_state =
  rs_wordlist :: string
  rs_line :: int
  rs_processed :: int
  rs_total :: int
  rs_target :: string
  rs_graph :: "'g option"

type_synonym files = "string \<rightharpoonup> 8 word list"

record ('g, 'f) resume_ops =
  rm_encode :: "'g resume_state \<Rightarrow> 8 word list result"
  rm_decode :: "8 word list \<Rightarrow> 'g resume_state result"
  rm_write :: "string \<Rightarrow> 8 word list \<Rightarrow> files \<Rightarrow> goerror option \<times> files"
  rm_unreadable :: "string \<Rightarrow> goerror option"
  rm_ser :: "'f \<Rightarrow> 8 word list result"
  rm_read_from :: "'f \<Rightarrow> 8 word list \<Rightarrow> 'f \<times> string option"

record ('g, 'f) resume_engine =
  re_file :: string
  re_target :: string
  re_graph :: "'g option"
  re_shards :: "'f list"
  re_processed :: int
  re_total :: int
  re_files :: files
  re_warnings :: "string list"

definition bloomResumePath :: "('g, 'f) resume_engine \<Rightarrow> string" where
  "bloomResumePath e = (if re_file e = '''' then '''' else re_file e @ ''.bloom'')"

definition saveBloomResumeState :: "('g, 'f) resume_ops \<Rightarrow> ('g, 'f) resume_engine \<Rightarrow> goerror option \<times> ('g, 'f) resume_engine" where
  "saveBloomResumeState ops e =
     (if bloomResumePath e = '''' then (None, e)
      else case marshalBinary (rm_ser ops) (re_shards e) of
        Inl err \<Rightarrow> (Some err, e)
      | Inr data \<Rightarrow> (case rm_write ops (bloomResumePath e) data (re_files e) of (err, fs) \<Rightarrow> (err, e\<lparr>re_files := fs\<rparr>)))"

definition warn :: "string \<Rightarrow> goerror option \<Rightarrow> ('g, 'f) resume_engine \<Rightarrow> ('g, 'f) resume_engine" where
  "warn what err e = (case err of None \<Rightarrow> e | Some x \<Rightarrow> e\<lparr>re_warnings := re_warnings e @ [what @ x]\<rparr>)"

definition state_of :: "('g, 'f) resume_engine \<Rightarrow> string \<Rightarrow> int \<Rightarrow> 'g resume_state" where
  "state_of e wordlist lineNum =
     \<lparr>rs_wordlist = wordlist, rs_line = lineNum, rs_processed = re_processed e, rs_total = re_total e, rs_target = re_target e,
      rs_graph = re_graph e\<rparr>"

definition saveResumeState :: "('g, 'f) resume_ops \<Rightarrow> string \<Rightarrow> int \<Rightarrow> bool \<Rightarrow> ('g, 'f) resume_engine \<Rightarrow> ('g, 'f) resume_engine" where
  "saveResumeState ops wordlist lineNum persistBloom e =
     (if re_file e = '''' then e
      else case rm_encode ops (state_of e wordlist lineNum) of
        Inl err \<Rightarrow> warn ''Warning: failed to marshal resume state: '' (Some err) e
      | Inr data \<Rightarrow>
          (case rm_write ops (re_file e) data (re_files e) of
             (err, fs) \<Rightarrow>
               let e1 = warn ''Warning: failed to write resume file: '' err (e\<lparr>re_files := fs\<rparr>) in
               if persistBloom
               then (case saveBloomResumeState ops e1 of (err', e2) \<Rightarrow> warn ''Warning: failed to write bloom resume state: '' err' e2)
               else e1))"

definition loadBloomResumeState :: "('g, 'f) resume_ops \<Rightarrow> ('g, 'f) resume_engine \<Rightarrow> goerror option \<times> ('g, 'f) resume_engine" where
  "loadBloomResumeState ops e =
     (let path = bloomResumePath e in
      if path = '''' then (None, e)
      else case rm_unreadable ops path of
        Some err \<Rightarrow> (Some err, e)
      | None \<Rightarrow>
          (case re_files e path of
             None \<Rightarrow> (None, e)
           | Some data \<Rightarrow> (case unmarshalBinary (rm_read_from ops) (re_shards e) data of (sbf, err) \<Rightarrow> (err, e\<lparr>re_shards := sbf\<rparr>))))"

definition LoadResumeState :: "('g, 'f) resume_ops \<Rightarrow> string \<Rightarrow> ('g, 'f) resume_engine \<Rightarrow> (string \<times> int) result \<times> ('g, 'f) resume_engine" where
  "LoadResumeState ops path e0 =
     (let e = (if re_file e0 = '''' then e0\<lparr>re_file := path\<rparr> else e0) in
      case rm_unreadable ops path of
        Some err \<Rightarrow> (Inl err, e)
      | None \<Rightarrow>
          (case re_files e path of
             None \<Rightarrow> (Inl ''no such file or directory'', e)
           | Some data \<Rightarrow>
               (case rm_decode ops data of
                  Inl err \<Rightarrow> (Inl err, e)
                | Inr st \<Rightarrow>
                    let e1 = (if rs_graph st \<noteq> None then e\<lparr>re_graph := rs_graph st\<rparr> else e) in
                    (case loadBloomResumeState ops e1 of
                       (Some err, e2) \<Rightarrow> (Inl (''loading bloom resume state: '' @ err), e2)
                     | (None, e2) \<Rightarrow> (Inr (rs_wordlist st, rs_line st), e2)))))"

text \<open>What the theorem needs of the codec and the file system: a state is decoded as it was encoded, with its numbers as \<open>float64\<close>, and
  a write that succeeds leaves the data in its file and the other files as they are.\<close>

definition codec_laws :: "('g, 'f) resume_ops \<Rightarrow> bool" where
  "codec_laws ops \<longleftrightarrow> (\<forall>st data. rm_encode ops st = Inr data \<longrightarrow> rm_decode ops data =
     Inr (st\<lparr>rs_line := double_int (rs_line st), rs_processed := double_int (rs_processed st), rs_total := double_int (rs_total st)\<rparr>))"

definition disk_laws :: "('g, 'f) resume_ops \<Rightarrow> bool" where
  "disk_laws ops \<longleftrightarrow> (\<forall>p d fs. rm_write ops p d fs = (None, fs(p \<mapsto> d))) \<and> (\<forall>p. rm_unreadable ops p = None)"


text \<open>A scan of two shards that has saved its third line; the codec knows this state.\<close>

definition small_scan :: "(nat, 8 word list) resume_engine" where
  "small_scan = \<lparr>re_file = ''r'', re_target = ''http://h'', re_graph = Some 7, re_shards = [[1, 2], [3]], re_processed = 2, re_total = 3,
     re_files = Map.empty, re_warnings = []\<rparr>"

definition small_codec :: "(nat, 8 word list) resume_ops" where
  "small_codec = \<lparr>rm_encode = (\<lambda>st. if st = state_of small_scan ''w'' 3 then Inr [9] else Inl ''unknown''),
     rm_decode = (\<lambda>d. Inr (state_of small_scan ''w'' 3)), rm_write = (\<lambda>p d fs. (None, fs(p \<mapsto> d))), rm_unreadable = (\<lambda>p. None),
     rm_ser = (\<lambda>f. Inr f), rm_read_from = (\<lambda>f bs. (bs, None))\<rparr>"

definition small_fresh :: "(nat, 8 word list) resume_engine" where
  "small_fresh = small_scan\<lparr>re_file := '''', re_graph := None, re_shards := [[], []], re_processed := 0, re_total := 0,
     re_files := re_files (saveResumeState small_codec ''w'' 3 True small_scan)\<rparr>"


text \<open>An engine with a resume file of its own reads the state from the file it is given and the filter from beside its own.\<close>

lemma other_filter_loaded:
  "re_shards (snd (LoadResumeState small_codec ''r'' (small_fresh\<lparr>re_file := ''own''\<rparr>))) = [[], []]"
  "fst (LoadResumeState small_codec ''r'' (small_fresh\<lparr>re_file := ''own''\<rparr>)) = Inr (''w'', 3)"
  by code_simp+

text \<open>When the filter cannot be loaded there is an error, but the graph of the file has replaced that of the engine.\<close>

lemma failed_load_keeps_graph:
  "fst (LoadResumeState small_codec ''r'' (small_fresh\<lparr>re_shards := []\<rparr>)) =
     Inl ''loading bloom resume state: bloom shard mismatch: file=2 engine=0''"
  "re_graph (snd (LoadResumeState small_codec ''r'' (small_fresh\<lparr>re_shards := []\<rparr>))) = Some 7"
  by code_simp+

text \<open>The counters are read and not restored.\<close>

lemma counters_not_restored:
  "re_processed (snd (LoadResumeState small_codec ''r'' small_fresh)) = 0" "re_total (snd (LoadResumeState small_codec ''r'' small_fresh)) = 0"
  by code_simp+

end
