(* ===== verification/Config.thy ===== *)
theory Config
  imports WorkerRequest WorkerPool Simhash
begin

text \<open>
  The configuration of the engine, \<open>pkg/engine/engine_config.go\<close> and \<open>path_denylist.go\<close>: its setters, the snapshot that the workers
  read, the timer that builds it, and the excluded paths. Fields that the snapshot copies as they are form four records; the compiler
  of regular expressions is a parameter. The builds of the snapshot by several goroutines are a step relation.
\<close>

section \<open>The configuration\<close>

record request_settings =
  rq_max_workers :: int
  rq_paused :: bool
  rq_follow :: bool
  rq_max_redirects :: int
  rq_body :: string
  rq_proxy_out :: string
  rq_timeout :: duration
  rq_save_raw :: bool
  rq_antibot :: bool
  rq_h2 :: bool
  rq_streams :: int

record match_settings =
  ms_filter_words :: int
  ms_filter_lines :: int
  ms_match_words :: int
  ms_match_lines :: int
  ms_rt_min :: duration
  ms_rt_max :: duration
  ms_auto_filter :: int
  ms_simhash_threshold :: int
  ms_simhash_limit :: int

record scan_settings =
  ss_smart_api :: bool
  ss_mutate :: bool
  ss_recursive :: bool
  ss_prune :: bool
  ss_max_depth :: int
  ss_wordlist :: string
  ss_waf :: bool
  ss_verb :: bool
  ss_bypass :: bool
  ss_spider :: bool
  ss_evasion_limit :: int
  ss_oracle :: bool
  ss_oracle_k :: real
  ss_oracle_n :: int
  ss_trim :: bool

record harvest_settings =
  hv_all :: bool
  hv_js :: bool
  hv_api :: bool
  hv_response :: bool
  hv_passive :: bool
  hv_source_maps :: bool
  hv_depth :: int
  hv_fetch :: int
  hv_key :: string

record config =
  cf_request :: request_settings
  cf_match :: match_settings
  cf_scan :: scan_settings
  cf_harvest :: harvest_settings
  cf_head :: header_config
  cf_codes :: "(int, bool) gomap"
  cf_sizes :: "(int, bool) gomap"
  cf_ranges :: "(int \<times> int) list"
  cf_match_types :: "string list"
  cf_filter_types :: "string list"
  cf_match_regex :: string
  cf_filter_regex :: string
  cf_exclude :: "string list"
  cf_exts :: "string list"
  cf_methods :: "string list"
  cf_auth :: "(string, string list) gomap"
  cf_params :: "string list"
  cf_delay :: duration
  cf_insecure :: bool
  cf_private :: bool
  cf_retries :: int

text \<open>The snapshot; its maps and lists are copies.\<close>

record 're config_snapshot =
  sn_request :: request_settings
  sn_match :: match_settings
  sn_scan :: scan_settings
  sn_harvest :: harvest_settings
  sn_ua :: string
  sn_headers :: "(string \<times> string) list"
  sn_template :: string
  sn_codes :: "(int \<times> bool) list"
  sn_sizes :: "(int \<times> bool) list"
  sn_ranges :: "(int \<times> int) list"
  sn_match_types :: "string list"
  sn_filter_types :: "string list"
  sn_excluded :: "'re list"
  sn_exts :: "string list"
  sn_methods :: "string list"
  sn_auth :: "(string \<times> string list) list"
  sn_params :: "string list"

text \<open>The patterns that compile; a blank one and one that does not compile are dropped.\<close>

definition compile_excluded :: "(string \<Rightarrow> 're option) \<Rightarrow> string list \<Rightarrow> 're list" where
  "compile_excluded compile ps = List.map_filter compile (filter (\<lambda>p. p \<noteq> '''') (map trim_space ps))"

definition take_snapshot :: "(string \<Rightarrow> 're option) \<Rightarrow> config \<Rightarrow> 're config_snapshot" where
  "take_snapshot compile c =
     (case snapshot_headers (cf_head c) of (ua, hs) \<Rightarrow>
       \<lparr>sn_request = cf_request c, sn_match = cf_match c, sn_scan = cf_scan c, sn_harvest = cf_harvest c,
        sn_ua = ua, sn_headers = hs, sn_template = headers_template hs,
        sn_codes = gm_items (cf_codes c), sn_sizes = gm_items (cf_sizes c), sn_ranges = cf_ranges c,
        sn_match_types = map to_lower (cf_match_types c), sn_filter_types = map to_lower (cf_filter_types c),
        sn_excluded = compile_excluded compile (cf_exclude c), sn_exts = cf_exts c, sn_methods = cf_methods c,
        sn_auth = gm_items (cf_auth c), sn_params = cf_params c\<rparr>)"

section \<open>The engine\<close>

record 're config_engine =
  ce_config :: config
  ce_snap :: "'re config_snapshot option"
  ce_pending :: bool
  ce_match :: "'re option"
  ce_filter :: "'re option"
  ce_tracker :: simhash_tracker
  ce_limits :: limits

definition buildAndStoreConfigSnapshot :: "(string \<Rightarrow> 're option) \<Rightarrow> 're config_engine \<Rightarrow> 're config_engine" where
  "buildAndStoreConfigSnapshot compile e =
     (let s = take_snapshot compile (ce_config e) in
      e\<lparr>ce_tracker := configure (ce_tracker e) (ms_simhash_threshold (sn_match s)) (ms_simhash_limit (sn_match s)), ce_snap := Some s\<rparr>)"

text \<open>Under a test the snapshot is built at once, otherwise a timer is set, which replaces the one before.\<close>

definition scheduleBuildSnapshot :: "bool \<Rightarrow> (string \<Rightarrow> 're option) \<Rightarrow> 're config_engine \<Rightarrow> 're config_engine" where
  "scheduleBuildSnapshot testing compile e = (if testing then buildAndStoreConfigSnapshot compile e else e\<lparr>ce_pending := True\<rparr>)"

definition timer_fires :: "(string \<Rightarrow> 're option) \<Rightarrow> 're config_engine \<Rightarrow> 're config_engine" where
  "timer_fires compile e = (if ce_pending e then buildAndStoreConfigSnapshot compile (e\<lparr>ce_pending := False\<rparr>) else e)"

definition UpdateConfig :: "(string \<Rightarrow> 're option) \<Rightarrow> (config \<Rightarrow> config) \<Rightarrow> 're config_engine \<Rightarrow> 're config_engine" where
  "UpdateConfig compile f e = buildAndStoreConfigSnapshot compile (e\<lparr>ce_config := f (ce_config e)\<rparr>)"

definition edit_config :: "bool \<Rightarrow> (string \<Rightarrow> 're option) \<Rightarrow> (config \<Rightarrow> config) \<Rightarrow> 're config_engine \<Rightarrow> 're config_engine" where
  "edit_config testing compile f e = scheduleBuildSnapshot testing compile (e\<lparr>ce_config := f (ce_config e)\<rparr>)"

section \<open>The setters\<close>

text \<open>A write into a nil map panics: there is no result.\<close>

definition put_all :: "('k, bool) gomap \<Rightarrow> 'k list \<Rightarrow> ('k, bool) gomap option" where
  "put_all m ks = foldl (\<lambda>r k. Option.bind r (\<lambda>m. gm_put m k True)) (Some m) ks"

definition ConfigureFilters :: "bool \<Rightarrow> (string \<Rightarrow> 're option) \<Rightarrow> int list \<Rightarrow> int list \<Rightarrow> 're config_engine \<Rightarrow> 're config_engine option" where
  "ConfigureFilters testing compile mc fs e =
     (case (put_all (cf_codes (ce_config e)) mc, put_all (cf_sizes (ce_config e)) fs) of
        (Some codes, Some sizes) \<Rightarrow> Some (edit_config testing compile (\<lambda>c. c\<lparr>cf_codes := codes, cf_sizes := sizes\<rparr>) e)
      | _ \<Rightarrow> None)"

definition SetMatchRegex :: "bool \<Rightarrow> (string \<Rightarrow> 're option) \<Rightarrow> string \<Rightarrow> 're config_engine \<Rightarrow> 're config_engine result" where
  "SetMatchRegex testing compile pattern e =
     (if pattern = '''' then Inr (edit_config testing compile (\<lambda>c. c\<lparr>cf_match_regex := ''''\<rparr>) (e\<lparr>ce_match := None\<rparr>))
      else case compile pattern of
        None \<Rightarrow> Inl ''error parsing regexp''
      | Some re \<Rightarrow> Inr (edit_config testing compile (\<lambda>c. c\<lparr>cf_match_regex := pattern\<rparr>) (e\<lparr>ce_match := Some re\<rparr>)))"

definition SetFilterRegex :: "bool \<Rightarrow> (string \<Rightarrow> 're option) \<Rightarrow> string \<Rightarrow> 're config_engine \<Rightarrow> 're config_engine result" where
  "SetFilterRegex testing compile pattern e =
     (if pattern = '''' then Inr (edit_config testing compile (\<lambda>c. c\<lparr>cf_filter_regex := ''''\<rparr>) (e\<lparr>ce_filter := None\<rparr>))
      else case compile pattern of
        None \<Rightarrow> Inl ''error parsing regexp''
      | Some re \<Rightarrow> Inr (edit_config testing compile (\<lambda>c. c\<lparr>cf_filter_regex := pattern\<rparr>) (e\<lparr>ce_filter := Some re\<rparr>)))"

definition SetDelay :: "bool \<Rightarrow> (string \<Rightarrow> 're option) \<Rightarrow> duration \<Rightarrow> 're config_engine \<Rightarrow> 're config_engine" where
  "SetDelay testing compile d e =
     (let e1 = edit_config testing compile (\<lambda>c. c\<lparr>cf_delay := d\<rparr>) e
      in e1\<lparr>ce_limits := UpdateRateLimiterFromDelay (cf_delay (ce_config e1)) (rq_max_workers (cf_request (ce_config e1))) (ce_limits e1)\<rparr>)"

definition AddExtension :: "bool \<Rightarrow> (string \<Rightarrow> 're option) \<Rightarrow> string \<Rightarrow> 're config_engine \<Rightarrow> 're config_engine" where
  "AddExtension testing compile ext e =
     (if ext \<in> set (cf_exts (ce_config e)) then e
      else edit_config testing compile (\<lambda>c. c\<lparr>cf_exts := cf_exts c @ [ext]\<rparr>) e)"

definition RemoveExtension :: "bool \<Rightarrow> (string \<Rightarrow> 're option) \<Rightarrow> string \<Rightarrow> 're config_engine \<Rightarrow> 're config_engine" where
  "RemoveExtension testing compile ext = edit_config testing compile (\<lambda>c. c\<lparr>cf_exts := filter (\<lambda>x. x \<noteq> ext) (cf_exts c)\<rparr>)"

definition AddFilterSize :: "bool \<Rightarrow> (string \<Rightarrow> 're option) \<Rightarrow> int \<Rightarrow> 're config_engine \<Rightarrow> 're config_engine option" where
  "AddFilterSize testing compile n e =
     map_option (\<lambda>m. edit_config testing compile (\<lambda>c. c\<lparr>cf_sizes := m\<rparr>) e) (gm_put (cf_sizes (ce_config e)) n True)"

definition RemoveFilterSize :: "bool \<Rightarrow> (string \<Rightarrow> 're option) \<Rightarrow> int \<Rightarrow> 're config_engine \<Rightarrow> 're config_engine" where
  "RemoveFilterSize testing compile n = edit_config testing compile (\<lambda>c. c\<lparr>cf_sizes := gm_delete (cf_sizes c) n\<rparr>)"

definition AddMatchCode :: "bool \<Rightarrow> (string \<Rightarrow> 're option) \<Rightarrow> int \<Rightarrow> 're config_engine \<Rightarrow> 're config_engine option" where
  "AddMatchCode testing compile n e =
     map_option (\<lambda>m. edit_config testing compile (\<lambda>c. c\<lparr>cf_codes := m\<rparr>) e) (gm_put (cf_codes (ce_config e)) n True)"

definition RemoveMatchCode :: "bool \<Rightarrow> (string \<Rightarrow> 're option) \<Rightarrow> int \<Rightarrow> 're config_engine \<Rightarrow> 're config_engine" where
  "RemoveMatchCode testing compile n = edit_config testing compile (\<lambda>c. c\<lparr>cf_codes := gm_delete (cf_codes c) n\<rparr>)"

definition SetMutation :: "bool \<Rightarrow> (string \<Rightarrow> 're option) \<Rightarrow> bool \<Rightarrow> 're config_engine \<Rightarrow> 're config_engine" where
  "SetMutation testing compile b = edit_config testing compile (\<lambda>c. c\<lparr>cf_scan := (cf_scan c)\<lparr>ss_mutate := b\<rparr>\<rparr>)"

definition SetPaused :: "bool \<Rightarrow> (string \<Rightarrow> 're option) \<Rightarrow> bool \<Rightarrow> 're config_engine \<Rightarrow> 're config_engine" where
  "SetPaused testing compile b = edit_config testing compile (\<lambda>c. c\<lparr>cf_request := (cf_request c)\<lparr>rq_paused := b\<rparr>\<rparr>)"

definition SetFollowRedirects :: "bool \<Rightarrow> (string \<Rightarrow> 're option) \<Rightarrow> bool \<Rightarrow> 're config_engine \<Rightarrow> 're config_engine" where
  "SetFollowRedirects testing compile b = edit_config testing compile (\<lambda>c. c\<lparr>cf_request := (cf_request c)\<lparr>rq_follow := b\<rparr>\<rparr>)"

text \<open>The headers: those of \<open>WorkerRequest\<close>, which change nothing for a header that is refused.\<close>

definition SetUserAgent :: "bool \<Rightarrow> (string \<Rightarrow> 're option) \<Rightarrow> string \<Rightarrow> 're config_engine \<Rightarrow> 're config_engine" where
  "SetUserAgent testing compile ua = edit_config testing compile (\<lambda>c. c\<lparr>cf_head := UpdateUserAgent ua (cf_head c)\<rparr>)"

definition AddConfigHeader :: "bool \<Rightarrow> (string \<Rightarrow> 're option) \<Rightarrow> string \<Rightarrow> string \<Rightarrow> 're config_engine \<Rightarrow> 're config_engine" where
  "AddConfigHeader testing compile k v e =
     (let key = sanitizeHeaderToken (trim_space k) in
      if key = '''' \<or> isGeneratedRequestHeader key then e
      else edit_config testing compile (\<lambda>c. c\<lparr>cf_head := AddHeader k v (cf_head c)\<rparr>) e)"

text \<open>What \<open>ConfigSnapshot\<close> gives: agent, sizes, headers, delay, extensions and whether redirects are followed.\<close>

definition ConfigSnapshot :: "'re config_engine \<Rightarrow> string \<times> int list \<times> (string \<times> string) list \<times> duration \<times> string list \<times> bool" where
  "ConfigSnapshot e =
     (let c = ce_config e in (hc_ua (cf_head c), gm_keys (cf_sizes c), hc_headers (cf_head c), cf_delay c, cf_exts c, rq_follow (cf_request c)))"

section \<open>Excluded paths\<close>

definition canonicalExcludedPath :: "net_ops \<Rightarrow> string \<Rightarrow> string" where
  "canonicalExcludedPath ops raw0 =
     (let raw = trim_space raw0 in
      if raw = '''' then ''''
      else case url_parse raw of
        None \<Rightarrow> raw
      | Some u \<Rightarrow>
          let p1 = no_escaped ops u;
              p2 = (if p1 = '''' then u_path u else p1);
              p3 = (if p2 = '''' then raw else p2)
          in if u_query u \<noteq> '''' then p3 @ ''?'' @ u_query u else p3)"

definition pathExcludedByRegexps :: "net_ops \<Rightarrow> ('re \<Rightarrow> string \<Rightarrow> bool) \<Rightarrow> string \<Rightarrow> 're list \<Rightarrow> bool" where
  "pathExcludedByRegexps ops matches raw res \<longleftrightarrow> list_ex (\<lambda>re. matches re (canonicalExcludedPath ops raw)) res"

text \<open>Whether a path is excluded, and the engine, which builds its snapshot when there is none.\<close>

definition shouldExcludePath :: "net_ops \<Rightarrow> (string \<Rightarrow> 're option) \<Rightarrow> ('re \<Rightarrow> string \<Rightarrow> bool) \<Rightarrow> string \<Rightarrow> 're config_engine
    \<Rightarrow> bool \<times> 're config_engine" where
  "shouldExcludePath ops compile matches raw e =
     (let e1 = (if ce_snap e = None then buildAndStoreConfigSnapshot compile e else e) in
      case ce_snap e1 of
        None \<Rightarrow> (False, e1)
      | Some s \<Rightarrow> (pathExcludedByRegexps ops matches raw (sn_excluded s), e1))"

section \<open>A new engine\<close>

definition new_config :: "int \<Rightarrow> config" where
  "new_config numWorkers = \<lparr>
     cf_request = \<lparr>rq_max_workers = numWorkers, rq_paused = False, rq_follow = False, rq_max_redirects = 5, rq_body = '''', rq_proxy_out = '''',
       rq_timeout = 5 * second, rq_save_raw = False, rq_antibot = False, rq_h2 = False, rq_streams = 100\<rparr>,
     cf_match = \<lparr>ms_filter_words = - 1, ms_filter_lines = - 1, ms_match_words = - 1, ms_match_lines = - 1, ms_rt_min = 0, ms_rt_max = 0,
       ms_auto_filter = 15, ms_simhash_threshold = 3, ms_simhash_limit = 5\<rparr>,
     cf_scan = \<lparr>ss_smart_api = False, ss_mutate = False, ss_recursive = False, ss_prune = True, ss_max_depth = 0, ss_wordlist = '''',
       ss_waf = False, ss_verb = False, ss_bypass = False, ss_spider = False, ss_evasion_limit = 4, ss_oracle = False, ss_oracle_k = 5 / 2,
       ss_oracle_n = 5, ss_trim = False\<rparr>,
     cf_harvest = \<lparr>hv_all = False, hv_js = False, hv_api = False, hv_response = False, hv_passive = False, hv_source_maps = False,
       hv_depth = 0, hv_fetch = 0, hv_key = ''''\<rparr>,
     cf_head = \<lparr>hc_ua = ''DirFuzz/2.0'', hc_headers = []\<rparr>, cf_codes = gm_make, cf_sizes = gm_make, cf_ranges = [], cf_match_types = [],
     cf_filter_types = [], cf_match_regex = '''', cf_filter_regex = '''', cf_exclude = [], cf_exts = [], cf_methods = [], cf_auth = None,
     cf_params = [], cf_delay = 0, cf_insecure = False, cf_private = False, cf_retries = 0\<rparr>"

definition NewEngine :: "(string \<Rightarrow> 're option) \<Rightarrow> int \<Rightarrow> 're config_engine" where
  "NewEngine compile numWorkers = buildAndStoreConfigSnapshot compile
     \<lparr>ce_config = new_config numWorkers, ce_snap = None, ce_pending = False, ce_match = None, ce_filter = None,
      ce_tracker = newSimhashTracker 3 5, ce_limits = new_limits (if numWorkers < MinRateLimitBurst then MinRateLimitBurst else numWorkers)\<rparr>"

text \<open>The slots for tasks on source maps, and the workers of the parameter search.\<close>

definition source_map_slots :: "int \<Rightarrow> int" where
  "source_map_slots numWorkers = (if numWorkers < 1 then 1 else numWorkers)"

definition param_workers :: "int \<Rightarrow> int" where
  "param_workers numWorkers = (let n = sgn numWorkers * (\<bar>numWorkers\<bar> div 4) in if n < 1 then 1 else n)"

text \<open>What other parts read of the snapshot and of the configuration.\<close>

record runtime_snapshot =
  rt_timeout :: duration
  rt_body :: string
  rt_filter_words :: int
  rt_save_raw :: bool
  rt_proxy_out :: string
  rt_methods :: "string list"

definition RuntimeSnapshot :: "(string \<Rightarrow> 're option) \<Rightarrow> 're config_engine \<Rightarrow> runtime_snapshot \<times> 're config_engine" where
  "RuntimeSnapshot compile e =
     (let e1 = (if ce_snap e = None then buildAndStoreConfigSnapshot compile e else e);
          s = (case ce_snap e1 of Some s \<Rightarrow> s | None \<Rightarrow> take_snapshot compile (ce_config e1))
      in (\<lparr>rt_timeout = rq_timeout (sn_request s), rt_body = rq_body (sn_request s), rt_filter_words = ms_filter_words (sn_match s),
           rt_save_raw = rq_save_raw (sn_request s), rt_proxy_out = rq_proxy_out (sn_request s), rt_methods = sn_methods s\<rparr>, e1))"

definition DumpMeta :: "string \<Rightarrow> string \<Rightarrow> config \<Rightarrow> string \<times> string \<times> string \<times> bool" where
  "DumpMeta base outputFile c = (base, ss_wordlist (cf_scan c), outputFile, ss_smart_api (cf_scan c))"

section \<open>Builds of the snapshot side by side\<close>

text \<open>A setter edits the configuration and sets the timer; \<open>UpdateConfig\<close> edits it and builds at once. A build is started, reads the
  configuration under its lock, and stores the snapshot later. \<open>serial\<close> says that a build waits for the one before.\<close>

record 're build_state =
  bs_config :: config
  bs_snap :: "'re config_snapshot option"
  bs_pending :: bool
  bs_started :: nat
  bs_read :: "'re config_snapshot list"

inductive build_step :: "bool \<Rightarrow> (string \<Rightarrow> 're option) \<Rightarrow> 're build_state \<Rightarrow> 're build_state \<Rightarrow> bool" for serial compile where
  edit: "build_step serial compile b (b\<lparr>bs_config := f (bs_config b), bs_pending := True\<rparr>)"
| update: "build_step serial compile b (b\<lparr>bs_config := f (bs_config b), bs_started := bs_started b + 1\<rparr>)"
| fire: "bs_pending b \<Longrightarrow> build_step serial compile b (b\<lparr>bs_pending := False, bs_started := bs_started b + 1\<rparr>)"
| read: "0 < bs_started b \<Longrightarrow> \<not> serial \<or> bs_read b = [] \<Longrightarrow>
    build_step serial compile b (b\<lparr>bs_started := bs_started b - 1, bs_read := bs_read b @ [take_snapshot compile (bs_config b)]\<rparr>)"
| store: "bs_read b = xs @ s # ys \<Longrightarrow> build_step serial compile b (b\<lparr>bs_snap := Some s, bs_read := xs @ ys\<rparr>)"

inductive_cases build_stepE: "build_step serial compile b b'"

definition first_build :: "(string \<Rightarrow> 're option) \<Rightarrow> config \<Rightarrow> 're build_state" where
  "first_build compile c = \<lparr>bs_config = c, bs_snap = Some (take_snapshot compile c), bs_pending = False, bs_started = 0, bs_read = []\<rparr>"

text \<open>No timer is set and no build is under way.\<close>

definition settled :: "'re build_state \<Rightarrow> bool" where
  "settled b \<longleftrightarrow> \<not> bs_pending b \<and> bs_started b = 0 \<and> bs_read b = []"

definition current_or_coming :: "(string \<Rightarrow> 're option) \<Rightarrow> 're build_state \<Rightarrow> bool" where
  "current_or_coming compile b \<longleftrightarrow> length (bs_read b) \<le> 1 \<and>
     (bs_pending b \<or> 0 < bs_started b \<or> bs_read b = [take_snapshot compile (bs_config b)] \<or>
      bs_read b = [] \<and> bs_snap b = Some (take_snapshot compile (bs_config b)))"

lemma build_step_coming: "build_step True compile b b' \<Longrightarrow> current_or_coming compile b \<Longrightarrow> current_or_coming compile b'"
proof (erule build_stepE)
  fix xs s ys
  assume c: "current_or_coming compile b" and b': "b' = b\<lparr>bs_snap := Some s, bs_read := xs @ ys\<rparr>" and r: "bs_read b = xs @ s # ys"
  from c r have "xs = [] \<and> ys = []" by (simp add: current_or_coming_def)
  with c r show "current_or_coming compile b'" by (auto simp: current_or_coming_def b')
qed (auto simp: current_or_coming_def)

lemma build_reach_coming: "(build_step True compile)\<^sup>*\<^sup>* (first_build compile c) b \<Longrightarrow> current_or_coming compile b"
proof (induction rule: rtranclp_induct)
  case base
  then show ?case by (simp add: first_build_def current_or_coming_def)
next
  case (step y z)
  then show ?case by (blast intro: build_step_coming)
qed


definition small_config :: config where "small_config = new_config 1"

definition pause :: "config \<Rightarrow> config" where "pause c = c\<lparr>cf_request := (cf_request c)\<lparr>rq_paused := True\<rparr>\<rparr>"

definition no_regex :: "string \<Rightarrow> string option" where "no_regex p = Some p"


text \<open>The code does not serialise its builds. A build that has read the configuration can store its snapshot after one that read a later
  configuration: the workers keep the old one, with no build to come.\<close>

lemma snapshot_race:
  "\<exists>b. (build_step False no_regex)\<^sup>*\<^sup>* (first_build no_regex small_config) b \<and> settled b \<and> rq_paused (cf_request (bs_config b)) \<and>
     map_option (\<lambda>s. rq_paused (sn_request s)) (bs_snap b) = Some False"
proof -
  let ?b0 = "first_build no_regex small_config"
  let ?old = "take_snapshot no_regex small_config" and ?new = "take_snapshot no_regex (pause small_config)"
  let ?b1 = "?b0\<lparr>bs_started := 1\<rparr>"
  let ?b2 = "?b1\<lparr>bs_started := 0, bs_read := [?old]\<rparr>"
  let ?b3 = "?b2\<lparr>bs_config := pause small_config, bs_started := 1\<rparr>"
  let ?b4 = "?b3\<lparr>bs_started := 0, bs_read := [?old, ?new]\<rparr>"
  let ?b5 = "?b4\<lparr>bs_snap := Some ?new, bs_read := [?old]\<rparr>"
  let ?b6 = "?b5\<lparr>bs_snap := Some ?old, bs_read := []\<rparr>"
  have "build_step False no_regex ?b0 ?b1" using build_step.update [of False no_regex ?b0 "\<lambda>c. c"] by (simp add: first_build_def)
  moreover have "build_step False no_regex ?b1 ?b2" using build_step.read [of ?b1 False no_regex] by (simp add: first_build_def)
  moreover have "build_step False no_regex ?b2 ?b3" using build_step.update [of False no_regex ?b2 pause] by (simp add: first_build_def)
  moreover have "build_step False no_regex ?b3 ?b4" using build_step.read [of ?b3 False no_regex] by (simp add: first_build_def)
  moreover have "build_step False no_regex ?b4 ?b5" using build_step.store [of ?b4 "[?old]" ?new "[]" False no_regex] by simp
  moreover have "build_step False no_regex ?b5 ?b6" using build_step.store [of ?b5 "[]" ?old "[]" False no_regex] by simp
  ultimately have "(build_step False no_regex)\<^sup>*\<^sup>* ?b0 ?b6" by (meson converse_rtranclp_into_rtranclp rtranclp.rtrancl_refl)
  moreover have "rq_paused (sn_request ?old) = False" by (simp add: take_snapshot_def small_config_def new_config_def split: prod.split)
  ultimately show ?thesis
    by (intro exI [of _ ?b6]) (simp add: settled_def first_build_def pause_def)
qed

text \<open>An address without a path has its query taken twice.\<close>

lemma query_taken_twice: "no_escaped ops = u_path \<Longrightarrow> canonicalExcludedPath ops ''?a'' = ''?a?a''"
proof -
  assume "no_escaped ops = u_path"
  moreover have "url_parse ''?a'' = Some (no_url\<lparr>u_query := ''a''\<rparr>)" "trim_space ''?a'' = ''?a''" by code_simp+
  ultimately show ?thesis by (simp add: canonicalExcludedPath_def no_url_def)
qed

end
