(* ===== verification/SwarmWorker.thy ===== *)
theory SwarmWorker
  imports Config Swarm Request
begin

text \<open>
  A worker of a swarm, \<open>RunSwarmWorker\<close> and \<open>applySwarmConfig\<close> in \<open>pkg/engine/distribute.go\<close>: how the configuration that the
  controller sends reaches the engine, and what is made of the results. The scan itself, the files of proxies and of a previous
  scan, and the HTTP/2 client are parameters.
\<close>

section \<open>The configuration that is sent\<close>

text \<open>The fields that are copied as they are come in the records of Config. Of \<open>sw_request\<close> the state of the pause, of \<open>sw_scan\<close> the
  wordlist, the evasion, the pruning and the spider, and of \<open>sw_harvest\<close> the passive sources are not sent.\<close>

record swarm_config =
  sw_ua :: string
  sw_headers :: "(string \<times> string) list"
  sw_auth :: "(string \<times> string list) list"
  sw_codes :: "int list"
  sw_sizes :: "int list"
  sw_match_regex :: string
  sw_filter_regex :: string
  sw_exclude :: "string list"
  sw_exts :: "string list"
  sw_methods :: "string list"
  sw_request :: request_settings
  sw_match :: match_settings
  sw_scan :: scan_settings
  sw_harvest :: harvest_settings
  sw_prune :: "bool option"
  sw_insecure :: bool
  sw_private :: bool
  sw_delay :: duration
  sw_rps :: int
  sw_retries :: int
  sw_params :: "string list"
  sw_proxy_file :: string
  sw_eagle_file :: string

definition sent_limits :: "swarm_config \<Rightarrow> swarm_limits" where
  "sent_limits c =
     \<lparr>sc_threads = rq_max_workers (sw_request c), sc_max_redirects = rq_max_redirects (sw_request c), sc_streams = rq_streams (sw_request c),
      sc_auto_filter = ms_auto_filter (sw_match c), sc_simhash_threshold = ms_simhash_threshold (sw_match c),
      sc_cluster_limit = ms_simhash_limit (sw_match c), sc_evasion_limit = ss_evasion_limit (sw_scan c), sc_oracle_k = ss_oracle_k (sw_scan c),
      sc_oracle_n = ss_oracle_n (sw_scan c), sc_timeout = rq_timeout (sw_request c)\<rparr>"

definition normalize_config :: "swarm_config \<Rightarrow> swarm_config" where
  "normalize_config c =
     (let l = swarm_normalize (sent_limits c) in
      c\<lparr>sw_request := (sw_request c)\<lparr>rq_max_workers := sc_threads l, rq_max_redirects := sc_max_redirects l, rq_streams := sc_streams l, rq_timeout := sc_timeout l\<rparr>,
        sw_match := (sw_match c)\<lparr>ms_auto_filter := sc_auto_filter l, ms_simhash_threshold := sc_simhash_threshold l, ms_simhash_limit := sc_cluster_limit l\<rparr>,
        sw_scan := (sw_scan c)\<lparr>ss_evasion_limit := sc_evasion_limit l, ss_oracle_k := sc_oracle_k l, ss_oracle_n := sc_oracle_n l\<rparr>\<rparr>)"

definition copyAuthMatrix :: "(string \<times> string list) list \<Rightarrow> (string, string list) gomap" where
  "copyAuthMatrix m = (if m = [] then None else Some m)"

text \<open>The edit of the configuration under its lock.\<close>

definition swarm_settings :: "swarm_config \<Rightarrow> config \<Rightarrow> config" where
  "swarm_settings w c =
     c\<lparr>cf_request := (sw_request w)\<lparr>rq_paused := rq_paused (cf_request c)\<rparr>,
       cf_match := sw_match w,
       cf_scan := (sw_scan w)\<lparr>ss_prune := (case sw_prune w of None \<Rightarrow> True | Some b \<Rightarrow> b), ss_wordlist := ss_wordlist (cf_scan c),
          ss_waf := ss_waf (cf_scan c), ss_spider := ss_spider (cf_scan c)\<rparr>,
       cf_harvest := (sw_harvest w)\<lparr>hv_passive := hv_passive (cf_harvest c), hv_key := hv_key (cf_harvest c)\<rparr>,
       cf_exclude := sw_exclude w, cf_params := sw_params w, cf_insecure := sw_insecure w, cf_private := sw_private w,
       cf_delay := sw_delay w, cf_retries := sw_retries w,
       cf_methods := (if sw_methods w \<noteq> [] then sw_methods w else cf_methods c),
       cf_auth := (if sw_auth w \<noteq> [] then copyAuthMatrix (sw_auth w) else cf_auth c)\<rparr>"

section \<open>Applying it\<close>

text \<open>The files of proxies and of a previous scan are read into a state of their own.\<close>

record ('re, 'x) swarm_ops =
  so_testing :: bool
  so_compile :: "string \<Rightarrow> 're option"
  so_proxies :: "string \<Rightarrow> 'x \<Rightarrow> goerror option \<times> 'x"
  so_eagle :: "string \<Rightarrow> 'x \<Rightarrow> goerror option \<times> 'x"

definition apply_headers :: "('re, 'x) swarm_ops \<Rightarrow> swarm_config \<Rightarrow> 're config_engine \<Rightarrow> 're config_engine" where
  "apply_headers ops w e =
     (let e1 = (if sw_ua w \<noteq> '''' then SetUserAgent (so_testing ops) (so_compile ops) (sw_ua w) e else e)
      in foldl (\<lambda>e (k, v). AddConfigHeader (so_testing ops) (so_compile ops) k v e) e1 (sw_headers w))"

definition apply_filters :: "('re, 'x) swarm_ops \<Rightarrow> swarm_config \<Rightarrow> 're config_engine \<Rightarrow> 're config_engine option" where
  "apply_filters ops w e =
     (if sw_codes w \<noteq> [] \<or> sw_sizes w \<noteq> [] then ConfigureFilters (so_testing ops) (so_compile ops) (sw_codes w) (sw_sizes w) e else Some e)"

definition apply_extensions :: "('re, 'x) swarm_ops \<Rightarrow> swarm_config \<Rightarrow> 're config_engine \<Rightarrow> 're config_engine" where
  "apply_extensions ops w e =
     foldl (\<lambda>e ext. AddExtension (so_testing ops) (so_compile ops) (trim_prefix (trim_space ext) ''.'') e) e (sw_exts w)"

definition apply_regexes :: "('re, 'x) swarm_ops \<Rightarrow> swarm_config \<Rightarrow> 're config_engine \<Rightarrow> 're config_engine result" where
  "apply_regexes ops w e =
     (case (if sw_match_regex w \<noteq> '''' then SetMatchRegex (so_testing ops) (so_compile ops) (sw_match_regex w) e else Inr e) of
        Inl err \<Rightarrow> Inl err
      | Inr e1 \<Rightarrow> if sw_filter_regex w \<noteq> '''' then SetFilterRegex (so_testing ops) (so_compile ops) (sw_filter_regex w) e1 else Inr e1)"

definition apply_files :: "('re, 'x) swarm_ops \<Rightarrow> swarm_config \<Rightarrow> 'x \<Rightarrow> 'x result" where
  "apply_files ops w x =
     (case (if sw_proxy_file w \<noteq> '''' then so_proxies ops (sw_proxy_file w) x else (None, x)) of
        (Some err, _) \<Rightarrow> Inl err
      | (None, x1) \<Rightarrow>
          (case (if sw_eagle_file w \<noteq> '''' then so_eagle ops (sw_eagle_file w) x1 else (None, x1)) of
             (Some err, _) \<Rightarrow> Inl err
           | (None, x2) \<Rightarrow> Inr x2))"

text \<open>The outer option is a panic of a nil map.\<close>

definition applySwarmConfig :: "('re, 'x) swarm_ops \<Rightarrow> swarm_config \<Rightarrow> 're config_engine \<Rightarrow> 'x \<Rightarrow> ('re config_engine \<times> 'x) result option" where
  "applySwarmConfig ops w0 e x =
     (let w = normalize_config w0 in
      case apply_filters ops w (apply_headers ops w e) of
        None \<Rightarrow> None
      | Some e1 \<Rightarrow>
          (case apply_regexes ops w (apply_extensions ops w e1) of
             Inl err \<Rightarrow> Some (Inl err)
           | Inr e2 \<Rightarrow>
               let e3 = UpdateConfig (so_compile ops) (swarm_settings w) e2 in
               (case apply_files ops w x of Inl err \<Rightarrow> Some (Inl err) | Inr x' \<Rightarrow> Some (Inr (e3, x')))))"

section \<open>The worker\<close>

datatype 'r worker_out = WorkerNote string | WorkerResult 'r

record 'r swarm_response =
  sp_results :: "'r list"
  sp_warnings :: "string list"

definition chunk_lines :: "string list \<Rightarrow> string list" where
  "chunk_lines words = filter (\<lambda>l. l \<noteq> '''') (map (trim_right (\<lambda>c. c = CHR 0x0D)) words)"

definition collect_outs :: "'r worker_out list \<Rightarrow> 'r swarm_response" where
  "collect_outs outs =
     \<lparr>sp_results = List.map_filter (\<lambda>w. case w of WorkerResult r \<Rightarrow> Some r | WorkerNote m \<Rightarrow> None) outs,
      sp_warnings = filter (\<lambda>m. m \<noteq> '''') (List.map_filter (\<lambda>w. case w of WorkerResult r \<Rightarrow> None | WorkerNote m \<Rightarrow> Some (trim_space m)) outs)\<rparr>"

text \<open>\<open>fresh\<close> makes an engine for a number of threads, \<open>refresh\<close> its HTTP/2 client (\<open>SetTarget\<close> does that, and the worker again), and \<open>scan\<close> runs it over the lines of the chunk and gives what
  it reports and the error of the context at the end.\<close>

record ('re, 'x, 'r) swarm_run =
  sn_ops :: "('re, 'x) swarm_ops"
  sn_tmp :: "string list \<Rightarrow> goerror option"
  sn_fresh :: "int \<Rightarrow> 're config_engine \<times> 'x"
  sn_lookup :: "string \<Rightarrow> string list result"
  sn_refresh :: "'re config_engine \<Rightarrow> target \<Rightarrow> goerror option"
  sn_scan :: "'re config_engine \<Rightarrow> 'x \<Rightarrow> target \<Rightarrow> string list \<Rightarrow> 'r worker_out list \<times> goerror option"

definition no_response :: "'r swarm_response" where "no_response = \<lparr>sp_results = [], sp_warnings = []\<rparr>"

definition no_target :: target where "no_target = \<lparr>tg_base = '''', tg_host = '''', tg_scope = ''''\<rparr>"

definition RunSwarmWorker :: "('re, 'x, 'r) swarm_run \<Rightarrow> string \<Rightarrow> string list \<Rightarrow> swarm_config \<Rightarrow> ('r swarm_response \<times> goerror option) option" where
  "RunSwarmWorker run target words w0 =
     (let w = normalize_config w0; lns = chunk_lines words in
      if target = '''' then Some (no_response, Some ''missing target'')
      else if words = [] then Some (no_response, None)
      else case sn_tmp run lns of
        Some err \<Rightarrow> Some (no_response, Some err)
      | None \<Rightarrow>
          let threads = rq_max_workers (sw_request w);
              (e0, x0) = sn_fresh run (if threads < 1 then 1 else threads) in
          (case applySwarmConfig (sn_ops run) w e0 x0 of
             None \<Rightarrow> None
           | Some (Inl err) \<Rightarrow> Some (no_response, Some err)
           | Some (Inr (e, x)) \<Rightarrow>
               (case SetTarget (sn_lookup run) (cf_private (ce_config e)) target no_target of
                  Inl err \<Rightarrow> Some (no_response, Some err)
                | Inr t \<Rightarrow>
                    (case sn_refresh run e t of
                       Some err \<Rightarrow> Some (no_response, Some err)
                     | None \<Rightarrow> (case sn_scan run e x t lns of (outs, err) \<Rightarrow> Some (collect_outs outs, err))))))"

section \<open>What reaches the engine\<close>

lemma foldl_frame: "(\<And>e a. g (f e a) = g e) \<Longrightarrow> g (foldl f e as) = g e"
  by (induction "as" arbitrary: e) simp_all

lemma edit_limits [simp]: "ce_limits (edit_config t compile f e) = ce_limits e"
  by (simp add: edit_config_def scheduleBuildSnapshot_def buildAndStoreConfigSnapshot_def Let_def)

lemma header_limits: "ce_limits (apply_headers ops w e) = ce_limits e"
proof -
  have "ce_limits (AddConfigHeader t c k v e) = ce_limits e" for t c k v and e :: "'a config_engine"
    by (simp add: AddConfigHeader_def Let_def)
  then have "ce_limits (foldl (\<lambda>e (k, v). AddConfigHeader (so_testing ops) (so_compile ops) k v e) e1 hs) = ce_limits e1" for e1 hs
    by (intro foldl_frame) (simp split: prod.split)
  then show ?thesis by (simp add: apply_headers_def SetUserAgent_def Let_def)
qed

lemma filter_limits: "apply_filters ops w e = Some e' \<Longrightarrow> ce_limits e' = ce_limits e"
  by (auto simp: apply_filters_def ConfigureFilters_def split: if_splits option.splits)

lemma extension_limits: "ce_limits (apply_extensions ops w e) = ce_limits e"
  unfolding apply_extensions_def by (rule foldl_frame) (simp add: AddExtension_def)

lemma regex_limits: "apply_regexes ops w e = Inr e' \<Longrightarrow> ce_limits e' = ce_limits e"
  by (auto simp: apply_regexes_def SetMatchRegex_def SetFilterRegex_def split: if_splits option.splits sum.splits)


definition small_swarm :: swarm_config where
  "small_swarm = \<lparr>sw_ua = ''ua'', sw_headers = [(''X'', ''1'')], sw_auth = [], sw_codes = [200], sw_sizes = [], sw_match_regex = '''', sw_filter_regex = ''a'',
     sw_exclude = [], sw_exts = ['' .php''], sw_methods = [], sw_request = cf_request small_config, sw_match = cf_match small_config,
     sw_scan = cf_scan small_config, sw_harvest = cf_harvest small_config, sw_prune = None, sw_insecure = False, sw_private = False,
     sw_delay = second, sw_rps = 5, sw_retries = 0, sw_params = [], sw_proxy_file = '''', sw_eagle_file = ''''\<rparr>"

definition small_worker_ops :: "(string, unit) swarm_ops" where
  "small_worker_ops = \<lparr>so_testing = False, so_compile = no_regex, so_proxies = (\<lambda>p x. (None, x)), so_eagle = (\<lambda>p x. (None, x))\<rparr>"

definition small_worker_engine :: "string config_engine" where
  "small_worker_engine = \<lparr>ce_config = small_config, ce_snap = None, ce_pending = False, ce_match = None, ce_filter = None,
     ce_tracker = newSimhashTracker 3 5, ce_limits = new_limits 10\<rparr>"


text \<open>With a rate of five requests in a second and a delay of a second the worker sends without a limit; the controller's own engine
  would be limited.\<close>

lemma swarm_rate_ignored:
  "case applySwarmConfig small_worker_ops small_swarm small_worker_engine () of
     Some (Inr (e', _)) \<Rightarrow> li_limit (ce_limits e') = RateInf | _ \<Rightarrow> False"
  "li_limit (SetRPS 5 (new_limits 10)) = RateLimit 5"
  by code_simp (simp add: SetRPS_def set_limits_def)

end
