(* ===== verification/ClientSend.thy ===== *)
theory ClientSend
  imports HttpClient
begin

text \<open>
  The exchange of the raw client, \<open>SendRawRequestWithContextPolicy\<close> in \<open>pkg/httpclient/client.go\<close>, with the dialling it uses: direct,
  through an HTTP proxy with its CONNECT, and through SOCKS5. The network is a parameter: what each dial, handshake, write and read
  gives, and whether the context is done at each place where the code looks. A connection is an identifier, and each exchange has a
  log of what it did with connections.
\<close>

section \<open>The network\<close>

datatype send_event =
    Dialled string nat
  | TookIdle nat
  | WroteConnect nat string
  | WroteRequest nat string
  | ClosedConn nat
  | ParkedConn nat

text \<open>The places where the exchange looks at the context, in their order.\<close>

datatype check_at = BeforeWrite | AfterWrite | AfterRewrite | AfterParse | AfterSecondWrite | AfterSecondParse | AtEnd

text \<open>The first dial of an exchange has number 0 and the second 1. A read that the script does not give runs into the deadline.\<close>

record send_net =
  sn_lookup :: "string \<Rightarrow> ip list result"
  sn_tcp :: "nat \<Rightarrow> string \<Rightarrow> nat result"
  sn_socks :: "nat \<Rightarrow> (string \<times> string) option \<Rightarrow> string \<Rightarrow> string \<Rightarrow> nat result"
  sn_tls :: "nat \<Rightarrow> goerror option"
  sn_deadline :: "nat \<Rightarrow> goerror option"
  sn_write :: "nat \<Rightarrow> string \<Rightarrow> goerror option"
  sn_connect_reads :: "nat \<Rightarrow> (string \<times> read_err) list"
  sn_reads :: "nat \<Rightarrow> (string \<times> read_err) list"
  sn_done :: "check_at \<Rightarrow> bool"
  sn_decode :: "string \<Rightarrow> string \<Rightarrow> string result"

type_synonym 'a logged = "'a result \<times> send_event list"

definition then_log :: "'a logged \<Rightarrow> ('a \<Rightarrow> 'b logged) \<Rightarrow> 'b logged" where
  "then_log m f = (case m of (Inl e, log) \<Rightarrow> (Inl e, log) | (Inr x, log) \<Rightarrow> (case f x of (r, log') \<Rightarrow> (r, log @ log')))"

definition ctx_error :: goerror where "ctx_error = ''context canceled''"

definition timed_out :: goerror where "timed_out = ''i/o timeout''"

section \<open>Dialling\<close>

definition opened :: "string \<Rightarrow> nat result \<Rightarrow> nat logged" where
  "opened address r = (r, case r of Inl e \<Rightarrow> [] | Inr c \<Rightarrow> [Dialled address c])"

definition err_prefix :: "string \<Rightarrow> nat result \<Rightarrow> nat result" where
  "err_prefix msg r = (case r of Inl e \<Rightarrow> Inl (msg @ e) | Inr c \<Rightarrow> Inr c)"

definition dialContextResolved :: "send_net \<Rightarrow> nat \<Rightarrow> string \<Rightarrow> bool \<Rightarrow> nat logged" where
  "dialContextResolved net k address allowPrivateTargets =
     (case resolveDialAddress (sn_lookup net) address allowPrivateTargets of
        Inl e \<Rightarrow> (Inl e, [])
      | Inr resolved \<Rightarrow> opened resolved (sn_tcp net k resolved))"

definition proxy_host :: "url \<Rightarrow> string" where
  "proxy_host u = (if CHR '':'' \<in> set (u_host u) then u_host u else u_host u @ '':3128'')"

definition dialPlainHTTPProxy :: "send_net \<Rightarrow> nat \<Rightarrow> string \<Rightarrow> nat logged" where
  "dialPlainHTTPProxy net k proxyAddr =
     (case parseHTTPProxyURL proxyAddr of
        Inl e \<Rightarrow> (Inl e, [])
      | Inr u \<Rightarrow> opened (proxy_host u) (err_prefix ''HTTP proxy dial failed: '' (sn_tcp net k (proxy_host u))))"

definition connect_request :: "url \<Rightarrow> string \<Rightarrow> string" where
  "connect_request u targetAddr =
     ''CONNECT '' @ targetAddr @ '' HTTP/1.1'' @ crlf @ ''Host: '' @ targetAddr @ crlf @
     (case u_user u of None \<Rightarrow> '''' | Some (user, p) \<Rightarrow> ''Proxy-Authorization: Basic '' @ basic_credentials user p @ crlf) @ crlf"

text \<open>The answer to CONNECT is read up to an empty line or the end.\<close>

fun connect_answer :: "string \<Rightarrow> (string \<times> read_err) list \<Rightarrow> string result" where
  "connect_answer acc [] = Inl (''HTTP proxy CONNECT response read failed: '' @ timed_out)"
| "connect_answer acc ((d, e) # rs) =
     (let buf = acc @ d in
      if d \<noteq> '''' \<and> (contains_str buf (crlf @ crlf) \<or> contains_str buf [LF, LF]) then Inr buf
      else case e of
        NoErr \<Rightarrow> connect_answer buf rs
      | EOF \<Rightarrow> Inr buf
      | ReadErr m \<Rightarrow> Inl (''HTTP proxy CONNECT response read failed: '' @ m))"

definition connect_verdict :: "string \<Rightarrow> goerror option" where
  "connect_verdict resp =
     (case index_byte (\<lambda>c. c = LF) resp of
        None \<Rightarrow> Some ''HTTP proxy CONNECT failed: invalid response''
      | Some i \<Rightarrow>
          (let firstLine = trim_space (take i resp) in
           case split_two (CHR '' '') firstLine of
             (_, Some r) \<Rightarrow> if fst (split_two (CHR '' '') r) = ''200'' then None else Some (''HTTP proxy CONNECT refused: '' @ firstLine)
           | (_, None) \<Rightarrow> Some (''HTTP proxy CONNECT refused: '' @ firstLine)))"

definition dialHTTPProxy :: "send_net \<Rightarrow> nat \<Rightarrow> string \<Rightarrow> string \<Rightarrow> nat logged" where
  "dialHTTPProxy net k proxyAddr targetAddr =
     (case parseHTTPProxyURL proxyAddr of
        Inl e \<Rightarrow> (Inl e, [])
      | Inr u \<Rightarrow>
          then_log (opened (proxy_host u) (err_prefix ''HTTP proxy dial failed: '' (sn_tcp net k (proxy_host u)))) (\<lambda>c.
            let req = connect_request u targetAddr in
            case sn_write net c req of
              Some e \<Rightarrow> (Inl (''HTTP proxy CONNECT write failed: '' @ e), [WroteConnect c req, ClosedConn c])
            | None \<Rightarrow>
                (case connect_answer '''' (sn_connect_reads net c) of
                   Inl e \<Rightarrow> (Inl e, [WroteConnect c req, ClosedConn c])
                 | Inr resp \<Rightarrow>
                     (case connect_verdict resp of
                        Some e \<Rightarrow> (Inl e, [WroteConnect c req, ClosedConn c])
                      | None \<Rightarrow> (Inr c, [WroteConnect c req])))))"

definition dial_socks :: "send_net \<Rightarrow> nat \<Rightarrow> string \<Rightarrow> string \<Rightarrow> nat logged" where
  "dial_socks net k proxyAddr address =
     (case parseSocks5Proxy proxyAddr of (auth, clean) \<Rightarrow> opened clean (sn_socks net k auth clean address))"

definition with_tls :: "send_net \<Rightarrow> string \<Rightarrow> nat logged \<Rightarrow> nat logged" where
  "with_tls net msg m = then_log m (\<lambda>c. case sn_tls net c of Some e \<Rightarrow> (Inl (msg @ e), [ClosedConn c]) | None \<Rightarrow> (Inr c, []))"

definition dialHTTPS :: "send_net \<Rightarrow> nat \<Rightarrow> string \<Rightarrow> string \<Rightarrow> bool \<Rightarrow> bool \<Rightarrow> nat logged" where
  "dialHTTPS net k address proxyAddr proxyIsHTTP allowPrivateTargets =
     (if proxyAddr = '''' then with_tls net '''' (dialContextResolved net k address allowPrivateTargets)
      else if proxyIsHTTP then with_tls net ''TLS handshake through HTTP proxy failed: '' (dialHTTPProxy net k proxyAddr address)
      else with_tls net ''TLS handshake through SOCKS5 proxy failed: ''
             (case dial_socks net k proxyAddr address of (r, log) \<Rightarrow> (err_prefix ''proxy dial failed: '' r, log)))"

definition dialHTTP :: "send_net \<Rightarrow> nat \<Rightarrow> string \<Rightarrow> string \<Rightarrow> bool \<Rightarrow> bool \<Rightarrow> nat logged" where
  "dialHTTP net k address proxyAddr proxyIsHTTP allowPrivateTargets =
     (if proxyAddr = '''' then dialContextResolved net k address allowPrivateTargets
      else if proxyIsHTTP then dialPlainHTTPProxy net k proxyAddr
      else dial_socks net k proxyAddr address)"

definition dialNew :: "send_net \<Rightarrow> nat \<Rightarrow> string \<Rightarrow> string \<Rightarrow> string \<Rightarrow> bool \<Rightarrow> bool \<Rightarrow> nat logged" where
  "dialNew net k scheme address proxyAddr proxyIsHTTP allowPrivateTargets =
     (if scheme = ''https'' then dialHTTPS net k address proxyAddr proxyIsHTTP allowPrivateTargets
      else dialHTTP net k address proxyAddr proxyIsHTTP allowPrivateTargets)"

section \<open>The exchange\<close>

text \<open>What is known of an exchange before a connection is taken.\<close>

record send_plan =
  pl_scheme :: string
  pl_address :: string
  pl_key :: string
  pl_raw :: string
  pl_no_body :: bool
  pl_safe :: bool
  pl_proxy :: string
  pl_http_proxy :: bool
  pl_private :: bool

definition send_address :: "url \<Rightarrow> string" where
  "send_address u = JoinHostPort (url_hostname u) (if url_port u = '''' then (if u_scheme u = ''https'' then ''443'' else ''80'') else url_port u)"

definition plan_send :: "string \<Rightarrow> string \<Rightarrow> string \<Rightarrow> bool \<Rightarrow> bool \<Rightarrow> send_plan result" where
  "plan_send targetURL rawRequest proxyAddr insecure allowPrivateTargets =
     (case url_parse targetURL of
        None \<Rightarrow> Inl ''invalid URL: parse error''
      | Some u \<Rightarrow>
          let low = to_lower proxyAddr; isHTTP = has_prefix low ''http://'' in
          if has_prefix low ''https://'' then Inl (''https proxy is not supported: '' @ proxyAddr)
          else Inr \<lparr>pl_scheme = u_scheme u, pl_address = send_address u,
            pl_key = u_scheme u @ (if insecure then ''+insecure'' else '''') @ (if allowPrivateTargets then ''+allow-private'' else '''') @ ''://'' @ send_address u,
            pl_raw = (if isHTTP \<and> u_scheme u = ''http'' then rewriteHTTPProxyRequest rawRequest u proxyAddr else rawRequest),
            pl_no_body = requestExpectsNoResponseBody rawRequest, pl_safe = requestReplaySafe rawRequest,
            pl_proxy = proxyAddr, pl_http_proxy = isHTTP, pl_private = allowPrivateTargets\<rparr>)"

definition plan_dial :: "send_net \<Rightarrow> nat \<Rightarrow> send_plan \<Rightarrow> nat logged" where
  "plan_dial net k p = dialNew net k (pl_scheme p) (pl_address p) (pl_proxy p) (pl_http_proxy p) (pl_private p)"

text \<open>A new connection for a second attempt, with the request written to it.\<close>

definition redial :: "send_net \<Rightarrow> check_at \<Rightarrow> send_plan \<Rightarrow> nat logged" where
  "redial net at p =
     then_log (plan_dial net 1 p) (\<lambda>c.
       case sn_deadline net c of
         Some e \<Rightarrow> (Inl e, [ClosedConn c])
       | None \<Rightarrow>
           (case sn_write net c (pl_raw p) of
              Some e \<Rightarrow> (Inl (if sn_done net at then ctx_error else ''failed to write request: '' @ e), [WroteRequest c (pl_raw p), ClosedConn c])
            | None \<Rightarrow> (Inr c, [WroteRequest c (pl_raw p)])))"

text \<open>The request on the first connection; the second part says whether the connection still is one of the pool.\<close>

definition first_write :: "send_net \<Rightarrow> send_plan \<Rightarrow> nat \<times> bool \<Rightarrow> (nat \<times> bool) logged" where
  "first_write net p cp =
     (case cp of (c, pooled) \<Rightarrow>
       case sn_deadline net c of
         Some e \<Rightarrow> (Inl e, [ClosedConn c])
       | None \<Rightarrow>
           if sn_done net BeforeWrite then (Inl ctx_error, [ClosedConn c])
           else (case sn_write net c (pl_raw p) of
             None \<Rightarrow> (Inr (c, pooled), [WroteRequest c (pl_raw p)])
           | Some e \<Rightarrow>
               if sn_done net AfterWrite then (Inl ctx_error, [WroteRequest c (pl_raw p), ClosedConn c])
               else if \<not> pl_safe p then (Inl (''failed to write non-replay-safe request: '' @ e), [WroteRequest c (pl_raw p), ClosedConn c])
               else then_log (Inr (), [WroteRequest c (pl_raw p), ClosedConn c])
                      (\<lambda>_. then_log (redial net AfterRewrite p) (\<lambda>c'. (Inr (c', False), [])))))"

definition read_response :: "send_net \<Rightarrow> send_plan \<Rightarrow> nat \<Rightarrow> raw_response result" where
  "read_response net p c =
     (case parseRawResponse (sn_decode net) (sn_reads net c @ [([], ReadErr timed_out)]) (pl_no_body p) of
        None \<Rightarrow> Inl timed_out | Some r \<Rightarrow> r)"

definition read_answer :: "send_net \<Rightarrow> send_plan \<Rightarrow> nat \<times> bool \<Rightarrow> (nat \<times> raw_response) logged" where
  "read_answer net p cp =
     (case cp of (c, pooled) \<Rightarrow>
       case read_response net p c of
         Inr resp \<Rightarrow> (Inr (c, resp), [])
       | Inl e \<Rightarrow>
           if sn_done net AfterParse then (Inl ctx_error, [ClosedConn c])
           else if pooled \<and> pl_safe p then
             then_log (Inr (), [ClosedConn c]) (\<lambda>_. then_log (redial net AfterSecondWrite p) (\<lambda>c'.
               case read_response net p c' of
                 Inr resp \<Rightarrow> (Inr (c', resp), [])
               | Inl e' \<Rightarrow> (Inl (if sn_done net AfterSecondParse then ctx_error else e'), [ClosedConn c'])))
           else (Inl e, [ClosedConn c]))"

definition keeps_alive :: "send_plan \<Rightarrow> raw_response \<Rightarrow> bool" where
  "keeps_alive p resp \<longleftrightarrow> pl_proxy p = '''' \<and> 200 \<le> rr_status resp \<and>
     responseAllowsKeepalive (has_prefix (rr_headers resp) ''HTTP/1.0'') (rr_map resp) \<and> rr_complete resp"

definition keep_or_close :: "send_net \<Rightarrow> send_plan \<Rightarrow> nat \<times> raw_response \<Rightarrow> raw_response logged" where
  "keep_or_close net p cr =
     (case cr of (c, resp) \<Rightarrow>
       if sn_done net AtEnd then (Inl ctx_error, [ClosedConn c])
       else (Inr resp, [if keeps_alive p resp then ParkedConn c else ClosedConn c]))"

text \<open>An idle connection is asked for only without a proxy.\<close>

definition take_conn :: "gotime \<Rightarrow> send_plan \<Rightarrow> conn_pool \<Rightarrow> nat option \<times> conn_pool" where
  "take_conn now p pool = (if pl_proxy p = '''' then pool_get now (pl_key p) pool else (None, pool))"

definition exchange :: "send_net \<Rightarrow> send_plan \<Rightarrow> nat option \<Rightarrow> raw_response logged" where
  "exchange net p idle =
     then_log (case idle of Some c \<Rightarrow> (Inr (c, True), [TookIdle c]) | None \<Rightarrow> then_log (plan_dial net 0 p) (\<lambda>c. (Inr (c, False), [])))
       (\<lambda>cp. then_log (first_write net p cp) (\<lambda>cp'. then_log (read_answer net p cp') (keep_or_close net p)))"

definition put_parked :: "gotime \<Rightarrow> send_plan \<Rightarrow> conn_pool \<Rightarrow> send_event list \<Rightarrow> conn_pool" where
  "put_parked now p = foldl (\<lambda>pool ev. case ev of ParkedConn c \<Rightarrow> pool_put now (pl_key p) (pl_scheme p) c pool | _ \<Rightarrow> pool)"

text \<open>\<open>now\<close> is the time at the look into the pool and \<open>later\<close> that at the end.\<close>

definition SendRawRequestWithContextPolicy ::
  "send_net \<Rightarrow> gotime \<Rightarrow> gotime \<Rightarrow> string \<Rightarrow> string \<Rightarrow> string \<Rightarrow> bool \<Rightarrow> bool \<Rightarrow> conn_pool \<Rightarrow> raw_response logged \<times> conn_pool" where
  "SendRawRequestWithContextPolicy net now later targetURL rawRequest proxyAddr insecure allowPrivateTargets pool =
     (case plan_send targetURL rawRequest proxyAddr insecure allowPrivateTargets of
        Inl e \<Rightarrow> ((Inl e, []), pool)
      | Inr p \<Rightarrow>
          (case (if proxyAddr \<noteq> '''' \<and> \<not> allowPrivateTargets then resolveDialAddress (sn_lookup net) (pl_address p) False else Inr '''') of
             Inl e \<Rightarrow> ((Inl e, []), pool)
           | Inr _ \<Rightarrow>
               (case take_conn now p pool of
                  (idle, pool1) \<Rightarrow>
                    (case exchange net p idle of (r, log) \<Rightarrow> ((r, log), put_parked later p pool1 log)))))"


section \<open>What a log holds\<close>

primrec opened_by :: "send_event \<Rightarrow> nat list" where
  "opened_by (Dialled a c) = [c]"
| "opened_by (TookIdle c) = []"
| "opened_by (WroteConnect c s) = []"
| "opened_by (WroteRequest c s) = []"
| "opened_by (ClosedConn c) = []"
| "opened_by (ParkedConn c) = []"

primrec closed_by :: "send_event \<Rightarrow> nat list" where
  "closed_by (Dialled a c) = []"
| "closed_by (TookIdle c) = []"
| "closed_by (WroteConnect c s) = []"
| "closed_by (WroteRequest c s) = []"
| "closed_by (ClosedConn c) = [c]"
| "closed_by (ParkedConn c) = []"

primrec parked_by :: "send_event \<Rightarrow> nat list" where
  "parked_by (Dialled a c) = []"
| "parked_by (TookIdle c) = []"
| "parked_by (WroteConnect c s) = []"
| "parked_by (WroteRequest c s) = []"
| "parked_by (ClosedConn c) = []"
| "parked_by (ParkedConn c) = [c]"

primrec requests_by :: "send_event \<Rightarrow> string list" where
  "requests_by (Dialled a c) = []"
| "requests_by (TookIdle c) = []"
| "requests_by (WroteConnect c s) = []"
| "requests_by (WroteRequest c s) = [s]"
| "requests_by (ClosedConn c) = []"
| "requests_by (ParkedConn c) = []"

definition events :: "(send_event \<Rightarrow> 'x list) \<Rightarrow> send_event list \<Rightarrow> 'x list" where
  "events f log = concat (map f log)"

lemma events_simps [simp]:
  "events f [] = []" "events f (e # log) = f e @ events f log" "events f (xs @ ys) = events f xs @ events f ys"
  by (simp_all add: events_def)

text \<open>The connections held: those before and those opened are closed, parked, or in the result.\<close>

definition held :: "('a \<Rightarrow> nat list) \<Rightarrow> 'a result \<Rightarrow> nat multiset" where
  "held h r = (case r of Inl e \<Rightarrow> {#} | Inr x \<Rightarrow> mset (h x))"

definition conn_account :: "nat list \<Rightarrow> ('a \<Rightarrow> nat list) \<Rightarrow> 'a logged \<Rightarrow> bool" where
  "conn_account cs h m \<longleftrightarrow> mset cs + mset (events opened_by (snd m)) =
     mset (events closed_by (snd m)) + mset (events parked_by (snd m)) + held h (fst m)"

lemma account_sum:
  fixes x :: "'a multiset"
  assumes "x + a = b + c + y" "y + a' = b' + c' + z"
  shows "x + (a + a') = (b + b') + (c + c') + z"
proof -
  have "x + (a + a') = (b + c) + (y + a')" using assms(1) by (simp add: ac_simps)
  also have "\<dots> = (b + b') + (c + c') + z" unfolding assms(2) by (simp add: ac_simps)
  finally show ?thesis .
qed

lemma accounted_then:
  assumes "conn_account cs h m" "\<And>x. conn_account (h x) g (f x)"
  shows "conn_account cs g (then_log m f)"
proof (cases "fst m")
  case (Inl e)
  with assms(1) show ?thesis by (cases m) (simp add: conn_account_def then_log_def held_def)
next
  case (Inr x)
  obtain log where m: "m = (Inr x, log)" using Inr by (cases m) simp
  obtain r log' where f: "f x = (r, log')" by (cases "f x")
  show ?thesis using account_sum [OF assms(1) [unfolded conn_account_def] , of "mset (events opened_by log')"] assms(2) [of x]
    by (simp add: conn_account_def then_log_def held_def m f)
qed

lemma accounted_fail [simp]: "conn_account [] h (Inl e, [])" "conn_account [c] h (Inl e, [ClosedConn c])"
  "conn_account [c] h (Inl e, [WroteRequest c s, ClosedConn c])" "conn_account [c] h (Inl e, [WroteConnect c s, ClosedConn c])"
  by (simp_all add: conn_account_def held_def)

lemma accounted_opened: "conn_account [] (\<lambda>c. [c]) (opened a r)"
  by (simp add: opened_def conn_account_def held_def split: sum.split)

lemma accounted_prefix: "conn_account [] (\<lambda>c. [c]) (r, log) \<Longrightarrow> conn_account [] (\<lambda>c. [c]) (err_prefix msg r, log)"
  by (auto simp: err_prefix_def conn_account_def held_def split: sum.splits)

lemma accounted_tls: "conn_account [] (\<lambda>c. [c]) m \<Longrightarrow> conn_account [] (\<lambda>c. [c]) (with_tls net msg m)"
  unfolding with_tls_def by (erule accounted_then) (simp add: conn_account_def held_def split: option.split)

lemma accounted_direct: "conn_account [] (\<lambda>c. [c]) (dialContextResolved net k a priv)"
  by (simp add: dialContextResolved_def accounted_opened split: sum.split)

lemma accounted_connect: "conn_account [] (\<lambda>c. [c]) (dialHTTPProxy net k proxy a)"
proof (cases "parseHTTPProxyURL proxy")
  case (Inr u)
  then show ?thesis unfolding dialHTTPProxy_def
    by (simp add: Let_def)
       (rule accounted_then [OF accounted_opened], simp add: conn_account_def held_def split: option.split sum.split)
qed (simp add: dialHTTPProxy_def)

lemma accounted_socks: "conn_account [] (\<lambda>c. [c]) (dial_socks net k proxy a)"
  by (simp add: dial_socks_def accounted_opened split: prod.split)

lemma accounted_dial: "conn_account [] (\<lambda>c. [c]) (plan_dial net k p)"
proof -
  have "conn_account [] (\<lambda>c. [c]) (case dial_socks net k proxy a of (r, log) \<Rightarrow> (err_prefix msg r, log))" for proxy a msg
    using accounted_socks [of net k proxy a] by (cases "dial_socks net k proxy a") (simp add: accounted_prefix)
  then show ?thesis
    by (simp add: plan_dial_def dialNew_def dialHTTPS_def dialHTTP_def accounted_tls accounted_direct accounted_connect accounted_socks
      dialPlainHTTPProxy_def accounted_opened split: sum.split)
qed

lemma accounted_redial: "conn_account [] (\<lambda>c. [c]) (redial net at p)"
  unfolding redial_def
  by (rule accounted_then [OF accounted_dial]) (simp add: conn_account_def held_def split: option.split)

lemma accounted_first: "conn_account [fst cp] (\<lambda>cp. [fst cp]) (first_write net p cp)"
proof -
  have "conn_account [fst cp] (\<lambda>cp. [fst cp]) (then_log (Inr (), [WroteRequest (fst cp) (pl_raw p), ClosedConn (fst cp)])
      (\<lambda>_. then_log (redial net AfterRewrite p) (\<lambda>c'. (Inr (c', False), []))))"
    by (rule accounted_then [where h = "\<lambda>_. []"], simp add: conn_account_def held_def)
       (rule accounted_then [OF accounted_redial], simp add: conn_account_def held_def)
  then show ?thesis by (auto simp: first_write_def conn_account_def held_def split: prod.splits option.splits)
qed

lemma accounted_read: "conn_account [fst cp] (\<lambda>cr. [fst cr]) (read_answer net p cp)"
proof -
  have "conn_account [fst cp] (\<lambda>cr. [fst cr]) (then_log (Inr (), [ClosedConn (fst cp)]) (\<lambda>_. then_log (redial net AfterSecondWrite p) (\<lambda>c'.
      case read_response net p c' of Inr resp \<Rightarrow> (Inr (c', resp), [])
      | Inl e' \<Rightarrow> (Inl (if sn_done net AfterSecondParse then ctx_error else e'), [ClosedConn c']))))"
    by (rule accounted_then [where h = "\<lambda>_. []"], simp add: conn_account_def held_def)
       (rule accounted_then [OF accounted_redial], simp add: conn_account_def held_def split: sum.split)
  then show ?thesis by (cases cp) (auto simp: read_answer_def conn_account_def held_def split: sum.splits)
qed

lemma accounted_exchange: "conn_account (case idle of None \<Rightarrow> [] | Some c \<Rightarrow> [c]) (\<lambda>_. []) (exchange net p idle)"
  unfolding exchange_def
proof (rule accounted_then [where h = "\<lambda>cp. [fst cp]"])
  show "conn_account (case idle of None \<Rightarrow> [] | Some c \<Rightarrow> [c]) (\<lambda>cp. [fst cp])
     (case idle of Some c \<Rightarrow> (Inr (c, True), [TookIdle c]) | None \<Rightarrow> then_log (plan_dial net 0 p) (\<lambda>c. (Inr (c, False), [])))"
  proof (cases idle)
    case None
    have "conn_account [] (\<lambda>cp :: nat \<times> bool. [fst cp]) (then_log (plan_dial net 0 p) (\<lambda>c. (Inr (c, False), [])))"
      by (rule accounted_then [OF accounted_dial]) (simp add: conn_account_def held_def)
    with None show ?thesis by simp
  qed (simp add: conn_account_def held_def)
next
  fix cp :: "nat \<times> bool"
  show "conn_account [fst cp] (\<lambda>_. []) (then_log (first_write net p cp) (\<lambda>cp'. then_log (read_answer net p cp') (keep_or_close net p)))"
    by (rule accounted_then [OF accounted_first], rule accounted_then [OF accounted_read])
       (simp add: keep_or_close_def conn_account_def held_def split: prod.split)
qed


text \<open>The requests written, and what every event of a log satisfies.\<close>

definition requests_of :: "'a logged \<Rightarrow> nat" where
  "requests_of m = length (events requests_by (snd m))"

lemma requests_then: "requests_of (then_log m f) = requests_of m + (case fst m of Inl e \<Rightarrow> 0 | Inr x \<Rightarrow> requests_of (f x))"
  by (cases m) (simp add: then_log_def requests_of_def split: sum.split prod.split)

definition log_all :: "(send_event \<Rightarrow> bool) \<Rightarrow> 'a logged \<Rightarrow> bool" where
  "log_all P m \<longleftrightarrow> list_all P (snd m)"

lemma requests_then_le: "requests_of m = 0 \<Longrightarrow> (\<And>x. requests_of (f x) \<le> n) \<Longrightarrow> requests_of (then_log m f) \<le> n"
  by (simp add: requests_then split: sum.split)

lemma log_all_then:
  assumes "log_all P m" "\<And>x. log_all P (f x)"
  shows "log_all P (then_log m f)"
proof (cases m)
  case (Pair r log)
  show ?thesis
  proof (cases r)
    case (Inr x)
    with Pair assms(1) assms(2) [of x] show ?thesis by (cases "f x") (simp add: log_all_def then_log_def)
  qed (use Pair assms(1) in \<open>simp add: log_all_def then_log_def\<close>)
qed

text \<open>A dial writes no request and parks nothing; without a proxy it goes to the address that was resolved.\<close>

definition public_address :: "string \<Rightarrow> bool" where
  "public_address a \<longleftrightarrow> (\<exists>x port. a = JoinHostPort (ip_string x) port \<and> \<not> IsPrivateIP (Some x))"

definition dial_event :: "(string \<Rightarrow> bool) \<Rightarrow> send_event \<Rightarrow> bool" where
  "dial_event Q ev \<longleftrightarrow> (case ev of Dialled a c \<Rightarrow> Q a | WroteRequest c s \<Rightarrow> False | ParkedConn c \<Rightarrow> False | _ \<Rightarrow> True)"

definition dials_to :: "(string \<Rightarrow> bool) \<Rightarrow> send_event \<Rightarrow> bool" where
  "dials_to Q ev \<longleftrightarrow> (case ev of Dialled a c \<Rightarrow> Q a | _ \<Rightarrow> True)"

lemma resolved_public: "resolveDialAddress look a False = Inr d \<Longrightarrow> public_address d"
  unfolding public_address_def
  by (auto simp: resolveDialAddress_def split: option.splits sum.splits list.splits if_splits; blast)

lemma dial_event_opened: "Q a \<Longrightarrow> log_all (dial_event Q) (opened a r)"
  by (simp add: opened_def log_all_def dial_event_def split: sum.split)

lemma dial_event_direct:
  "log_all (dial_event (\<lambda>d. resolveDialAddress (sn_lookup net) a priv = Inr d)) (dialContextResolved net k a priv)"
proof (cases "resolveDialAddress (sn_lookup net) a priv")
  case (Inr d)
  then show ?thesis by (simp add: dialContextResolved_def dial_event_opened)
qed (simp add: dialContextResolved_def log_all_def)

lemma dial_event_tls: "log_all (dial_event Q) m \<Longrightarrow> log_all (dial_event Q) (with_tls net msg m)"
  unfolding with_tls_def by (erule log_all_then) (simp add: log_all_def dial_event_def split: option.split)

lemma dial_event_connect: "log_all (dial_event (\<lambda>d. True)) (dialHTTPProxy net k proxy a)"
proof (cases "parseHTTPProxyURL proxy")
  case (Inr u)
  then show ?thesis unfolding dialHTTPProxy_def
    by (simp add: Let_def)
       (rule log_all_then, simp add: dial_event_opened, simp add: log_all_def dial_event_def split: option.split sum.split)
qed (simp add: dialHTTPProxy_def log_all_def)

lemma dial_event_socks: "log_all (dial_event (\<lambda>d. True)) (dial_socks net k proxy a)"
  by (simp add: dial_socks_def dial_event_opened split: prod.split)

definition dialled_by :: "send_net \<Rightarrow> send_plan \<Rightarrow> string \<Rightarrow> bool" where
  "dialled_by net p d \<longleftrightarrow> (pl_proxy p = [] \<longrightarrow> resolveDialAddress (sn_lookup net) (pl_address p) (pl_private p) = Inr d)"

lemma dial_events: "log_all (dial_event (dialled_by net p)) (plan_dial net k p)"
proof (cases "pl_proxy p = []")
  case True
  then have "dialled_by net p = (\<lambda>d. resolveDialAddress (sn_lookup net) (pl_address p) (pl_private p) = Inr d)" by (simp add: dialled_by_def fun_eq_iff)
  with True show ?thesis using dial_event_direct [of net "pl_address p" "pl_private p"]
    by (simp add: plan_dial_def dialNew_def dialHTTPS_def dialHTTP_def dial_event_tls)
next
  case False
  then have t: "dialled_by net p = (\<lambda>d. True)" by (simp add: dialled_by_def fun_eq_iff)
  have "log_all (dial_event (\<lambda>d. True)) (case dial_socks net k q a of (r, log) \<Rightarrow> (err_prefix msg r, log))" for q a msg
    using dial_event_socks [of net k q a] by (cases "dial_socks net k q a") (simp add: log_all_def)
  moreover have "log_all (dial_event (\<lambda>d. True)) (dialPlainHTTPProxy net k q)" for q
    by (cases "parseHTTPProxyURL q") (simp add: dialPlainHTTPProxy_def log_all_def, simp add: dialPlainHTTPProxy_def dial_event_opened)
  ultimately show ?thesis using False unfolding t
    by (simp add: plan_dial_def dialNew_def dialHTTPS_def dialHTTP_def dial_event_tls dial_event_connect dial_event_socks)
qed

lemma no_requests: "list_all (dial_event Q) log \<Longrightarrow> events requests_by log = [] \<and> events parked_by log = []"
  by (induction log) (auto simp: dial_event_def split: send_event.splits)

lemma requests_dial: "requests_of (plan_dial net k p) = 0"
  using dial_events [of net p k] no_requests by (auto simp: requests_of_def log_all_def)

lemma requests_redial: "requests_of (redial net at p) \<le> 1"
  unfolding redial_def requests_then requests_dial
  by (simp add: requests_of_def split: sum.split option.split)

lemma requests_first:
  "requests_of (first_write net p cp) \<le> (if pl_safe p then 2 else 1) \<and>
   (\<forall>c. fst (first_write net p cp) = Inr (c, True) \<longrightarrow> requests_of (first_write net p cp) = 1)"
proof -
  let ?m = "then_log (Inr (), [WroteRequest (fst cp) (pl_raw p), ClosedConn (fst cp)]) (\<lambda>_. then_log (redial net AfterRewrite p) (\<lambda>c'. (Inr (c', False), [])))"
  have "requests_of ?m \<le> 2"
    using requests_redial [of net AfterRewrite p] by (simp add: requests_then) (simp add: requests_of_def split: sum.split)
  moreover have "fst ?m \<noteq> Inr (c, True)" for c
    by (cases "redial net AfterRewrite p") (auto simp: then_log_def split: sum.splits)
  ultimately show ?thesis by (cases cp) (auto simp: first_write_def requests_of_def split: option.splits)
qed

lemma requests_read: "requests_of (read_answer net p cp) \<le> (if snd cp \<and> pl_safe p then 1 else 0)"
proof -
  have "requests_of (then_log (Inr (), [ClosedConn (fst cp)]) (\<lambda>_. then_log (redial net AfterSecondWrite p) (\<lambda>c'.
      case read_response net p c' of Inr resp \<Rightarrow> (Inr (c', resp), [])
      | Inl e' \<Rightarrow> (Inl (if sn_done net AfterSecondParse then ctx_error else e'), [ClosedConn c'])))) \<le> 1"
    using requests_redial [of net AfterSecondWrite p] by (simp add: requests_then) (simp add: requests_of_def split: sum.split)
  then show ?thesis by (cases cp) (auto simp: read_answer_def requests_of_def split: sum.splits)
qed

lemma requests_keep: "requests_of (keep_or_close net p cr) = 0"
  by (simp add: keep_or_close_def requests_of_def split: prod.split)

lemma requests_exchange: "requests_of (exchange net p idle) \<le> (if pl_safe p then 2 else 1)"
proof -
  have take: "requests_of (case idle of Some c \<Rightarrow> (Inr (c, True), [TookIdle c]) | None \<Rightarrow> then_log (plan_dial net 0 p) (\<lambda>c. (Inr (c, False), []))) = 0"
    by (cases idle) (simp_all add: requests_then requests_dial, simp_all add: requests_of_def split: sum.split)
  have "requests_of (then_log (first_write net p cp) (\<lambda>cp'. then_log (read_answer net p cp') (keep_or_close net p))) \<le> (if pl_safe p then 2 else 1)" for cp
  proof (cases "fst (first_write net p cp)")
    case (Inl e)
    with requests_first [of net p cp] show ?thesis by (simp add: requests_then)
  next
    case (Inr cp')
    have k: "requests_of (then_log (read_answer net p cp') (keep_or_close net p)) = requests_of (read_answer net p cp')"
      by (simp add: requests_then requests_keep split: sum.split)
    show ?thesis
    proof (cases "snd cp'")
      case True
      with Inr have "requests_of (first_write net p cp) = 1" using requests_first [of net p cp] by (cases cp') simp
      with Inr k requests_read [of net p cp'] show ?thesis by (auto simp: requests_then split: if_splits)
    next
      case False
      with Inr k requests_read [of net p cp'] requests_first [of net p cp] show ?thesis by (auto simp: requests_then)
    qed
  qed
  with take show ?thesis unfolding exchange_def by (rule requests_then_le)
qed


lemma then_log_parts:
  "fst (then_log m f) = (case fst m of Inl e \<Rightarrow> Inl e | Inr x \<Rightarrow> fst (f x))"
  "events g (snd (then_log m f)) = events g (snd m) @ (case fst m of Inl e \<Rightarrow> [] | Inr x \<Rightarrow> events g (snd (f x)))"
  by (cases m; auto simp: then_log_def split: sum.split prod.split)+

text \<open>Only the end of an exchange parks a connection, and one that can be used again.\<close>

definition parks :: "send_plan \<Rightarrow> raw_response logged \<Rightarrow> bool" where
  "parks p m \<longleftrightarrow> events parked_by (snd m) \<noteq> [] \<longrightarrow> (\<exists>resp. fst m = Inr resp \<and> keeps_alive p resp)"

lemma parks_then: "events parked_by (snd m) = [] \<Longrightarrow> (\<And>x. parks p (f x)) \<Longrightarrow> parks p (then_log m f)"
  by (simp add: parks_def then_log_parts split: sum.split)

lemma quiet_dial: "events parked_by (snd (plan_dial net k p)) = []"
  using dial_events [of net p k] no_requests by (auto simp: log_all_def)

lemma quiet_redial: "events parked_by (snd (redial net at p)) = []"
  unfolding redial_def then_log_parts quiet_dial by (simp split: sum.split option.split)

lemma quiet_first: "events parked_by (snd (first_write net p cp)) = []"
  by (cases cp) (simp add: first_write_def then_log_parts quiet_redial split: option.split sum.split)

lemma quiet_read: "events parked_by (snd (read_answer net p cp)) = []"
  by (cases cp) (simp add: read_answer_def then_log_parts quiet_redial split: sum.split)

lemma parks_exchange: "parks p (exchange net p idle)"
proof -
  have "parks p (keep_or_close net p cr)" for cr by (cases cr) (simp add: keep_or_close_def parks_def)
  then have "parks p (then_log (first_write net p cp) (\<lambda>cp'. then_log (read_answer net p cp') (keep_or_close net p)))" for cp
    by (intro parks_then quiet_first quiet_read)
  moreover have "events parked_by (snd (case idle of Some c \<Rightarrow> (Inr (c, True), [TookIdle c]) | None \<Rightarrow> then_log (plan_dial net 0 p) (\<lambda>c. (Inr (c, False), [])))) = []"
    by (cases idle) (simp_all add: then_log_parts quiet_dial split: sum.split)
  ultimately show ?thesis unfolding exchange_def by - (rule parks_then, simp_all)
qed

lemma dials_dial: "log_all (dials_to (dialled_by net p)) (plan_dial net k p)"
  using dial_events [of net p k] unfolding log_all_def by (rule list.pred_mono_strong) (simp add: dial_event_def dials_to_def split: send_event.splits)

lemma dials_redial: "log_all (dials_to (dialled_by net p)) (redial net at p)"
  unfolding redial_def by (rule log_all_then [OF dials_dial]) (simp add: log_all_def dials_to_def split: option.split)

lemma dials_first: "log_all (dials_to (dialled_by net p)) (first_write net p cp)"
proof -
  have "log_all (dials_to (dialled_by net p)) (then_log (Inr (), [WroteRequest c (pl_raw p), ClosedConn c])
      (\<lambda>_. then_log (redial net AfterRewrite p) (\<lambda>c'. (Inr (c', False), []))))" for c
    by (rule log_all_then, simp add: log_all_def dials_to_def, rule log_all_then [OF dials_redial]) (simp add: log_all_def)
  then show ?thesis by (cases cp) (simp add: first_write_def log_all_def dials_to_def split: option.split)
qed

lemma dials_read: "log_all (dials_to (dialled_by net p)) (read_answer net p cp)"
proof -
  have "log_all (dials_to (dialled_by net p)) (then_log (Inr (), [ClosedConn c]) (\<lambda>_. then_log (redial net AfterSecondWrite p) (\<lambda>c'.
      case read_response net p c' of Inr resp \<Rightarrow> (Inr (c', resp), [])
      | Inl e' \<Rightarrow> (Inl (if sn_done net AfterSecondParse then ctx_error else e'), [ClosedConn c']))))" for c
    by (rule log_all_then, simp add: log_all_def dials_to_def, rule log_all_then [OF dials_redial]) (simp add: log_all_def dials_to_def split: sum.split)
  then show ?thesis by (cases cp) (simp add: read_answer_def log_all_def dials_to_def split: sum.split)
qed

lemma dials_exchange: "log_all (dials_to (dialled_by net p)) (exchange net p idle)"
proof -
  have "log_all (dials_to (dialled_by net p)) (keep_or_close net p cr)" for cr
    by (cases cr) (simp add: keep_or_close_def log_all_def dials_to_def)
  then have "log_all (dials_to (dialled_by net p)) (then_log (first_write net p cp) (\<lambda>cp'. then_log (read_answer net p cp') (keep_or_close net p)))" for cp
    by (intro log_all_then dials_first dials_read)
  moreover have "log_all (dials_to (dialled_by net p)) (then_log (plan_dial net 0 p) (\<lambda>c. (Inr (c, False), [])))"
    by (rule log_all_then [OF dials_dial]) (simp add: log_all_def)
  then have "log_all (dials_to (dialled_by net p))
      (case idle of Some c \<Rightarrow> (Inr (c, True), [TookIdle c]) | None \<Rightarrow> then_log (plan_dial net 0 p) (\<lambda>c. (Inr (c, False), [])))"
    by (cases idle) (simp_all add: log_all_def dials_to_def)
  ultimately show ?thesis unfolding exchange_def by - (rule log_all_then, simp_all)
qed

section \<open>What an exchange promises\<close>

text \<open>C11: However the network fails, a request is written at most twice, and one whose method is not safe to repeat at most once.\<close>

theorem sent_once:
  "length (events requests_by (snd (fst (SendRawRequestWithContextPolicy net now later targetURL rawRequest proxyAddr insecure priv pool)))) \<le>
   (if requestReplaySafe rawRequest then 2 else 1)"
proof (cases "plan_send targetURL rawRequest proxyAddr insecure priv")
  case (Inr p)
  then have "pl_safe p = requestReplaySafe rawRequest" by (auto simp: plan_send_def Let_def split: option.splits if_splits)
  obtain idle pool1 where t: "take_conn now p pool = (idle, pool1)" by (cases "take_conn now p pool")
  obtain r log where x: "exchange net p idle = (r, log)" by (cases "exchange net p idle")
  have "length (events requests_by log) \<le> (if pl_safe p then 2 else 1)"
    using requests_exchange [of net p idle] by (simp add: requests_of_def x)
  moreover have "pl_safe p = requestReplaySafe rawRequest" using Inr by (auto simp: plan_send_def Let_def split: option.splits if_splits)
  ultimately show ?thesis using Inr t x by (auto simp: SendRawRequestWithContextPolicy_def split: sum.split)
qed (simp add: SendRawRequestWithContextPolicy_def)


lemma pool_sum:
  fixes x :: "'a multiset"
  assumes "x = g + i" "g + a = b + c" "y = i + c"
  shows "x + a = y + b"
proof -
  have "x + a = i + (g + a)" by (simp add: assms(1) ac_simps)
  then show ?thesis unfolding assms(2,3) by (simp add: ac_simps)
qed

lemma put_parked_keeps:
  "cp_idle pool \<noteq> None \<Longrightarrow> cp_idle (put_parked now p pool log) \<noteq> None \<and>
     mset (map pc_conn (idle_of (put_parked now p pool log) (pl_key p))) + mset (cp_closed (put_parked now p pool log)) =
     mset (map pc_conn (idle_of pool (pl_key p))) + mset (cp_closed pool) + mset (events parked_by log)"
proof (induction log arbitrary: pool)
  case Nil
  then show ?case by (simp add: put_parked_def)
next
  case (Cons ev log)
  show ?case
  proof (cases ev)
    case (ParkedConn c)
    let ?q = "pool_put now (pl_key p) (pl_scheme p) c pool"
    have put: "cp_idle (pool_put_idle pool key cs) \<noteq> None" for key cs
      using Cons.prems by (rule gm_putE [of "cp_idle pool" key cs]) (simp add: pool_put_idle_def)
    have i: "cp_idle ?q \<noteq> None" using Cons.prems put by (simp add: pool_put_def)
    have a: "mset (map pc_conn (idle_of ?q (pl_key p))) + mset (cp_closed ?q) = mset (map pc_conn (idle_of pool (pl_key p))) + mset (cp_closed pool) + {#c#}"
    proof (cases "int (length (idle_of pool (pl_key p))) \<ge> cp_max pool")
      case True
      then have "?q = pool\<lparr>cp_closed := cp_closed pool @ [c]\<rparr>" by (simp add: pool_put_def)
      then show ?thesis by (simp add: idle_of_def)
    next
      case False
      then show ?thesis by (simp add: pool_put_def idle_of_put [OF Cons.prems] pool_put_idle_closed)
    qed
    have "put_parked now p pool (ev # log) = put_parked now p ?q log" by (simp add: put_parked_def ParkedConn)
    with Cons.IH [OF i] a ParkedConn show ?thesis by (simp add: ac_simps)
  qed (use Cons in \<open>simp_all add: put_parked_def\<close>)
qed

text \<open>C12: However the network fails, an exchange loses no connection and keeps none twice: those that were idle for its key and those it
  dialled are idle for the key or closed at the end, and only one that has given a complete answer without a proxy is kept.\<close>

theorem connections_kept:
  assumes "plan_send targetURL rawRequest proxyAddr insecure priv = Inr p" "cp_idle pool \<noteq> None"
    and "SendRawRequestWithContextPolicy net now later targetURL rawRequest proxyAddr insecure priv pool = ((r, log), pool')"
  shows "mset (map pc_conn (idle_of pool (pl_key p))) + mset (cp_closed pool) + mset (events opened_by log) =
      mset (map pc_conn (idle_of pool' (pl_key p))) + mset (cp_closed pool') + mset (events closed_by log) \<and>
    (events parked_by log \<noteq> [] \<longrightarrow> proxyAddr = '''' \<and> (\<exists>resp. r = Inr resp \<and> rr_complete resp \<and> 200 \<le> rr_status resp))"
proof (cases "log = [] \<and> pool' = pool")
  case False
  obtain idle pool1 where t: "take_conn now p pool = (idle, pool1)" by (cases "take_conn now p pool")
  have x: "exchange net p idle = (r, log)" and pool': "pool' = put_parked later p pool1 log"
    using assms(1,3) False t by (auto simp: SendRawRequestWithContextPolicy_def split: sum.splits prod.splits)
  have "pl_proxy p = proxyAddr" using assms(1) by (auto simp: plan_send_def Let_def split: option.splits if_splits)
  then have parks: "events parked_by log \<noteq> [] \<longrightarrow> proxyAddr = '''' \<and> (\<exists>resp. r = Inr resp \<and> rr_complete resp \<and> 200 \<le> rr_status resp)"
    using parks_exchange [of p net idle] by (auto simp: parks_def x keeps_alive_def)
  let ?got = "mset (case idle of None \<Rightarrow> [] | Some c \<Rightarrow> [c])"
  have got: "cp_idle pool1 \<noteq> None \<and> mset (map pc_conn (idle_of pool (pl_key p))) + mset (cp_closed pool) =
      ?got + (mset (map pc_conn (idle_of pool1 (pl_key p))) + mset (cp_closed pool1))"
  proof (cases "pl_proxy p = ''''")
    case True
    then have g: "pool_get now (pl_key p) pool = (idle, pool1)" using t by (simp add: take_conn_def)
    have "cp_idle (pool_put_idle pool key cs) \<noteq> None" for key cs
      using assms(2) by (rule gm_putE [of "cp_idle pool" key cs]) (simp add: pool_put_idle_def)
    then have "cp_idle pool1 \<noteq> None" using g assms(2) by (auto simp: pool_get_def Let_def split: if_splits prod.splits)
    with pool_get_conserves [OF assms(2) g] show ?thesis by (simp add: add.assoc)
  next
    case False
    with t assms(2) show ?thesis by (auto simp: take_conn_def)
  qed
  have spent: "?got + mset (events opened_by log) = mset (events closed_by log) + mset (events parked_by log)"
    using accounted_exchange [of idle net p] by (cases r) (simp_all add: conn_account_def held_def x)
  have put: "mset (map pc_conn (idle_of pool' (pl_key p))) + mset (cp_closed pool') =
      mset (map pc_conn (idle_of pool1 (pl_key p))) + mset (cp_closed pool1) + mset (events parked_by log)"
    unfolding pool' by (rule conjunct2 [OF put_parked_keeps [OF conjunct1 [OF got]]])
  from pool_sum [OF conjunct2 [OF got] spent put] parks show ?thesis by simp
qed simp

text \<open>C13: With private targets forbidden, an exchange that dials has resolved its address to a public one, and without a proxy it dials
  exactly that address, at the second attempt too.\<close>

theorem send_dials_public:
  assumes "SendRawRequestWithContextPolicy net now later targetURL rawRequest proxyAddr insecure False pool = ((r, log), pool')" "Dialled a c \<in> set log"
  shows "\<exists>u d. url_parse targetURL = Some u \<and> resolveDialAddress (sn_lookup net) (send_address u) False = Inr d \<and> public_address d \<and>
    (proxyAddr = '''' \<longrightarrow> a = d)"
proof -
  obtain p where p: "plan_send targetURL rawRequest proxyAddr insecure False = Inr p"
    using assms by (cases "plan_send targetURL rawRequest proxyAddr insecure False") (auto simp: SendRawRequestWithContextPolicy_def)
  then obtain u where u: "url_parse targetURL = Some u" "pl_address p = send_address u" "pl_proxy p = proxyAddr" "\<not> pl_private p"
    by (auto simp: plan_send_def Let_def split: option.splits if_splits)
  obtain idle pool1 where t: "take_conn now p pool = (idle, pool1)" by (cases "take_conn now p pool")
  have e: "exchange net p idle = (r, log)" and ok: "proxyAddr = '''' \<or> (\<exists>d. resolveDialAddress (sn_lookup net) (pl_address p) False = Inr d)"
    using assms p t by (auto simp: SendRawRequestWithContextPolicy_def split: sum.splits prod.splits if_splits)
  have "dialled_by net p a"
    using dials_exchange [of net p idle] assms(2) by (auto simp: log_all_def list_all_iff dials_to_def e)
  with ok u resolved_public show ?thesis by (auto simp: dialled_by_def)
qed


text \<open>An idle connection that the server has closed, and a new one that does not answer.\<close>

definition dead_net :: send_net where
  "dead_net = \<lparr>sn_lookup = (\<lambda>h. Inr [to16 [8, 8, 4, 4]]), sn_tcp = (\<lambda>k a. Inr 9), sn_socks = (\<lambda>k u q a. if a = ''h:80'' then Inr 9 else Inl ''refused''),
     sn_tls = (\<lambda>c. None), sn_deadline = (\<lambda>c. None), sn_write = (\<lambda>c s. None), sn_connect_reads = (\<lambda>c. []),
     sn_reads = (\<lambda>c. if c = 7 then [([], EOF)] else []), sn_done = (\<lambda>at. False), sn_decode = (\<lambda>c b. Inl ''no decoder'')\<rparr>"

definition small_get :: string where "small_get = ''GET / HTTP/1.1'' @ crlf @ crlf"

definition small_idle :: conn_pool where "small_idle = pool_put 0 ''http://h:80'' ''http'' 7 (NewConnPool 16)"

definition small_plan :: send_plan where
  "small_plan = \<lparr>pl_scheme = ''http'', pl_address = ''h:80'', pl_key = ''http://h:80'', pl_raw = small_get, pl_no_body = False, pl_safe = True,
     pl_proxy = '''', pl_http_proxy = False, pl_private = False\<rparr>"

lemma dead_net_simps [simp]:
  "sn_tcp dead_net k a = Inr 9" "sn_socks dead_net k u q ''h:80'' = Inr 9" "sn_tls dead_net c = None" "sn_deadline dead_net c = None"
  "sn_write dead_net c t = None" "sn_reads dead_net 7 = [([], EOF)]" "sn_reads dead_net 9 = []" "\<not> sn_done dead_net at"
  by (simp_all add: dead_net_def)

lemma small_plan_simps [simp]:
  "pl_scheme small_plan = ''http''" "pl_address small_plan = ''h:80''" "pl_key small_plan = ''http://h:80''" "pl_raw small_plan = small_get"
  "pl_safe small_plan" "pl_proxy small_plan = ''''" "\<not> pl_http_proxy small_plan" "\<not> pl_private small_plan"
  by (simp_all add: small_plan_def)

lemma small_plan_direct: "plan_send ''http://h/'' small_get '''' False False = Inr small_plan"
  by code_simp

lemma small_plan_proxy: "plan_send ''http://h/'' small_get ''127.0.0.1:1080'' False False = Inr (small_plan\<lparr>pl_proxy := ''127.0.0.1:1080''\<rparr>)"
  by code_simp

lemma small_pool:
  "fst (take_conn 5 small_plan small_idle) = Some 7" "cp_idle small_idle \<noteq> None"
  "map pc_conn (idle_of small_idle ''http://h:80'') = [7]" "cp_closed small_idle = []"
proof -
  let ?c = "\<lparr>pc_conn = 7, pc_scheme = ''http'', pc_expires = IdleConnTimeout\<rparr>"
  have p: "small_idle = \<lparr>cp_idle = Some [(''http://h:80'', [?c])], cp_max = 16, cp_closed = []\<rparr>"
    by (simp add: small_idle_def NewConnPool_def pool_put_def pool_put_idle_def idle_of_def gm_make_def gm_get_def gm_put_def)
  show "fst (take_conn 5 small_plan small_idle) = Some 7" "cp_idle small_idle \<noteq> None"
    "map pc_conn (idle_of small_idle ''http://h:80'') = [7]" "cp_closed small_idle = []"
    by (simp_all add: p take_conn_def pool_get_def idle_of_def gm_get_def IdleConnTimeout_def second_def)
qed

lemma small_resolved: "resolveDialAddress (sn_lookup dead_net) ''h:80'' False = Inr ''8.8.4.4:80''"
proof -
  have s: "SplitHostPort ''h:80'' = Some (''h'', ''80'')" "ParseIP ''h'' = None" by code_simp+
  have d: "nat_dec 8 = ''8''" "nat_dec 4 = ''4''" by code_simp+
  have t: "To4 (to16 [8, 8, 4, 4]) = Some [8, 8, 4, 4]" by (simp add: To4_def to16_def v4_prefix_def)
  have i: "JoinHostPort (ip_string (to16 [8, 8, 4, 4])) ''80'' = ''8.8.4.4:80''" by (simp add: ip_string_def t d JoinHostPort_def)
  have p: "\<not> IsPrivateIP (Some (to16 [8, 8, 4, 4]))" using IsPrivateIP_four by (simp add: to16_def private_v4_def)
  show ?thesis using s i p by (simp add: resolveDialAddress_def dead_net_def)
qed

lemma small_socks: "parseSocks5Proxy ''127.0.0.1:1080'' = (None, ''127.0.0.1:1080'')"
  by code_simp

lemmas small_facts = small_plan_direct small_plan_proxy small_pool small_resolved small_socks

lemma no_answer: "sn_reads net c = [] \<or> sn_reads net c = [([], EOF)] \<Longrightarrow> read_response net p c = Inl ''empty response''"
proof -
  have f: "find_end 0 [] = None" by code_simp
  show "sn_reads net c = [] \<or> sn_reads net c = [([], EOF)] \<Longrightarrow> ?thesis"
    by (auto simp: read_response_def parseRawResponse_def read_step_def start_reader_def finish_response_def f Let_def)
qed

lemma small_log:
  "snd (exchange dead_net small_plan (Some 7)) =
     [TookIdle 7, WroteRequest 7 small_get, ClosedConn 7, Dialled ''8.8.4.4:80'' 9, WroteRequest 9 small_get, ClosedConn 9]"
proof -
  have "read_response dead_net small_plan 7 = Inl ''empty response''" "read_response dead_net small_plan 9 = Inl ''empty response''"
    by (rule no_answer, simp)+
  then show ?thesis
    by (simp add: exchange_def first_write_def read_answer_def redial_def plan_dial_def dialNew_def dialHTTP_def dialContextResolved_def
        then_log_def opened_def small_facts(7))
qed

lemma small_send:
  "\<exists>r pool'. SendRawRequestWithContextPolicy dead_net 5 6 ''http://h/'' small_get '''' False False small_idle =
     ((r, [TookIdle 7, WroteRequest 7 small_get, ClosedConn 7, Dialled ''8.8.4.4:80'' 9, WroteRequest 9 small_get, ClosedConn 9]), pool')"
proof -
  obtain pool1 where t: "take_conn 5 small_plan small_idle = (Some 7, pool1)"
    using small_facts(3) by (cases "take_conn 5 small_plan small_idle") simp
  obtain r where "exchange dead_net small_plan (Some 7) =
      (r, [TookIdle 7, WroteRequest 7 small_get, ClosedConn 7, Dialled ''8.8.4.4:80'' 9, WroteRequest 9 small_get, ClosedConn 9])"
    using small_log by (cases "exchange dead_net small_plan (Some 7)") simp
  then show ?thesis by (simp add: SendRawRequestWithContextPolicy_def small_facts(1) t)
qed

lemma connections_kept_witness:
  "\<exists>r log pool'. SendRawRequestWithContextPolicy dead_net 5 6 ''http://h/'' small_get '''' False False small_idle = ((r, log), pool') \<and>
   idle_of pool' ''http://h:80'' = [] \<and> cp_closed pool' = [] \<and> events closed_by log = [7, 9]"
proof -
  obtain r pool' where s: "SendRawRequestWithContextPolicy dead_net 5 6 ''http://h/'' small_get '''' False False small_idle =
     ((r, [TookIdle 7, WroteRequest 7 small_get, ClosedConn 7, Dialled ''8.8.4.4:80'' 9, WroteRequest 9 small_get, ClosedConn 9]), pool')"
    using small_send by blast
  from connections_kept [OF small_facts(1,4) s] show ?thesis unfolding s by (auto simp: small_facts(5,6))
qed

lemma send_dials_public_witness: "public_address ''8.8.4.4:80''"
proof -
  obtain r pool' where s: "SendRawRequestWithContextPolicy dead_net 5 6 ''http://h/'' small_get '''' False False small_idle =
     ((r, [TookIdle 7, WroteRequest 7 small_get, ClosedConn 7, Dialled ''8.8.4.4:80'' 9, WroteRequest 9 small_get, ClosedConn 9]), pool')"
    using small_send by blast
  from send_dials_public [OF s, of "''8.8.4.4:80''" 9] show ?thesis by auto
qed

text \<open>\<open>Get\<close> does not look at a connection: an answer that lies on it before the request is written counts as the answer to the request.\<close>

lemma stale_answer_taken:
  assumes "sn_deadline net c = None" "sn_write net c (pl_raw p) = None" "\<not> sn_done net BeforeWrite" "\<not> sn_done net AtEnd" "read_response net p c = Inr resp"
  shows "fst (exchange net p (Some c)) = Inr resp"
  using assms by (simp add: exchange_def then_log_def first_write_def read_answer_def keep_or_close_def)

text \<open>Through a proxy the name is resolved by the client for the check and once more by the proxy: here the check sees a public address, and
  the proxy is asked for the name.\<close>

lemma proxy_resolves_again:
  "\<exists>r pool'. SendRawRequestWithContextPolicy dead_net 5 6 ''http://h/'' small_get ''127.0.0.1:1080'' False False small_idle =
     ((r, [Dialled ''127.0.0.1:1080'' 9, WroteRequest 9 small_get, ClosedConn 9]), pool')"
proof -
  let ?p = "small_plan\<lparr>pl_proxy := ''127.0.0.1:1080''\<rparr>"
  have "read_response dead_net ?p 9 = Inl ''empty response''" by (rule no_answer, simp)
  then have "snd (exchange dead_net ?p None) = [Dialled ''127.0.0.1:1080'' 9, WroteRequest 9 small_get, ClosedConn 9]"
    by (simp add: exchange_def first_write_def read_answer_def plan_dial_def dialNew_def dialHTTP_def dial_socks_def small_facts(8)
        then_log_def opened_def)
  then show ?thesis
    by (cases "exchange dead_net ?p None") (simp add: SendRawRequestWithContextPolicy_def small_facts(2,7) take_conn_def)
qed

end
