(* ===== verification/Spec2Isabelle.thy ===== *)
theory Spec2Isabelle
  imports QueueSteps Simhash GraphProps Scope Proxy HttpClient Submission Request Filters Recursion Lifecycle
    Campaign Sanitizer Knowledge Findings ConcurrentMap WorkerPool WorkerRequest AuthMatrix ParamQueue SwarmRun
    Calibration TimingOracle Evasion Bypass403 Eagle PassiveHarvest SourceMap Solver WorkerJobProps Resume SwarmWorker
    ClientSend
begin

text \<open>
  A model of DirFuzz, a web content discovery tool in Go, with the properties that make its core correct.

  The program. \<open>cmd/dirfuzz\<close> reads a configuration and drives the engine of \<open>pkg/engine\<close>. A scanner expands a
  wordlist into jobs and submits them; a job passes a filter of duplicates and the job queue, and a pool of
  workers takes it, builds a raw request, sends it with the client of \<open>pkg/httpclient\<close> (through a proxy of the
  pool, if any), measures the answer, filters it, and reports it. An answer feeds the discovery graph, which proposes
  further jobs, may start a recursive scan, and counts against soft-404 clusters. \<open>pkg/scope\<close> decides which
  targets belong to a bounty programme and \<open>pkg/netutil\<close> which addresses are private. \<open>pkg/campaign\<close>,
  \<open>pkg/knowledge\<close>, \<open>pkg/playbook\<close>, \<open>pkg/validation\<close> and \<open>pkg/report\<close> keep what is learnt over several scans.

  The theories, in the order of their imports, and the code they model:

  \<^item> \<^bold>\<open>Prelude\<close>, \<^bold>\<open>GoText\<close>, \<^bold>\<open>GoNet\<close>, \<^bold>\<open>GoQuery\<close>, \<^bold>\<open>SortedMap\<close>: what the program uses of Go itself: strings as
    lists of bytes, \<open>strconv\<close>, \<open>net/url\<close> and its queries, addresses and networks, and maps. A Go map is \<open>None\<close> (the nil map, on which a
    write panics, so that \<open>gm_put\<close> fails) or an association list in some order; walks over a map are walks over
    that list, so that what is proved for every list holds for every order of iteration.
  \<^item> \<^bold>\<open>JobQueue\<close>, \<^bold>\<open>QueueSteps\<close>: \<open>queue.go\<close>. The binary heap, both queues and their operations; then the blocking
    loops of \<open>Push\<close> and \<open>Pop\<close> as an inductive step relation over any number of goroutines. The locale
    \<open>heap_order\<close> holds the heap lemmas over any strict weak order and is interpreted on \<open>Less\<close>; the locale
    \<open>job_queue\<close> holds the conservation lemmas and is interpreted on both queues.
  \<^item> \<^bold>\<open>Simhash\<close>: \<open>simhash.go\<close>, on 64-bit words.
  \<^item> \<^bold>\<open>DiscoveryGraph\<close>, \<^bold>\<open>GraphCheck\<close>, \<^bold>\<open>GraphBuild\<close>, \<^bold>\<open>GraphProps\<close>: \<open>discovery_graph.go\<close> and
    \<open>discovery_graph_export.go\<close>. The operations pass a world with the graph, a source of identifiers and a clock;
    an operation that would panic has no result. GraphCheck relates the depth-first search to acyclicity, GraphBuild
    proves an invariant of every world the operations build, GraphProps what single operations promise.
  \<^item> \<^bold>\<open>Scope\<close>: \<open>pkg/scope/validator.go\<close>, the compilation of the assets and the look-up.
  \<^item> \<^bold>\<open>Proxy\<close>: the proxy pool of \<open>engine.go\<close>, with the 64-bit arithmetic of its back-off.
  \<^item> \<^bold>\<open>HttpFraming\<close>, \<^bold>\<open>HttpClient\<close>, \<^bold>\<open>ClientSend\<close>: \<open>pkg/httpclient/client.go\<close> and \<open>pool.go\<close>, \<open>pkg/netutil\<close>: chunked bodies, the
    end of the head, the framing decision, reading a body, private addresses, the idle connections; then the whole exchange with its
    dialling and its second attempt, over a network that is a parameter, with a log of what it did with each connection.
  \<^item> \<^bold>\<open>Submission\<close>: the sharded duplicate filter, the expansion and the estimate of a wordlist (\<open>engine.go\<close>,
    \<open>recursive_tracker.go\<close>) and the submission of jobs (\<open>worker.go\<close>).
  \<^item> \<^bold>\<open>Request\<close>, \<^bold>\<open>WorkerRequest\<close>: \<open>buildRequest\<close>, redirects and retries (\<open>engine.go\<close>, \<open>engine_request.go\<close>); the
    headers of the configuration (\<open>engine_config.go\<close>) and the request a worker plans from a job (\<open>worker.go\<close>).
  \<^item> \<^bold>\<open>Filters\<close>, \<^bold>\<open>Recursion\<close>: the metrics and filters of a response; mirrors and pruning of recursive scans.
  \<^item> \<^bold>\<open>Lifecycle\<close>, \<^bold>\<open>WorkerPool\<close>, \<^bold>\<open>ConcurrentMap\<close>: the concurrent parts as step relations with any number of
    goroutines: the generations of a scan with restart and shutdown, the pool of workers while it is resized (and the
    rate limiters), and \<open>concurrent_map.go\<close> with its sequential specification.
  \<^item> \<^bold>\<open>Campaign\<close>, \<^bold>\<open>Sanitizer\<close>, \<^bold>\<open>Knowledge\<close>, \<^bold>\<open>Findings\<close>: the comparison and projection of campaigns, the redaction
    of events, the knowledge of the analyst, and findings with their playbooks, validations and reports. The locale
    \<open>redactor\<close> holds what replacing the matches of a pattern leaves, and is interpreted on both token patterns.
  \<^item> \<^bold>\<open>AuthMatrix\<close>: \<open>authmatrix.go\<close>, the replay of requests under several roles and the verdict over the answers.
  \<^item> \<^bold>\<open>ParamFuzz\<close>, \<^bold>\<open>ParamQueue\<close>: \<open>paramfuzz.go\<close>, the bisection that finds the parameters a page reacts to, the probes it
    sends, and the queue of targets with its shutdown.
  \<^item> \<^bold>\<open>Config\<close>: \<open>engine_config.go\<close>, \<open>path_denylist.go\<close> and \<open>NewEngine\<close>: the configuration with its setters, the snapshot
    that the workers read, and the builds of this snapshot by several goroutines as a step relation.
  \<^item> \<^bold>\<open>Resume\<close>: \<open>StartWordlistScanner\<close> and \<open>engine_resume.go\<close>: what a scan submits and saves line by line, and the
    files it writes and loads. The file system and the JSON codec are parameters.
  \<^item> \<^bold>\<open>Swarm\<close>, \<^bold>\<open>SwarmRun\<close>, \<^bold>\<open>SwarmWorker\<close>: \<open>distribute.go\<close> and \<open>cmd/dirfuzz/swarm.go\<close>, the chunks of a wordlist, the aggregation of
    the results, the goroutines that distribute the chunks as a step relation, whose provider is a parameter, and the worker with
    the configuration that reaches its engine.
  \<^item> \<^bold>\<open>Calibration\<close>, \<^bold>\<open>TimingOracle\<close>: \<open>engine_calibrate.go\<close> and \<open>timing_oracle.go\<close>, the detection of wildcard
    answers, the seeding of the soft-404 clusters, and the statistics over the times of a baseline.
  \<^item> \<^bold>\<open>StableSort\<close>, \<^bold>\<open>Evasion\<close>, \<^bold>\<open>Bypass403\<close>: \<open>waf_evasion.go\<close> and \<open>bypass403.go\<close>, the techniques against a
    firewall and a blocked path, the scoreboard and its ranking, and the loop over the techniques. The locale
    \<open>stable_order\<close> extends \<open>heap_order\<close> with Go's stable sort and is interpreted on the orders of both lists.
  \<^item> \<^bold>\<open>Eagle\<close>: \<open>engine_eagle.go\<close>, the comparison of a result with the report of a previous scan.
  \<^item> \<^bold>\<open>Exchange\<close>, \<^bold>\<open>Solver\<close>: \<open>antibot.go\<close> and its callers in \<open>engine_request.go\<close>: cookies and their injection into a raw
    request, one exchange with the second request after a solved challenge, and the solver of a host with the goroutines
    that wait for it as a step relation.
  \<^item> \<^bold>\<open>HarvestText\<close>, \<^bold>\<open>Harvest\<close>, \<^bold>\<open>HarvestProps\<close>, \<^bold>\<open>PassiveHarvest\<close>, \<^bold>\<open>SourceMap\<close>: \<open>harvest.go\<close>, \<open>passive_harvest.go\<close>
    and \<open>sourcemap.go\<close>: the canonical form of a harvested path, the walk over the surfaces of the target with its
    queue of responses, the archives, and the routes of source maps. The locale \<open>harvest_closure\<close> holds what every fold over
    candidates keeps, \<open>harvest_invariant\<close> extends it to the whole walk; they are interpreted for the queue, the discovered paths
    and the requests.
  \<^item> \<^bold>\<open>WorkerJob\<close>, \<^bold>\<open>WorkerJobProps\<close>: the loop of \<open>worker.go\<close> for one job, as a chain of stages over the state of the
    engine that calls the models above (plan, sending, redirects, counters, bypass, evasion, filters, result, mirrors,
    links, harvested paths, mutations, recursion), with the list of what it sends out; then its accounts on every path.
  How the code is represented. A struct is a record, an enumeration a datatype, an \<open>(T, error)\<close> result a sum with
  the error text on the left, a possible panic an option. Machine words are used where the code relies on their
  width (hashes, the filter, the proxy index and back-off); the other integers are mathematical ones, and
  \<open>float64\<close> values are real numbers. Text functions are those of Go on the ASCII range, and a byte from 128 on is
  kept as it is. Time is a number of nanoseconds. A loop whose length is not that of a list is a recursion with a
  proved measure; only the cycle search has fuel, the number of nodes plus two, and \<open>DetectCycles_iff_acyclic\<close>
  shows that it is enough. Code outside the repository is a parameter: the Bloom filter, SHA-256, JSON, regular
  expressions of the user, \<open>net/http\<close> and name resolution. Where a theorem needs something of a parameter, it is a
  hypothesis of documented behaviour (\<open>bloom_laws\<close> of Submission), and a witness satisfies it.

  The groups of lemmas. Invariants: the heap and the queue, the graph, the idle pool, the pool of workers, the
  counters of the life cycle, the soft-404 clusters, the snapshot of the configuration. Equivalences with a simpler definition: the compiled scope, the
  windowed search for the end of a head, the metrics on ASCII, the private ranges, the cycle search, the bisection of
  parameters and the one-pass standard deviation. Refinements of an abstract specification: taking from the queue in
  priority order, the concurrent map. Round trips: chunked bodies, the saved filter and the resume file, the query of a probe. Safety: no
  forged lines in a request, no credentials on a redirect to another origin, no private address dialled, no token left
  by the redaction, no job submitted twice, no panic of the graph, no result of a swarm that is not one of its chunks, no reported result
  that a filter rejects, no harvesting request to another origin. Accounts: a worker releases each job once and counts what it
  sends, a harvest, an archive and a source map submit each path once, and a scan that is cancelled and resumed submits each job once.
  An exchange of the client loses no connection, and writes a request that is not safe to repeat once.
  Progress: no lost wake-up of the queue or of the solver, and a swarm ends after finitely many steps. Some theorems state what the code
  does against its intention; the findings of the manifest name them.

  Not modelled. The terminal interface, the command line, the MCP server and the monitor are adapters around the
  engine over libraries that are not in the repository; the HTTP/2 client and the headless browser of \<open>antibot.go\<close> are parameters.
  Fingerprinting is a table of regular expressions (those of harvesting are parameters), and the templates of \<open>nuclei.go\<close> and the
  service of \<open>oob.go\<close> are external programs. The replay of a hit through a proxy is not modelled. The event bus of \<open>events.go\<close> is used nowhere, and \<open>replay.go\<close> applies no event.
\<close>

end
